(* ===== verification/Prelude.thy ===== *)
theory Prelude
  imports Main "HOL-Library.Word" "HOL-Library.Multiset" "HOL-Library.Sublist"
begin

unbundle bit_operations_syntax

text \<open>
  Shared vocabulary of the development: names for the machine integers and byte strings of
  the Rust sources, the result type of fallible functions, the string routines of the Rust
  standard library that several components call, and the generic list and map lemmas their
  proofs share.

  Text is a list of characters; every routine below is exact on ASCII text. A fallible
  function returns a sum, \<open>Inl\<close> for the error and \<open>Inr\<close> for the value.
\<close>

section \<open>Machine integers and bytes\<close>

type_synonym u8 = "8 word"
type_synonym u32 = "32 word"
type_synonym u64 = "64 word"
type_synonym i32 = "32 word"
type_synonym bytes = "u8 list"

abbreviation u64_max :: nat where
  "u64_max \<equiv> 2 ^ 64 - 1"

section \<open>Results\<close>

named_theorems result_simps \<open>evaluation of the result combinators\<close>
named_theorems str_simps \<open>evaluation of the string routines\<close>

definition rbind :: "'e + 'a \<Rightarrow> ('a \<Rightarrow> 'e + 'b) \<Rightarrow> 'e + 'b" where
  "rbind m f = (case m of Inl e \<Rightarrow> Inl e | Inr x \<Rightarrow> f x)"

lemma rbind_simps [simp, result_simps]:
  "rbind (Inl e) f = Inl e"
  "rbind (Inr x) f = f x"
  by (simp_all add: rbind_def)

lemma rbind_Inr_iff: "rbind m f = Inr y \<longleftrightarrow> (\<exists>x. m = Inr x \<and> f x = Inr y)"
  by (cases m) auto

lemma rbind_Inl_iff: "rbind m f = Inl e \<longleftrightarrow> m = Inl e \<or> (\<exists>x. m = Inr x \<and> f x = Inl e)"
  by (cases m) auto

lemma rbind_assoc: "rbind (rbind m f) g = rbind m (\<lambda>x. rbind (f x) g)"
  by (cases m) auto

definition ok_or :: "'e \<Rightarrow> 'a option \<Rightarrow> 'e + 'a" where
  "ok_or e x = (case x of None \<Rightarrow> Inl e | Some y \<Rightarrow> Inr y)"

lemma ok_or_simps [simp, result_simps]:
  "ok_or e None = Inl e"
  "ok_or e (Some y) = Inr y"
  by (simp_all add: ok_or_def)

text \<open>A loop that applies a fallible step to every element and stops at the first error.\<close>

fun rfold :: "('a \<Rightarrow> 's \<Rightarrow> 'e + 's) \<Rightarrow> 'a list \<Rightarrow> 's \<Rightarrow> 'e + 's" where
  "rfold f [] s = Inr s"
| "rfold f (x # xs) s = rbind (f x s) (rfold f xs)"

lemma rfold_append: "rfold f (xs @ ys) s = rbind (rfold f xs s) (rfold f ys)"
proof (induction xs arbitrary: s)
  case (Cons x xs)
  then show ?case by (cases "f x s") auto
qed simp

lemma rfold_invariant:
  assumes "rfold f xs s = Inr t" "P s"
    and "\<And>x s t. x \<in> set xs \<Longrightarrow> P s \<Longrightarrow> f x s = Inr t \<Longrightarrow> P t"
  shows "P t"
  using assms
proof (induction xs arbitrary: s)
  case Nil
  then show ?case by simp
next
  case (Cons x xs)
  then obtain u where u: "f x s = Inr u" "rfold f xs u = Inr t"
    by (auto simp: rbind_Inr_iff)
  have "P u" using Cons.prems(3) [of x s u] Cons.prems(2) u(1) by simp
  then show ?case using Cons.prems(3) by (intro Cons.IH [OF u(2)]) auto
qed

fun rmap :: "('a \<Rightarrow> 'e + 'b) \<Rightarrow> 'a list \<Rightarrow> 'e + 'b list" where
  "rmap f [] = Inr []"
| "rmap f (x # xs) = rbind (f x) (\<lambda>y. rbind (rmap f xs) (\<lambda>ys. Inr (y # ys)))"

lemma rmap_Inr_length: "rmap f xs = Inr ys \<Longrightarrow> length ys = length xs"
  by (induction xs arbitrary: ys) (auto simp: rbind_Inr_iff)

lemma rmap_Inr_nth: "rmap f xs = Inr ys \<Longrightarrow> i < length xs \<Longrightarrow> f (xs ! i) = Inr (ys ! i)"
  by (induction xs arbitrary: ys i) (auto simp: rbind_Inr_iff less_Suc_eq_0_disj)

text \<open>
  The errors of \<open>wfgen\<close> (\<open>WfgenReason\<close> of \<open>error.rs\<close>, the reasons its own code raises)
  with their message. A Rust panic (an index out of range, a division by zero, an
  \<open>unwrap\<close> of nothing) is the value \<open>Panic\<close>.
\<close>

datatype wfgen_reason = RParse | RValidation | RGeneration | ROracle | RIo | RSerialization | RNetwork

datatype wfgen_error = WfgenError wfgen_reason string | Panic string

section \<open>Strings of the Rust standard library\<close>

text \<open>
  Text is a list of bytes. Rust trims and splits at every white space of Unicode; here it is the ASCII
  part of it, so what is proved of \<open>trim\<close> and its users is about text whose other white space (such as a
  no-break or an ideographic space) is not at the ends of what is trimmed or between what is split.
\<close>

definition is_ascii_ws :: "char \<Rightarrow> bool" where
  "is_ascii_ws c = (c = CHR '' '' \<or> (9 \<le> (of_char c :: nat) \<and> (of_char c :: nat) \<le> 13))"

definition trim_start :: "string \<Rightarrow> string" where
  "trim_start s = dropWhile is_ascii_ws s"

definition trim_end :: "string \<Rightarrow> string" where
  "trim_end s = rev (dropWhile is_ascii_ws (rev s))"

definition trim :: "string \<Rightarrow> string" where
  "trim s = trim_end (trim_start s)"

text \<open>\<open>to_ascii_lowercase\<close>.\<close>

definition ascii_lower :: "string \<Rightarrow> string" where
  "ascii_lower s = map (\<lambda>c. if 65 \<le> (of_char c :: nat) \<and> (of_char c :: nat) \<le> 90 then char_of (of_char c + 32 :: nat) else c) s"

fun strip_prefix :: "string \<Rightarrow> string \<Rightarrow> string option" where
  "strip_prefix [] s = Some s"
| "strip_prefix (p # ps) [] = None"
| "strip_prefix (p # ps) (c # s) = (if p = c then strip_prefix ps s else None)"

lemma strip_prefix_append [simp, str_simps]: "strip_prefix p (p @ s) = Some s"
  by (induction p) auto

lemma strip_prefix_Some_iff: "strip_prefix p s = Some r \<longleftrightarrow> s = p @ r"
  by (induction p s rule: strip_prefix.induct) auto

text \<open>\<open>str::split\<close> on one character: a string without the separator is one piece.\<close>

fun split_on :: "char \<Rightarrow> string \<Rightarrow> string list" where
  "split_on c [] = [[]]"
| "split_on c (x # xs) =
     (if x = c then [] # split_on c xs
      else (case split_on c xs of [] \<Rightarrow> [[x]] | w # ws \<Rightarrow> (x # w) # ws))"

lemma split_on_not_Nil [simp]: "split_on c s \<noteq> []"
  by (induction s) (auto split: list.splits)

fun join :: "string \<Rightarrow> string list \<Rightarrow> string" where
  "join sep [] = []"
| "join sep [s] = s"
| "join sep (s # t # r) = s @ sep @ join sep (t # r)"

text \<open>Decimal digits of a natural number, as \<open>to_string\<close> prints it.\<close>

definition digit_char :: "nat \<Rightarrow> char" where
  "digit_char d = char_of (48 + d)"

fun dec_digits :: "nat \<Rightarrow> string" where
  "dec_digits n = (if n < 10 then [digit_char n] else dec_digits (n div 10) @ [digit_char (n mod 10)])"

declare dec_digits.simps [simp del]

text \<open>\<open>quoted\<close> is a value between the single quotes of a message, \<open>dquoted\<close> its debug form (no character of it needs an escape).\<close>

definition quoted :: "string \<Rightarrow> string" where
  "quoted s = [CHR 0x27] @ s @ [CHR 0x27]"

definition dquoted :: "string \<Rightarrow> string" where
  "dquoted s = [CHR 0x22] @ s @ [CHR 0x22]"

section \<open>Lists and maps\<close>

definition find_first :: "('a \<Rightarrow> bool) \<Rightarrow> 'a list \<Rightarrow> 'a option" where
  "find_first p xs = List.find p xs"

lemma find_first_Some: "find_first p xs = Some x \<Longrightarrow> x \<in> set xs \<and> p x"
  by (auto simp: find_first_def find_Some_iff)

lemma find_first_None: "find_first p xs = None \<longleftrightarrow> (\<forall>x \<in> set xs. \<not> p x)"
  by (auto simp: find_first_def find_None_iff)

lemma sum_list_le_mult: "(\<forall>x \<in> set xs. f x \<le> (k::nat)) \<Longrightarrow> (\<Sum>x\<leftarrow>xs. f x) \<le> k * length xs"
  by (induction xs) auto

text \<open>\<open>entry(k).or_default().push(v)\<close> on a map of lists.\<close>

definition push_at :: "'k \<Rightarrow> 'v \<Rightarrow> ('k \<rightharpoonup> 'v list) \<Rightarrow> ('k \<rightharpoonup> 'v list)" where
  "push_at k v m = m(k \<mapsto> (case m k of None \<Rightarrow> [] | Some vs \<Rightarrow> vs) @ [v])"

lemma dom_push_at [simp]: "dom (push_at k v m) = insert k (dom m)"
  by (simp add: push_at_def)

text \<open>\<open>*entry(k).or_insert(0) += n\<close> on a map of counters.\<close>

definition add_at :: "'k \<Rightarrow> nat \<Rightarrow> ('k \<rightharpoonup> nat) \<Rightarrow> ('k \<rightharpoonup> nat)" where
  "add_at k n m = m(k \<mapsto> (case m k of None \<Rightarrow> 0 | Some c \<Rightarrow> c) + n)"

definition count_at :: "('k \<rightharpoonup> nat) \<Rightarrow> 'k \<Rightarrow> nat" where
  "count_at m k = (case m k of None \<Rightarrow> 0 | Some c \<Rightarrow> c)"

lemma count_at_add_at [simp]:
  "count_at (add_at k n m) j = count_at m j + (if j = k then n else 0)"
  by (simp add: count_at_def add_at_def)

lemma dom_add_at [simp]: "dom (add_at k n m) = insert k (dom m)"
  by (simp add: add_at_def)


text \<open>A list grouped by key into a map of lists, each group in list order.\<close>

definition group_by :: "('a \<Rightarrow> 'k) \<Rightarrow> 'a list \<Rightarrow> ('k \<rightharpoonup> 'a list)" where
  "group_by key xs = foldl (\<lambda>m a. push_at (key a) a m) Map.empty xs"

lemma group_by_snoc [simp]: "group_by key (xs @ [x]) = push_at (key x) x (group_by key xs)"
  by (simp add: group_by_def)

lemma group_by_eq:
  "group_by key xs k = (if k \<in> key ` set xs then Some (filter (\<lambda>a. key a = k) xs) else None)"
proof (induction xs rule: rev_induct)
  case Nil
  then show ?case by (simp add: group_by_def)
next
  case (snoc x xs)
  have "k = key x \<Longrightarrow> key x \<notin> key ` set xs \<Longrightarrow> filter (\<lambda>a. key a = key x) xs = []"
    by (simp add: filter_empty_conv) (metis image_eqI)
  then show ?case using snoc by (auto simp: push_at_def)
qed

lemma dom_group_by: "dom (group_by key xs) = key ` set xs"
  by (auto simp: group_by_eq dom_def)

text \<open>The groups together are the list.\<close>

lemma sum_list_single:
  "distinct ks \<Longrightarrow> (\<Sum>k\<leftarrow>ks. if j = k then c else (0::'b::comm_monoid_add)) = (if j \<in> set ks then c else 0)"
  by (induction ks) auto

lemma mset_filter_classes:
  assumes "distinct ks" "key ` set xs \<subseteq> set ks"
  shows "(\<Sum>k\<leftarrow>ks. mset (filter (\<lambda>a. key a = k) xs)) = mset xs"
  using assms(2)
proof (induction xs)
  case Nil
  then show ?case by (induction ks) simp_all
next
  case (Cons x xs)
  have "(\<Sum>k\<leftarrow>ks. mset (filter (\<lambda>a. key a = k) (x # xs))) =
        (\<Sum>k\<leftarrow>ks. (if key x = k then {#x#} else {#}) + mset (filter (\<lambda>a. key a = k) xs))"
    by (rule arg_cong [of _ _ sum_list]) simp
  also have "\<dots> = (\<Sum>k\<leftarrow>ks. if key x = k then {#x#} else {#}) + mset xs"
    using Cons by (simp add: sum_list_addf)
  also have "(\<Sum>k\<leftarrow>ks. if key x = k then {#x#} else {#}) = {#x#}"
    using Cons.prems sum_list_single [OF assms(1), of "key x" "{#x#}"] by simp
  finally show ?case by simp
qed

text \<open>An order in which a hash map may yield its keys.\<close>

definition key_order :: "('k \<rightharpoonup> 'v) \<Rightarrow> 'k list \<Rightarrow> bool" where
  "key_order m ks = (distinct ks \<and> set ks = dom m)"


text \<open>Reading a list at a permutation of its indices permutes it.\<close>

lemma mset_nth_indices:
  assumes "distinct is" "set is = {..<length xs}"
  shows "mset (map (\<lambda>i. xs ! i) is) = mset xs"
proof -
  have "mset is = mset [0..<length xs]"
    using assms set_eq_iff_mset_eq_distinct [of "is" "[0..<length xs]"] by (simp add: atLeast0LessThan)
  then have "mset (map (\<lambda>i. xs ! i) is) = mset (map (\<lambda>i. xs ! i) [0..<length xs])"
    by simp
  then show ?thesis by (simp add: map_nth)
qed

text \<open>\<open>BTreeMap::entry(k).or_default().push(v)\<close>, the ordered map as the list of its entries in order.\<close>

fun bt_push :: "'k::linorder \<Rightarrow> 'v \<Rightarrow> ('k \<times> 'v list) list \<Rightarrow> ('k \<times> 'v list) list" where
  "bt_push t k [] = [(t, [k])]"
| "bt_push t k ((u, ks) # r) =
     (if t < u then (t, [k]) # (u, ks) # r else if t = u then (u, ks @ [k]) # r else (u, ks) # bt_push t k r)"

lemma bt_push_mem:
  "sorted_wrt (<) (map fst bt) \<Longrightarrow>
   (\<exists>ks. (u, ks) \<in> set (bt_push t k bt) \<and> j \<in> set ks) \<longleftrightarrow>
   (u = t \<and> j = k) \<or> (\<exists>ks. (u, ks) \<in> set bt \<and> j \<in> set ks)"
  by (induction t k bt rule: bt_push.induct) auto

lemma bt_push_fst: "fst ` set (bt_push t k bt) = insert t (fst ` set bt)"
  by (induction t k bt rule: bt_push.induct) auto

lemma bt_push_sorted: "sorted_wrt (<) (map fst bt) \<Longrightarrow> sorted_wrt (<) (map fst (bt_push t k bt))"
proof (induction t k bt rule: bt_push.induct)
  case (2 t k u ks r)
  then show ?case using bt_push_fst [of t k r] by (auto simp: image_iff)
qed simp

lemma bt_push_values: "mset (concat (map snd (bt_push t k bt))) = add_mset k (mset (concat (map snd bt)))"
  by (induction t k bt rule: bt_push.induct) auto

end
