(* ===== verification/Frames.thy ===== *)
theory Frames
  imports Prelude
begin

text \<open>
  Frame files and key sharding of \<open>wfgen\<close> (\<open>cmd_frames/shard.rs\<close>, \<open>cmd_frames/mod.rs\<close>):
  the length-prefixed framing and its reader, the stream tag at the head of a frame, the
  key hash, the split of a batch into key-closed sub-batches and the loop of
  \<open>shard-frames\<close> that rewrites one frame file into \<open>N\<close> shard files.

  The Arrow library is a parameter (\<open>arrow_ops\<close>); \<open>arrow_laws\<close> states what its documentation
  promises and the code relies on. The asynchronous senders are not modelled.
\<close>

section \<open>Framing\<close>

datatype io_error = UnexpectedEof | InvalidData string

definition is_digit_byte :: "u8 \<Rightarrow> bool" where
  "is_digit_byte b = (48 \<le> unat b \<and> unat b \<le> 57)"

definition max_frame_prefix_digits :: nat where
  "max_frame_prefix_digits = 16"

text \<open>The decimal digits \<open>write!\<close> prints for a length.\<close>

fun dec_bytes :: "nat \<Rightarrow> bytes" where
  "dec_bytes n = (if n < 10 then [of_nat (48 + n)]
                  else dec_bytes (n div 10) @ [of_nat (48 + n mod 10)])"

declare dec_bytes.simps [simp del]

definition write_frame :: "bytes \<Rightarrow> bytes" where
  "write_frame payload = dec_bytes (length payload) @ [32] @ payload"

text \<open>The loop of \<open>read_frame\<close> over the prefix, one byte at a time; \<open>acc\<close> is \<open>len_buf\<close>.\<close>

fun read_prefix :: "bytes \<Rightarrow> bytes \<Rightarrow> io_error + (bytes \<times> bytes) option" where
  "read_prefix acc [] = (if acc = [] then Inr None else Inl UnexpectedEof)"
| "read_prefix acc (b # bs) =
     (if b = 32 then Inr (Some (acc, bs))
      else if \<not> is_digit_byte b then Inl (InvalidData ''invalid frame length prefix'')
      else if length (acc @ [b]) > max_frame_prefix_digits
           then Inl (InvalidData ''frame length prefix too long'')
      else read_prefix (acc @ [b]) bs)"

definition digits_val :: "bytes \<Rightarrow> nat" where
  "digits_val ds = foldl (\<lambda>v d. 10 * v + (unat d - 48)) 0 ds"

text \<open>\<open>str::parse::<usize>\<close>: the empty string is an error, as is a value past 64 bits.\<close>

definition parse_usize :: "bytes \<Rightarrow> nat option" where
  "parse_usize ds = (if ds = [] \<or> digits_val ds > u64_max then None else Some (digits_val ds))"

text \<open>One frame from the head of a stream: the payload, or \<open>None\<close> at a clean end, and the rest.\<close>

definition read_frame :: "bytes \<Rightarrow> io_error + (bytes option \<times> bytes)" where
  "read_frame s =
     rbind (read_prefix [] s)
       (\<lambda>r. case r of
           None \<Rightarrow> Inr (None, [])
         | Some (ds, rest) \<Rightarrow>
             (case parse_usize ds of
                None \<Rightarrow> Inl (InvalidData ''bad frame length'')
              | Some n \<Rightarrow> if length rest < n then Inl UnexpectedEof
                          else Inr (Some (take n rest), drop n rest)))"

lemma read_prefix_shrinks:
  "read_prefix acc s = Inr (Some (ds, rest)) \<Longrightarrow> length rest < length s"
  by (induction acc s rule: read_prefix.induct) (auto split: if_splits)

lemma read_frame_shrinks: "read_frame s = Inr (Some p, rest) \<Longrightarrow> length rest < length s"
  using read_prefix_shrinks [of "[]" s]
  by (auto simp: read_frame_def rbind_Inr_iff split: option.splits prod.splits if_splits)
    fastforce+

text \<open>\<open>while let Some(payload) = read_frame(..)?\<close>: all the frames of a file.\<close>

function read_all :: "bytes \<Rightarrow> io_error + bytes list" where
  "read_all s =
     (case read_frame s of
        Inl e \<Rightarrow> Inl e
      | Inr (None, rest) \<Rightarrow> Inr []
      | Inr (Some p, rest) \<Rightarrow> rbind (read_all rest) (\<lambda>ps. Inr (p # ps)))"
  by pat_completeness auto
termination
  by (relation "measure length") (auto dest: read_frame_shrinks)

declare read_all.simps [simp del]

subsection \<open>The framing interface\<close>

text \<open>
  A reader that undoes a writer at the head of any stream reads back every concatenation of
  written frames.
\<close>

locale framing =
  fixes enc :: "'p \<Rightarrow> 'b list"
    and dec :: "'b list \<Rightarrow> 'e + ('p option \<times> 'b list)"
    and dec_all :: "'b list \<Rightarrow> 'e + 'p list"
    and ok :: "'p \<Rightarrow> bool"
  assumes dec_enc: "ok p \<Longrightarrow> dec (enc p @ rest) = Inr (Some p, rest)"
    and dec_nil: "dec [] = Inr (None, [])"
    and dec_all_eq: "dec_all s =
      (case dec s of Inl e \<Rightarrow> Inl e
       | Inr (None, rest) \<Rightarrow> Inr []
       | Inr (Some p, rest) \<Rightarrow> rbind (dec_all rest) (\<lambda>ps. Inr (p # ps)))"
begin

lemma dec_all_nil: "dec_all [] = Inr []"
  by (subst dec_all_eq) (simp add: dec_nil)

lemma dec_all_enc: "ok p \<Longrightarrow> dec_all (enc p @ rest) = rbind (dec_all rest) (\<lambda>ps. Inr (p # ps))"
  by (subst dec_all_eq) (simp add: dec_enc)

lemma dec_all_concat: "list_all ok ps \<Longrightarrow> dec_all (concat (map enc ps)) = Inr ps"
  by (induction ps) (simp_all add: dec_all_nil dec_all_enc)

lemma dec_all_concat_app:
  "list_all ok ps \<Longrightarrow> dec_all (concat (map enc ps) @ rest) = rbind (dec_all rest) (\<lambda>qs. Inr (ps @ qs))"
proof (induction ps)
  case Nil
  then show ?case by (cases "dec_all rest") simp_all
next
  case (Cons p ps)
  then show ?case by (cases "dec_all rest") (simp_all add: dec_all_enc)
qed

end

subsection \<open>The written prefix reads back\<close>

lemma unat_digit: "d < 10 \<Longrightarrow> unat (of_nat (48 + d) :: u8) = 48 + d"
  by (simp add: unat_of_nat take_bit_eq_mod del: of_nat_add)

lemma digit_byte: "d < 10 \<Longrightarrow> is_digit_byte (of_nat (48 + d)) \<and> (of_nat (48 + d) :: u8) \<noteq> 32"
proof -
  assume d: "d < 10"
  have u: "unat (of_nat (48 + d) :: u8) = 48 + d" by (rule unat_digit [OF d])
  have "unat (32 :: u8) = 32" by simp
  with u have "(of_nat (48 + d) :: u8) \<noteq> 32" by (intro notI) (simp del: of_nat_add)
  then show ?thesis using u d by (simp add: is_digit_byte_def del: of_nat_add)
qed

lemma dec_bytes_digits: "b \<in> set (dec_bytes n) \<Longrightarrow> is_digit_byte b \<and> b \<noteq> 32"
proof (induction n rule: dec_bytes.induct)
  case (1 n)
  show ?case
  proof (cases "n < 10")
    case True
    with 1 show ?thesis using digit_byte [of n] by (auto simp: dec_bytes.simps [of n])
  next
    case False
    with 1 show ?thesis using digit_byte [of "n mod 10"] by (auto simp: dec_bytes.simps [of n])
  qed
qed

lemma dec_bytes_length: "n < 10 ^ k \<Longrightarrow> 0 < k \<Longrightarrow> length (dec_bytes n) \<le> k"
proof (induction n arbitrary: k rule: dec_bytes.induct)
  case (1 n)
  show ?case
  proof (cases "n < 10")
    case True
    with 1 show ?thesis by (simp add: dec_bytes.simps [of n])
  next
    case False
    obtain j where k: "k = Suc j" using 1(3) by (cases k) simp_all
    have "0 < j" using 1(2) False k by (cases j) simp_all
    with k have j: "k = Suc j" "0 < j" by simp_all
    have "n div 10 < 10 ^ j" using 1(2) j by (simp add: less_mult_imp_div_less mult.commute)
    then show ?thesis using 1(1) [of j] False j by (simp add: dec_bytes.simps [of n])
  qed
qed

lemma dec_bytes_not_Nil: "dec_bytes n \<noteq> []"
  by (simp add: dec_bytes.simps [of n])

lemma digits_val_snoc: "digits_val (ds @ [d]) = 10 * digits_val ds + (unat d - 48)"
  by (simp add: digits_val_def)

lemma digits_val_dec_bytes: "digits_val (dec_bytes n) = n"
proof (induction n rule: dec_bytes.induct)
  case (1 n)
  show ?case
  proof (cases "n < 10")
    case True
    then show ?thesis using unat_digit [of n]
      by (simp add: dec_bytes.simps [of n] digits_val_def)
  next
    case False
    then show ?thesis using 1 unat_digit [of "n mod 10"]
      by (simp add: dec_bytes.simps [of n] digits_val_snoc)
  qed
qed

lemma read_prefix_digits:
  "(\<And>b. b \<in> set ds \<Longrightarrow> is_digit_byte b \<and> b \<noteq> 32) \<Longrightarrow>
   length acc + length ds \<le> max_frame_prefix_digits \<Longrightarrow>
   read_prefix acc (ds @ 32 # rest) = Inr (Some (acc @ ds, rest))"
  by (induction ds arbitrary: acc) auto

lemma read_frame_write_frame:
  assumes "length p < 10 ^ 16"
  shows "read_frame (write_frame p @ rest) = Inr (Some p, rest)"
proof -
  have len: "length (dec_bytes (length p)) \<le> max_frame_prefix_digits"
    using dec_bytes_length [OF assms] by (simp add: max_frame_prefix_digits_def)
  have "read_prefix [] (dec_bytes (length p) @ 32 # (p @ rest)) =
        Inr (Some (dec_bytes (length p), p @ rest))"
    using read_prefix_digits [of "dec_bytes (length p)" "[]"] dec_bytes_digits len by simp
  moreover have "parse_usize (dec_bytes (length p)) = Some (length p)"
    using assms by (simp add: parse_usize_def digits_val_dec_bytes dec_bytes_not_Nil)
  ultimately show ?thesis
    by (simp add: read_frame_def write_frame_def)
qed

definition frame_ok :: "bytes \<Rightarrow> bool" where
  "frame_ok p = (length p < 10 ^ 16)"

interpretation fr: framing write_frame read_frame read_all frame_ok
proof
  show "read_frame (write_frame p @ rest) = Inr (Some p, rest)" if "frame_ok p" for p rest
    using that read_frame_write_frame by (simp add: frame_ok_def)
  show "read_frame [] = Inr (None, [])" by (simp add: read_frame_def)
  show "read_all s = (case read_frame s of Inl e \<Rightarrow> Inl e | Inr (None, rest) \<Rightarrow> Inr []
     | Inr (Some p, rest) \<Rightarrow> rbind (read_all rest) (\<lambda>ps. Inr (p # ps)))" for s
    by (rule read_all.simps)
qed


section \<open>The stream tag of a frame\<close>

text \<open>
  Well-formed UTF-8 (\<open>String::from_utf8\<close>): no overlong form, no surrogate, nothing past
  U+10FFFF. A tag is the text whose bytes these are.
\<close>

definition cont_byte :: "u8 \<Rightarrow> bool" where
  "cont_byte b = (0x80 \<le> unat b \<and> unat b \<le> 0xBF)"

definition utf8_step :: "bytes \<Rightarrow> nat option" where
  "utf8_step bs =
     (case bs of [] \<Rightarrow> None
      | b # r \<Rightarrow>
        (let n = unat b in
         if n < 0x80 then Some 1
         else if 0xC2 \<le> n \<and> n \<le> 0xDF then
           (case r of b1 # _ \<Rightarrow> if cont_byte b1 then Some 2 else None | _ \<Rightarrow> None)
         else if 0xE0 \<le> n \<and> n \<le> 0xEF then
           (case r of b1 # b2 # _ \<Rightarrow>
              if cont_byte b1 \<and> cont_byte b2 \<and> (n = 0xE0 \<longrightarrow> 0xA0 \<le> unat b1) \<and> (n = 0xED \<longrightarrow> unat b1 \<le> 0x9F)
              then Some 3 else None | _ \<Rightarrow> None)
         else if 0xF0 \<le> n \<and> n \<le> 0xF4 then
           (case r of b1 # b2 # b3 # _ \<Rightarrow>
              if cont_byte b1 \<and> cont_byte b2 \<and> cont_byte b3 \<and> (n = 0xF0 \<longrightarrow> 0x90 \<le> unat b1) \<and>
                 (n = 0xF4 \<longrightarrow> unat b1 \<le> 0x8F)
              then Some 4 else None | _ \<Rightarrow> None)
         else None))"

fun utf8_valid_fuel :: "nat \<Rightarrow> bytes \<Rightarrow> bool" where
  "utf8_valid_fuel 0 bs = (bs = [])"
| "utf8_valid_fuel (Suc k) bs =
     (bs = [] \<or> (case utf8_step bs of None \<Rightarrow> False | Some n \<Rightarrow> utf8_valid_fuel k (drop n bs)))"

text \<open>A step consumes at least one byte, so the length of the text is enough fuel.\<close>

definition utf8_valid :: "bytes \<Rightarrow> bool" where
  "utf8_valid bs = utf8_valid_fuel (length bs) bs"

definition text_of :: "bytes \<Rightarrow> string" where
  "text_of bs = map (\<lambda>b. char_of (unat b)) bs"

definition be_u32 :: "bytes \<Rightarrow> nat" where
  "be_u32 bs = foldl (\<lambda>v b. 256 * v + unat b) 0 bs"

definition frame_tag :: "bytes \<Rightarrow> string option" where
  "frame_tag payload =
     (if length payload < 4 then None
      else let tag_end = 4 + be_u32 (take 4 payload) in
           if length payload < tag_end then None
           else let t = drop 4 (take tag_end payload) in
                if utf8_valid t then Some (text_of t) else None)"

section \<open>Key hash and shard of a row\<close>

definition fnv1a :: "bytes \<Rightarrow> u64" where
  "fnv1a bs = foldl (\<lambda>h b. (h XOR ucast b) * 0x00000100000001b3) 0xcbf29ce484222325 bs"

text \<open>A column as \<open>row_shard\<close> sees it; \<open>COther\<close> is every Arrow type it does not downcast.\<close>

datatype column = CInt64 "u64 list" | CInt32 "i32 list" | CUtf8 "bytes list" | CLargeUtf8 "bytes list"
  | COther nat

fun col_len :: "column \<Rightarrow> nat" where
  "col_len (CInt64 xs) = length xs"
| "col_len (CInt32 xs) = length xs"
| "col_len (CUtf8 xs) = length xs"
| "col_len (CLargeUtf8 xs) = length xs"
| "col_len (COther n) = n"

definition le_bytes :: "nat \<Rightarrow> nat \<Rightarrow> bytes" where
  "le_bytes k v = map (\<lambda>i. of_nat (v div 256 ^ i)) [0..<k]"

fun key_bytes :: "column \<Rightarrow> nat \<Rightarrow> bytes" where
  "key_bytes (CInt64 xs) r = le_bytes 8 (unat (xs ! r))"
| "key_bytes (CInt32 xs) r = le_bytes 4 (unat (xs ! r))"
| "key_bytes (CUtf8 xs) r = xs ! r"
| "key_bytes (CLargeUtf8 xs) r = xs ! r"
| "key_bytes (COther n) r = le_bytes 8 r"

text \<open>The remainder by zero and the access past the column are panics.\<close>

definition row_shard :: "column \<Rightarrow> nat \<Rightarrow> nat \<Rightarrow> wfgen_error + nat" where
  "row_shard col r n =
     (if col_len col \<le> r then Inl (Panic ''row out of range'')
      else if n = 0 then Inl (Panic ''remainder by zero'')
      else Inr (unat (fnv1a (key_bytes col r)) mod n))"

section \<open>Arrow batches\<close>

text \<open>
  The calls into \<open>arrow\<close> and \<open>wp_arrow\<close>: a batch \<open>'b\<close> with a schema \<open>'s\<close>. Errors carry the
  library's message.
\<close>

record ('b, 's) arrow_ops =
  column_by_name :: "'b \<Rightarrow> string \<Rightarrow> column option"
  num_rows :: "'b \<Rightarrow> nat"
  batch_schema :: "'b \<Rightarrow> 's"
  filter_record_batch :: "'b \<Rightarrow> bool list \<Rightarrow> string + 'b"
  concat_batches :: "'s \<Rightarrow> 'b list \<Rightarrow> string + 'b"
  encode_ipc :: "string \<Rightarrow> 'b \<Rightarrow> string + bytes"
  decode_ipc :: "bytes \<Rightarrow> string + (string \<times> 'b)"

definition map_err :: "string \<Rightarrow> string + 'a \<Rightarrow> wfgen_error + 'a" where
  "map_err what x = (case x of Inl e \<Rightarrow> Inl (WfgenError RSerialization (what @ e)) | Inr y \<Rightarrow> Inr y)"

lemma map_err_Inr [simp]: "map_err w x = Inr y \<longleftrightarrow> x = Inr y"
  by (cases x) (auto simp: map_err_def)

lemma map_err_of_Inr [simp, result_simps]: "map_err w (Inr y) = Inr y"
  by (simp add: map_err_def)

text \<open>
  What the code relies on: the rows of a batch (\<open>rows\<close>, an observation the code never makes
  itself), that a column is as long as its batch, that filtering keeps the masked rows in
  order, that concatenation appends the rows of batches that have the schema it is given (it
  takes the columns by position, so nothing is promised of others) and that a decoded frame has the tag and rows encoded.
\<close>

definition pick :: "bool list \<Rightarrow> 'r list \<Rightarrow> 'r list" where
  "pick msk xs = map snd (List.filter fst (zip msk xs))"

definition arrow_laws :: "('b, 's) arrow_ops \<Rightarrow> ('b \<Rightarrow> 'r list) \<Rightarrow> bool" where
  "arrow_laws A rows =
     ((\<forall>b. num_rows A b = length (rows b)) \<and>
      (\<forall>b f c. column_by_name A b f = Some c \<longrightarrow> col_len c = length (rows b)) \<and>
      (\<forall>b m b'. length m = length (rows b) \<longrightarrow> filter_record_batch A b m = Inr b' \<longrightarrow>
         rows b' = pick m (rows b) \<and> batch_schema A b' = batch_schema A b) \<and>
      (\<forall>s bs b'. concat_batches A s bs = Inr b' \<longrightarrow> (\<forall>b \<in> set bs. batch_schema A b = s) \<longrightarrow>
         rows b' = concat (map rows bs)) \<and>
      (\<forall>t b p. encode_ipc A t b = Inr p \<longrightarrow>
         length p < 10 ^ 16 \<and> (\<exists>b'. decode_ipc A p = Inr (t, b') \<and> rows b' = rows b)) \<and>
      (\<forall>p t b. decode_ipc A p = Inr (t, b) \<longrightarrow> frame_tag p = Some t))"

section \<open>Splitting a batch\<close>

definition set_mask :: "column \<Rightarrow> nat \<Rightarrow> nat \<Rightarrow> bool list list \<Rightarrow> wfgen_error + bool list list" where
  "set_mask col n r masks = rbind (row_shard col r n) (\<lambda>i. Inr (masks[i := (masks ! i)[r := True]]))"

definition keep_mask :: "('b, 's) arrow_ops \<Rightarrow> 'b \<Rightarrow> bool list \<Rightarrow> wfgen_error + 'b option" where
  "keep_mask A b msk =
     (if \<not> list_ex id msk then Inr None
      else rbind (map_err ''filter: '' (filter_record_batch A b msk)) (\<lambda>s. Inr (Some s)))"

definition shard_batch :: "('b, 's) arrow_ops \<Rightarrow> 'b \<Rightarrow> string \<Rightarrow> nat \<Rightarrow> wfgen_error + 'b option list" where
  "shard_batch A b field n =
     (case column_by_name A b field of
        None \<Rightarrow> Inl (WfgenError RValidation (''batch schema has no key field '' @ dquoted field))
      | Some col \<Rightarrow>
          let rows = num_rows A b in
          if rows = 0 then Inr (replicate n None)
          else rbind (rfold (set_mask col n) [0..<rows] (replicate n (replicate rows False)))
                 (rmap (keep_mask A b)))"

section \<open>The shard writer\<close>

definition parse_shard_pair :: "string \<Rightarrow> (string \<times> string) option" where
  "parse_shard_pair part =
     (case split_on (CHR '':'') part of
        s # f # _ \<Rightarrow>
          let stream = trim s; field = trim f in
          if stream \<noteq> [] \<and> field \<noteq> [] then Some (stream, field) else None
      | _ \<Rightarrow> None)"

text \<open>A stream named twice keeps its last field, as collecting into a map does.\<close>

definition parse_shard_keys :: "string option \<Rightarrow> (string \<rightharpoonup> string)" where
  "parse_shard_keys keys =
     (case keys of None \<Rightarrow> Map.empty
      | Some spec \<Rightarrow> map_of (rev (List.map_filter parse_shard_pair (split_on (CHR '','') spec))))"

record ('b, 's) shard_pending =
  sp_tag :: string
  sp_schema :: 's
  sp_batches :: "'b list"
  sp_rows :: nat

definition flush_pending ::
  "('b, 's) arrow_ops \<Rightarrow> bytes \<Rightarrow> ('b, 's) shard_pending \<Rightarrow> wfgen_error + (bytes \<times> ('b, 's) shard_pending)" where
  "flush_pending A w p =
     (if sp_batches p = [] then Inr (w, p)
      else rbind (map_err ''concat: '' (concat_batches A (sp_schema p) (sp_batches p)))
        (\<lambda>merged. rbind (map_err ''encode: '' (encode_ipc A (sp_tag p) merged))
        (\<lambda>payload. Inr (w @ write_frame payload, p\<lparr>sp_batches := [], sp_rows := 0\<rparr>))))"

definition target_rows :: nat where
  "target_rows = 100000"

text \<open>One sub-batch for one shard: its file and its pending group.\<close>

definition put_sub ::
  "('b, 's) arrow_ops \<Rightarrow> string \<Rightarrow> 's \<Rightarrow> 'b \<Rightarrow> bytes \<times> ('b, 's) shard_pending option \<Rightarrow>
   wfgen_error + (bytes \<times> ('b, 's) shard_pending option)" where
  "put_sub A tag schema sub st =
     (let (w, pending) = st;
          fresh = \<lparr>sp_tag = tag, sp_schema = schema, sp_batches = [], sp_rows = 0\<rparr>
      in rbind (case pending of
                  None \<Rightarrow> Inr (w, fresh)
                | Some p \<Rightarrow> if sp_tag p = tag then Inr (w, p)
                            else rbind (flush_pending A w p) (\<lambda>(w', _). Inr (w', fresh)))
         (\<lambda>(w1, p1).
            let p2 = p1\<lparr>sp_batches := sp_batches p1 @ [sub], sp_rows := sp_rows p1 + num_rows A sub\<rparr> in
            if target_rows \<le> sp_rows p2
            then rbind (flush_pending A w1 p2) (\<lambda>(w2, p3). Inr (w2, Some p3))
            else Inr (w1, Some p2)))"

type_synonym ('b, 's) shard_state = "(bytes \<times> ('b, 's) shard_pending option) list"

definition put_subs ::
  "('b, 's) arrow_ops \<Rightarrow> string \<Rightarrow> 's \<Rightarrow> nat \<times> 'b option \<Rightarrow> ('b, 's) shard_state \<Rightarrow>
   wfgen_error + ('b, 's) shard_state" where
  "put_subs A tag schema isub st =
     (case isub of
        (i, None) \<Rightarrow> Inr st
      | (i, Some sub) \<Rightarrow> rbind (put_sub A tag schema sub (st ! i)) (\<lambda>x. Inr (st[i := x])))"

definition key_field :: "(string \<rightharpoonup> string) \<Rightarrow> bytes \<Rightarrow> string option" where
  "key_field keys payload = Option.bind (frame_tag payload) keys"

definition shard_frame_step ::
  "('b, 's) arrow_ops \<Rightarrow> (string \<rightharpoonup> string) \<Rightarrow> nat \<Rightarrow> bytes \<Rightarrow> ('b, 's) shard_state \<Rightarrow>
   wfgen_error + ('b, 's) shard_state" where
  "shard_frame_step A keys n payload st =
     (case key_field keys payload of
        Some field \<Rightarrow>
          rbind (map_err ''decode frame: '' (decode_ipc A payload)) (\<lambda>(tag, batch).
          rbind (shard_batch A batch field n) (\<lambda>subs.
          rfold (put_subs A tag (batch_schema A batch)) (zip [0..<length subs] subs) st))
      | None \<Rightarrow> Inr (st[0 := (fst (st ! 0) @ write_frame payload, snd (st ! 0))]))"

definition flush_last ::
  "('b, 's) arrow_ops \<Rightarrow> bytes \<times> ('b, 's) shard_pending option \<Rightarrow> wfgen_error + bytes" where
  "flush_last A st =
     (case st of (w, None) \<Rightarrow> Inr w | (w, Some p) \<Rightarrow> rbind (flush_pending A w p) (\<lambda>(w', _). Inr w'))"

definition io_text :: "io_error \<Rightarrow> string" where
  "io_text e = (case e of UnexpectedEof \<Rightarrow> ''early eof'' | InvalidData m \<Rightarrow> m)"

text \<open>The reading loop: a frame is processed before the next one is read.\<close>

function shard_loop ::
  "('b, 's) arrow_ops \<Rightarrow> (string \<rightharpoonup> string) \<Rightarrow> nat \<Rightarrow> bytes \<Rightarrow> ('b, 's) shard_state \<Rightarrow>
   wfgen_error + ('b, 's) shard_state" where
  "shard_loop A keys n s st =
     (case read_frame s of
        Inl e \<Rightarrow> Inl (WfgenError RIo (io_text e))
      | Inr (None, rest) \<Rightarrow> Inr st
      | Inr (Some payload, rest) \<Rightarrow>
          rbind (shard_frame_step A keys n payload st) (\<lambda>st'. shard_loop A keys n rest st'))"
  by pat_completeness auto
termination
  by (relation "measure (\<lambda>(A, keys, n, s, st). length s)") (auto dest: read_frame_shrinks)

declare shard_loop.simps [simp del]

definition shard_frames ::
  "('b, 's) arrow_ops \<Rightarrow> string \<Rightarrow> nat \<Rightarrow> bytes \<Rightarrow> wfgen_error + bytes list" where
  "shard_frames A shard_keys shards input =
     (let n = max shards 1 in
      rbind (shard_loop A (parse_shard_keys (Some shard_keys)) n input (replicate n ([], None)))
        (rmap (flush_last A)))"

end
