(* ===== verification/FrameShards.thy ===== *)
theory FrameShards
  imports Frames
begin

text \<open>
  What \<open>shard-frames\<close> promises about its output files: the rows of a keyed stream are
  distributed over the shards by the hash of their key, in input order and without loss, and
  the frames of the other streams are copied to the first file byte for byte.
\<close>

section \<open>Rows by shard\<close>

definition shard_rows :: "column \<Rightarrow> nat \<Rightarrow> nat \<Rightarrow> 'r list \<Rightarrow> 'r list" where
  "shard_rows col n i xs =
     map snd (List.filter (\<lambda>(r, _). row_shard col r n = Inr i) (zip [0..<length xs] xs))"

lemma row_shard_ok: "0 < n \<Longrightarrow> r < col_len col \<Longrightarrow> \<exists>i < n. row_shard col r n = Inr i"
  by (simp add: row_shard_def)

lemma pick_map: "pick (map P [0..<length xs]) xs = map snd (List.filter (\<lambda>(r, _). P r) (zip [0..<length xs] xs))"
  by (simp add: pick_def zip_map1 filter_map o_def split_def)

lemma mask_hit:
  "row_shard col m n = Inr i \<Longrightarrow> m < rows \<Longrightarrow>
   (map (\<lambda>r. r < m \<and> row_shard col r n = Inr i) [0..<rows])[m := True] =
   map (\<lambda>r. r < Suc m \<and> row_shard col r n = Inr i) [0..<rows]"
  by (rule nth_equalityI) (auto simp: nth_list_update less_Suc_eq)

lemma mask_miss:
  "row_shard col m n \<noteq> Inr j \<Longrightarrow>
   map (\<lambda>r. r < m \<and> row_shard col r n = Inr j) [0..<rows] =
   map (\<lambda>r. r < Suc m \<and> row_shard col r n = Inr j) [0..<rows]"
  by (auto simp: less_Suc_eq)

lemma masks_step:
  assumes "row_shard col m n = Inr i" "i < n" "m < rows"
  shows "set_mask col n m (map (\<lambda>i. map (\<lambda>r. r < m \<and> row_shard col r n = Inr i) [0..<rows]) [0..<n]) =
         Inr (map (\<lambda>i. map (\<lambda>r. r < Suc m \<and> row_shard col r n = Inr i) [0..<rows]) [0..<n])"
proof -
  let ?c = "\<lambda>m j. map (\<lambda>r. r < m \<and> row_shard col r n = Inr j) [0..<rows]"
  have "(map (?c m) [0..<n])[i := (?c m i)[m := True]] = map (?c (Suc m)) [0..<n]" (is "?l = ?r")
  proof (rule nth_equalityI)
    fix j assume "j < length ?l"
    then have j: "j < n" by simp
    show "?l ! j = ?r ! j"
    proof (cases "j = i")
      case True
      then show ?thesis using assms(2) mask_hit [OF assms(1,3)] by simp
    next
      case False
      then show ?thesis using j mask_miss [of col m n j rows] assms(1) by simp
    qed
  qed simp
  then show ?thesis using assms(1,2) by (simp add: set_mask_def)
qed

lemma masks_fold:
  assumes "0 < n" "m \<le> rows" "rows = col_len col"
  shows "rfold (set_mask col n) [0..<m] (replicate n (replicate rows False)) =
         Inr (map (\<lambda>i. map (\<lambda>r. r < m \<and> row_shard col r n = Inr i) [0..<rows]) [0..<n])"
  using assms(2)
proof (induction m)
  case 0
  then show ?case by (auto intro!: nth_equalityI)
next
  case (Suc m)
  obtain i where i: "i < n" "row_shard col m n = Inr i"
    using row_shard_ok assms Suc.prems by (metis Suc_le_lessD)
  have s: "set_mask col n m (map (\<lambda>i. map (\<lambda>r. r < m \<and> row_shard col r n = Inr i) [0..<rows]) [0..<n]) =
         Inr (map (\<lambda>i. map (\<lambda>r. r < Suc m \<and> row_shard col r n = Inr i) [0..<rows]) [0..<n])"
    using i Suc.prems by (intro masks_step) simp_all
  have u: "[0..<Suc m] = [0..<m] @ [m]" by simp
  have "rfold (set_mask col n) [0..<m] (replicate n (replicate rows False)) =
      Inr (map (\<lambda>i. map (\<lambda>r. r < m \<and> row_shard col r n = Inr i) [0..<rows]) [0..<n])"
    using Suc by simp
  then show ?case unfolding u rfold_append by (simp only: rbind_simps rfold.simps s)
qed

lemma arrow_num_rows: "arrow_laws A rows \<Longrightarrow> num_rows A b = length (rows b)"
  by (simp add: arrow_laws_def)

lemma arrow_column: "arrow_laws A rows \<Longrightarrow> column_by_name A b f = Some c \<Longrightarrow> length (rows b) = col_len c"
  unfolding arrow_laws_def by metis

lemma arrow_filter:
  "arrow_laws A rows \<Longrightarrow> filter_record_batch A b m = Inr b' \<Longrightarrow> length m = length (rows b) \<Longrightarrow>
   rows b' = pick m (rows b) \<and> batch_schema A b' = batch_schema A b"
  unfolding arrow_laws_def by blast

lemma arrow_concat:
  "arrow_laws A rows \<Longrightarrow> concat_batches A s bs = Inr b' \<Longrightarrow> \<forall>b \<in> set bs. batch_schema A b = s \<Longrightarrow>
   rows b' = concat (map rows bs)"
  unfolding arrow_laws_def by blast

lemma arrow_encode:
  assumes "arrow_laws A rows" "encode_ipc A t b = Inr p"
  obtains b' where "frame_ok p" "decode_ipc A p = Inr (t, b')" "rows b' = rows b"
  using assms unfolding arrow_laws_def frame_ok_def by blast

lemma arrow_decode: "arrow_laws A rows \<Longrightarrow> decode_ipc A p = Inr (t, b) \<Longrightarrow> frame_tag p = Some t"
  unfolding arrow_laws_def by blast

definition opt_rows :: "('b \<Rightarrow> 'r list) \<Rightarrow> 'b option \<Rightarrow> 'r list" where
  "opt_rows rows b = (case b of None \<Rightarrow> [] | Some x \<Rightarrow> rows x)"

lemma shard_rows_Nil_iff:
  "shard_rows col n i xs = [] \<longleftrightarrow> \<not> list_ex id (map (\<lambda>r. row_shard col r n = Inr i) [0..<length xs])"
proof -
  have "shard_rows col n i xs = [] \<longleftrightarrow> (\<forall>p \<in> set (zip [0..<length xs] xs). row_shard col (fst p) n \<noteq> Inr i)"
    by (auto simp: shard_rows_def filter_empty_conv)
  also have "\<dots> \<longleftrightarrow> (\<forall>r < length xs. row_shard col r n \<noteq> Inr i)"
    by (auto simp: set_zip)
  finally show ?thesis by (auto simp: list_ex_iff)
qed

lemma keep_mask_rows:
  assumes "arrow_laws A rows" "length (rows b) = k"
    and "keep_mask A b (map (\<lambda>r. row_shard col r n = Inr i) [0..<k]) = Inr s"
  shows "opt_rows rows s = shard_rows col n i (rows b) \<and> (\<forall>x. s = Some x \<longrightarrow> batch_schema A x = batch_schema A b)"
proof (cases "list_ex id (map (\<lambda>r. row_shard col r n = Inr i) [0..<k])")
  case False
  then show ?thesis using assms shard_rows_Nil_iff [of col n i "rows b"]
    by (simp add: keep_mask_def opt_rows_def)
next
  case True
  let ?m = "map (\<lambda>r. row_shard col r n = Inr i) [0..<k]"
  obtain x where x: "filter_record_batch A b ?m = Inr x" "s = Some x"
    using assms(3) True by (auto simp: keep_mask_def rbind_Inr_iff)
  have "rows x = pick ?m (rows b) \<and> batch_schema A x = batch_schema A b"
    using arrow_filter [OF assms(1) x(1)] assms(2) by simp
  then show ?thesis using x(2) assms(2) pick_map [of "\<lambda>r. row_shard col r n = Inr i" "rows b"]
    by (simp add: opt_rows_def shard_rows_def)
qed

lemma shard_batch_eq:
  assumes "arrow_laws A rows" "0 < n" "column_by_name A b f = Some col" "rows b \<noteq> []"
  shows "shard_batch A b f n =
    rmap (keep_mask A b) (map (\<lambda>i. map (\<lambda>r. row_shard col r n = Inr i) [0..<length (rows b)]) [0..<n])"
proof -
  have k: "num_rows A b = length (rows b)" "length (rows b) = col_len col"
    using arrow_num_rows [OF assms(1)] arrow_column [OF assms(1,3)] by simp_all
  have eq: "map (\<lambda>i. map (\<lambda>r. r < length (rows b) \<and> row_shard col r n = Inr i) [0..<length (rows b)]) [0..<n]
    = map (\<lambda>i. map (\<lambda>r. row_shard col r n = Inr i) [0..<length (rows b)]) [0..<n]"
    by simp
  show ?thesis using masks_fold [OF assms(2) order_refl k(2)] assms(3,4) k(1)
    by (simp add: shard_batch_def eq)
qed

lemma shard_batch_rows:
  assumes laws: "arrow_laws A rows" and n: "0 < n" and col: "column_by_name A b f = Some col"
    and r: "shard_batch A b f n = Inr subs"
  shows "length subs = n" and "\<And>i. i < n \<Longrightarrow> opt_rows rows (subs ! i) = shard_rows col n i (rows b)"
    and "\<And>i x. i < n \<Longrightarrow> subs ! i = Some x \<Longrightarrow> batch_schema A x = batch_schema A b"
proof -
  have k: "num_rows A b = length (rows b)" using arrow_num_rows [OF laws] .
  have "length subs = n \<and> (\<forall>i < n. opt_rows rows (subs ! i) = shard_rows col n i (rows b) \<and>
      (\<forall>x. subs ! i = Some x \<longrightarrow> batch_schema A x = batch_schema A b))"
  proof (cases "rows b = []")
    case True
    then have "subs = replicate n None" using r k col by (simp add: shard_batch_def)
    then show ?thesis using True by (simp add: opt_rows_def shard_rows_def)
  next
    case False
    let ?ms = "map (\<lambda>i. map (\<lambda>r. row_shard col r n = Inr i) [0..<length (rows b)]) [0..<n]"
    have e: "rmap (keep_mask A b) ?ms = Inr subs"
      using r shard_batch_eq [OF laws n col False] by simp
    have "keep_mask A b (map (\<lambda>r. row_shard col r n = Inr i) [0..<length (rows b)]) = Inr (subs ! i)"
      if "i < n" for i
      using rmap_Inr_nth [OF e, of i] that by simp
    then show ?thesis using rmap_Inr_length [OF e] keep_mask_rows [OF laws refl] by fastforce
  qed
  then show "length subs = n" "\<And>i. i < n \<Longrightarrow> opt_rows rows (subs ! i) = shard_rows col n i (rows b)"
    "\<And>i x. i < n \<Longrightarrow> subs ! i = Some x \<Longrightarrow> batch_schema A x = batch_schema A b"
    by blast+
qed

text \<open>The shards of a batch are a partition of its rows.\<close>

lemma mset_by_class:
  assumes "\<forall>p \<in> set ps. g p < (n::nat)"
  shows "mset (concat (map (\<lambda>i. map h (List.filter (\<lambda>p. g p = i) ps)) [0..<n])) = mset (map h ps)"
  using assms
proof (induction ps)
  case Nil
  then show ?case by simp
next
  case (Cons p ps)
  have "mset (concat (map (\<lambda>i. map h (List.filter (\<lambda>q. g q = i) (p # ps))) [0..<n])) =
        (\<Sum>i\<leftarrow>[0..<n]. (if g p = i then {#h p#} else {#}) + mset (map h (List.filter (\<lambda>q. g q = i) ps)))"
    by (simp add: mset_concat o_def cong: map_cong) (intro arg_cong [of _ _ sum_list] map_cong, auto)
  also have "\<dots> = (\<Sum>i\<leftarrow>[0..<n]. if g p = i then {#h p#} else {#}) +
        mset (concat (map (\<lambda>i. map h (List.filter (\<lambda>q. g q = i) ps)) [0..<n]))"
    by (simp add: sum_list_addf mset_concat o_def)
  also have "(\<Sum>i\<leftarrow>[0..<n]. if g p = i then {#h p#} else {#}) = {#h p#}"
    using Cons.prems by (simp add: sum_list_sum_nth sum.delta' atLeast0LessThan)
  finally show ?case using Cons by simp
qed

lemma shard_rows_partition_aux:
  assumes "0 < n" "length xs = col_len col"
  shows "mset (concat (map (\<lambda>i. shard_rows col n i xs) [0..<n])) = mset xs"
proof -
  let ?g = "\<lambda>p. projr (row_shard col (fst p) n)"
  have ok: "\<exists>i < n. row_shard col (fst p) n = Inr i" if "p \<in> set (zip [0..<length xs] xs)" for p
    using that row_shard_ok [OF assms(1)] assms(2) by (auto simp: set_zip)
  have "shard_rows col n i xs = map snd (List.filter (\<lambda>p. ?g p = i) (zip [0..<length xs] xs))" for i
    unfolding shard_rows_def using ok by (intro arg_cong [of _ _ "map snd"] filter_cong) force+
  moreover have "\<forall>p \<in> set (zip [0..<length xs] xs). ?g p < n" using ok by force
  ultimately show ?thesis using mset_by_class [of "zip [0..<length xs] xs" ?g n snd] by simp
qed


section \<open>The loop\<close>

text \<open>The tagged rows a keyed frame carries, and those of them a shard is to receive.\<close>

definition frame_log :: "('b, 's) arrow_ops \<Rightarrow> ('b \<Rightarrow> 'r list) \<Rightarrow> (string \<rightharpoonup> string) \<Rightarrow> bytes \<Rightarrow> (string \<times> 'r) list" where
  "frame_log A rows keys p =
     (case key_field keys p of None \<Rightarrow> []
      | Some f \<Rightarrow> (case decode_ipc A p of Inl e \<Rightarrow> [] | Inr (t, b) \<Rightarrow> map (Pair t) (rows b)))"

definition frame_shard_log ::
  "('b, 's) arrow_ops \<Rightarrow> ('b \<Rightarrow> 'r list) \<Rightarrow> (string \<rightharpoonup> string) \<Rightarrow> nat \<Rightarrow> nat \<Rightarrow> bytes \<Rightarrow> (string \<times> 'r) list" where
  "frame_shard_log A rows keys n i p =
     (case key_field keys p of None \<Rightarrow> []
      | Some f \<Rightarrow> (case decode_ipc A p of Inl e \<Rightarrow> []
          | Inr (t, b) \<Rightarrow> (case column_by_name A b f of None \<Rightarrow> []
              | Some col \<Rightarrow> map (Pair t) (shard_rows col n i (rows b)))))"

definition log_of ::
  "('b, 's) arrow_ops \<Rightarrow> ('b \<Rightarrow> 'r list) \<Rightarrow> (string \<rightharpoonup> string) \<Rightarrow> bytes list \<Rightarrow> (string \<times> 'r) list" where
  "log_of A rows keys ps = concat (map (frame_log A rows keys) ps)"

definition unkeyed :: "(string \<rightharpoonup> string) \<Rightarrow> bytes list \<Rightarrow> bytes list" where
  "unkeyed keys ps = List.filter (\<lambda>p. key_field keys p = None) ps"

definition pend_log :: "('b \<Rightarrow> 'r list) \<Rightarrow> ('b, 's) shard_pending option \<Rightarrow> (string \<times> 'r) list" where
  "pend_log rows pe =
     (case pe of None \<Rightarrow> [] | Some p \<Rightarrow> map (Pair (sp_tag p)) (concat (map rows (sp_batches p))))"

text \<open>
  The pending batches are grouped by their tag alone: that they have the schema the group
  was opened with holds when a tag stands for one schema, \<open>sc\<close> of it.
\<close>

definition pend_keyed ::
  "('b, 's) arrow_ops \<Rightarrow> (string \<rightharpoonup> string) \<Rightarrow> (string \<Rightarrow> 's) \<Rightarrow> ('b, 's) shard_pending option \<Rightarrow> bool" where
  "pend_keyed A keys sc pe =
     (case pe of None \<Rightarrow> True
      | Some p \<Rightarrow> keys (sp_tag p) \<noteq> None \<and> sp_schema p = sc (sp_tag p) \<and>
          (\<forall>b \<in> set (sp_batches p). batch_schema A b = sc (sp_tag p)))"

text \<open>
  One output file and its pending group: the rows written and pending are \<open>log\<close>, in order,
  and the frames copied verbatim are \<open>raw\<close>.
\<close>

definition slot_ok ::
  "('b, 's) arrow_ops \<Rightarrow> ('b \<Rightarrow> 'r list) \<Rightarrow> (string \<rightharpoonup> string) \<Rightarrow> (string \<Rightarrow> 's) \<Rightarrow>
   bytes \<times> ('b, 's) shard_pending option \<Rightarrow> (string \<times> 'r) list \<Rightarrow> bytes list \<Rightarrow> bool" where
  "slot_ok A rows keys sc slot log raw =
     (\<exists>ps. fst slot = concat (map write_frame ps) \<and> list_all frame_ok ps \<and>
        log_of A rows keys ps @ pend_log rows (snd slot) = log \<and> unkeyed keys ps = raw \<and>
        pend_keyed A keys sc (snd slot))"

lemma slot_ok_empty: "slot_ok A rows keys sc ([], None) [] []"
  by (auto simp: slot_ok_def pend_log_def pend_keyed_def log_of_def unkeyed_def intro!: exI [of _ "[]"])

lemma slot_ok_raw:
  assumes "slot_ok A rows keys sc slot log raw" "frame_ok p" "key_field keys p = None"
  shows "slot_ok A rows keys sc (fst slot @ write_frame p, snd slot) log (raw @ [p])"
proof -
  obtain ps where "fst slot = concat (map write_frame ps)" "list_all frame_ok ps"
      "log_of A rows keys ps @ pend_log rows (snd slot) = log" "unkeyed keys ps = raw" "pend_keyed A keys sc (snd slot)"
    using assms(1) by (auto simp: slot_ok_def)
  then show ?thesis using assms(2,3) unfolding slot_ok_def
    by (intro exI [of _ "ps @ [p]"]) (simp add: log_of_def frame_log_def unkeyed_def)
qed

lemma key_field_encoded: "arrow_laws A rows \<Longrightarrow> decode_ipc A p = Inr (t, b) \<Longrightarrow> key_field keys p = keys t"
  using arrow_decode [of A rows p t b] by (simp add: key_field_def)

lemma flush_pending_slot:
  assumes laws: "arrow_laws A rows" and ok: "slot_ok A rows keys sc (w, Some p) log raw"
    and f: "flush_pending A w p = Inr (w', p')"
  shows "slot_ok A rows keys sc (w', Some p') log raw" and "pend_log rows (Some p') = []"
    and "sp_tag p' = sp_tag p" and "sp_schema p' = sp_schema p" and "sp_batches p' = []"
proof -
  have "slot_ok A rows keys sc (w', Some p') log raw \<and> sp_tag p' = sp_tag p \<and> sp_schema p' = sp_schema p \<and> sp_batches p' = []"
  proof (cases "sp_batches p = []")
    case True
    then show ?thesis using f ok by (simp add: flush_pending_def)
  next
    case False
    then obtain m q where mq: "concat_batches A (sp_schema p) (sp_batches p) = Inr m"
        "encode_ipc A (sp_tag p) m = Inr q" "w' = w @ write_frame q" "p' = p\<lparr>sp_batches := [], sp_rows := 0\<rparr>"
      using f by (auto simp: flush_pending_def rbind_Inr_iff)
    obtain b where b: "frame_ok q" "decode_ipc A q = Inr (sp_tag p, b)" "rows b = rows m"
      using arrow_encode [OF laws mq(2)] .
    obtain ps where ps: "w = concat (map write_frame ps)" "list_all frame_ok ps"
        "log_of A rows keys ps @ pend_log rows (Some p) = log" "unkeyed keys ps = raw" "keys (sp_tag p) \<noteq> None"
        "sp_schema p = sc (sp_tag p)" "\<forall>b \<in> set (sp_batches p). batch_schema A b = sp_schema p"
      using ok by (auto simp: slot_ok_def pend_keyed_def)
    obtain f where kf: "key_field keys q = Some f" using key_field_encoded [OF laws b(2)] ps(5) by auto
    have "frame_log A rows keys q = pend_log rows (Some p)"
      using kf b arrow_concat [OF laws mq(1) ps(7)] by (simp add: frame_log_def pend_log_def)
    then show ?thesis unfolding slot_ok_def using ps mq b(1) kf
      by (auto intro!: exI [of _ "ps @ [q]"] simp: log_of_def pend_log_def unkeyed_def pend_keyed_def)
  qed
  then show "slot_ok A rows keys sc (w', Some p') log raw" "sp_tag p' = sp_tag p"
    "sp_schema p' = sp_schema p" "sp_batches p' = []" "pend_log rows (Some p') = []"
    by (simp_all add: pend_log_def)
qed

lemma slot_ok_swap_pending:
  "slot_ok A rows keys sc (w, pe) log raw \<Longrightarrow> pend_log rows pe @ new = pend_log rows pe' \<Longrightarrow> pend_keyed A keys sc pe' \<Longrightarrow>
   slot_ok A rows keys sc (w, pe') (log @ new) raw"
  unfolding slot_ok_def by (metis append_assoc fst_conv snd_conv)

lemma put_sub_slot:
  assumes laws: "arrow_laws A rows" and ok: "slot_ok A rows keys sc st log raw" and key: "keys tag \<noteq> None"
    and sch: "schema = sc tag" "batch_schema A sub = sc tag"
    and f: "put_sub A tag schema sub st = Inr st'"
  shows "slot_ok A rows keys sc st' (log @ map (Pair tag) (rows sub)) raw"
proof -
  obtain w pending where st: "st = (w, pending)" by (cases st)
  let ?fresh = "\<lparr>sp_tag = tag, sp_schema = schema, sp_batches = [], sp_rows = 0\<rparr>"
  obtain w1 p1 where p1: "(case pending of None \<Rightarrow> Inr (w, ?fresh)
        | Some p \<Rightarrow> if sp_tag p = tag then Inr (w, p)
                    else rbind (flush_pending A w p) (\<lambda>(w', _). Inr (w', ?fresh))) = Inr (w1, p1)"
    and rest: "(let p2 = p1\<lparr>sp_batches := sp_batches p1 @ [sub], sp_rows := sp_rows p1 + num_rows A sub\<rparr> in
            if target_rows \<le> sp_rows p2
            then rbind (flush_pending A w1 p2) (\<lambda>(w2, p3). Inr (w2, Some p3))
            else Inr (w1, Some p2)) = Inr st'"
    using f unfolding st put_sub_def Let_def prod.case rbind_Inr_iff by auto
  have fresh: "slot_ok A rows keys sc (w', Some ?fresh) log raw"
    if "slot_ok A rows keys sc (w', pe) log raw" "pend_log rows pe = []" for w' pe
    using slot_ok_swap_pending [OF that(1), of "[]" "Some ?fresh"] that(2) key sch(1)
    by (simp add: pend_log_def pend_keyed_def)
  have one: "slot_ok A rows keys sc (w1, Some p1) log raw \<and> sp_tag p1 = tag"
  proof (cases pending)
    case None
    then show ?thesis using p1 ok fresh [of w None] by (auto simp: st pend_log_def)
  next
    case (Some p)
    show ?thesis
    proof (cases "sp_tag p = tag")
      case True
      then show ?thesis using p1 ok Some by (auto simp: st)
    next
      case False
      then obtain p' where fl: "flush_pending A w p = Inr (w1, p')" and p1f: "p1 = ?fresh"
        using p1 Some by (auto simp: rbind_Inr_iff)
      have okp: "slot_ok A rows keys sc (w, Some p) log raw" using ok Some by (simp add: st)
      show ?thesis
        using fresh [OF flush_pending_slot(1,2) [OF laws okp fl]] p1f by simp
    qed
  qed
  define p2 where "p2 = p1\<lparr>sp_batches := sp_batches p1 @ [sub], sp_rows := sp_rows p1 + num_rows A sub\<rparr>"
  have two: "slot_ok A rows keys sc (w1, Some p2) (log @ map (Pair tag) (rows sub)) raw"
    using one key sch(2)
    by (intro slot_ok_swap_pending [where pe = "Some p1"])
      (auto simp: slot_ok_def p2_def pend_log_def pend_keyed_def)
  show ?thesis
  proof (cases "target_rows \<le> sp_rows p2")
    case True
    then obtain w2 p3 where "flush_pending A w1 p2 = Inr (w2, p3)" "st' = (w2, Some p3)"
      using rest by (auto simp: p2_def Let_def rbind_Inr_iff)
    then show ?thesis using flush_pending_slot(1) [OF laws two] by simp
  next
    case False
    then show ?thesis using rest two by (auto simp: p2_def Let_def)
  qed
qed


text \<open>One frame updates every shard.\<close>

definition state_ok ::
  "('b, 's) arrow_ops \<Rightarrow> ('b \<Rightarrow> 'r list) \<Rightarrow> (string \<rightharpoonup> string) \<Rightarrow> (string \<Rightarrow> 's) \<Rightarrow> nat \<Rightarrow> bytes list \<Rightarrow> ('b, 's) shard_state \<Rightarrow> bool" where
  "state_ok A rows keys sc n ps st =
     (length st = n \<and>
      (\<forall>i < n. slot_ok A rows keys sc (st ! i) (concat (map (frame_shard_log A rows keys n i) ps))
          (if i = 0 then unkeyed keys ps else [])))"

lemma state_okD:
  "state_ok A rows keys sc n ps st \<Longrightarrow> i < n \<Longrightarrow>
   slot_ok A rows keys sc (st ! i) (concat (map (frame_shard_log A rows keys n i) ps))
     (if i = 0 then unkeyed keys ps else [])"
  by (simp add: state_ok_def)

lemma put_subs_fold:
  assumes laws: "arrow_laws A rows" and key: "keys tag \<noteq> None" and sch: "schema = sc tag"
    and subs: "\<And>i x. i < length subs \<Longrightarrow> subs ! i = Some x \<Longrightarrow> batch_schema A x = sc tag"
    and f: "rfold (put_subs A tag schema) (zip [0..<m] subs) st = Inr st'"
    and m: "m \<le> length subs" "length subs = length st"
    and ok: "\<forall>i < length st. slot_ok A rows keys sc (st ! i) (L i) (R i)"
  shows "length st' = length st \<and>
    (\<forall>i < length st. slot_ok A rows keys sc (st' ! i)
       (L i @ (if i < m then map (Pair tag) (opt_rows rows (subs ! i)) else [])) (R i))"
  using f m
proof (induction m arbitrary: st')
  case 0
  then show ?case using ok by simp
next
  case (Suc m)
  have z: "zip [0..<Suc m] subs = zip [0..<m] subs @ [(m, subs ! m)]"
    using Suc.prems(2) by (intro nth_equalityI) (auto simp: nth_append less_Suc_eq min_def)
  obtain u where u: "rfold (put_subs A tag schema) (zip [0..<m] subs) st = Inr u"
      and v: "put_subs A tag schema (m, subs ! m) u = Inr st'"
    using Suc.prems(1) unfolding z rfold_append by (auto simp: rbind_Inr_iff)
  have IH: "length u = length st" "\<And>i. i < length st \<Longrightarrow> slot_ok A rows keys sc (u ! i)
       (L i @ (if i < m then map (Pair tag) (opt_rows rows (subs ! i)) else [])) (R i)"
    using Suc.IH [OF u] Suc.prems(2,3) by auto
  show ?case
  proof (cases "subs ! m")
    case None
    then have u_eq: "st' = u" using v by (simp add: put_subs_def)
    have n: "opt_rows rows (subs ! m) = []" using None by (simp add: opt_rows_def)
    show ?thesis
    proof (intro conjI allI impI)
      fix i assume "i < length st"
      then show "slot_ok A rows keys sc (st' ! i)
         (L i @ (if i < Suc m then map (Pair tag) (opt_rows rows (subs ! i)) else [])) (R i)"
        using IH(2) [of i] n u_eq by (cases "i = m") (simp_all add: less_Suc_eq)
    qed (use IH(1) u_eq in simp)
  next
    case (Some sub)
    then obtain x where x: "put_sub A tag schema sub (u ! m) = Inr x" "st' = u[m := x]"
      using v by (auto simp: put_subs_def rbind_Inr_iff)
    have um: "slot_ok A rows keys sc (u ! m) (L m) (R m)" using IH(2) [of m] Suc.prems by simp
    have new: "slot_ok A rows keys sc x (L m @ map (Pair tag) (opt_rows rows (subs ! m))) (R m)"
      using put_sub_slot [where keys = keys and tag = tag, OF laws um key sch subs [OF _ Some] x(1)]
        Some Suc.prems(2) by (simp add: opt_rows_def)
    show ?thesis
    proof (intro conjI allI impI)
      fix i assume i: "i < length st"
      show "slot_ok A rows keys sc (st' ! i)
         (L i @ (if i < Suc m then map (Pair tag) (opt_rows rows (subs ! i)) else [])) (R i)"
        using IH(2) [OF i] new x(2) IH(1) i by (cases "i = m") (simp_all add: less_Suc_eq)
    qed (use IH(1) x(2) in simp)
  qed
qed

lemma shard_frame_step_ok:
  assumes laws: "arrow_laws A rows" and n: "0 < n" and ok: "state_ok A rows keys sc n ps st"
    and p: "frame_ok p" and f: "shard_frame_step A keys n p st = Inr st'"
    and one: "\<And>t b. key_field keys p \<noteq> None \<Longrightarrow> decode_ipc A p = Inr (t, b) \<Longrightarrow> batch_schema A b = sc t"
  shows "state_ok A rows keys sc n (ps @ [p]) st'"
proof (cases "key_field keys p")
  case None
  then have "st' = st[0 := (fst (st ! 0) @ write_frame p, snd (st ! 0))]"
    using f by (simp add: shard_frame_step_def)
  then have st': "st' = st[0 := (fst (st ! 0) @ write_frame p, snd (st ! 0))]" .
  have len: "length st = n" using ok by (simp add: state_ok_def)
  have log: "frame_shard_log A rows keys n i p = []" for i
    using None by (simp add: frame_shard_log_def)
  have raw: "unkeyed keys (ps @ [p]) = unkeyed keys ps @ [p]" using None by (simp add: unkeyed_def)
  have "slot_ok A rows keys sc (st ! 0) (concat (map (frame_shard_log A rows keys n 0) ps)) (unkeyed keys ps)"
    using state_okD [OF ok n] by simp
  from slot_ok_raw [OF this p None] have zero: "slot_ok A rows keys sc (st' ! 0)
      (concat (map (frame_shard_log A rows keys n 0) (ps @ [p]))) (unkeyed keys (ps @ [p]))"
    using n len by (simp add: st' log raw)
  have "slot_ok A rows keys sc (st' ! i) (concat (map (frame_shard_log A rows keys n i) (ps @ [p])))
      (if i = 0 then unkeyed keys (ps @ [p]) else [])" if "i < n" for i
    using state_okD [OF ok that] zero by (cases "i = 0") (simp_all add: st' log)
  then show ?thesis unfolding state_ok_def using len st' by simp
next
  case (Some field)
  obtain tag b subs where d: "decode_ipc A p = Inr (tag, b)" "shard_batch A b field n = Inr subs"
      "rfold (put_subs A tag (batch_schema A b)) (zip [0..<length subs] subs) st = Inr st'"
    using f Some by (auto simp: shard_frame_step_def rbind_Inr_iff)
  obtain col where col: "column_by_name A b field = Some col"
    using d(2) by (cases "column_by_name A b field") (auto simp: shard_batch_def)
  have key: "keys tag \<noteq> None" using key_field_encoded [OF laws d(1), of keys] Some by (metis option.discI)
  note S = shard_batch_rows [OF laws n col d(2)]
  have len: "length st = n" using ok by (simp add: state_ok_def)
  have fold: "length st' = length st \<and>
    (\<forall>i < length st. slot_ok A rows keys sc (st' ! i) (concat (map (frame_shard_log A rows keys n i) ps) @
       (if i < length subs then map (Pair tag) (opt_rows rows (subs ! i)) else []))
       (if i = 0 then unkeyed keys ps else []))"
  proof (rule put_subs_fold [where keys = keys and tag = tag, OF laws key _ _ d(3)])
    show sb: "batch_schema A b = sc tag" using one d(1) Some by simp
    show "batch_schema A x = sc tag" if "i < length subs" "subs ! i = Some x" for i x
      using S(3) [of i x] S(1) sb that by simp
    show "\<forall>i < length st. slot_ok A rows keys sc (st ! i) (concat (map (frame_shard_log A rows keys n i) ps))
       (if i = 0 then unkeyed keys ps else [])"
      using state_okD [OF ok] len by blast
  qed (simp_all add: S(1) len)
  have raw: "unkeyed keys (ps @ [p]) = unkeyed keys ps" using Some by (simp add: unkeyed_def)
  have log: "frame_shard_log A rows keys n i p = map (Pair tag) (opt_rows rows (subs ! i))" if "i < n" for i
    using Some d(1) col S(2) [OF that] by (simp add: frame_shard_log_def)
  have "slot_ok A rows keys sc (st' ! i) (concat (map (frame_shard_log A rows keys n i) (ps @ [p])))
      (if i = 0 then unkeyed keys (ps @ [p]) else [])" if "i < n" for i
    using conjunct2 [OF fold, rule_format, of i] that S(1) len log [OF that] raw by (cases "i = 0") simp_all
  then show ?thesis unfolding state_ok_def using fold len by simp
qed

lemma read_prefix_bound:
  "read_prefix acc s = Inr (Some (ds, rest)) \<Longrightarrow> length acc \<le> max_frame_prefix_digits \<Longrightarrow>
   list_all is_digit_byte acc \<Longrightarrow> length ds \<le> max_frame_prefix_digits \<and> list_all is_digit_byte ds"
proof (induction acc s rule: read_prefix.induct)
  case (2 acc b bs)
  show ?case
  proof (cases "b = 32")
    case True
    with 2 show ?thesis by simp
  next
    case False
    have d: "is_digit_byte b" and l: "\<not> max_frame_prefix_digits < length (acc @ [b])"
      and r: "read_prefix (acc @ [b]) bs = Inr (Some (ds, rest))"
      using 2(2) False by (auto split: if_splits)
    show ?thesis by (rule 2(1) [OF False _ l r]) (use d l 2(4) in simp_all)
  qed
qed (auto split: if_splits)

lemma digits_val_bound: "list_all is_digit_byte ds \<Longrightarrow> digits_val ds < 10 ^ length ds"
proof (induction ds rule: rev_induct)
  case Nil
  then show ?case by (simp add: digits_val_def)
next
  case (snoc d ds)
  then have "digits_val ds < 10 ^ length ds" "unat d - 48 \<le> 9" by (auto simp: is_digit_byte_def)
  then show ?case by (simp add: digits_val_snoc)
qed

lemma read_frame_ok: "read_frame s = Inr (Some p, rest) \<Longrightarrow> frame_ok p"
proof -
  assume "read_frame s = Inr (Some p, rest)"
  then obtain ds r where d: "read_prefix [] s = Inr (Some (ds, r))" "length p = digits_val ds"
    by (auto simp: read_frame_def rbind_Inr_iff parse_usize_def split: option.splits if_splits)
  have "length ds \<le> 16" "list_all is_digit_byte ds"
    using read_prefix_bound [OF d(1)] by (simp_all add: max_frame_prefix_digits_def)
  then have "digits_val ds < 10 ^ length ds" "(10::nat) ^ length ds \<le> 10 ^ 16"
    using digits_val_bound power_increasing [of "length ds" 16 "10::nat"] by auto
  then show ?thesis using d(2) by (simp add: frame_ok_def)
qed

definition schemas_by_tag ::
  "('b, 's) arrow_ops \<Rightarrow> (string \<rightharpoonup> string) \<Rightarrow> (string \<Rightarrow> 's) \<Rightarrow> bytes list \<Rightarrow> bool" where
  "schemas_by_tag A keys sc ps =
     (\<forall>p \<in> set ps. \<forall>t b. key_field keys p \<noteq> None \<longrightarrow> decode_ipc A p = Inr (t, b) \<longrightarrow> batch_schema A b = sc t)"

lemma shard_loop_reads: "shard_loop A keys n s st = Inr st' \<Longrightarrow> \<exists>qs. read_all s = Inr qs"
proof (induction s arbitrary: st rule: measure_induct_rule [of length])
  case (less s)
  show ?case
  proof (cases "read_frame s")
    case (Inr r)
    then show ?thesis
      using less.prems less.IH
      by (cases r, cases "fst r")
        (fastforce simp: shard_loop.simps [of A keys n s] read_all.simps [of s] rbind_Inr_iff
          dest: read_frame_shrinks)+
  qed (use less.prems in \<open>simp add: shard_loop.simps [of A keys n s]\<close>)
qed

lemma shard_loop_ok:
  assumes laws: "arrow_laws A rows" and n: "0 < n"
  shows "state_ok A rows keys sc n ps st \<Longrightarrow> shard_loop A keys n s st = Inr st' \<Longrightarrow>
    \<forall>qs. read_all s = Inr qs \<longrightarrow> schemas_by_tag A keys sc qs \<Longrightarrow>
    \<exists>qs. read_all s = Inr qs \<and> state_ok A rows keys sc n (ps @ qs) st'"
proof (induction s arbitrary: ps st rule: measure_induct_rule [of length])
  case (less s)
  note step = less.prems(2) [unfolded shard_loop.simps [of A keys n s st]]
  show ?case
  proof (cases "read_frame s")
    case (Inl e)
    then show ?thesis using step by simp
  next
    case (Inr r)
    obtain o1 rest where r: "r = (o1, rest)" by (cases r)
    show ?thesis
    proof (cases o1)
      case None
      then show ?thesis using step Inr r less.prems(1) by (auto simp: read_all.simps [of s])
    next
      case (Some p)
      have rf: "read_frame s = Inr (Some p, rest)" using Inr r Some by simp
      obtain st1 where st1: "shard_frame_step A keys n p st = Inr st1" "shard_loop A keys n rest st1 = Inr st'"
        using step rf by (auto simp: rbind_Inr_iff)
      obtain qs where qs: "read_all rest = Inr qs" using shard_loop_reads [OF st1(2)] by blast
      have all: "schemas_by_tag A keys sc (p # qs)"
        using less.prems(3) qs rf by (simp add: read_all.simps [of s])
      have "state_ok A rows keys sc n (ps @ [p]) st1"
        using all
        by (intro shard_frame_step_ok [OF laws n less.prems(1) read_frame_ok [OF rf] st1(1)])
          (simp add: schemas_by_tag_def)
      moreover have "\<forall>qs. read_all rest = Inr qs \<longrightarrow> schemas_by_tag A keys sc qs"
        using all qs by (simp add: schemas_by_tag_def)
      ultimately show ?thesis using less.IH [OF read_frame_shrinks [OF rf] _ st1(2)] rf
        by (fastforce simp: read_all.simps [of s])
    qed
  qed
qed

lemma flush_last_ok:
  assumes laws: "arrow_laws A rows" and ok: "slot_ok A rows keys sc slot log raw" and f: "flush_last A slot = Inr out"
  shows "\<exists>ps. read_all out = Inr ps \<and> log_of A rows keys ps = log \<and> unkeyed keys ps = raw"
proof -
  obtain pe where "slot_ok A rows keys sc (out, pe) log raw" "pend_log rows pe = []"
  proof (cases "snd slot")
    case None
    then show ?thesis using that [of None] ok f by (cases slot) (auto simp: flush_last_def pend_log_def)
  next
    case (Some p)
    then obtain p' where fl: "flush_pending A (fst slot) p = Inr (out, p')"
      using f by (cases slot) (auto simp: flush_last_def rbind_Inr_iff)
    have okp: "slot_ok A rows keys sc (fst slot, Some p) log raw" using ok Some by (metis prod.collapse)
    show ?thesis using that flush_pending_slot(1,2) [OF laws okp fl] by blast
  qed
  then show ?thesis using fr.dec_all_concat by (auto simp: slot_ok_def)
qed


text \<open>
  The frames of a keyed stream have one schema: any two of the input's with the same tag do.
\<close>

definition one_schema_per_stream :: "('b, 's) arrow_ops \<Rightarrow> (string \<rightharpoonup> string) \<Rightarrow> bytes list \<Rightarrow> bool" where
  "one_schema_per_stream A keys ps =
     (\<forall>p \<in> set ps. \<forall>q \<in> set ps. \<forall>t b c. keys t \<noteq> None \<longrightarrow> decode_ipc A p = Inr (t, b) \<longrightarrow>
        decode_ipc A q = Inr (t, c) \<longrightarrow> batch_schema A b = batch_schema A c)"

lemma one_schema_choice:
  assumes laws: "arrow_laws A rows" and one: "one_schema_per_stream A keys ps"
  obtains sc where "schemas_by_tag A keys sc ps"
proof -
  define sc where "sc t = batch_schema A (snd (projr (decode_ipc A
      (hd (List.filter (\<lambda>q. \<exists>c. decode_ipc A q = Inr (t, c)) ps)))))" for t
  have "batch_schema A b = sc t"
    if p: "p \<in> set ps" "key_field keys p \<noteq> None" "decode_ipc A p = Inr (t, b)" for p t b
  proof -
    let ?f = "List.filter (\<lambda>q. \<exists>c. decode_ipc A q = Inr (t, c)) ps"
    have "hd ?f \<in> set ?f" using p by (intro hd_in_set) (auto simp: filter_empty_conv)
    then obtain c where c: "hd ?f \<in> set ps" "decode_ipc A (hd ?f) = Inr (t, c)" by auto
    have "keys t \<noteq> None" using key_field_encoded [OF laws p(3), of keys] p(2) by simp
    then have "batch_schema A b = batch_schema A c"
      using one p(1,3) c unfolding one_schema_per_stream_def by blast
    then show ?thesis using c(2) by (simp add: sc_def)
  qed
  then have "schemas_by_tag A keys sc ps" by (simp add: schemas_by_tag_def)
  then show thesis by (rule that)
qed

text \<open>
  C1: \<open>shard-frames\<close>, whenever it succeeds on an input in which the frames of each keyed
  stream have one schema, has read a well-formed frame file and written one readable file per
  shard: file \<open>i\<close> holds exactly the rows of keyed frames whose key hashes to \<open>i\<close>, with their
  stream tag and in input order (across streams as well), and the frames of unkeyed streams are
  the input's, byte for byte and in order, in file 0 and in no other. The premise is needed: the
  code groups pending batches by tag alone and hands them to \<open>concat_batches\<close> with the schema
  of the first, and that call promises the appended rows only for batches of that schema.
\<close>

theorem shard_frames_content:
  assumes laws: "arrow_laws A rows" and f: "shard_frames A keys shards input = Inr outs"
    and one: "\<And>ps. read_all input = Inr ps \<Longrightarrow> one_schema_per_stream A (parse_shard_keys (Some keys)) ps"
  shows "\<exists>ps. read_all input = Inr ps \<and> length outs = max shards 1 \<and>
    (\<forall>i < length outs. \<exists>qs. read_all (outs ! i) = Inr qs \<and>
       log_of A rows (parse_shard_keys (Some keys)) qs =
         concat (map (frame_shard_log A rows (parse_shard_keys (Some keys)) (max shards 1) i) ps) \<and>
       unkeyed (parse_shard_keys (Some keys)) qs =
         (if i = 0 then unkeyed (parse_shard_keys (Some keys)) ps else []))"
proof -
  let ?k = "parse_shard_keys (Some keys)" and ?n = "max shards 1"
  obtain st where st: "shard_loop A ?k ?n input (replicate ?n ([], None)) = Inr st"
      and out: "rmap (flush_last A) st = Inr outs"
    using f by (auto simp: shard_frames_def Let_def rbind_Inr_iff)
  obtain ps where rd: "read_all input = Inr ps" using shard_loop_reads [OF st] by blast
  obtain sc where sc: "schemas_by_tag A ?k sc ps" using one_schema_choice [OF laws one [OF rd]] .
  have init: "state_ok A rows ?k sc ?n [] (replicate ?n ([], None))"
    by (simp add: state_ok_def unkeyed_def slot_ok_empty)
  have ok: "state_ok A rows ?k sc ?n ps st"
    using shard_loop_ok [OF laws _ init st] rd sc by auto
  have len: "length st = ?n" "length outs = length st"
    using ok rmap_Inr_length [OF out] by (simp_all add: state_ok_def)
  have each: "flush_last A (st ! i) = Inr (outs ! i)" if "i < length outs" for i
    using rmap_Inr_nth [OF out] len that by simp
  show ?thesis
    using rd len flush_last_ok [OF laws state_okD [OF ok] each] by auto
qed

section \<open>A concrete frame format\<close>

text \<open>
  An instance of the Arrow parameter, to show that its laws can hold: a batch is a list of
  one-byte keys in the only column \<open>k\<close>, and a payload is the tag (shorter than 128 bytes and
  ASCII) followed by the rows.
\<close>

definition toy_hdr :: "string \<Rightarrow> bytes" where
  "toy_hdr t = [0, 0, 0, of_nat (length t)] @ map (\<lambda>c. of_nat (of_char c)) t"

definition toy_ok :: "string \<Rightarrow> bytes \<Rightarrow> bool" where
  "toy_ok t b = (frame_tag (toy_hdr t @ b) = Some t \<and> length t < 128 \<and> length b \<le> 10 ^ 9)"

definition toy_arrow :: "(bytes, unit) arrow_ops" where
  "toy_arrow = \<lparr>
     column_by_name = (\<lambda>b f. if f = ''k'' then Some (CUtf8 (map (\<lambda>x. [x]) b)) else None),
     num_rows = length, batch_schema = (\<lambda>b. ()),
     filter_record_batch = (\<lambda>b m. Inr (pick m b)),
     concat_batches = (\<lambda>s bs. Inr (concat bs)),
     encode_ipc = (\<lambda>t b. if toy_ok t b then Inr (toy_hdr t @ b) else Inl ''tag''),
     decode_ipc = (\<lambda>p. case frame_tag p of None \<Rightarrow> Inl ''tag'' | Some t \<Rightarrow> Inr (t, drop (4 + length t) p))\<rparr>"

lemma length_toy_hdr: "length (toy_hdr t) = 4 + length t"
  by (simp add: toy_hdr_def)

lemma toy_laws: "arrow_laws toy_arrow id"
proof -
  have "length (toy_hdr t @ b) < 10 ^ 16" if "toy_ok t b" for t b
    using that by (simp add: toy_ok_def length_toy_hdr)
  then show ?thesis
    by (auto simp: arrow_laws_def toy_arrow_def length_toy_hdr toy_ok_def concat_map_singleton
        split: if_splits option.splits)
qed


definition toy_input :: bytes where
  "toy_input = write_frame (toy_hdr ''a'' @ [1, 2, 3]) @ write_frame (toy_hdr ''b'' @ [7])"

lemma toy_frames:
  "read_frame toy_input = Inr (Some [0,0,0,1,97,1,2,3], write_frame [0,0,0,1,98,7])"
  "read_frame (write_frame [0,0,0,1,98,7]) = Inr (Some [0,0,0,1,98,7], [])"
  "read_frame [] = Inr (None, [])"
  using read_frame_write_frame [of "[0,0,0,1,97,1,2,3]"] read_frame_write_frame [of "[0,0,0,1,98,7]" "[]"]
  by (simp_all add: toy_input_def toy_hdr_def read_frame_def)
lemmas frame_tag_eval = frame_tag_def be_u32_def utf8_valid_def utf8_step_def text_of_def char_of_eq_iff
lemma toy_keys: "parse_shard_keys (Some ''a:k'') = [''a'' \<mapsto> ''k'']"
  by (simp add: parse_shard_keys_def parse_shard_pair_def trim_def trim_start_def trim_end_def is_ascii_ws_def List.map_filter_def)
lemma toy_tags: "frame_tag [0,0,0,1,97,1,2,3] = Some ''a''" "frame_tag [0,0,0,1,98,7] = Some ''b''"
  "frame_tag [0,0,0,1,97,1,3] = Some ''a''" "frame_tag [0,0,0,1,97,2] = Some ''a''"
   by (simp_all add: frame_tag_eval)
lemma toy_rows: "row_shard (CUtf8 [[1],[2],[3]]) 0 2 = Inr 0" "row_shard (CUtf8 [[1],[2],[3]]) (Suc 0) 2 = Inr 1"
   "row_shard (CUtf8 [[1],[2],[3]]) (Suc (Suc 0)) 2 = Inr 0"
  by (simp_all add: row_shard_def fnv1a_def)

lemma toy_simps [simp]:
  "column_by_name toy_arrow b f = (if f = ''k'' then Some (CUtf8 (map (\<lambda>x. [x]) b)) else None)"
  "num_rows toy_arrow b = length b" "batch_schema toy_arrow b = ()"
  "filter_record_batch toy_arrow b m = Inr (pick m b)" "concat_batches toy_arrow s bs = Inr (concat bs)"
  "encode_ipc toy_arrow t b = (if toy_ok t b then Inr (toy_hdr t @ b) else Inl ''tag'')"
  "decode_ipc toy_arrow p = (case frame_tag p of None \<Rightarrow> Inl ''tag'' | Some t \<Rightarrow> Inr (t, drop (4 + length t) p))"
  by (simp_all add: toy_arrow_def)

lemma toy_lists: "[0..<3] = [0, Suc 0, 2]" "[0..<2] = [0, Suc 0]" "replicate 2 x = [x, x]" "replicate 3 y = [y, y, y]"
  by (simp_all add: numeral_eq_Suc upt_rec)

lemma toy_batch: "shard_batch toy_arrow [1,2,3] ''k'' 2 = Inr [Some [1,3], Some [2]]"
  by (simp add: shard_batch_def set_mask_def keep_mask_def toy_rows pick_def toy_lists)
lemma toy_step1: "shard_frame_step toy_arrow [''a'' \<mapsto> ''k''] 2 [0,0,0,1,97,1,2,3] [([], None), ([], None)] =
   Inr [([], Some \<lparr>sp_tag = ''a'', sp_schema = (), sp_batches = [[1,3]], sp_rows = 2\<rparr>),
        ([], Some \<lparr>sp_tag = ''a'', sp_schema = (), sp_batches = [[2]], sp_rows = 1\<rparr>)]"
  by (simp add: shard_frame_step_def key_field_def toy_tags toy_batch put_subs_def put_sub_def target_rows_def toy_lists)
lemma toy_hdr_a: "toy_hdr ''a'' = [0,0,0,1,97]" "toy_ok ''a'' [1,3]" "toy_ok ''a'' [2]"
  by (simp_all add: toy_hdr_def toy_ok_def toy_tags)
lemma toy_max: "max 2 1 = (2::nat)" by simp
lemma toy_run: "\<exists>outs. shard_frames toy_arrow ''a:k'' 2 toy_input = Inr outs"
  unfolding shard_frames_def Let_def toy_max toy_keys
  by (simp add: toy_frames toy_lists toy_step1 shard_loop.simps [of _ _ _ toy_input]
    shard_loop.simps [of _ _ _ "write_frame x" for x] shard_loop.simps [of _ _ _ "[]"]
    shard_frame_step_def [of _ _ _ "[0,0,0,1,98,7]"] key_field_def toy_tags flush_last_def flush_pending_def toy_hdr_a)

theorem shard_frames_content_witness:
  "\<exists>outs qs. shard_frames toy_arrow ''a:k'' 2 toy_input = Inr outs \<and> length outs = 2 \<and>
     read_all (outs ! 1) = Inr qs \<and> unkeyed (parse_shard_keys (Some ''a:k'')) qs = []"
proof -
  obtain outs where r: "shard_frames toy_arrow ''a:k'' 2 toy_input = Inr outs"
    using toy_run by blast
  have "length outs = 2 \<and> (\<exists>qs. read_all (outs ! 1) = Inr qs \<and> unkeyed (parse_shard_keys (Some ''a:k'')) qs = [])"
    using shard_frames_content [OF toy_laws r] by (auto simp: one_schema_per_stream_def)
  then show ?thesis using r by blast
qed

text \<open>
  C3: splitting a batch by key loses and duplicates no row: sub-batch \<open>i\<close> holds exactly the
  rows of the batch that \<open>row_shard\<close> sends to shard \<open>i\<close>, in their order, the sub-batches
  together hold the rows of the batch, and two rows with the same key bytes are sent to the
  same shard, so they are in the same sub-batch.
\<close>

theorem shard_batch_partition:
  assumes "arrow_laws A rows" "0 < n" "column_by_name A b f = Some col" "shard_batch A b f n = Inr subs"
  shows "length subs = n \<and> (\<forall>i < n. opt_rows rows (subs ! i) = shard_rows col n i (rows b)) \<and>
    mset (concat (map (opt_rows rows) subs)) = mset (rows b) \<and>
    (\<forall>r < length (rows b). \<exists>i < n. row_shard col r n = Inr i \<and> (\<forall>r' < length (rows b).
        key_bytes col r' = key_bytes col r \<longrightarrow> row_shard col r' n = Inr i))"
proof (intro conjI)
  note S = shard_batch_rows [OF assms]
  show len: "length subs = n" by (rule S(1))
  show each: "\<forall>i < n. opt_rows rows (subs ! i) = shard_rows col n i (rows b)" using S(2) by blast
  have "map (opt_rows rows) subs = map (\<lambda>i. shard_rows col n i (rows b)) [0..<n]"
    using each len by (intro nth_equalityI) simp_all
  then show "mset (concat (map (opt_rows rows) subs)) = mset (rows b)"
    using shard_rows_partition_aux [OF assms(2) arrow_column [OF assms(1,3)]] by simp
  show "\<forall>r < length (rows b). \<exists>i < n. row_shard col r n = Inr i \<and> (\<forall>r' < length (rows b).
        key_bytes col r' = key_bytes col r \<longrightarrow> row_shard col r' n = Inr i)"
    using assms(2) arrow_column [OF assms(1,3)] by (simp add: row_shard_def)
qed

theorem shard_batch_partition_witness:
  "\<exists>subs. shard_batch toy_arrow [1, 2, 3] ''k'' 2 = Inr subs \<and>
     mset (concat (map (opt_rows id) subs)) = {#1, 2, 3#} \<and>
     opt_rows id (subs ! 1) = shard_rows (CUtf8 [[1], [2], [3]]) 2 1 [1, 2, 3]"
proof -
  let ?subs = "[Some [1::u8, 3], Some [2]]"
  have all: "(\<forall>i < 2. opt_rows id (?subs ! i) = shard_rows (CUtf8 [[1], [2], [3]]) 2 i (id [1, 2, 3])) \<and>
    mset (concat (map (opt_rows id) ?subs)) = mset (id [1, 2, 3])"
    using shard_batch_partition [OF toy_laws _ _ toy_batch, of "CUtf8 [[1], [2], [3]]"] by simp
  have "opt_rows id (?subs ! 1) = shard_rows (CUtf8 [[1], [2], [3]]) 2 1 [1, 2, 3]"
    using conjunct1 [OF all, rule_format, of 1] by simp
  then show ?thesis using conjunct2 [OF all] unfolding toy_batch by (intro exI [of _ ?subs]) simp
qed

section \<open>Truncated files\<close>

lemma read_prefix_cut:
  assumes "\<And>b. b \<in> set ds \<Longrightarrow> is_digit_byte b \<and> b \<noteq> 32" "length acc + length ds \<le> max_frame_prefix_digits"
  shows "read_prefix acc ds = (if acc @ ds = [] then Inr None else Inl UnexpectedEof)"
  using assms by (induction ds arbitrary: acc) auto

lemma read_frame_cut:
  assumes p: "frame_ok p" and k: "0 < k" "k < length (write_frame p)"
  shows "read_frame (take k (write_frame p)) = Inl UnexpectedEof"
proof -
  let ?d = "dec_bytes (length p)"
  have len: "length ?d \<le> max_frame_prefix_digits"
    using dec_bytes_length [of "length p" 16] p by (simp add: frame_ok_def max_frame_prefix_digits_def)
  show ?thesis
  proof (cases "k \<le> length ?d")
    case True
    then have t: "take k (write_frame p) = take k ?d" by (simp add: write_frame_def)
    have dig: "\<And>b. b \<in> set (take k ?d) \<Longrightarrow> is_digit_byte b \<and> b \<noteq> 32"
      by (rule dec_bytes_digits [of _ "length p"]) (rule in_set_takeD)
    have "length ([] :: bytes) + length (take k ?d) \<le> max_frame_prefix_digits" using len by simp
    then have "read_prefix [] (take k ?d) = Inl UnexpectedEof"
      using read_prefix_cut [OF dig] k(1) dec_bytes_not_Nil [of "length p"] by simp
    then show ?thesis by (simp add: read_frame_def t)
  next
    case False
    then obtain j where j: "k = length ?d + Suc j" by (metis add_Suc_right less_iff_Suc_add not_le)
    have t: "take k (write_frame p) = ?d @ 32 # take j p" by (simp add: write_frame_def j)
    have "read_prefix [] (?d @ 32 # take j p) = Inr (Some (?d, take j p))"
      using read_prefix_digits [of ?d "[]"] dec_bytes_digits len by simp
    moreover have "parse_usize ?d = Some (length p)"
      using p by (simp add: frame_ok_def parse_usize_def digits_val_dec_bytes dec_bytes_not_Nil)
    ultimately show ?thesis using k(2) j by (simp add: read_frame_def t) (simp add: write_frame_def)
  qed
qed

text \<open>
  C2: a frame file reads back as the payloads written, and a file cut inside a frame is an
  error, never a shorter list of frames.
\<close>

theorem frames_roundtrip_and_cut:
  assumes "list_all frame_ok ps" "frame_ok p" "k \<le> length (write_frame p)"
  shows "read_all (concat (map write_frame ps) @ take k (write_frame p)) =
    (if k = 0 then Inr ps else if k = length (write_frame p) then Inr (ps @ [p]) else Inl UnexpectedEof)"
proof -
  have "read_all (take k (write_frame p)) =
    (if k = 0 then Inr [] else if k = length (write_frame p) then Inr [p] else Inl UnexpectedEof)"
  proof (cases "0 < k \<and> k < length (write_frame p)")
    case True
    then show ?thesis using read_frame_cut [OF assms(2), of k]
      by (auto simp: read_all.simps [of "take k (write_frame p)"])
  next
    case False
    then show ?thesis using fr.dec_all_concat [of "[p]"] assms(2,3) fr.dec_all_nil by auto
  qed
  then show ?thesis using fr.dec_all_concat_app [OF assms(1)] by simp
qed

theorem frames_roundtrip_and_cut_witness:
  "read_all (write_frame [1, 2] @ take 3 (write_frame [5, 6, 7])) = Inl UnexpectedEof"
  using frames_roundtrip_and_cut [of "[[1, 2]]" "[5, 6, 7]" 3]
  by (simp add: frame_ok_def write_frame_def dec_bytes.simps)

end
