(* ===== verification/F64.thy ===== *)
theory F64
  imports Complex_Main Prelude
begin

text \<open>
  The Rust type \<open>f64\<close> as IEEE-754 binary64: a value is NaN, an infinity, or a sign, a
  significand and an exponent. Arithmetic is exact on the operands and rounded once, to
  nearest with ties to even; \<open>as u64\<close> truncates and saturates. A finite value produced by
  \<open>round_ratio\<close> is canonical (zero has exponent 0), so equality of terms is equality of
  bit patterns up to the payload of a NaN, while \<open>feq\<close> is the numeric \<open>==\<close>.
  Everything is integer arithmetic, so closed terms evaluate in the kernel.
\<close>

datatype f64 = NaN | Inf bool | Fin bool nat int

section \<open>Rounding\<close>

fun blen :: "nat \<Rightarrow> nat" where
  "blen n = (if n = 0 then 0 else Suc (blen (n div 2)))"

declare blen.simps [simp del]

definition ge_pow2 :: "nat \<Rightarrow> nat \<Rightarrow> int \<Rightarrow> bool" where
  "ge_pow2 p q l = (if 0 \<le> l then q * 2 ^ nat l \<le> p else q \<le> p * 2 ^ nat (- l))"

definition div_half_even :: "nat \<Rightarrow> nat \<Rightarrow> int \<Rightarrow> nat" where
  "div_half_even p q e =
     (let num = (if e < 0 then p * 2 ^ nat (- e) else p);
          den = (if e < 0 then q else q * 2 ^ nat e);
          d = num div den; r = num mod den
      in if 2 * r < den \<or> (2 * r = den \<and> even d) then d else Suc d)"

text \<open>The binary64 value nearest to \<open>p / q\<close> with sign \<open>s\<close>.\<close>

definition round_ratio :: "bool \<Rightarrow> nat \<Rightarrow> nat \<Rightarrow> f64" where
  "round_ratio s p q =
     (if p = 0 then Fin s 0 0
      else let l = int (blen p) - int (blen q);
               fl = (if ge_pow2 p q l then l else l - 1);
               e = max (fl - 52) (- 1074);
               m = div_half_even p q e
           in if m = 0 then Fin s 0 0
              else if m = 2 ^ 53 then (if e + 1 > 971 then Inf s else Fin s (2 ^ 52) (e + 1))
              else if e > 971 then Inf s else Fin s m e)"

definition round_dyadic :: "bool \<Rightarrow> nat \<Rightarrow> int \<Rightarrow> f64" where
  "round_dyadic s n k = (if 0 \<le> k then round_ratio s (n * 2 ^ nat k) 1 else round_ratio s n (2 ^ nat (- k)))"

definition f64_of_nat :: "nat \<Rightarrow> f64" where
  "f64_of_nat n = round_ratio False n 1"

definition f64_of_int :: "int \<Rightarrow> f64" where
  "f64_of_int i = round_ratio (i < 0) (nat \<bar>i\<bar>) 1"

definition f64_zero :: f64 where
  "f64_zero = Fin False 0 0"

definition f64_MAX :: f64 where
  "f64_MAX = Fin False (2 ^ 53 - 1) 971"

section \<open>Arithmetic\<close>

definition sval :: "bool \<Rightarrow> nat \<Rightarrow> int" where
  "sval s m = (if s then - int m else int m)"

fun fneg :: "f64 \<Rightarrow> f64" where
  "fneg NaN = NaN"
| "fneg (Inf s) = Inf (\<not> s)"
| "fneg (Fin s m e) = Fin (\<not> s) m e"

fun fabs :: "f64 \<Rightarrow> f64" where
  "fabs NaN = NaN"
| "fabs (Inf s) = Inf False"
| "fabs (Fin s m e) = Fin False m e"

fun fadd :: "f64 \<Rightarrow> f64 \<Rightarrow> f64" where
  "fadd NaN b = NaN"
| "fadd a NaN = NaN"
| "fadd (Inf s) (Inf t) = (if s = t then Inf s else NaN)"
| "fadd (Inf s) (Fin t n f) = Inf s"
| "fadd (Fin s m e) (Inf t) = Inf t"
| "fadd (Fin s m e) (Fin t n f) =
     (if m = 0 \<and> n = 0 then Fin (s \<and> t) 0 0
      else if m = 0 then Fin t n f
      else if n = 0 then Fin s m e
      else let k = min e f; v = sval s m * 2 ^ nat (e - k) + sval t n * 2 ^ nat (f - k)
           in if v = 0 then Fin False 0 0 else round_dyadic (v < 0) (nat \<bar>v\<bar>) k)"

definition fsub :: "f64 \<Rightarrow> f64 \<Rightarrow> f64" where
  "fsub a b = fadd a (fneg b)"

fun fmul :: "f64 \<Rightarrow> f64 \<Rightarrow> f64" where
  "fmul NaN b = NaN"
| "fmul a NaN = NaN"
| "fmul (Inf s) (Inf t) = Inf (s \<noteq> t)"
| "fmul (Inf s) (Fin t n f) = (if n = 0 then NaN else Inf (s \<noteq> t))"
| "fmul (Fin s m e) (Inf t) = (if m = 0 then NaN else Inf (s \<noteq> t))"
| "fmul (Fin s m e) (Fin t n f) = round_dyadic (s \<noteq> t) (m * n) (e + f)"

fun fdiv :: "f64 \<Rightarrow> f64 \<Rightarrow> f64" where
  "fdiv NaN b = NaN"
| "fdiv a NaN = NaN"
| "fdiv (Inf s) (Inf t) = NaN"
| "fdiv (Inf s) (Fin t n f) = Inf (s \<noteq> t)"
| "fdiv (Fin s m e) (Inf t) = Fin (s \<noteq> t) 0 0"
| "fdiv (Fin s m e) (Fin t n f) =
     (if n = 0 then (if m = 0 then NaN else Inf (s \<noteq> t))
      else if e \<ge> f then round_ratio (s \<noteq> t) (m * 2 ^ nat (e - f)) n
      else round_ratio (s \<noteq> t) m (n * 2 ^ nat (f - e)))"

definition fsum :: "f64 list \<Rightarrow> f64" where
  "fsum xs = foldl fadd f64_zero xs"

section \<open>Comparisons\<close>

text \<open>Two finite values compared at their smaller exponent.\<close>

definition fin_lt :: "bool \<Rightarrow> nat \<Rightarrow> int \<Rightarrow> bool \<Rightarrow> nat \<Rightarrow> int \<Rightarrow> bool" where
  "fin_lt s m e t n f =
     (sval s m * 2 ^ nat (e - min e f) < sval t n * 2 ^ nat (f - min e f))"

definition fin_eq :: "bool \<Rightarrow> nat \<Rightarrow> int \<Rightarrow> bool \<Rightarrow> nat \<Rightarrow> int \<Rightarrow> bool" where
  "fin_eq s m e t n f =
     (sval s m * 2 ^ nat (e - min e f) = sval t n * 2 ^ nat (f - min e f))"

fun flt :: "f64 \<Rightarrow> f64 \<Rightarrow> bool" where
  "flt NaN b = False"
| "flt a NaN = False"
| "flt (Inf s) (Inf t) = (s \<and> \<not> t)"
| "flt (Inf s) (Fin t n f) = s"
| "flt (Fin s m e) (Inf t) = (\<not> t)"
| "flt (Fin s m e) (Fin t n f) = fin_lt s m e t n f"

fun feq :: "f64 \<Rightarrow> f64 \<Rightarrow> bool" where
  "feq NaN b = False"
| "feq a NaN = False"
| "feq (Inf s) (Inf t) = (s = t)"
| "feq (Inf s) (Fin t n f) = False"
| "feq (Fin s m e) (Inf t) = False"
| "feq (Fin s m e) (Fin t n f) = fin_eq s m e t n f"

definition fle :: "f64 \<Rightarrow> f64 \<Rightarrow> bool" where
  "fle a b = (flt a b \<or> feq a b)"

definition fmax :: "f64 \<Rightarrow> f64 \<Rightarrow> f64" where
  "fmax a b = (if a = NaN then b else if b = NaN then a else if flt a b then b else a)"

fun is_sign_positive :: "f64 \<Rightarrow> bool" where
  "is_sign_positive NaN = True"
| "is_sign_positive (Inf s) = (\<not> s)"
| "is_sign_positive (Fin s m e) = (\<not> s)"

section \<open>Rounding to integers and casts\<close>

definition trunc_nat :: "nat \<Rightarrow> int \<Rightarrow> nat" where
  "trunc_nat m e = (if 0 \<le> e then m * 2 ^ nat e else m div 2 ^ nat (- e))"

fun fround :: "f64 \<Rightarrow> f64" where
  "fround (Fin s m e) =
     (if 0 \<le> e then Fin s m e
      else let d = 2 ^ nat (- e) in round_ratio s ((2 * m + d) div (2 * d)) 1)"
| "fround x = x"

fun fceil :: "f64 \<Rightarrow> f64" where
  "fceil (Fin s m e) =
     (if 0 \<le> e then Fin s m e
      else let d = 2 ^ nat (- e)
           in round_ratio s (if s then m div d else (m + d - 1) div d) 1)"
| "fceil x = x"

fun to_u64 :: "f64 \<Rightarrow> nat" where
  "to_u64 NaN = 0"
| "to_u64 (Inf s) = (if s then 0 else u64_max)"
| "to_u64 (Fin s m e) = (if s then 0 else min (trunc_nat m e) u64_max)"

fun to_i64 :: "f64 \<Rightarrow> int" where
  "to_i64 NaN = 0"
| "to_i64 (Inf s) = (if s then - (2 ^ 63) else 2 ^ 63 - 1)"
| "to_i64 (Fin s m e) =
     (if s then max (- int (trunc_nat m e)) (- (2 ^ 63)) else min (int (trunc_nat m e)) (2 ^ 63 - 1))"

section \<open>The order\<close>

text \<open>The rational value of a finite float; the comparisons are those of the values.\<close>

definition fval :: "bool \<Rightarrow> nat \<Rightarrow> int \<Rightarrow> rat" where
  "fval s m e = of_int (sval s m) * 2 powi e"

lemma powi_split: "k \<le> e \<Longrightarrow> (2::rat) powi e = 2 ^ nat (e - k) * 2 powi k"
  by (metis add.commute add_diff_cancel_left' diff_add_cancel int_nat_eq le_add_diff_inverse
      nat_0_le power_int_add power_int_of_nat zero_neq_numeral diff_ge_0_iff_ge)

lemma fval_align: "k \<le> e \<Longrightarrow> fval s m e = of_int (sval s m * 2 ^ nat (e - k)) * 2 powi k"
  by (simp add: fval_def powi_split)

lemma powi_pos: "(0::rat) < 2 powi k"
  by simp

lemma flt_fval: "fin_lt s m e t n f \<longleftrightarrow> fval s m e < fval t n f"
proof -
  let ?k = "min e f"
  have a: "fval s m e = of_int (sval s m * 2 ^ nat (e - ?k)) * 2 powi ?k"
    and b: "fval t n f = of_int (sval t n * 2 ^ nat (f - ?k)) * 2 powi ?k"
    by (rule fval_align, simp)+
  show ?thesis unfolding a b
    by (simp only: fin_lt_def mult_less_cancel_right_pos [OF powi_pos] of_int_less_iff)
qed

lemma feq_fval: "fin_eq s m e t n f \<longleftrightarrow> fval s m e = fval t n f"
proof -
  let ?k = "min e f"
  have a: "fval s m e = of_int (sval s m * 2 ^ nat (e - ?k)) * 2 powi ?k"
    and b: "fval t n f = of_int (sval t n * 2 ^ nat (f - ?k)) * 2 powi ?k"
    by (rule fval_align, simp)+
  have nz: "(2::rat) powi ?k \<noteq> 0" by simp
  show ?thesis unfolding a b using nz
    by (simp only: fin_eq_def mult_cancel_right of_int_eq_iff) simp
qed

lemma flt_irrefl [simp]: "\<not> flt a a"
  by (cases a) (auto simp: fin_lt_def)

lemma flt_trans: "flt a b \<Longrightarrow> flt b c \<Longrightarrow> flt a c"
  by (cases a; cases b; cases c) (auto simp: flt_fval)

lemma flt_antisym: "flt a b \<Longrightarrow> \<not> flt b a"
  using flt_trans flt_irrefl by blast

lemma flt_not_NaN: "flt a b \<Longrightarrow> a \<noteq> NaN \<and> b \<noteq> NaN"
  by (cases a; cases b) auto

lemma flt_negtrans: "c \<noteq> NaN \<Longrightarrow> \<not> flt a c \<Longrightarrow> \<not> flt c b \<Longrightarrow> \<not> flt a b"
  by (cases a; cases b; cases c) (auto simp: flt_fval)

lemma not_flt_fle: "a \<noteq> NaN \<Longrightarrow> b \<noteq> NaN \<Longrightarrow> (\<not> flt a b) = fle b a"
  by (cases a; cases b) (auto simp: fle_def flt_fval feq_fval)

lemma feq_refl: "a \<noteq> NaN \<Longrightarrow> feq a a"
  by (cases a) (auto simp: fin_eq_def)

lemma to_u64_le [simp]: "to_u64 x \<le> u64_max"
  by (cases x) auto

lemma fabs_not_neg: "\<not> flt (fabs a) f64_zero"
  by (cases a) (auto simp: f64_zero_def sval_def fin_lt_def mult_less_0_iff not_less)

section \<open>Evaluation of closed terms\<close>

text \<open>The rules that evaluate a closed float expression with \<open>simp add: f64_eval\<close>.\<close>

text \<open>
  Rounding in steps that each take their argument evaluated, so that no \<open>let\<close> is unfolded over
  an unevaluated value; \<open>blen_from\<close> counts bits as a numeral.
\<close>

definition blen_from :: "nat \<Rightarrow> int \<Rightarrow> int" where
  "blen_from n k = int (blen n) + k"

definition ratio_pack :: "bool \<Rightarrow> int \<Rightarrow> nat \<Rightarrow> f64" where
  "ratio_pack s e m =
     (if m = 0 then Fin s 0 0
      else if m = 2 ^ 53 then (if e + 1 > 971 then Inf s else Fin s (2 ^ 52) (e + 1))
      else if e > 971 then Inf s else Fin s m e)"

definition ratio_mant :: "bool \<Rightarrow> nat \<Rightarrow> nat \<Rightarrow> int \<Rightarrow> f64" where
  "ratio_mant s p q e = ratio_pack s e (div_half_even p q e)"

definition ratio_exp :: "bool \<Rightarrow> nat \<Rightarrow> nat \<Rightarrow> int \<Rightarrow> f64" where
  "ratio_exp s p q l = ratio_mant s p q (max ((if ge_pow2 p q l then l else l - 1) - 52) (- 1074))"

definition half_even :: "nat \<Rightarrow> nat \<Rightarrow> nat \<Rightarrow> nat" where
  "half_even d den t = (if t < den \<or> (t = den \<and> even d) then d else Suc d)"

definition div_even :: "nat \<Rightarrow> nat \<Rightarrow> nat" where
  "div_even num den = half_even (num div den) den (2 * (num mod den))"

lemma blen_eval:
  "int (blen n) = blen_from n 0" "blen_from 0 k = k" "blen_from (Suc 0) k = k + 1"
  "blen_from (numeral w) k = blen_from (numeral w div 2) (k + 1)" "blen_from (Suc (Suc i)) k = blen_from (Suc (i div 2)) (k + 1)"
  by (simp_all add: blen_from_def blen.simps [of 0] blen.simps [of "Suc 0"] blen.simps [of "numeral w"] blen.simps [of "Suc (Suc i)"])

lemma round_ratio_eval:
  "round_ratio s p q = (if p = 0 then Fin s 0 0 else ratio_exp s p q (int (blen p) - int (blen q)))"
  unfolding round_ratio_def ratio_exp_def ratio_mant_def ratio_pack_def Let_def by (rule refl)

lemma div_half_even_eval:
  "div_half_even p q e = (if e < 0 then div_even (p * 2 ^ nat (- e)) q else div_even p (q * 2 ^ nat e))"
  by (cases "e < 0") (simp_all only: div_half_even_def div_even_def half_even_def Let_def if_True if_False)

lemmas f64_eval =
  Let_def round_ratio_eval ratio_exp_def ratio_mant_def ratio_pack_def div_half_even_eval div_even_def half_even_def
  round_dyadic_def ge_pow2_def blen_eval f64_of_nat_def
  f64_of_int_def f64_zero_def f64_MAX_def sval_def fsub_def fsum_def fin_lt_def fin_eq_def fle_def
  fmax_def trunc_nat_def

lemma f64_hundred: "f64_of_nat 100 = Fin False (25 * 2 ^ 48) (- 46)"
  by (simp add: f64_eval)

end
