(* ===== verification/Verify.thy ===== *)
theory Verify
  imports F64
begin

text \<open>
  \<open>wfgen verify\<close> (\<open>verify/mod.rs\<close>, \<open>verify/matching.rs\<close>, \<open>verify/types.rs\<close>): the alerts the
  oracle expects are compared with those the engine raised, grouped by match key and paired
  greedily by nearest time.

  Two things the code takes from outside are parameters: \<open>dt\<close>, the \<open>chrono\<close> parser of a
  timestamp into seconds and milliseconds, and the orders \<open>ke\<close> and \<open>ka\<close> in which the two hash
  maps yield their keys.
\<close>

section \<open>Alerts and report\<close>

record oracle_alert =
  oa_rule_name :: string
  oa_score :: f64
  oa_entity_type :: string
  oa_entity_id :: string
  oa_origin :: string
  oa_emit_time :: string
  oa_fields :: "(string \<times> string) list"

record actual_alert =
  aa_rule_name :: string
  aa_score :: f64
  aa_entity_type :: string
  aa_entity_id :: string
  aa_origin :: string
  aa_fired_at :: string

record verify_summary =
  vs_oracle_total :: nat
  vs_actual_total :: nat
  vs_matched :: nat
  vs_missing :: nat
  vs_unexpected :: nat
  vs_field_mismatch :: nat

record alert_detail =
  ad_rule_name :: string
  ad_entity_type :: string
  ad_entity_id :: string
  ad_score :: f64
  ad_time :: string

record mismatch_detail =
  md_rule_name :: string
  md_entity_type :: string
  md_entity_id :: string
  md_expected_score :: f64
  md_actual_score :: f64
  md_expected_time :: string
  md_actual_time :: string

record verify_report =
  vr_schema :: string
  vr_status :: string
  vr_summary :: verify_summary
  vr_missing :: "alert_detail list"
  vr_unexpected :: "alert_detail list"
  vr_mismatch :: "mismatch_detail list"

type_synonym match_key = "string \<times> string \<times> string \<times> string"

type_synonym time_parser = "string \<Rightarrow> (int \<times> nat) option"

section \<open>Greedy matching\<close>

definition parse_time_approx :: "time_parser \<Rightarrow> string \<Rightarrow> f64" where
  "parse_time_approx dt s =
     (case dt s of None \<Rightarrow> f64_zero
      | Some (secs, millis) \<Rightarrow> fadd (f64_of_int secs) (fdiv (f64_of_nat millis) (f64_of_nat 1000)))"

definition time_dist :: "time_parser \<Rightarrow> oracle_alert \<Rightarrow> actual_alert \<Rightarrow> f64" where
  "time_dist dt e a = fabs (fsub (parse_time_approx dt (oa_emit_time e)) (parse_time_approx dt (aa_fired_at a)))"

definition score_dist :: "oracle_alert \<Rightarrow> actual_alert \<Rightarrow> f64" where
  "score_dist e a = fabs (fsub (oa_score e) (aa_score a))"

text \<open>The inner loop: the nearest unused alert, the first one among equals.\<close>

definition near_step ::
  "time_parser \<Rightarrow> oracle_alert \<Rightarrow> actual_alert list \<Rightarrow> bool list \<Rightarrow> nat option \<times> f64 \<Rightarrow> nat \<Rightarrow> nat option \<times> f64" where
  "near_step dt e actual used best j =
     (if used ! j then best
      else let dist = time_dist dt e (actual ! j) in
           if flt dist (snd best) then (Some j, dist) else best)"

definition nearest ::
  "time_parser \<Rightarrow> oracle_alert \<Rightarrow> actual_alert list \<Rightarrow> bool list \<Rightarrow> nat option \<times> f64" where
  "nearest dt e actual used = foldl (near_step dt e actual used) (None, f64_MAX) [0..<length actual]"

record match_state =
  ms_used :: "bool list"
  ms_paired :: "bool list"
  ms_matched :: nat
  ms_mismatches :: "(nat \<times> nat) list"

definition match_step ::
  "time_parser \<Rightarrow> f64 \<Rightarrow> f64 \<Rightarrow> oracle_alert list \<Rightarrow> actual_alert list \<Rightarrow> match_state \<Rightarrow> nat \<Rightarrow> match_state" where
  "match_step dt score_tol time_tol expected actual s ei =
     (case nearest dt (expected ! ei) actual (ms_used s) of
        (None, d) \<Rightarrow> s
      | (Some j, time_diff) \<Rightarrow>
          let s1 = s\<lparr>ms_used := (ms_used s)[j := True], ms_paired := (ms_paired s)[ei := True]\<rparr> in
          if fle (score_dist (expected ! ei) (actual ! j)) score_tol \<and> fle time_diff time_tol
          then s1\<lparr>ms_matched := ms_matched s1 + 1\<rparr>
          else s1\<lparr>ms_mismatches := ms_mismatches s1 @ [(ei, j)]\<rparr>)"

record match_result =
  mr_matched :: nat
  mr_mismatches :: "(nat \<times> nat) list"
  mr_missing :: "nat list"
  mr_unexpected :: "nat list"

definition unset_indices :: "bool list \<Rightarrow> nat list" where
  "unset_indices bs = filter (\<lambda>i. \<not> bs ! i) [0..<length bs]"

definition greedy_match ::
  "time_parser \<Rightarrow> oracle_alert list \<Rightarrow> actual_alert list \<Rightarrow> f64 \<Rightarrow> f64 \<Rightarrow> match_result" where
  "greedy_match dt expected actual score_tol time_tol =
     (let s = foldl (match_step dt score_tol time_tol expected actual)
                \<lparr>ms_used = replicate (length actual) False, ms_paired = replicate (length expected) False,
                 ms_matched = 0, ms_mismatches = []\<rparr> [0..<length expected]
      in \<lparr>mr_matched = ms_matched s, mr_mismatches = ms_mismatches s,
          mr_missing = unset_indices (ms_paired s), mr_unexpected = unset_indices (ms_used s)\<rparr>)"

section \<open>The report\<close>

definition match_key_expected :: "oracle_alert \<Rightarrow> match_key" where
  "match_key_expected a = (oa_rule_name a, oa_entity_type a, oa_entity_id a, oa_origin a)"

definition match_key_actual :: "actual_alert \<Rightarrow> match_key" where
  "match_key_actual a = (aa_rule_name a, aa_entity_type a, aa_entity_id a, aa_origin a)"

definition group_expected :: "oracle_alert list \<Rightarrow> (match_key \<rightharpoonup> oracle_alert list)" where
  "group_expected alerts = group_by match_key_expected alerts"

definition group_actual :: "actual_alert list \<Rightarrow> (match_key \<rightharpoonup> actual_alert list)" where
  "group_actual alerts = group_by match_key_actual alerts"

definition expected_detail :: "oracle_alert \<Rightarrow> alert_detail" where
  "expected_detail e = \<lparr>ad_rule_name = oa_rule_name e, ad_entity_type = oa_entity_type e,
     ad_entity_id = oa_entity_id e, ad_score = oa_score e, ad_time = oa_emit_time e\<rparr>"

definition actual_detail :: "actual_alert \<Rightarrow> alert_detail" where
  "actual_detail a = \<lparr>ad_rule_name = aa_rule_name a, ad_entity_type = aa_entity_type a,
     ad_entity_id = aa_entity_id a, ad_score = aa_score a, ad_time = aa_fired_at a\<rparr>"

definition pair_detail :: "oracle_alert \<Rightarrow> actual_alert \<Rightarrow> mismatch_detail" where
  "pair_detail e a = \<lparr>md_rule_name = oa_rule_name e, md_entity_type = oa_entity_type e,
     md_entity_id = oa_entity_id e, md_expected_score = oa_score e, md_actual_score = aa_score a,
     md_expected_time = oa_emit_time e, md_actual_time = aa_fired_at a\<rparr>"

record tally =
  ta_matched :: nat
  ta_missing :: nat
  ta_unexpected :: nat
  ta_mismatch :: nat
  ta_missing_details :: "alert_detail list"
  ta_unexpected_details :: "alert_detail list"
  ta_mismatch_details :: "mismatch_detail list"

definition tally0 :: tally where
  "tally0 = \<lparr>ta_matched = 0, ta_missing = 0, ta_unexpected = 0, ta_mismatch = 0,
     ta_missing_details = [], ta_unexpected_details = [], ta_mismatch_details = []\<rparr>"

definition tally_key ::
  "time_parser \<Rightarrow> f64 \<Rightarrow> f64 \<Rightarrow> (match_key \<rightharpoonup> oracle_alert list) \<Rightarrow> (match_key \<rightharpoonup> actual_alert list) \<Rightarrow>
   tally \<Rightarrow> match_key \<Rightarrow> tally" where
  "tally_key dt score_tol time_tol ge ga t key =
     (case (ge key, ga key) of
        (Some ex, Some ac) \<Rightarrow>
          let r = greedy_match dt ex ac score_tol time_tol in
          t\<lparr>ta_matched := ta_matched t + mr_matched r,
            ta_mismatch := ta_mismatch t + length (mr_mismatches r),
            ta_missing := ta_missing t + length (mr_missing r),
            ta_unexpected := ta_unexpected t + length (mr_unexpected r),
            ta_missing_details := ta_missing_details t @ map (\<lambda>i. expected_detail (ex ! i)) (mr_missing r),
            ta_unexpected_details := ta_unexpected_details t @ map (\<lambda>i. actual_detail (ac ! i)) (mr_unexpected r),
            ta_mismatch_details := ta_mismatch_details t @ map (\<lambda>(i, j). pair_detail (ex ! i) (ac ! j)) (mr_mismatches r)\<rparr>
      | (Some ex, None) \<Rightarrow>
          t\<lparr>ta_missing := ta_missing t + length ex,
            ta_missing_details := ta_missing_details t @ map expected_detail ex\<rparr>
      | (None, Some ac) \<Rightarrow>
          t\<lparr>ta_unexpected := ta_unexpected t + length ac,
            ta_unexpected_details := ta_unexpected_details t @ map actual_detail ac\<rparr>
      | (None, None) \<Rightarrow> t)"

definition all_keys ::
  "(match_key \<rightharpoonup> oracle_alert list) \<Rightarrow> match_key list \<Rightarrow> match_key list \<Rightarrow> match_key list" where
  "all_keys ge ke ka = ke @ filter (\<lambda>k. ge k = None) ka"

definition verify ::
  "time_parser \<Rightarrow> match_key list \<Rightarrow> match_key list \<Rightarrow> oracle_alert list \<Rightarrow> actual_alert list \<Rightarrow> f64 \<Rightarrow> f64 \<Rightarrow>
   verify_report" where
  "verify dt ke ka expected actual score_tol time_tol =
     (let ge = group_expected expected; ga = group_actual actual;
          t = foldl (tally_key dt score_tol time_tol ge ga) tally0 (all_keys ge ke ka)
      in \<lparr>vr_schema = ''wfgen-verify-report/v1'',
          vr_status = (if ta_missing t = 0 \<and> ta_unexpected t = 0 \<and> ta_mismatch t = 0
                       then ''pass'' else ''fail''),
          vr_summary = \<lparr>vs_oracle_total = length expected, vs_actual_total = length actual,
             vs_matched = ta_matched t, vs_missing = ta_missing t, vs_unexpected = ta_unexpected t,
             vs_field_mismatch = ta_mismatch t\<rparr>,
          vr_missing = ta_missing_details t, vr_unexpected = ta_unexpected_details t,
          vr_mismatch = ta_mismatch_details t\<rparr>)"

section \<open>The pairing\<close>

text \<open>The pairs a run of the outer loop has made, the matched ones \<open>P\<close> beside the recorded mismatches.\<close>

definition close :: "time_parser \<Rightarrow> f64 \<Rightarrow> f64 \<Rightarrow> oracle_alert \<Rightarrow> actual_alert \<Rightarrow> bool" where
  "close dt score_tol time_tol e a = (fle (score_dist e a) score_tol \<and> fle (time_dist dt e a) time_tol)"

lemma near_fold:
  assumes "foldl (near_step dt e actual used) (None, f64_MAX) [0..<k] = (b, d)" "k \<le> length actual"
  shows "(case b of None \<Rightarrow> d = f64_MAX | Some j \<Rightarrow> j < k \<and> \<not> used ! j \<and> d = time_dist dt e (actual ! j))"
  using assms
proof (induction k arbitrary: b d)
  case (Suc k)
  obtain b' d' where f: "foldl (near_step dt e actual used) (None, f64_MAX) [0..<k] = (b', d')"
    by (cases "foldl (near_step dt e actual used) (None, f64_MAX) [0..<k]")
  have "(b, d) = near_step dt e actual used (b', d') k" using Suc.prems(1) f by simp
  then show ?case using Suc.IH [OF f] Suc.prems(2)
    by (auto simp: near_step_def Let_def split: if_splits option.splits)
qed auto

lemma nearest_Some:
  "nearest dt e actual used = (Some j, d) \<Longrightarrow> j < length actual \<and> \<not> used ! j \<and> d = time_dist dt e (actual ! j)"
  using near_fold [of dt e actual used "length actual" "Some j" d] by (simp add: nearest_def)

definition pairing_ok ::
  "time_parser \<Rightarrow> f64 \<Rightarrow> f64 \<Rightarrow> oracle_alert list \<Rightarrow> actual_alert list \<Rightarrow> nat \<Rightarrow> match_state \<Rightarrow> (nat \<times> nat) list \<Rightarrow> bool" where
  "pairing_ok dt st tt ex ac k s P =
     (length (ms_used s) = length ac \<and> length (ms_paired s) = length ex \<and> length P = ms_matched s \<and>
      distinct (map fst (P @ ms_mismatches s)) \<and> distinct (map snd (P @ ms_mismatches s)) \<and>
      set (map fst (P @ ms_mismatches s)) = {i. i < length ex \<and> ms_paired s ! i} \<and>
      set (map snd (P @ ms_mismatches s)) = {j. j < length ac \<and> ms_used s ! j} \<and>
      (\<forall>i < length ex. ms_paired s ! i \<longrightarrow> i < k) \<and>
      (\<forall>(i, j) \<in> set P. close dt st tt (ex ! i) (ac ! j)) \<and>
      (\<forall>(i, j) \<in> set (ms_mismatches s). \<not> close dt st tt (ex ! i) (ac ! j)))"

lemma match_step_pairing:
  assumes "pairing_ok dt st tt ex ac k s P" "k < length ex"
  shows "\<exists>P'. pairing_ok dt st tt ex ac (Suc k) (match_step dt st tt ex ac s k) P'"
proof -
  obtain b d where n: "nearest dt (ex ! k) ac (ms_used s) = (b, d)" by (cases "nearest dt (ex ! k) ac (ms_used s)")
  show ?thesis
  proof (cases b)
    case None
    then have "match_step dt st tt ex ac s k = s" using n by (simp add: match_step_def)
    then show ?thesis using assms(1) by (auto simp: pairing_ok_def less_Suc_eq intro!: exI [of _ P])
  next
    case (Some j)
    have j: "j < length ac" "\<not> ms_used s ! j" "d = time_dist dt (ex ! k) (ac ! j)"
      using nearest_Some n Some by blast+
    have k: "\<not> ms_paired s ! k" using assms by (auto simp: pairing_ok_def)
    have nf: "k \<notin> fst ` set (P @ ms_mismatches s)" "j \<notin> snd ` set (P @ ms_mismatches s)"
      using assms(1) k j(2) unfolding pairing_ok_def set_map by auto
    show ?thesis
    proof (cases "close dt st tt (ex ! k) (ac ! j)")
      case True
      then have m: "match_step dt st tt ex ac s k = s\<lparr>ms_used := (ms_used s)[j := True],
          ms_paired := (ms_paired s)[k := True], ms_matched := ms_matched s + 1\<rparr>"
        using n Some j(3) by (simp add: match_step_def close_def)
      have "pairing_ok dt st tt ex ac (Suc k) (match_step dt st tt ex ac s k) ((k, j) # P)"
        using assms nf True j(1) unfolding m pairing_ok_def
        by (auto simp: nth_list_update less_Suc_eq)
      then show ?thesis by blast
    next
      case False
      then have m: "match_step dt st tt ex ac s k = s\<lparr>ms_used := (ms_used s)[j := True],
          ms_paired := (ms_paired s)[k := True], ms_mismatches := ms_mismatches s @ [(k, j)]\<rparr>"
        using n Some j(3) by (auto simp: match_step_def close_def)
      have "pairing_ok dt st tt ex ac (Suc k) (match_step dt st tt ex ac s k) P"
        using assms nf False j(1) unfolding m pairing_ok_def
        by (auto simp: nth_list_update less_Suc_eq)
      then show ?thesis by blast
    qed
  qed
qed


lemma match_fold_pairing:
  assumes "pairing_ok dt st tt ex ac 0 s []"
  shows "k \<le> length ex \<Longrightarrow> \<exists>P. pairing_ok dt st tt ex ac k (foldl (match_step dt st tt ex ac) s [0..<k]) P"
proof (induction k)
  case 0
  then show ?case using assms by auto
next
  case (Suc k)
  then obtain P where "pairing_ok dt st tt ex ac k (foldl (match_step dt st tt ex ac) s [0..<k]) P" by auto
  from match_step_pairing [OF this] Suc.prems show ?case by simp
qed

lemma unset_indices: "distinct (unset_indices bs) \<and> set (unset_indices bs) = {i. i < length bs \<and> \<not> bs ! i}"
  by (auto simp: unset_indices_def)

text \<open>The pairing of one group as alerts instead of indices.\<close>

lemma greedy_match_pairs:
  fixes dt st tt ex ac
  defines "r \<equiv> greedy_match dt ex ac st tt"
  obtains P where "length P = mr_matched r"
    "mset (map (\<lambda>p. ex ! fst p) (P @ mr_mismatches r)) + mset (map (\<lambda>i. ex ! i) (mr_missing r)) = mset ex"
    "mset (map (\<lambda>p. ac ! snd p) (P @ mr_mismatches r)) + mset (map (\<lambda>j. ac ! j) (mr_unexpected r)) = mset ac"
    "\<forall>(i, j) \<in> set P. i < length ex \<and> j < length ac \<and> close dt st tt (ex ! i) (ac ! j)"
    "\<forall>(i, j) \<in> set (mr_mismatches r). i < length ex \<and> j < length ac \<and> \<not> close dt st tt (ex ! i) (ac ! j)"
proof -
  define s0 where "s0 = \<lparr>ms_used = replicate (length ac) False, ms_paired = replicate (length ex) False,
                 ms_matched = 0, ms_mismatches = []\<rparr>"
  define s where "s = foldl (match_step dt st tt ex ac) s0 [0..<length ex]"
  have "pairing_ok dt st tt ex ac 0 s0 []" by (simp add: pairing_ok_def s0_def)
  then obtain P where P: "pairing_ok dt st tt ex ac (length ex) s P"
    using match_fold_pairing unfolding s_def by blast
  have r: "r = \<lparr>mr_matched = ms_matched s, mr_mismatches = ms_mismatches s,
          mr_missing = unset_indices (ms_paired s), mr_unexpected = unset_indices (ms_used s)\<rparr>"
    by (simp add: r_def greedy_match_def s_def s0_def Let_def)
  let ?I = "map fst (P @ ms_mismatches s)" and ?J = "map snd (P @ ms_mismatches s)"
  have I: "distinct ?I" "set ?I = {i. i < length ex \<and> ms_paired s ! i}" "length (ms_paired s) = length ex"
    and J: "distinct ?J" "set ?J = {j. j < length ac \<and> ms_used s ! j}" "length (ms_used s) = length ac"
    and M: "length P = ms_matched s" "\<forall>(i, j) \<in> set P. close dt st tt (ex ! i) (ac ! j)"
      "\<forall>(i, j) \<in> set (ms_mismatches s). \<not> close dt st tt (ex ! i) (ac ! j)"
    using P unfolding pairing_ok_def by blast+
  have "mset (map (\<lambda>i. ex ! i) (?I @ unset_indices (ms_paired s))) = mset ex"
    by (rule mset_nth_indices) (use I(1,2) unset_indices [of "ms_paired s"] I(3) in auto)
  moreover have "mset (map (\<lambda>j. ac ! j) (?J @ unset_indices (ms_used s))) = mset ac"
    by (rule mset_nth_indices) (use J(1,2) unset_indices [of "ms_used s"] J(3) in auto)
  moreover have "\<forall>(i, j) \<in> set (P @ ms_mismatches s). i < length ex \<and> j < length ac"
  proof clarify
    fix i j assume "(i, j) \<in> set (P @ ms_mismatches s)"
    then have "i \<in> set ?I" "j \<in> set ?J" by force+
    then show "i < length ex \<and> j < length ac" unfolding I(2) J(2) by simp
  qed
  ultimately show thesis using M
    by (intro that [of P]; simp add: r o_def add.assoc; fastforce)
qed

text \<open>What a tally says of the alerts \<open>E\<close> and \<open>A\<close> it has gone over.\<close>

definition accounts ::
  "time_parser \<Rightarrow> f64 \<Rightarrow> f64 \<Rightarrow> oracle_alert multiset \<Rightarrow> actual_alert multiset \<Rightarrow> nat \<Rightarrow> nat \<Rightarrow> nat \<Rightarrow> nat \<Rightarrow>
   alert_detail list \<Rightarrow> alert_detail list \<Rightarrow> mismatch_detail list \<Rightarrow> bool" where
  "accounts dt st tt E A nm nmis nun nx dmis dun dx =
     (\<exists>Mp Xp U V.
        mset (map fst (Mp @ Xp)) + mset U = E \<and> mset (map snd (Mp @ Xp)) + mset V = A \<and>
        length Mp = nm \<and> length U = nmis \<and> length V = nun \<and> length Xp = nx \<and>
        dmis = map expected_detail U \<and> dun = map actual_detail V \<and>
        dx = map (\<lambda>(e, a). pair_detail e a) Xp \<and>
        (\<forall>(e, a) \<in> set Mp. match_key_expected e = match_key_actual a \<and> close dt st tt e a) \<and>
        (\<forall>(e, a) \<in> set Xp. match_key_expected e = match_key_actual a \<and> \<not> close dt st tt e a))"

definition tally_accounts where
  "tally_accounts dt st tt E A t =
     accounts dt st tt E A (ta_matched t) (ta_missing t) (ta_unexpected t) (ta_mismatch t)
       (ta_missing_details t) (ta_unexpected_details t) (ta_mismatch_details t)"

lemma tally_accountsI:
  assumes "mset (map fst (Mp @ Xp)) + mset U = E" "mset (map snd (Mp @ Xp)) + mset V = A"
    "length Mp = ta_matched t" "length U = ta_missing t" "length V = ta_unexpected t" "length Xp = ta_mismatch t"
    "ta_missing_details t = map expected_detail U" "ta_unexpected_details t = map actual_detail V"
    "ta_mismatch_details t = map (\<lambda>(e, a). pair_detail e a) Xp"
    "\<forall>(e, a) \<in> set Mp. match_key_expected e = match_key_actual a \<and> close dt st tt e a"
    "\<forall>(e, a) \<in> set Xp. match_key_expected e = match_key_actual a \<and> \<not> close dt st tt e a"
  shows "tally_accounts dt st tt E A t"
  unfolding tally_accounts_def accounts_def using assms by blast

lemma tally_key_accounts:
  assumes "tally_accounts dt st tt E A t"
  shows "tally_accounts dt st tt (E + mset (filter (\<lambda>a. match_key_expected a = k) expected))
           (A + mset (filter (\<lambda>a. match_key_actual a = k) actual))
           (tally_key dt st tt (group_expected expected) (group_actual actual) t k)"
proof -
  obtain Mp Xp U V where t: "mset (map fst (Mp @ Xp)) + mset U = E" "mset (map snd (Mp @ Xp)) + mset V = A"
    "length Mp = ta_matched t" "length U = ta_missing t" "length V = ta_unexpected t" "length Xp = ta_mismatch t"
    "ta_missing_details t = map expected_detail U" "ta_unexpected_details t = map actual_detail V"
    "ta_mismatch_details t = map (\<lambda>(e, a). pair_detail e a) Xp"
    "\<forall>(e, a) \<in> set Mp. match_key_expected e = match_key_actual a \<and> close dt st tt e a"
    "\<forall>(e, a) \<in> set Xp. match_key_expected e = match_key_actual a \<and> \<not> close dt st tt e a"
    using assms unfolding tally_accounts_def accounts_def by blast
  let ?ex = "filter (\<lambda>a. match_key_expected a = k) expected" and ?ac = "filter (\<lambda>a. match_key_actual a = k) actual"
  have noE: "k \<notin> match_key_expected ` set expected \<Longrightarrow> ?ex = []" by (auto simp: filter_empty_conv)
  have noA: "k \<notin> match_key_actual ` set actual \<Longrightarrow> ?ac = []" by (auto simp: filter_empty_conv)
  have ge: "group_expected expected k = (if k \<in> match_key_expected ` set expected then Some ?ex else None)"
    and ga: "group_actual actual k = (if k \<in> match_key_actual ` set actual then Some ?ac else None)"
    by (simp_all add: group_expected_def group_actual_def group_by_eq)
  show ?thesis
  proof (cases "k \<in> match_key_expected ` set expected \<and> k \<in> match_key_actual ` set actual")
    case False
    then show ?thesis using t noE noA
      by (intro tally_accountsI [of Mp Xp "U @ ?ex" _ "V @ ?ac"])
        (auto simp: tally_key_def ge ga split: option.splits)
  next
    case True
    define r where "r = greedy_match dt ?ex ?ac st tt"
    obtain P where P: "length P = mr_matched r"
      "mset (map (\<lambda>p. ?ex ! fst p) (P @ mr_mismatches r)) + mset (map (\<lambda>i. ?ex ! i) (mr_missing r)) = mset ?ex"
      "mset (map (\<lambda>p. ?ac ! snd p) (P @ mr_mismatches r)) + mset (map (\<lambda>j. ?ac ! j) (mr_unexpected r)) = mset ?ac"
      "\<forall>(i, j) \<in> set P. i < length ?ex \<and> j < length ?ac \<and> close dt st tt (?ex ! i) (?ac ! j)"
      "\<forall>(i, j) \<in> set (mr_mismatches r). i < length ?ex \<and> j < length ?ac \<and> \<not> close dt st tt (?ex ! i) (?ac ! j)"
      using greedy_match_pairs [of dt ?ex ?ac st tt] unfolding r_def by blast
    have key: "match_key_expected (?ex ! i) = match_key_actual (?ac ! j)" if "i < length ?ex" "j < length ?ac" for i j
      using nth_mem [OF that(1)] nth_mem [OF that(2)] by simp
    let ?f = "\<lambda>p. (?ex ! fst p, ?ac ! snd p)"
    show ?thesis
    proof (rule tally_accountsI [of "Mp @ map ?f P" "Xp @ map ?f (mr_mismatches r)" "U @ map (\<lambda>i. ?ex ! i) (mr_missing r)"
        _ "V @ map (\<lambda>j. ?ac ! j) (mr_unexpected r)"])
      show "mset (map fst ((Mp @ map ?f P) @ Xp @ map ?f (mr_mismatches r))) + mset (U @ map (\<lambda>i. ?ex ! i) (mr_missing r)) = E + mset ?ex"
        unfolding t(1) [symmetric] P(2) [symmetric] by (simp add: o_def)
      show "mset (map snd ((Mp @ map ?f P) @ Xp @ map ?f (mr_mismatches r))) + mset (V @ map (\<lambda>j. ?ac ! j) (mr_unexpected r)) = A + mset ?ac"
        unfolding t(2) [symmetric] P(3) [symmetric] by (simp add: o_def)
      show "\<forall>(e, a) \<in> set (Mp @ map ?f P). match_key_expected e = match_key_actual a \<and> close dt st tt e a"
        using t(10) P(4) key by fastforce
      show "\<forall>(e, a) \<in> set (Xp @ map ?f (mr_mismatches r)). match_key_expected e = match_key_actual a \<and> \<not> close dt st tt e a"
        using t(11) P(5) key by fastforce
    qed (use True t P(1) in \<open>simp_all add: tally_key_def ge ga r_def [symmetric] Let_def o_def split_def\<close>)
  qed
qed


section \<open>Properties of the report\<close>

lemma all_keys_order:
  assumes "key_order ge ke" "key_order ga ka"
  shows "distinct (all_keys ge ke ka)" "set (all_keys ge ke ka) = dom ge \<union> dom ga"
  using assms by (auto simp: all_keys_def key_order_def dom_def)

lemma tally_fold_accounts:
  "tally_accounts dt st tt
     (\<Sum>k\<leftarrow>ks. mset (filter (\<lambda>a. match_key_expected a = k) expected))
     (\<Sum>k\<leftarrow>ks. mset (filter (\<lambda>a. match_key_actual a = k) actual))
     (foldl (tally_key dt st tt (group_expected expected) (group_actual actual)) tally0 ks)"
proof (induction ks rule: rev_induct)
  case Nil
  show ?case by (rule tally_accountsI [of "[]" "[]" "[]" _ "[]"]) (simp_all add: tally0_def)
next
  case (snoc k ks)
  then show ?case using tally_key_accounts [OF snoc] by simp
qed

lemma verify_accounts_aux:
  assumes "key_order (group_expected expected) ke" "key_order (group_actual actual) ka"
  shows "tally_accounts dt st tt (mset expected) (mset actual)
    (foldl (tally_key dt st tt (group_expected expected) (group_actual actual)) tally0
       (all_keys (group_expected expected) ke ka))"
proof -
  note K = all_keys_order [OF assms]
  let ?ks = "all_keys (group_expected expected) ke ka"
  have e: "match_key_expected ` set expected \<subseteq> set ?ks" and a: "match_key_actual ` set actual \<subseteq> set ?ks"
    using K(2) by (auto simp: group_expected_def group_actual_def dom_group_by)
  show ?thesis
    using tally_fold_accounts [of dt st tt expected ?ks actual]
    unfolding mset_filter_classes [OF K(1) e] mset_filter_classes [OF K(1) a] .
qed

text \<open>
  C6: a verify report accounts for every alert exactly once, whatever order the hash maps
  yield: the oracle's alerts are the matched, the mismatched and the missing ones, the
  engine's are the matched, the mismatched and the unexpected ones, the totals add up, the
  detail lists describe exactly the alerts counted, a matched pair agrees in its match key
  and within both tolerances, and a mismatched pair agrees in its key but not in these.
\<close>

theorem verify_accounting:
  assumes "key_order (group_expected expected) ke" "key_order (group_actual actual) ka"
    and "r = verify dt ke ka expected actual st tt"
  shows "\<exists>Mp Xp U V.
      mset expected = mset (map fst (Mp @ Xp) @ U) \<and> mset actual = mset (map snd (Mp @ Xp) @ V) \<and>
      (\<forall>(e, a) \<in> set Mp. match_key_expected e = match_key_actual a \<and> close dt st tt e a) \<and>
      (\<forall>(e, a) \<in> set Xp. match_key_expected e = match_key_actual a \<and> \<not> close dt st tt e a) \<and>
      vr_missing r = map expected_detail U \<and> vr_unexpected r = map actual_detail V \<and>
      vr_mismatch r = map (\<lambda>(e, a). pair_detail e a) Xp \<and>
      vr_summary r = \<lparr>vs_oracle_total = length Mp + length Xp + length U,
        vs_actual_total = length Mp + length Xp + length V, vs_matched = length Mp,
        vs_missing = length U, vs_unexpected = length V, vs_field_mismatch = length Xp\<rparr> \<and>
      (vr_status r = ''pass'' \<longleftrightarrow> U = [] \<and> V = [] \<and> Xp = [])"
proof -
  define t where "t = foldl (tally_key dt st tt (group_expected expected) (group_actual actual)) tally0
       (all_keys (group_expected expected) ke ka)"
  have "tally_accounts dt st tt (mset expected) (mset actual) t"
    using verify_accounts_aux [OF assms(1,2)] by (simp add: t_def)
  then obtain Mp Xp U V where a: "mset (map fst (Mp @ Xp)) + mset U = mset expected"
    "mset (map snd (Mp @ Xp)) + mset V = mset actual"
    "length Mp = ta_matched t" "length U = ta_missing t" "length V = ta_unexpected t" "length Xp = ta_mismatch t"
    "ta_missing_details t = map expected_detail U" "ta_unexpected_details t = map actual_detail V"
    "ta_mismatch_details t = map (\<lambda>(e, a). pair_detail e a) Xp"
    "\<forall>(e, a) \<in> set Mp. match_key_expected e = match_key_actual a \<and> close dt st tt e a"
    "\<forall>(e, a) \<in> set Xp. match_key_expected e = match_key_actual a \<and> \<not> close dt st tt e a"
    unfolding tally_accounts_def accounts_def by blast
  have l: "length expected = length Mp + length Xp + length U" "length actual = length Mp + length Xp + length V"
    using arg_cong [OF a(1), of size] arg_cong [OF a(2), of size] by simp_all
  show ?thesis
    by (rule exI [of _ Mp], rule exI [of _ Xp], rule exI [of _ U], rule exI [of _ V])
      (use a l in \<open>simp add: assms(3) verify_def t_def [symmetric] Let_def add.assoc
         flip: a(1,2) length_0_conv\<close>)
qed

subsection \<open>Independence of the hash order\<close>

lemma tally_key_add:
  "ta_matched (tally_key dt st tt ge ga t k) = ta_matched t + ta_matched (tally_key dt st tt ge ga tally0 k)"
  "ta_missing (tally_key dt st tt ge ga t k) = ta_missing t + ta_missing (tally_key dt st tt ge ga tally0 k)"
  "ta_unexpected (tally_key dt st tt ge ga t k) = ta_unexpected t + ta_unexpected (tally_key dt st tt ge ga tally0 k)"
  "ta_mismatch (tally_key dt st tt ge ga t k) = ta_mismatch t + ta_mismatch (tally_key dt st tt ge ga tally0 k)"
  by (auto simp: tally_key_def tally0_def Let_def split: option.splits)

lemma foldl_additive:
  "(\<And>t k. f (step t k) = f t + (g k :: nat)) \<Longrightarrow> f (foldl step t ks) = f t + (\<Sum>k\<leftarrow>ks. g k)"
  by (induction ks arbitrary: t) simp_all

lemma tally_fold_add:
  "ta_matched (foldl (tally_key dt st tt ge ga) t ks) = ta_matched t + (\<Sum>k\<leftarrow>ks. ta_matched (tally_key dt st tt ge ga tally0 k))"
  "ta_missing (foldl (tally_key dt st tt ge ga) t ks) = ta_missing t + (\<Sum>k\<leftarrow>ks. ta_missing (tally_key dt st tt ge ga tally0 k))"
  "ta_unexpected (foldl (tally_key dt st tt ge ga) t ks) = ta_unexpected t + (\<Sum>k\<leftarrow>ks. ta_unexpected (tally_key dt st tt ge ga tally0 k))"
  "ta_mismatch (foldl (tally_key dt st tt ge ga) t ks) = ta_mismatch t + (\<Sum>k\<leftarrow>ks. ta_mismatch (tally_key dt st tt ge ga tally0 k))"
  by (rule foldl_additive, rule tally_key_add)+

lemma all_keys_perm:
  assumes "key_order ge ke" "key_order ga ka" "key_order ge ke'" "key_order ga ka'"
  shows "mset (all_keys ge ke ka) = mset (all_keys ge ke' ka')"
  using all_keys_order [OF assms(1,2)] all_keys_order [OF assms(3,4)]
  by (metis set_eq_iff_mset_eq_distinct)

lemma sum_list_perm: "mset xs = mset ys \<Longrightarrow> (\<Sum>x\<leftarrow>xs. f x) = ((\<Sum>x\<leftarrow>ys. f x) :: nat)"
  by (metis mset_map sum_mset_sum_list)

subsection \<open>Verifying an alert stream against itself\<close>

definition as_actual :: "oracle_alert \<Rightarrow> actual_alert" where
  "as_actual e = \<lparr>aa_rule_name = oa_rule_name e, aa_score = oa_score e, aa_entity_type = oa_entity_type e,
     aa_entity_id = oa_entity_id e, aa_origin = oa_origin e, aa_fired_at = oa_emit_time e\<rparr>"

definition is_finite :: "f64 \<Rightarrow> bool" where
  "is_finite x = (case x of Fin s m e \<Rightarrow> True | _ \<Rightarrow> False)"

definition finite_alert :: "time_parser \<Rightarrow> oracle_alert \<Rightarrow> bool" where
  "finite_alert dt e = (is_finite (oa_score e) \<and> is_finite (parse_time_approx dt (oa_emit_time e)))"

lemma fsub_self: "is_finite x \<Longrightarrow> fabs (fsub x x) = f64_zero"
  by (cases x) (auto simp: is_finite_def fsub_def f64_zero_def sval_def Let_def)

lemma self_dist:
  "finite_alert dt e \<Longrightarrow> time_dist dt e (as_actual e) = f64_zero"
  "finite_alert dt e \<Longrightarrow> score_dist e (as_actual e) = f64_zero"
  by (simp_all add: finite_alert_def time_dist_def score_dist_def as_actual_def fsub_self)

lemma zero_lt_MAX: "flt f64_zero f64_MAX"
  by (simp add: f64_zero_def f64_MAX_def fin_lt_def sval_def)

lemma nearest_self:
  assumes "i < length ex" "finite_alert dt (ex ! i)"
  shows "nearest dt (ex ! i) (map as_actual ex) (map (\<lambda>j. j < i) [0..<length ex]) = (Some i, f64_zero)"
proof -
  let ?f = "near_step dt (ex ! i) (map as_actual ex) (map (\<lambda>j. j < i) [0..<length ex])"
  have "foldl ?f (None, f64_MAX) [0..<k] = (if k \<le> i then (None, f64_MAX) else (Some i, f64_zero))"
    if "k \<le> length ex" for k
    using that
  proof (induction k)
    case (Suc k)
    consider "k < i" | "k = i" | "i < k" by linarith
    then show ?case
    proof cases
      case 1
      then show ?thesis using Suc assms(1) by (simp add: near_step_def)
    next
      case 2
      then show ?thesis using Suc assms self_dist(1) [OF assms(2)] zero_lt_MAX
        by (simp add: near_step_def Let_def)
    next
      case 3
      then show ?thesis using Suc assms(1) by (simp add: near_step_def Let_def time_dist_def fabs_not_neg)
    qed
  qed simp
  then show ?thesis using assms(1) by (simp add: nearest_def)
qed

lemma greedy_self:
  assumes "list_all (finite_alert dt) ex" "fle f64_zero st" "fle f64_zero tt"
  shows "greedy_match dt ex (map as_actual ex) st tt =
    \<lparr>mr_matched = length ex, mr_mismatches = [], mr_missing = [], mr_unexpected = []\<rparr>"
proof -
  have "foldl (match_step dt st tt ex (map as_actual ex))
      \<lparr>ms_used = replicate (length ex) False, ms_paired = replicate (length ex) False, ms_matched = 0, ms_mismatches = []\<rparr> [0..<k]
    = \<lparr>ms_used = map (\<lambda>j. j < k) [0..<length ex], ms_paired = map (\<lambda>j. j < k) [0..<length ex], ms_matched = k, ms_mismatches = []\<rparr>"
    if "k \<le> length ex" for k
    using that
  proof (induction k)
    case 0
    then show ?case by (auto intro!: nth_equalityI)
  next
    case (Suc k)
    have fin: "finite_alert dt (ex ! k)" using assms(1) Suc.prems by (simp add: list_all_length)
    have upd: "(map (\<lambda>j. j < k) [0..<length ex])[k := True] = map (\<lambda>j. j < Suc k) [0..<length ex]"
      using Suc.prems by (intro nth_equalityI) (auto simp: nth_list_update)
    show ?case using Suc nearest_self [OF _ fin] self_dist(2) [OF fin] assms(2,3)
      by (simp add: match_step_def upd)
  qed
  from this [of "length ex"] show ?thesis
    by (simp add: greedy_match_def Let_def unset_indices_def)
qed


lemma group_as_actual:
  "group_actual (map as_actual xs) k = map_option (map as_actual) (group_expected xs k)"
  by (auto simp: group_actual_def group_expected_def group_by_eq filter_map o_def
      match_key_actual_def match_key_expected_def as_actual_def image_image)

lemma tally_self:
  fixes k
  assumes "list_all (finite_alert dt) xs" "fle f64_zero st" "fle f64_zero tt"
  defines "u \<equiv> tally_key dt st tt (group_expected xs) (group_actual (map as_actual xs)) tally0 k"
  shows "ta_missing u = 0 \<and> ta_unexpected u = 0 \<and> ta_mismatch u = 0"
proof (cases "group_expected xs k")
  case None
  then show ?thesis by (simp add: u_def tally_key_def group_as_actual tally0_def)
next
  case (Some ex)
  then have "list_all (finite_alert dt) ex"
    using assms(1) by (auto simp: group_expected_def group_by_eq list_all_iff split: if_splits)
  from greedy_self [OF this assms(2,3)] show ?thesis
    using Some by (simp add: u_def tally_key_def group_as_actual tally0_def)
qed

text \<open>
  C7: the status and the summary of a verify report do not depend on the order in which the
  hash maps yield their keys, and an engine that raises exactly the oracle's alerts (finite
  scores and times, tolerances that are not negative) passes with every alert matched.
\<close>

theorem verify_deterministic_and_reflexive:
  assumes "key_order (group_expected expected) ke" "key_order (group_actual actual) ka"
    and "key_order (group_expected expected) ke'" "key_order (group_actual actual) ka'"
  shows "vr_summary (verify dt ke ka expected actual st tt) = vr_summary (verify dt ke' ka' expected actual st tt) \<and>
    vr_status (verify dt ke ka expected actual st tt) = vr_status (verify dt ke' ka' expected actual st tt) \<and>
    (actual = map as_actual expected \<and> list_all (finite_alert dt) expected \<and> fle f64_zero st \<and> fle f64_zero tt \<longrightarrow>
       vr_status (verify dt ke ka expected actual st tt) = ''pass'' \<and>
       vs_matched (vr_summary (verify dt ke ka expected actual st tt)) = length expected)"
proof -
  note P = sum_list_perm [OF all_keys_perm [OF assms]]
  have eq: "vr_summary (verify dt ke ka expected actual st tt) = vr_summary (verify dt ke' ka' expected actual st tt)"
    "vr_status (verify dt ke ka expected actual st tt) = vr_status (verify dt ke' ka' expected actual st tt)"
    by (simp_all only: verify_def Let_def tally_fold_add P verify_report.select_convs)
  have "vr_status (verify dt ke ka expected actual st tt) = ''pass''"
    if "actual = map as_actual expected" "list_all (finite_alert dt) expected" "fle f64_zero st" "fle f64_zero tt"
    using tally_self [OF that(2-4)] that(1) by (simp add: verify_def Let_def tally_fold_add tally0_def)
  moreover have "vs_matched (vr_summary (verify dt ke ka expected actual st tt)) = length expected"
    if "vr_status (verify dt ke ka expected actual st tt) = ''pass''"
    using verify_accounting [OF assms(1,2) refl, of dt st tt] that by (auto dest: arg_cong [of _ _ size])
  ultimately show ?thesis using eq by blast
qed


section \<open>Concrete runs\<close>

definition ex_dt :: time_parser where
  "ex_dt s = (if s = ''t0'' then Some (100, 0) else if s = ''t1'' then Some (101, 500) else None)"

definition ex_alert :: "nat \<Rightarrow> string \<Rightarrow> oracle_alert" where
  "ex_alert score t = \<lparr>oa_rule_name = ''r'', oa_score = f64_of_nat score, oa_entity_type = ''ip'',
     oa_entity_id = ''a'', oa_origin = ''o'', oa_emit_time = t, oa_fields = []\<rparr>"

abbreviation ex_key :: match_key where
  "ex_key \<equiv> (''r'', ''ip'', ''a'', ''o'')"

lemma ex_key_order:
  "key_order (group_expected [ex_alert n t, ex_alert m u]) [ex_key]"
  "key_order (group_actual (map as_actual [ex_alert n t, ex_alert m u])) [ex_key]"
  by (auto simp: key_order_def group_expected_def group_actual_def dom_group_by match_key_expected_def
      match_key_actual_def ex_alert_def as_actual_def)

lemma ex_finite: "finite_alert ex_dt (ex_alert 50 ''t0'')" "finite_alert ex_dt (ex_alert 70 ''t1'')"
  "finite_alert ex_dt (ex_alert 70 ''t0'')"
  by (simp_all add: finite_alert_def is_finite_def parse_time_approx_def ex_dt_def ex_alert_def f64_eval)

theorem verify_accounting_witness:
  "\<exists>r. r = verify ex_dt [ex_key] [ex_key] [ex_alert 50 ''t0'', ex_alert 70 ''t1'']
         (map as_actual [ex_alert 70 ''t1'', ex_alert 50 ''t0'']) f64_zero f64_zero \<and>
     vs_matched (vr_summary r) + vs_field_mismatch (vr_summary r) + vs_missing (vr_summary r) = 2 \<and>
     length (vr_missing r) = vs_missing (vr_summary r)"
proof -
  define r where "r = verify ex_dt [ex_key] [ex_key] [ex_alert 50 ''t0'', ex_alert 70 ''t1'']
         (map as_actual [ex_alert 70 ''t1'', ex_alert 50 ''t0'']) f64_zero f64_zero"
  obtain Mp :: "(oracle_alert \<times> actual_alert) list" and Xp U and V :: "actual_alert list"
    where m: "mset [ex_alert 50 ''t0'', ex_alert 70 ''t1''] = mset (map fst (Mp @ Xp) @ U)"
      and d: "vr_missing r = map expected_detail U"
      and v: "vr_summary r = \<lparr>vs_oracle_total = length Mp + length Xp + length U,
        vs_actual_total = length Mp + length Xp + length V, vs_matched = length Mp,
        vs_missing = length U, vs_unexpected = length V, vs_field_mismatch = length Xp\<rparr>"
    using verify_accounting [OF ex_key_order r_def] by (elim exE conjE) (rule that, assumption+)
  have "length Mp + length Xp + length U = 2" using arg_cong [OF m, of size] by simp
  then have "r = r \<and> vs_matched (vr_summary r) + vs_field_mismatch (vr_summary r) + vs_missing (vr_summary r) = 2 \<and>
     length (vr_missing r) = vs_missing (vr_summary r)"
    using d v by simp
  then show ?thesis unfolding r_def by blast
qed

theorem verify_deterministic_and_reflexive_witness:
  "vr_status (verify ex_dt [ex_key] [ex_key] [ex_alert 50 ''t0'', ex_alert 70 ''t1'']
     (map as_actual [ex_alert 50 ''t0'', ex_alert 70 ''t1'']) f64_zero f64_zero) = ''pass''"
  using verify_deterministic_and_reflexive [OF ex_key_order(1) [of 50 "''t0''" 70 "''t1''"] ex_key_order(2) [of 50 "''t0''" 70 "''t1''"]
      ex_key_order(1) [of 50 "''t0''" 70 "''t1''"] ex_key_order(2) [of 50 "''t0''" 70 "''t1''"], of ex_dt f64_zero f64_zero]
    ex_finite by (simp add: f64_eval)

text \<open>
  The pairing is greedy in the order of the expected alerts and looks at the time only: two
  alerts of one key raised at the same instant with different scores are paired crosswise when
  the engine lists them in the other order, and the report fails although each alert has an
  exact counterpart.
\<close>

lemma same_time_swap_fails:
  "vr_status (verify ex_dt [ex_key] [ex_key] [ex_alert 50 ''t0'', ex_alert 70 ''t0'']
     (map as_actual [ex_alert 70 ''t0'', ex_alert 50 ''t0'']) f64_zero f64_zero) = ''fail''"
proof -
  have d: "time_dist ex_dt (ex_alert n ''t0'') (as_actual (ex_alert m ''t0'')) = f64_zero" for n m
    by (simp add: time_dist_def parse_time_approx_def ex_dt_def ex_alert_def as_actual_def f64_eval)
  have s: "\<not> fle (score_dist (ex_alert 50 ''t0'') (as_actual (ex_alert 70 ''t0''))) f64_zero"
    by (simp add: score_dist_def ex_alert_def as_actual_def f64_eval)
  have g: "group_expected [ex_alert 50 ''t0'', ex_alert 70 ''t0''] ex_key = Some [ex_alert 50 ''t0'', ex_alert 70 ''t0'']"
    "group_actual [as_actual (ex_alert 70 ''t0''), as_actual (ex_alert 50 ''t0'')] ex_key =
       Some [as_actual (ex_alert 70 ''t0''), as_actual (ex_alert 50 ''t0'')]"
    by (simp_all add: group_expected_def group_actual_def group_by_eq match_key_expected_def
        match_key_actual_def ex_alert_def as_actual_def)
  have n: "nearest ex_dt (ex_alert 50 ''t0'') [as_actual (ex_alert 70 ''t0''), as_actual (ex_alert 50 ''t0'')] [False, False]
     = (Some 0, f64_zero)"
    using d zero_lt_MAX by (simp add: nearest_def near_step_def)
  have "0 < length (mr_mismatches (greedy_match ex_dt [ex_alert 50 ''t0'', ex_alert 70 ''t0'']
     [as_actual (ex_alert 70 ''t0''), as_actual (ex_alert 50 ''t0'')] f64_zero f64_zero))"
    using s by (simp add: greedy_match_def match_step_def n numeral_2_eq_2 upt_rec Let_def split: option.splits prod.splits)
  then show ?thesis by (simp add: verify_def all_keys_def tally_key_def g Let_def)
qed

end
