(* ===== verification/WfgAst.thy ===== *)
theory WfgAst
  imports F64
begin

text \<open>
  The abstract syntax of a \<open>.wfg\<close> scenario (\<open>wfg_ast.rs\<close>), the values the parser derives
  from it (\<open>wfg_parser/syntax/mod.rs\<close>: seed, duration, legacy streams and the event total), and
  the parts of the \<open>wf_lang\<close> data the sources read: names and fields of window schemas, event
  declarations of rules.
\<close>

section \<open>Durations\<close>

text \<open>A \<open>std::time::Duration\<close> is a number of nanoseconds.\<close>

type_synonym duration = nat

definition from_secs :: "nat \<Rightarrow> duration" where
  "from_secs s = s * 10 ^ 9"

definition as_secs_f64 :: "duration \<Rightarrow> f64" where
  "as_secs_f64 d = fadd (f64_of_nat (d div 10 ^ 9)) (fdiv (f64_of_nat (d mod 10 ^ 9)) (f64_of_nat (10 ^ 9)))"

section \<open>The scenario\<close>

datatype rate_unit = PerSecond | PerMinute | PerHour

record rate =
  rate_count :: nat
  rate_unit :: rate_unit

definition events_per_second :: "rate \<Rightarrow> f64" where
  "events_per_second r =
     (case rate_unit r of
        PerSecond \<Rightarrow> f64_of_nat (rate_count r)
      | PerMinute \<Rightarrow> fdiv (f64_of_nat (rate_count r)) (f64_of_nat 60)
      | PerHour \<Rightarrow> fdiv (f64_of_nat (rate_count r)) (f64_of_nat 3600))"

datatype attr_value = AttrNumber f64 | AttrDuration duration | AttrString string | AttrBool bool

record scenario_attr =
  attr_key :: string
  attr_value :: attr_value

datatype wave_shape = Sine | Triangle | Square

record timeline_segment =
  seg_start :: duration
  seg_end :: duration
  seg_rate :: rate

datatype rate_expr =
    RateConstant rate
  | RateWave (wave_base: rate) (wave_amp: rate) (wave_period: duration) (wave_shape: wave_shape)
  | RateBurst (burst_base: rate) (burst_peak: rate) (burst_every: duration) (burst_hold: duration)
  | RateTimeline "timeline_segment list"

fun approx_eps :: "rate_expr \<Rightarrow> f64" where
  "approx_eps (RateConstant r) = events_per_second r"
| "approx_eps (RateWave base amp period shape) = events_per_second base"
| "approx_eps (RateBurst base peak every hold) = events_per_second base"
| "approx_eps (RateTimeline []) = f64_zero"
| "approx_eps (RateTimeline (s # segs)) = events_per_second (seg_rate s)"

record syntax_stream_decl =
  sd_stream :: string
  sd_rate :: rate_expr

type_synonym traffic_block = "syntax_stream_decl list"

datatype inject_case_mode = CaseHit | CaseNearMiss | CaseMiss

record field_predicate =
  fp_field :: string
  fp_value :: attr_value

datatype seq_step =
    SeqUse (step_predicates: "field_predicate list") (step_count: nat)
  | SeqNot (step_predicates: "field_predicate list") (step_within: duration)

record seq_block =
  seq_entity :: string
  seq_steps :: "seq_step list"

record syntax_inject_case =
  ic_mode :: inject_case_mode
  ic_percent :: f64
  ic_target_rule :: "string option"
  ic_stream :: string
  ic_seq :: seq_block

type_synonym syntax_injection_block = "syntax_inject_case list"

datatype expect_metric = MHit | MNearMiss | MMiss | MPrecision | MRecall | MFpr | MLatencyP95

datatype compare_op = Gte | Lte | Gt | Lt | EqOp

datatype expect_value = ExpPercent f64 | ExpNumber f64 | ExpDuration duration

record expect_check =
  ec_metric :: expect_metric
  ec_rule :: string
  ec_op :: compare_op
  ec_value :: expect_value

type_synonym expect_block = "expect_check list"

record syntax_scenario =
  sy_attrs :: "scenario_attr list"
  sy_inline_annos :: "scenario_attr list"
  sy_traffic :: traffic_block
  sy_injection :: "syntax_injection_block option"
  sy_expect :: "expect_block option"

record time_clause =
  tc_start :: string
  tc_duration :: duration

datatype gen_expr = StringLit string | NumberLit f64 | BoolLit bool
  | GenFunc string "(string option \<times> gen_expr) list"

record field_override =
  fo_field_name :: string
  fo_gen_expr :: gen_expr

record stream_block =
  sb_alias :: string
  sb_window :: string
  sb_rate :: rate
  sb_overrides :: "field_override list"

datatype param_value = PNumber f64 | PDuration duration | PString string

record param_assign =
  pa_name :: string
  pa_value :: param_value

record inject_use_step =
  us_count :: nat
  us_predicates :: "field_predicate list"

datatype inject_mode = Hit | NearMiss | NonHit

record inject_line =
  il_mode :: inject_mode
  il_percent :: f64
  il_params :: "param_assign list"
  il_use_steps :: "inject_use_step list"

record inject_block =
  ib_rule :: string
  ib_streams :: "string list"
  ib_lines :: "inject_line list"

datatype fault_type = OutOfOrder | Late | Duplicate | Drop

definition show_fault_type :: "fault_type \<Rightarrow> string" where
  "show_fault_type t = (case t of OutOfOrder \<Rightarrow> ''out_of_order'' | Late \<Rightarrow> ''late''
     | Duplicate \<Rightarrow> ''duplicate'' | Drop \<Rightarrow> ''drop'')"

record fault_line =
  fl_fault_type :: fault_type
  fl_percent :: f64

record scenario_decl =
  sc_name :: string
  sc_seed :: nat
  sc_time_clause :: time_clause
  sc_total :: nat
  sc_streams :: "stream_block list"
  sc_injects :: "inject_block list"
  sc_faults :: "fault_line list option"
  sc_oracle :: "param_assign list option"

record wfg_file =
  wfg_uses :: "string list"
  wfg_scenario :: scenario_decl
  wfg_syntax :: "syntax_scenario option"

section \<open>Values derived by the parser\<close>

definition extract_seed :: "scenario_attr list \<Rightarrow> nat option" where
  "extract_seed annos =
     (case find_first (\<lambda>a. attr_key a = ''seed'') annos of
        Some a \<Rightarrow> (case attr_value a of AttrNumber n \<Rightarrow> if fle f64_zero n then Some (to_u64 n) else None | _ \<Rightarrow> None)
      | None \<Rightarrow> None)"

definition extract_duration :: "scenario_attr list \<Rightarrow> duration option" where
  "extract_duration attrs =
     (case find_first (\<lambda>a. attr_key a = ''duration'') attrs of
        Some a \<Rightarrow> (case attr_value a of AttrDuration d \<Rightarrow> Some d | _ \<Rightarrow> None)
      | None \<Rightarrow> None)"

fun rate_from_expr :: "rate_expr \<Rightarrow> rate" where
  "rate_from_expr (RateConstant r) = r"
| "rate_from_expr (RateWave base amp period shape) = base"
| "rate_from_expr (RateBurst base peak every hold) = base"
| "rate_from_expr (RateTimeline []) = \<lparr>rate_count = 1, rate_unit = PerSecond\<rparr>"
| "rate_from_expr (RateTimeline (s # segs)) = seg_rate s"

definition derive_legacy_streams :: "traffic_block \<Rightarrow> stream_block list" where
  "derive_legacy_streams traffic =
     map (\<lambda>s. \<lparr>sb_alias = sd_stream s, sb_window = sd_stream s, sb_rate = rate_from_expr (sd_rate s),
                sb_overrides = []\<rparr>) traffic"

definition derive_total :: "traffic_block \<Rightarrow> duration \<Rightarrow> nat" where
  "derive_total traffic dur =
     (let eps_sum = fsum (map (\<lambda>s. approx_eps (sd_rate s)) traffic) in
      if fle eps_sum f64_zero then 1
      else max (to_u64 (fround (fmul eps_sum (as_secs_f64 dur)))) 1)"

text \<open>The scenario \<open>parse_syntax_body\<close> builds once its blocks are parsed; no traffic is an error.\<close>

definition assemble_syntax ::
  "string \<Rightarrow> scenario_attr list \<Rightarrow> scenario_attr list \<Rightarrow> traffic_block option \<Rightarrow>
   syntax_injection_block option \<Rightarrow> expect_block option \<Rightarrow> (scenario_decl \<times> syntax_scenario) option" where
  "assemble_syntax name attrs annos traffic injection expect =
     (case traffic of None \<Rightarrow> None
      | Some tr \<Rightarrow>
         let dur = (case extract_duration attrs of Some d \<Rightarrow> d | None \<Rightarrow> from_secs 60) in
         Some (\<lparr>sc_name = name,
                sc_seed = (case extract_seed annos of Some s \<Rightarrow> s | None \<Rightarrow> 0),
                sc_time_clause = \<lparr>tc_start = ''2026-01-01T00:00:00Z'', tc_duration = dur\<rparr>,
                sc_total = derive_total tr dur, sc_streams = derive_legacy_streams tr,
                sc_injects = [], sc_faults = None, sc_oracle = None\<rparr>,
               \<lparr>sy_attrs = attrs, sy_inline_annos = annos, sy_traffic = tr,
                sy_injection = injection, sy_expect = expect\<rparr>))"

section \<open>What is read of schemas and rules\<close>

datatype base_type = BChars | BDigit | BFloat | BBool | BTime | BIp | BHex

datatype field_type = FBase base_type | FArray base_type | FArrayAny | FObject

record field_def =
  fd_name :: string
  fd_type :: field_type

record window_schema =
  ws_name :: string
  ws_streams :: "string list"
  ws_time_field :: "string option"
  ws_fields :: "field_def list"

record event_decl =
  ed_alias :: string
  ed_window :: string

record rule_decl =
  rd_name :: string
  rd_events :: "event_decl list"

end
