(* ===== verification/Validate.thy ===== *)
theory Validate
  imports WfgAst
begin

text \<open>
  The scenario validator (\<open>validate/*.rs\<close>) and the names of the rules a scenario injects for
  (\<open>injection_targets.rs\<close>). An error is its code, the format text of its message and the
  values the text is filled with. The theorems characterise the scenarios without errors.
\<close>

datatype fmt_arg = AStr string | ANat nat | AF64 f64 | ABase base_type | AField field_type

datatype validation_error = VErr (ve_code: string) (ve_text: string) (ve_args: "fmt_arg list")

definition f100 :: f64 where
  "f100 = f64_of_nat 100"

definition percent_bad :: "f64 \<Rightarrow> bool" where
  "percent_bad p = (fle p f64_zero \<or> flt f100 p)"

section \<open>Scenario basics: SV2 to SV6\<close>

definition validate_scenario_basics :: "scenario_decl \<Rightarrow> validation_error list" where
  "validate_scenario_basics sc =
     (if sc_total sc = 0 then [VErr ''SV2'' ''total must be greater than 0'' []] else []) @
     concat (map (\<lambda>s. if rate_count (sb_rate s) = 0
       then [VErr ''SV3'' ''stream '{}': rate count must be greater than 0'' [AStr (sb_alias s)]] else [])
       (sc_streams sc)) @
     concat (map (\<lambda>ib. concat (map (\<lambda>l. if percent_bad (il_percent l)
       then [VErr ''SV4'' ''inject for '{}': percent {} must be in (0, 100]'' [AStr (ib_rule ib), AF64 (il_percent l)]]
       else []) (ib_lines ib))) (sc_injects sc)) @
     (case sc_faults sc of None \<Rightarrow> []
      | Some fs \<Rightarrow> concat (map (\<lambda>f. if percent_bad (fl_percent f)
          then [VErr ''SV4'' ''fault '{}': percent {} must be in (0, 100]''
                  [AStr (show_fault_type (fl_fault_type f)), AF64 (fl_percent f)]] else []) fs)) @
     concat (map (\<lambda>ib. let s = fsum (map il_percent (ib_lines ib)) in
       if flt f100 s
       then [VErr ''SV5'' ''inject for '{}': percentages sum to {}, which exceeds 100%'' [AStr (ib_rule ib), AF64 s]]
       else []) (sc_injects sc)) @
     (case sc_faults sc of None \<Rightarrow> []
      | Some fs \<Rightarrow> let s = fsum (map fl_percent fs) in
          if flt f100 s then [VErr ''SV6'' ''faults: percentages sum to {}, which exceeds 100%'' [AF64 s]] else [])"

section \<open>Streams against schemas: SC3, SC4, SV7\<close>

definition check_gen_func_compat :: "string \<Rightarrow> base_type \<Rightarrow> string option" where
  "check_gen_func_compat f b =
     (if f = ''ipv4'' then (if b \<in> {BIp, BChars} then None else Some ''ipv4() produces IP addresses, not compatible with {:?}'')
      else if f = ''pattern'' then (if b \<in> {BChars, BIp, BHex} then None else Some ''pattern() produces strings, not compatible with {:?}'')
      else if f = ''range'' then (if b \<in> {BDigit, BFloat} then None else Some ''range() produces numbers, not compatible with {:?}'')
      else if f = ''timestamp'' then (if b \<in> {BTime, BChars} then None else Some ''timestamp() produces time values, not compatible with {:?}'')
      else None)"

definition check_gen_expr_compat :: "gen_expr \<Rightarrow> base_type \<Rightarrow> string option" where
  "check_gen_expr_compat e b =
     (case e of
        StringLit s \<Rightarrow> if b \<in> {BChars, BIp, BHex, BTime} then None else Some ''string literal not compatible with {:?}''
      | NumberLit n \<Rightarrow> if b \<in> {BDigit, BFloat} then None else Some ''number literal not compatible with {:?}''
      | BoolLit x \<Rightarrow> if b = BBool then None else Some ''boolean literal not compatible with {:?}''
      | GenFunc f args \<Rightarrow> check_gen_func_compat f b)"

definition find_schema :: "string \<Rightarrow> window_schema list \<Rightarrow> window_schema option" where
  "find_schema w schemas = find_first (\<lambda>s. ws_name s = w) schemas"

definition sv7_errors :: "stream_block \<Rightarrow> window_schema \<Rightarrow> field_override \<Rightarrow> validation_error list" where
  "sv7_errors s schema ov =
     (case find_first (\<lambda>f. fd_name f = fo_field_name ov) (ws_fields schema) of
        None \<Rightarrow> []
      | Some fd \<Rightarrow>
          let check = (\<lambda>b. case check_gen_expr_compat (fo_gen_expr ov) b of None \<Rightarrow> []
                | Some reason \<Rightarrow> [VErr ''SV7'' (''stream '{}': field '{}' ({:?}) incompatible with override '' @ [CHR 0xE2, CHR 0x80, CHR 0x94, CHR 0x20] @ reason)
                                   [AStr (sb_alias s), AStr (fo_field_name ov), ABase b, ABase b]])
          in case fd_type fd of
               FBase b \<Rightarrow> check b
             | FArray b \<Rightarrow> check b
             | t \<Rightarrow> [VErr ''SV7'' ''stream '{}': field '{}' ({:?}) does not support scalar generator overrides''
                       [AStr (sb_alias s), AStr (fo_field_name ov), AField t]])"

definition validate_streams_with_schemas :: "scenario_decl \<Rightarrow> window_schema list \<Rightarrow> validation_error list" where
  "validate_streams_with_schemas sc schemas =
     concat (map (\<lambda>s. if list_ex (\<lambda>w. ws_name w = sb_window s) schemas then []
       else [VErr ''SC3'' ''stream '{}': window '{}' not found in schemas'' [AStr (sb_alias s), AStr (sb_window s)]])
       (sc_streams sc)) @
     concat (map (\<lambda>s. case find_schema (sb_window s) schemas of None \<Rightarrow> []
       | Some schema \<Rightarrow> concat (map (\<lambda>ov. if list_ex (\<lambda>f. fd_name f = fo_field_name ov) (ws_fields schema) then []
           else [VErr ''SC4'' (''stream '{}': field '{}' not found in window '{}'' @ [CHR 0x27])
                   [AStr (sb_alias s), AStr (fo_field_name ov), AStr (sb_window s)]]) (sb_overrides s)))
       (sc_streams sc)) @
     concat (map (\<lambda>s. case find_schema (sb_window s) schemas of None \<Rightarrow> []
       | Some schema \<Rightarrow> concat (map (sv7_errors s schema) (sb_overrides s))) (sc_streams sc))"

section \<open>Streams against rules: SC2, SC2a, SC5, SC6\<close>

definition alias_events :: "rule_decl list \<Rightarrow> string \<Rightarrow> event_decl list" where
  "alias_events rules a = filter (\<lambda>e. ed_alias e = a) (concat (map rd_events rules))"

definition validate_stream_rule_bindings :: "scenario_decl \<Rightarrow> rule_decl list \<Rightarrow> validation_error list" where
  "validate_stream_rule_bindings sc rules =
     (if rules = [] then []
      else concat (map (\<lambda>s.
        let ds = alias_events rules (sb_alias s) in
        if ds = [] then [VErr ''SC2'' ''stream '{}': alias '{}' is not referenced by any rule events''
                           [AStr (sb_alias s), AStr (sb_alias s)]]
        else if \<not> list_ex (\<lambda>e. ed_window e = sb_window s) ds
        then [VErr ''SC2a'' ''stream '{}': alias '{}' maps to window '{}' but rules map it to: {}''
                [AStr (sb_alias s), AStr (sb_alias s), AStr (sb_window s), AStr (join '', '' (map ed_window ds))]]
        else []) (sc_streams sc)))"

definition sc6_errors :: "scenario_decl \<Rightarrow> rule_decl option \<Rightarrow> string \<Rightarrow> string \<Rightarrow> validation_error list" where
  "sc6_errors sc target rule name =
     (case find_first (\<lambda>s. sb_alias s = name) (sc_streams sc) of
        None \<Rightarrow> [VErr ''SC6'' ''inject for '{}': stream alias '{}' not found in scenario streams'' [AStr rule, AStr name]]
      | Some stream \<Rightarrow>
          (case target of None \<Rightarrow> []
           | Some r \<Rightarrow>
              let es = filter (\<lambda>e. ed_alias e = name) (rd_events r) in
              if es = [] then [VErr ''SC6'' ''inject for '{}': stream alias '{}' is not declared in rule '{}' events''
                                 [AStr rule, AStr name, AStr rule]]
              else if \<not> list_ex (\<lambda>e. ed_window e = sb_window stream) es
              then [VErr ''SC6'' ''inject for '{}': stream '{}' uses window '{}' but rule '{}' maps alias '{}' to: {}''
                      [AStr rule, AStr name, AStr (sb_window stream), AStr rule, AStr name,
                       AStr (join '', '' (map ed_window es))]]
              else []))"

definition validate_inject_blocks :: "scenario_decl \<Rightarrow> rule_decl list \<Rightarrow> validation_error list" where
  "validate_inject_blocks sc rules =
     concat (map (\<lambda>ib. if list_ex (\<lambda>r. rd_name r = ib_rule ib) rules then []
       else [VErr ''SC5'' ''inject: rule '{}' not found in WFL files'' [AStr (ib_rule ib)]]) (sc_injects sc)) @
     concat (map (\<lambda>ib.
       let target = find_first (\<lambda>r. rd_name r = ib_rule ib) rules in
       concat (map (sc6_errors sc target (ib_rule ib)) (ib_streams ib))) (sc_injects sc))"

section \<open>Oracle parameters: SV8\<close>

definition sv8_errors :: "param_assign \<Rightarrow> validation_error list" where
  "sv8_errors p =
     (if pa_name p = ''time_tolerance'' \<and> (case pa_value p of PDuration d \<Rightarrow> False | _ \<Rightarrow> True)
      then [VErr ''SV8'' ''oracle.time_tolerance must be a duration (e.g. 1s, 500ms)'' []]
      else if pa_name p = ''score_tolerance''
      then (case pa_value p of
              PNumber n \<Rightarrow> if fle f64_zero n then []
                else [VErr ''SV8'' ''oracle.score_tolerance must be >= 0, got {}'' [AF64 n]]
            | _ \<Rightarrow> [VErr ''SV8'' ''oracle.score_tolerance must be a number'' []])
      else [])"

definition validate_oracle_params :: "scenario_decl \<Rightarrow> validation_error list" where
  "validate_oracle_params sc = (case sc_oracle sc of None \<Rightarrow> [] | Some ps \<Rightarrow> concat (map sv8_errors ps))"

section \<open>Stream-first syntax: VN1 to VN16\<close>

text \<open>The predicates of one step; \<open>seen\<close> is the set of fields met so far.\<close>

fun pred_errors ::
  "syntax_inject_case \<Rightarrow> window_schema option \<Rightarrow> nat \<Rightarrow> string \<Rightarrow> string set \<Rightarrow> field_predicate list \<Rightarrow> validation_error list" where
  "pred_errors c schema i kind seen [] = []"
| "pred_errors c schema i kind seen (p # ps) =
     (if fp_field p \<in> seen
      then [VErr ''VN9'' ''injection case '{}' step {} has duplicate field '{}' in {}''
              [AStr (ic_stream c), ANat i, AStr (fp_field p), AStr kind]] else []) @
     (if fp_field p = seq_entity (ic_seq c)
      then [VErr ''VN12'' ''injection case '{}' step {} repeats seq entity field '{}' in {}''
              [AStr (ic_stream c), ANat i, AStr (fp_field p), AStr kind]] else []) @
     (case schema of None \<Rightarrow> []
      | Some s \<Rightarrow> if list_ex (\<lambda>f. fd_name f = fp_field p) (ws_fields s) then []
          else [VErr ''VN11'' (''injection case '{}' step {} field '{}' not found in schema '{}'' @ [CHR 0x27])
                  [AStr (ic_stream c), ANat i, AStr (fp_field p), AStr (ws_name s)]]) @
     pred_errors c schema i kind (insert (fp_field p) seen) ps"

definition step_errors :: "syntax_inject_case \<Rightarrow> window_schema option \<Rightarrow> nat \<times> seq_step \<Rightarrow> validation_error list" where
  "step_errors c schema istep =
     (case istep of
        (i, SeqUse ps n) \<Rightarrow>
          (if n = 0 then [VErr ''VN15'' ''injection case '{}' step {} use(...) count must be greater than 0''
                            [AStr (ic_stream c), ANat i]] else []) @
          pred_errors c schema i ''use(...)'' {} ps
      | (i, SeqNot ps w) \<Rightarrow>
          [VErr ''VN16'' ''injection case '{}' step {} not(...) is not supported by datagen yet''
             [AStr (ic_stream c), ANat i]] @
          pred_errors c schema i ''not(...)'' {} ps)"

definition schemas_by_name :: "window_schema list \<Rightarrow> (string \<rightharpoonup> window_schema)" where
  "schemas_by_name schemas = map_of (rev (map (\<lambda>s. (ws_name s, s)) schemas))"

definition case_errors :: "traffic_block \<Rightarrow> window_schema list \<Rightarrow> syntax_inject_case \<Rightarrow> validation_error list" where
  "case_errors traffic schemas c =
     (if percent_bad (ic_percent c)
      then [VErr ''VN4'' ''injection case '{}' percent {} must be in (0, 100]'' [AStr (ic_stream c), AF64 (ic_percent c)]]
      else []) @
     (if ic_stream c \<in> set (map sd_stream traffic) then []
      else [VErr ''VN10'' ''injection case stream '{}' is not declared in traffic'' [AStr (ic_stream c)]]) @
     (if seq_steps (ic_seq c) = []
      then [VErr ''VN5'' ''injection case '{}' must contain at least one seq step'' [AStr (ic_stream c)]] else []) @
     concat (map (step_errors c (schemas_by_name schemas (ic_stream c))) (enumerate 0 (seq_steps (ic_seq c))))"

definition expected_rules :: "syntax_scenario \<Rightarrow> string set" where
  "expected_rules syn = (case sy_expect syn of None \<Rightarrow> {} | Some cs \<Rightarrow> set (map ec_rule cs))"

definition target_errors :: "syntax_scenario \<Rightarrow> rule_decl list \<Rightarrow> syntax_inject_case \<Rightarrow> validation_error list" where
  "target_errors syn rules c =
     (case ic_target_rule c of
        Some r \<Rightarrow> if list_ex (\<lambda>x. rd_name x = r) rules then []
          else [VErr ''VN14'' ''injection case '{}' targets rule '{}' not found in WFL files'' [AStr (ic_stream c), AStr r]]
      | None \<Rightarrow> if card (expected_rules syn) \<noteq> 1
          then [VErr ''VN13'' ''injection case '{}' must use 'for RULE' because expect identifies {} target rules''
                  [AStr (ic_stream c), ANat (card (expected_rules syn))]] else [])"

definition expect_errors :: "rule_decl list \<Rightarrow> bool \<Rightarrow> expect_check \<Rightarrow> validation_error list" where
  "expect_errors rules skip_wfl ch =
     (if \<not> skip_wfl \<and> \<not> list_ex (\<lambda>r. rd_name r = ec_rule ch) rules
      then [VErr ''VN7'' ''expect: rule '{}' not found in WFL files'' [AStr (ec_rule ch)]] else []) @
     (case ec_value ch of
        ExpPercent p \<Rightarrow> if fle f64_zero p \<and> fle p f100 then []
          else [VErr ''VN8'' ''expect percentage for rule '{}' must be in [0, 100], got {}'' [AStr (ec_rule ch), AF64 p]]
      | _ \<Rightarrow> [])"

definition validate_syntax ::
  "wfg_file \<Rightarrow> window_schema list \<Rightarrow> rule_decl list \<Rightarrow> bool \<Rightarrow> validation_error list" where
  "validate_syntax wfg schemas rules skip_wfl =
     (case wfg_syntax wfg of None \<Rightarrow> []
      | Some syn \<Rightarrow>
        (if sy_traffic syn = [] then [VErr ''VN1'' ''traffic block must contain at least one stream'' []] else []) @
        concat (map (\<lambda>s.
          (if fle (approx_eps (sd_rate s)) f64_zero
           then [VErr ''VN2'' ''stream '{}': rate must be greater than 0'' [AStr (sd_stream s)]] else []) @
          (if list_ex (\<lambda>w. ws_name w = sd_stream s) schemas then []
           else [VErr ''VN3'' ''stream '{}' not found in loaded schemas (.wfs windows)'' [AStr (sd_stream s)]]))
          (sy_traffic syn)) @
        (case sy_injection syn of None \<Rightarrow> []
         | Some cs \<Rightarrow>
            concat (map (case_errors (sy_traffic syn) schemas) cs) @
            (let s = fsum (map ic_percent cs) in
             if flt f100 s then [VErr ''VN6'' ''injection percentages sum to {}, which exceeds 100%'' [AF64 s]] else [])) @
        (if skip_wfl then []
         else (case sy_injection syn of None \<Rightarrow> [] | Some cs \<Rightarrow> concat (map (target_errors syn rules) cs))) @
        (case sy_expect syn of None \<Rightarrow> [] | Some cs \<Rightarrow> concat (map (expect_errors rules skip_wfl) cs)))"

definition validate_wfg ::
  "wfg_file \<Rightarrow> window_schema list \<Rightarrow> rule_decl list list \<Rightarrow> bool \<Rightarrow> validation_error list" where
  "validate_wfg wfg schemas wfl_files skip_wfl =
     (let rules = concat wfl_files; sc = wfg_scenario wfg in
      if wfg_syntax wfg \<noteq> None then validate_syntax wfg schemas rules skip_wfl
      else validate_scenario_basics sc @ validate_streams_with_schemas sc schemas @
           validate_stream_rule_bindings sc rules @
           (if skip_wfl then [] else validate_inject_blocks sc rules) @
           validate_oracle_params sc)"

section \<open>Rules a scenario injects for\<close>

definition unique_expected_rule :: "expect_block \<Rightarrow> string option" where
  "unique_expected_rule checks =
     (case map ec_rule checks of [] \<Rightarrow> None
      | first # rest \<Rightarrow> if list_all (\<lambda>r. r = first) rest then Some first else None)"

definition add_target :: "string option \<Rightarrow> syntax_inject_case \<Rightarrow> string set \<Rightarrow> wfgen_error + string set" where
  "add_target dflt c rules =
     (case (case ic_target_rule c of Some r \<Rightarrow> Some r | None \<Rightarrow> dflt) of
        Some r \<Rightarrow> Inr (insert r rules)
      | None \<Rightarrow> Inl (WfgenError RValidation
          (''injection case '' @ [CHR 0x27] @ ic_stream c @ [CHR 0x27] @ '' requires 'for RULE' because expect does not identify a unique target rule'')))"

definition injected_rule_names :: "wfg_file \<Rightarrow> wfgen_error + string set" where
  "injected_rule_names wfg =
     (case wfg_syntax wfg of
        Some syn \<Rightarrow>
          (case sy_injection syn of None \<Rightarrow> Inr {}
           | Some cs \<Rightarrow> rfold (add_target (Option.bind (sy_expect syn) unique_expected_rule)) cs {})
      | None \<Rightarrow> Inr (set (map ib_rule (sc_injects (wfg_scenario wfg)))))"


section \<open>What a scenario without errors satisfies\<close>

lemma concat_map_Nil [simp]: "concat (map f xs) = [] \<longleftrightarrow> (\<forall>x \<in> set xs. f x = [])"
  by auto

declare concat_eq_Nil_conv [simp del]

lemma list_ex_key: "list_ex (\<lambda>r. f r = x) rs \<longleftrightarrow> x \<in> set (map f rs)"
  by (induction rs) auto

definition override_wf :: "window_schema \<Rightarrow> field_override \<Rightarrow> bool" where
  "override_wf schema ov =
     (case find_first (\<lambda>f. fd_name f = fo_field_name ov) (ws_fields schema) of
        None \<Rightarrow> False
      | Some fd \<Rightarrow> (\<exists>b. (fd_type fd = FBase b \<or> fd_type fd = FArray b) \<and> check_gen_expr_compat (fo_gen_expr ov) b = None))"

definition inject_stream_wf :: "scenario_decl \<Rightarrow> rule_decl list \<Rightarrow> inject_block \<Rightarrow> string \<Rightarrow> bool" where
  "inject_stream_wf sc rules ib name =
     (\<exists>st r. find_first (\<lambda>s. sb_alias s = name) (sc_streams sc) = Some st \<and>
        find_first (\<lambda>r. rd_name r = ib_rule ib) rules = Some r \<and>
        (\<exists>e \<in> set (rd_events r). ed_alias e = name \<and> ed_window e = sb_window st))"

definition oracle_param_wf :: "param_assign \<Rightarrow> bool" where
  "oracle_param_wf p =
     ((pa_name p = ''time_tolerance'' \<longrightarrow> (\<exists>d. pa_value p = PDuration d)) \<and>
      (pa_name p = ''score_tolerance'' \<longrightarrow> (\<exists>n. pa_value p = PNumber n \<and> fle f64_zero n)))"

definition scenario_wf :: "scenario_decl \<Rightarrow> window_schema list \<Rightarrow> rule_decl list \<Rightarrow> bool \<Rightarrow> bool" where
  "scenario_wf sc schemas rules skip_wfl =
     (sc_total sc \<noteq> 0 \<and>
      (\<forall>s \<in> set (sc_streams sc). rate_count (sb_rate s) \<noteq> 0 \<and>
         (\<exists>w. find_schema (sb_window s) schemas = Some w \<and> (\<forall>ov \<in> set (sb_overrides s). override_wf w ov)) \<and>
         (rules = [] \<or> (\<exists>r \<in> set rules. \<exists>e \<in> set (rd_events r). ed_alias e = sb_alias s \<and> ed_window e = sb_window s))) \<and>
      (\<forall>ib \<in> set (sc_injects sc). (\<forall>l \<in> set (ib_lines ib). \<not> percent_bad (il_percent l)) \<and>
         \<not> flt f100 (fsum (map il_percent (ib_lines ib)))) \<and>
      (\<forall>fs. sc_faults sc = Some fs \<longrightarrow> (\<forall>f \<in> set fs. \<not> percent_bad (fl_percent f)) \<and>
         \<not> flt f100 (fsum (map fl_percent fs))) \<and>
      (\<not> skip_wfl \<longrightarrow> (\<forall>ib \<in> set (sc_injects sc). (\<exists>r \<in> set rules. rd_name r = ib_rule ib) \<and>
         (\<forall>name \<in> set (ib_streams ib). inject_stream_wf sc rules ib name))) \<and>
      (\<forall>ps. sc_oracle sc = Some ps \<longrightarrow> (\<forall>p \<in> set ps. oracle_param_wf p)))"

definition step_wf :: "syntax_inject_case \<Rightarrow> window_schema list \<Rightarrow> seq_step \<Rightarrow> bool" where
  "step_wf c schemas st =
     (\<exists>ps n. st = SeqUse ps n \<and> 0 < n \<and> distinct (map fp_field ps) \<and> seq_entity (ic_seq c) \<notin> set (map fp_field ps) \<and>
        (\<forall>w. schemas_by_name schemas (ic_stream c) = Some w \<longrightarrow> set (map fp_field ps) \<subseteq> set (map fd_name (ws_fields w))))"

definition syntax_wf :: "syntax_scenario \<Rightarrow> window_schema list \<Rightarrow> rule_decl list \<Rightarrow> bool \<Rightarrow> bool" where
  "syntax_wf syn schemas rules skip_wfl =
     (sy_traffic syn \<noteq> [] \<and>
      (\<forall>s \<in> set (sy_traffic syn). \<not> fle (approx_eps (sd_rate s)) f64_zero \<and> sd_stream s \<in> set (map ws_name schemas)) \<and>
      (\<forall>cs. sy_injection syn = Some cs \<longrightarrow> \<not> flt f100 (fsum (map ic_percent cs)) \<and>
         (\<forall>c \<in> set cs. \<not> percent_bad (ic_percent c) \<and> ic_stream c \<in> set (map sd_stream (sy_traffic syn)) \<and>
            seq_steps (ic_seq c) \<noteq> [] \<and> (\<forall>st \<in> set (seq_steps (ic_seq c)). step_wf c schemas st) \<and>
            (\<not> skip_wfl \<longrightarrow> (case ic_target_rule c of Some r \<Rightarrow> r \<in> set (map rd_name rules)
                                | None \<Rightarrow> card (expected_rules syn) = 1)))) \<and>
      (\<forall>cs. sy_expect syn = Some cs \<longrightarrow> (\<forall>ch \<in> set cs.
         (\<not> skip_wfl \<longrightarrow> ec_rule ch \<in> set (map rd_name rules)) \<and>
         (\<forall>p. ec_value ch = ExpPercent p \<longrightarrow> fle f64_zero p \<and> fle p f100))))"

lemma pred_errors_Nil:
  "pred_errors c w i kind seen ps = [] \<longleftrightarrow>
     distinct (map fp_field ps) \<and> set (map fp_field ps) \<inter> seen = {} \<and> seq_entity (ic_seq c) \<notin> set (map fp_field ps) \<and>
     (\<forall>s. w = Some s \<longrightarrow> set (map fp_field ps) \<subseteq> set (map fd_name (ws_fields s)))"
proof (induction ps arbitrary: seen)
  case (Cons p ps)
  then show ?case by (cases w) (auto simp: list_ex_key)
qed simp

lemma step_errors_Nil:
  "step_errors c (schemas_by_name schemas (ic_stream c)) (i, st) = [] \<longleftrightarrow> step_wf c schemas st"
  by (cases st) (auto simp: step_errors_def step_wf_def pred_errors_Nil)

lemma case_errors_Nil:
  "case_errors tr schemas c = [] \<longleftrightarrow> \<not> percent_bad (ic_percent c) \<and> ic_stream c \<in> set (map sd_stream tr) \<and>
     seq_steps (ic_seq c) \<noteq> [] \<and> (\<forall>st \<in> set (seq_steps (ic_seq c)). step_wf c schemas st)"
proof -
  have "(\<forall>x \<in> set (enumerate 0 (seq_steps (ic_seq c))). step_errors c (schemas_by_name schemas (ic_stream c)) x = [])
     \<longleftrightarrow> (\<forall>st \<in> set (seq_steps (ic_seq c)). step_wf c schemas st)"
  proof -
    have "set (seq_steps (ic_seq c)) = snd ` set (enumerate 0 (seq_steps (ic_seq c)))"
      by (metis list.set_map map_snd_enumerate)
    moreover have "step_errors c (schemas_by_name schemas (ic_stream c)) x = [] \<longleftrightarrow> step_wf c schemas (snd x)" for x
      by (cases x) (simp add: step_errors_Nil)
    ultimately show ?thesis by simp
  qed
  then show ?thesis by (simp add: case_errors_def)
qed

lemma find_first_ex: "(\<exists>x. find_first p xs = Some x) \<longleftrightarrow> (\<exists>x \<in> set xs. p x)"
  by (metis find_first_None find_first_Some not_None_eq)

lemma sv7_sc4:
  "((if list_ex (\<lambda>f. fd_name f = fo_field_name ov) (ws_fields w) then [] else [e]) = [] \<and> sv7_errors s w ov = [])
   \<longleftrightarrow> override_wf w ov"
  by (cases "find_first (\<lambda>f. fd_name f = fo_field_name ov) (ws_fields w)")
    (auto simp: sv7_errors_def override_wf_def list_ex_iff find_first_None Let_def
       dest: find_first_Some split: field_type.splits option.splits)

lemma sc2_Nil:
  "(alias_events rules a \<noteq> [] \<and> list_ex (\<lambda>e. ed_window e = w) (alias_events rules a)) \<longleftrightarrow>
   (\<exists>r \<in> set rules. \<exists>e \<in> set (rd_events r). ed_alias e = a \<and> ed_window e = w)"
  by (auto simp: alias_events_def list_ex_iff filter_empty_conv)

lemma sv8_Nil: "sv8_errors p = [] \<longleftrightarrow> oracle_param_wf p"
  by (auto simp: sv8_errors_def oracle_param_wf_def split: param_value.splits)

lemma sc6_Nil:
  "find_first (\<lambda>r. rd_name r = ib_rule ib) rules = Some r \<Longrightarrow>
   sc6_errors sc (Some r) (ib_rule ib) name = [] \<longleftrightarrow> inject_stream_wf sc rules ib name"
  by (auto simp: sc6_errors_def inject_stream_wf_def Let_def list_ex_iff filter_empty_conv split: option.splits)

lemma validate_syntax_Nil:
  assumes "wfg_syntax wfg = Some syn"
  shows "validate_syntax wfg schemas rules skip_wfl = [] \<longleftrightarrow> syntax_wf syn schemas rules skip_wfl"
proof -
  have t: "target_errors syn rules c = [] \<longleftrightarrow> (case ic_target_rule c of Some r \<Rightarrow> r \<in> set (map rd_name rules)
                                | None \<Rightarrow> card (expected_rules syn) = 1)" for c
    by (simp add: target_errors_def list_ex_key split: option.splits)
  have e: "expect_errors rules skip_wfl ch = [] \<longleftrightarrow> (\<not> skip_wfl \<longrightarrow> ec_rule ch \<in> set (map rd_name rules)) \<and>
         (\<forall>p. ec_value ch = ExpPercent p \<longrightarrow> fle f64_zero p \<and> fle p f100)" for ch
    by (simp add: expect_errors_def list_ex_key split: expect_value.splits)
  define T where "T c \<longleftrightarrow> (case ic_target_rule c of Some r \<Rightarrow> r \<in> set (map rd_name rules)
                                | None \<Rightarrow> card (expected_rules syn) = 1)" for c :: syntax_inject_case
  define C where "C c \<longleftrightarrow> case_errors (sy_traffic syn) schemas c = []" for c
  have b: "concat (map (\<lambda>s.
          (if fle (approx_eps (sd_rate s)) f64_zero then [x s] else []) @
          (if list_ex (\<lambda>w. ws_name w = sd_stream s) schemas then [] else [y s])) (sy_traffic syn)) = [] \<longleftrightarrow>
      (\<forall>s \<in> set (sy_traffic syn). \<not> fle (approx_eps (sd_rate s)) f64_zero \<and> sd_stream s \<in> set (map ws_name schemas))" for x y
    unfolding list_ex_key concat_map_Nil by (intro ball_cong refl) simp
  have "validate_syntax wfg schemas rules skip_wfl = [] \<longleftrightarrow>
      (sy_traffic syn \<noteq> [] \<and>
       (\<forall>s \<in> set (sy_traffic syn). \<not> fle (approx_eps (sd_rate s)) f64_zero \<and> sd_stream s \<in> set (map ws_name schemas)) \<and>
       (\<forall>cs. sy_injection syn = Some cs \<longrightarrow> (\<forall>c \<in> set cs. C c) \<and> \<not> flt f100 (fsum (map ic_percent cs))) \<and>
       (\<not> skip_wfl \<longrightarrow> (\<forall>cs. sy_injection syn = Some cs \<longrightarrow> (\<forall>c \<in> set cs. T c))) \<and>
       (\<forall>cs. sy_expect syn = Some cs \<longrightarrow> (\<forall>ch \<in> set cs. expect_errors rules skip_wfl ch = [])))"
    unfolding validate_syntax_def assms option.case append_is_Nil_conv b C_def
    by (cases "sy_injection syn"; cases "sy_expect syn") (simp_all add: t T_def Let_def)
  also have "\<dots> \<longleftrightarrow> syntax_wf syn schemas rules skip_wfl"
    unfolding syntax_wf_def C_def case_errors_Nil e T_def [symmetric] by blast
  finally show ?thesis .
qed


lemma streams_schema_Nil:
  "validate_streams_with_schemas sc schemas = [] \<longleftrightarrow>
   (\<forall>s \<in> set (sc_streams sc). \<exists>w. find_schema (sb_window s) schemas = Some w \<and> (\<forall>ov \<in> set (sb_overrides s). override_wf w ov))"
proof -
  define A where "A s \<longleftrightarrow> (\<exists>w. find_schema (sb_window s) schemas = Some w)" for s :: stream_block
  define B where "B s \<longleftrightarrow> (\<forall>w. find_schema (sb_window s) schemas = Some w \<longrightarrow>
     (\<forall>ov \<in> set (sb_overrides s). list_ex (\<lambda>f. fd_name f = fo_field_name ov) (ws_fields w)))" for s :: stream_block
  define C where "C s \<longleftrightarrow> (\<forall>w. find_schema (sb_window s) schemas = Some w \<longrightarrow>
     (\<forall>ov \<in> set (sb_overrides s). sv7_errors s w ov = []))" for s :: stream_block
  have "list_ex (\<lambda>w. ws_name w = sb_window s) schemas \<longleftrightarrow> A s" for s
    by (simp add: A_def find_schema_def find_first_ex list_ex_iff)
  then have "validate_streams_with_schemas sc schemas = [] \<longleftrightarrow>
      (\<forall>s \<in> set (sc_streams sc). A s) \<and> (\<forall>s \<in> set (sc_streams sc). B s) \<and> (\<forall>s \<in> set (sc_streams sc). C s)"
    unfolding validate_streams_with_schemas_def append_is_Nil_conv concat_map_Nil B_def C_def
    by (simp split: option.split)
  also have "\<dots> \<longleftrightarrow> (\<forall>s \<in> set (sc_streams sc). \<exists>w. find_schema (sb_window s) schemas = Some w \<and>
      (\<forall>ov \<in> set (sb_overrides s). override_wf w ov))"
  proof -
    have "A s \<and> B s \<and> C s \<longleftrightarrow> (\<exists>w. find_schema (sb_window s) schemas = Some w \<and>
      (\<forall>ov \<in> set (sb_overrides s). override_wf w ov))" for s
    proof (cases "find_schema (sb_window s) schemas")
      case (Some w)
      have "list_ex (\<lambda>f. fd_name f = fo_field_name ov) (ws_fields w) \<and> sv7_errors s w ov = [] \<longleftrightarrow> override_wf w ov" for ov
        using sv7_sc4 [of ov w "VErr [] [] []" s] by (simp split: if_splits)
      then show ?thesis using Some by (auto simp: A_def B_def C_def)
    qed (simp add: A_def)
    then show ?thesis by blast
  qed
  finally show ?thesis .
qed

lemma stream_rules_Nil:
  "validate_stream_rule_bindings sc rules = [] \<longleftrightarrow> rules = [] \<or>
   (\<forall>s \<in> set (sc_streams sc). \<exists>r \<in> set rules. \<exists>e \<in> set (rd_events r). ed_alias e = sb_alias s \<and> ed_window e = sb_window s)"
  unfolding validate_stream_rule_bindings_def sc2_Nil [symmetric] by (auto simp: Let_def)

lemma inject_blocks_Nil:
  "validate_inject_blocks sc rules = [] \<longleftrightarrow>
   (\<forall>ib \<in> set (sc_injects sc). (\<exists>r \<in> set rules. rd_name r = ib_rule ib) \<and>
         (\<forall>name \<in> set (ib_streams ib). inject_stream_wf sc rules ib name))"
proof -
  have e: "list_ex (\<lambda>r. rd_name r = ib_rule ib) rules \<longleftrightarrow> (\<exists>r. find_first (\<lambda>r. rd_name r = ib_rule ib) rules = Some r)" for ib :: inject_block
    by (simp add: find_first_ex list_ex_iff)
  have "validate_inject_blocks sc rules = [] \<longleftrightarrow>
    (\<forall>ib \<in> set (sc_injects sc). list_ex (\<lambda>r. rd_name r = ib_rule ib) rules \<and>
       (\<forall>name \<in> set (ib_streams ib). sc6_errors sc (find_first (\<lambda>r. rd_name r = ib_rule ib) rules) (ib_rule ib) name = []))"
    by (auto simp: validate_inject_blocks_def Let_def)
  also have "\<dots> \<longleftrightarrow> (\<forall>ib \<in> set (sc_injects sc). (\<exists>r \<in> set rules. rd_name r = ib_rule ib) \<and>
         (\<forall>name \<in> set (ib_streams ib). inject_stream_wf sc rules ib name))"
    using sc6_Nil e by (fastforce simp: list_ex_iff)
  finally show ?thesis .
qed

lemma validate_legacy_Nil:
  "validate_scenario_basics sc @ validate_streams_with_schemas sc schemas @ validate_stream_rule_bindings sc rules @
     (if skip_wfl then [] else validate_inject_blocks sc rules) @ validate_oracle_params sc = [] \<longleftrightarrow>
   scenario_wf sc schemas rules skip_wfl"
proof -
  have b: "validate_scenario_basics sc = [] \<longleftrightarrow> sc_total sc \<noteq> 0 \<and>
      (\<forall>s \<in> set (sc_streams sc). rate_count (sb_rate s) \<noteq> 0) \<and>
      (\<forall>ib \<in> set (sc_injects sc). (\<forall>l \<in> set (ib_lines ib). \<not> percent_bad (il_percent l)) \<and>
         \<not> flt f100 (fsum (map il_percent (ib_lines ib)))) \<and>
      (\<forall>fs. sc_faults sc = Some fs \<longrightarrow> (\<forall>f \<in> set fs. \<not> percent_bad (fl_percent f)) \<and>
         \<not> flt f100 (fsum (map fl_percent fs)))"
    unfolding validate_scenario_basics_def append_is_Nil_conv concat_map_Nil
    by (cases "sc_faults sc") (auto simp: Let_def)
  have o: "validate_oracle_params sc = [] \<longleftrightarrow> (\<forall>ps. sc_oracle sc = Some ps \<longrightarrow> (\<forall>p \<in> set ps. oracle_param_wf p))"
    by (simp add: validate_oracle_params_def sv8_Nil split: option.split)
  show ?thesis
    unfolding append_is_Nil_conv b o streams_schema_Nil stream_rules_Nil scenario_wf_def if_splits(1)
    by (cases skip_wfl; cases "rules = []") (simp_all add: inject_blocks_Nil, blast+)
qed

text \<open>
  C4: the validator reports no error exactly for the well-formed scenarios. In the stream-first
  form: traffic is not empty, every stream has a positive rate and a schema, every injection case
  has a percentage in range, a stream of the traffic, steps that are all \<open>use\<close> with a positive
  count and distinct fields of the schema other than the entity, the percentages do not exceed
  100, and (unless the rules are skipped) every rule named or implied exists. In the legacy form:
  total, rates, percentages, overrides, event bindings, injections and oracle parameters.
\<close>

theorem validate_wfg_iff_wf:
  "validate_wfg wfg schemas wfl_files skip_wfl = [] \<longleftrightarrow>
     (case wfg_syntax wfg of
        Some syn \<Rightarrow> syntax_wf syn schemas (concat wfl_files) skip_wfl
      | None \<Rightarrow> scenario_wf (wfg_scenario wfg) schemas (concat wfl_files) skip_wfl)"
  using validate_syntax_Nil [of wfg _ schemas "concat wfl_files" skip_wfl]
    validate_legacy_Nil [of "wfg_scenario wfg" schemas "concat wfl_files" skip_wfl]
  by (cases "wfg_syntax wfg") (simp_all add: validate_wfg_def Let_def)

section \<open>Accepted scenarios have their target rules\<close>

lemma card_one_unique:
  "card (set (map ec_rule cs)) = 1 \<Longrightarrow> \<exists>r. unique_expected_rule cs = Some r \<and> r \<in> set (map ec_rule cs)"
proof -
  assume "card (set (map ec_rule cs)) = 1"
  then obtain r where r: "set (map ec_rule cs) = {r}" by (auto simp: card_1_singleton_iff)
  then obtain c cs' where c: "cs = c # cs'" by (cases cs) auto
  have "list_all (\<lambda>x. x = r) (map ec_rule cs)" using r by (auto simp: list_all_iff)
  then show ?thesis using c by (simp add: unique_expected_rule_def list_all_iff)
qed

lemma add_targets_ok:
  assumes "\<forall>c \<in> set cs. \<exists>r \<in> R. (case ic_target_rule c of Some r \<Rightarrow> Some r | None \<Rightarrow> dflt) = Some r"
  shows "\<exists>rs. rfold (add_target dflt) cs s = Inr rs \<and> rs \<subseteq> s \<union> R"
  using assms
proof (induction cs arbitrary: s)
  case (Cons c cs)
  then obtain r where r: "r \<in> R" "(case ic_target_rule c of Some r \<Rightarrow> Some r | None \<Rightarrow> dflt) = Some r" by auto
  obtain rs where "rfold (add_target dflt) cs (insert r s) = Inr rs" "rs \<subseteq> insert r s \<union> R"
    using Cons.IH [of "insert r s"] Cons.prems by auto
  moreover have "add_target dflt c s = Inr (insert r s)" using r(2) by (simp add: add_target_def)
  ultimately show ?case using r(1) by auto
qed auto

text \<open>
  C5: for a stream-first scenario that passes validation against its rules, computing the
  rules to inject for cannot fail, and every rule it yields is one of the loaded ones.
\<close>

theorem validated_targets_resolve:
  assumes "wfg_syntax wfg = Some syn" "validate_wfg wfg schemas wfl_files False = []"
  shows "\<exists>names. injected_rule_names wfg = Inr names \<and> names \<subseteq> set (map rd_name (concat wfl_files))"
proof (cases "sy_injection syn")
  case None
  then show ?thesis using assms(1) by (simp add: injected_rule_names_def)
next
  case (Some cs)
  let ?R = "set (map rd_name (concat wfl_files))" and ?d = "Option.bind (sy_expect syn) unique_expected_rule"
  have wf: "syntax_wf syn schemas (concat wfl_files) False"
    using assms validate_syntax_Nil [OF assms(1), of schemas "concat wfl_files" False]
    by (simp add: validate_wfg_def Let_def)
  have "\<exists>r \<in> ?R. (case ic_target_rule c of Some r \<Rightarrow> Some r | None \<Rightarrow> ?d) = Some r" if c: "c \<in> set cs" for c
  proof (cases "ic_target_rule c")
    case None
    then have one: "card (expected_rules syn) = 1" using wf Some c unfolding syntax_wf_def by fastforce
    then obtain ex where ex: "sy_expect syn = Some ex"
      by (cases "sy_expect syn") (auto simp: expected_rules_def)
    then obtain r where "unique_expected_rule ex = Some r" "r \<in> set (map ec_rule ex)"
      using one card_one_unique [of ex] by (auto simp: expected_rules_def)
    then show ?thesis using None ex wf unfolding syntax_wf_def by auto
  next
    case (Some r)
    then show ?thesis using wf \<open>sy_injection syn = Some cs\<close> c unfolding syntax_wf_def by fastforce
  qed
  then have "\<exists>names. rfold (add_target ?d) cs {} = Inr names \<and> names \<subseteq> {} \<union> ?R"
    by (intro add_targets_ok) blast
  then show ?thesis using assms(1) Some by (simp add: injected_rule_names_def)
qed


definition ex_syntax :: syntax_scenario where
  "ex_syntax = \<lparr>sy_attrs = [], sy_inline_annos = [],
     sy_traffic = [\<lparr>sd_stream = ''login'', sd_rate = RateConstant \<lparr>rate_count = 10, rate_unit = PerSecond\<rparr>\<rparr>],
     sy_injection = Some [\<lparr>ic_mode = CaseHit, ic_percent = f64_of_nat 20, ic_target_rule = None, ic_stream = ''login'',
        ic_seq = \<lparr>seq_entity = ''user'', seq_steps = [SeqUse [\<lparr>fp_field = ''action'', fp_value = AttrString ''fail''\<rparr>] 3]\<rparr>\<rparr>],
     sy_expect = Some [\<lparr>ec_metric = MHit, ec_rule = ''brute'', ec_op = Gte, ec_value = ExpPercent (f64_of_nat 95)\<rparr>]\<rparr>"

definition ex_wfg :: wfg_file where
  "ex_wfg = \<lparr>wfg_uses = [],
     wfg_scenario = \<lparr>sc_name = ''s'', sc_seed = 0, sc_time_clause = \<lparr>tc_start = [], tc_duration = from_secs 60\<rparr>,
        sc_total = 600, sc_streams = [], sc_injects = [], sc_faults = None, sc_oracle = None\<rparr>,
     wfg_syntax = Some ex_syntax\<rparr>"

definition ex_schemas :: "window_schema list" where
  "ex_schemas = [\<lparr>ws_name = ''login'', ws_streams = [''login''], ws_time_field = None,
     ws_fields = [\<lparr>fd_name = ''user'', fd_type = FBase BChars\<rparr>, \<lparr>fd_name = ''action'', fd_type = FBase BChars\<rparr>]\<rparr>]"

definition ex_rules :: "rule_decl list" where
  "ex_rules = [\<lparr>rd_name = ''brute'', rd_events = [\<lparr>ed_alias = ''fail'', ed_window = ''login''\<rparr>]\<rparr>]"

lemma ex_wfg_valid: "validate_wfg ex_wfg ex_schemas [ex_rules] False = []"
  by (simp add: validate_wfg_def validate_syntax_def ex_wfg_def ex_syntax_def ex_schemas_def ex_rules_def
      case_errors_def step_errors_def schemas_by_name_def target_errors_def expect_errors_def expected_rules_def
      percent_bad_def f100_def events_per_second_def f64_eval)

theorem validated_targets_resolve_witness:
  "\<exists>names. injected_rule_names ex_wfg = Inr names \<and> names \<subseteq> {''brute''}"
  using validated_targets_resolve [OF _ ex_wfg_valid, of ex_syntax]
  by (simp add: ex_wfg_def ex_rules_def)

end
