(* ===== verification/RustText.thy ===== *)
theory RustText
  imports F64
begin

text \<open>
  Text as the Rust standard library reads and prints it: \<open>str::lines\<close>,
  \<open>split_whitespace\<close> (of ASCII text), \<open>u64::from_str\<close>, \<open>f64::from_str\<close> (decimal numerals
  rounded correctly, the named values) and \<open>{:.0}\<close> of a float, with the facts that a
  printed number has no separator in it and is read back.
\<close>

section \<open>Decimal numerals\<close>

definition is_digit :: "char \<Rightarrow> bool" where
  "is_digit c = (48 \<le> (of_char c :: nat) \<and> (of_char c :: nat) \<le> 57)"

text \<open>The value of a decimal numeral; leading zeros do not count.\<close>

definition digits_value :: "string \<Rightarrow> nat" where
  "digits_value s = foldl (\<lambda>a c. 10 * a + (of_char c - 48)) 0 s"

lemma digits_value_dec: "digits_value (dec_digits n) = n"
proof (induction n rule: dec_digits.induct)
  case (1 n)
  have d: "of_char (digit_char k) - 48 = (k :: nat)" if "k < 10" for k using that by (simp add: digit_char_def)
  show ?case
  proof (cases "n < 10")
    case True
    then show ?thesis by (simp add: dec_digits.simps [of n] digits_value_def d)
  next
    case False
    then show ?thesis using 1 by (simp add: dec_digits.simps [of n] digits_value_def d)
  qed
qed

lemma dec_digits_inj: "dec_digits m = dec_digits n \<Longrightarrow> m = n"
  using digits_value_dec by metis

lemma dec_digits_digits: "list_all is_digit (dec_digits n)"
proof (induction n rule: dec_digits.induct)
  case (1 n)
  have d: "is_digit (digit_char k)" if "k < 10" for k using that by (simp add: digit_char_def is_digit_def)
  show ?case using 1 by (cases "n < 10") (simp_all add: dec_digits.simps [of n] d)
qed

lemma dec_digits_not_Nil [simp]: "dec_digits n \<noteq> []"
  by (simp add: dec_digits.simps [of n])

lemma digit_not_ws: "is_digit c \<Longrightarrow> \<not> is_ascii_ws c"
  by (auto simp: is_digit_def is_ascii_ws_def)

lemma digits_take: "list_all is_digit ds \<Longrightarrow> takeWhile is_digit ds = ds \<and> dropWhile is_digit ds = []"
  by (induction ds) auto

section \<open>Lines and tokens\<close>

text \<open>\<open>str::lines\<close>: split at line feeds, a carriage return before one is dropped, and text that
  ends with a line feed has no empty line after it.\<close>

definition drop_cr :: "string \<Rightarrow> string" where
  "drop_cr s = (if s \<noteq> [] \<and> last s = CHR 0x0D then butlast s else s)"

fun lines_from :: "string list \<Rightarrow> string list" where
  "lines_from [] = []"
| "lines_from [l] = (if l = [] then [] else [l])"
| "lines_from (l # m # ls) = drop_cr l # lines_from (m # ls)"

definition str_lines :: "string \<Rightarrow> string list" where
  "str_lines s = lines_from (split_on (CHR 0x0A) s)"

text \<open>\<open>split_whitespace\<close> of ASCII text: the maximal runs of characters that are not white space.\<close>

fun tokens_from :: "string \<Rightarrow> string \<Rightarrow> string list" where
  "tokens_from w [] = (if w = [] then [] else [w])"
| "tokens_from w (c # cs) =
     (if is_ascii_ws c then (if w = [] then tokens_from [] cs else w # tokens_from [] cs)
      else tokens_from (w @ [c]) cs)"

definition split_whitespace :: "string \<Rightarrow> string list" where
  "split_whitespace s = tokens_from [] s"

definition plain_word :: "string \<Rightarrow> bool" where
  "plain_word w = (w \<noteq> [] \<and> list_all (\<lambda>c. \<not> is_ascii_ws c) w)"

lemma tokens_word:
  "list_all (\<lambda>c. \<not> is_ascii_ws c) w \<Longrightarrow> tokens_from v (w @ r) = tokens_from (v @ w) r"
  by (induction w arbitrary: v) auto

lemma split_whitespace_word: "plain_word w \<Longrightarrow> split_whitespace w = [w]"
  using tokens_word [of w "[]" "[]"] by (simp add: split_whitespace_def plain_word_def)

lemma split_whitespace_cons:
  "plain_word w \<Longrightarrow> is_ascii_ws c \<Longrightarrow> split_whitespace (w @ c # r) = w # split_whitespace r"
  using tokens_word [of w "[]" "c # r"] by (simp add: split_whitespace_def plain_word_def)

lemma split_whitespace_skip: "is_ascii_ws c \<Longrightarrow> split_whitespace (c # r) = split_whitespace r"
  by (simp add: split_whitespace_def)

lemma split_on_line: "CHR 0x0A \<notin> set l \<Longrightarrow> split_on (CHR 0x0A) (l @ CHR 0x0A # r) = l # split_on (CHR 0x0A) r"
  by (induction l) auto

lemma split_on_word: "c \<notin> set l \<Longrightarrow> split_on c l = [l]"
  by (induction l) auto

text \<open>Lines joined by line feeds and closed by one are read back.\<close>

lemma str_lines_cons:
  assumes "CHR 0x0A \<notin> set l"
  shows "str_lines (l @ CHR 0x0A # r) = drop_cr l # str_lines r"
proof -
  obtain m ls where "split_on (CHR 0x0A) r = m # ls" by (cases "split_on (CHR 0x0A) r") auto
  then show ?thesis using assms by (simp add: str_lines_def split_on_line)
qed

definition clean_line :: "string \<Rightarrow> bool" where
  "clean_line l = (CHR 0x0A \<notin> set l \<and> drop_cr l = l)"

lemma str_lines_joined:
  "list_all clean_line ls \<Longrightarrow> str_lines (join [CHR 0x0A] ls @ [CHR 0x0A]) = (if ls = [] then [[]] else ls)"
proof (induction "[CHR 0x0A]" ls rule: join.induct)
  case 1
  then show ?case by (simp add: str_lines_def drop_cr_def)
next
  case (2 s)
  then show ?case using str_lines_cons [of s "[]"] by (simp add: clean_line_def str_lines_def)
next
  case (3 s t r)
  then show ?case using str_lines_cons [of s "join [CHR 0x0A] (t # r) @ [CHR 0x0A]"] by (simp add: clean_line_def)
qed

section \<open>Reading numbers\<close>

text \<open>\<open>u64::from_str\<close>: an optional plus sign and at least one digit.\<close>

definition parse_u64 :: "string \<Rightarrow> nat option" where
  "parse_u64 s =
     (let ds = (case s of c # r \<Rightarrow> if c = CHR ''+'' then r else s | [] \<Rightarrow> [])
      in if ds \<noteq> [] \<and> list_all is_digit ds \<and> digits_value ds \<le> u64_max then Some (digits_value ds) else None)"

lemma plus_not_digit: "\<not> is_digit (CHR ''+'')" "\<not> is_digit (CHR ''-'')"
  by (simp_all add: is_digit_def)

lemma parse_u64_dec [simp]: "n \<le> u64_max \<Longrightarrow> parse_u64 (dec_digits n) = Some n"
  using dec_digits_digits [of n] plus_not_digit
  by (cases "dec_digits n") (auto simp: parse_u64_def digits_value_dec dest: arg_cong [where f = digits_value])

text \<open>\<open>f64::from_str\<close>: an optional sign, then \<open>inf\<close>, \<open>infinity\<close> or \<open>nan\<close> in any case, or
  digits with an optional point (at least one digit in all) and an optional exponent; the value
  is the double nearest to the numeral.\<close>

definition split_sign :: "string \<Rightarrow> bool \<times> string" where
  "split_sign s = (case s of c # r \<Rightarrow> if c = CHR ''-'' then (True, r) else if c = CHR ''+'' then (False, r) else (False, s)
                            | [] \<Rightarrow> (False, []))"

definition parse_exponent :: "string \<Rightarrow> int option" where
  "parse_exponent s =
     (case s of [] \<Rightarrow> Some 0
      | c # r \<Rightarrow>
          if c = CHR ''e'' \<or> c = CHR ''E''
          then (case split_sign r of (neg, ds) \<Rightarrow>
                  if ds \<noteq> [] \<and> list_all is_digit ds
                  then Some (if neg then - int (digits_value ds) else int (digits_value ds)) else None)
          else None)"

definition decimal_value :: "bool \<Rightarrow> nat \<Rightarrow> int \<Rightarrow> f64" where
  "decimal_value s d x = (if 0 \<le> x then round_ratio s (d * 10 ^ nat x) 1 else round_ratio s d (10 ^ nat (- x)))"

definition parse_decimal :: "bool \<Rightarrow> string \<Rightarrow> f64 option" where
  "parse_decimal s r =
     (let ip = takeWhile is_digit r;
          r1 = dropWhile is_digit r;
          dotted = (case r1 of c # _ \<Rightarrow> c = CHR ''.'' | [] \<Rightarrow> False);
          fp = (if dotted then takeWhile is_digit (tl r1) else []);
          r2 = (if dotted then dropWhile is_digit (tl r1) else r1)
      in if ip @ fp = [] then None
         else (case parse_exponent r2 of None \<Rightarrow> None
               | Some x \<Rightarrow> Some (decimal_value s (digits_value (ip @ fp)) (x - int (length fp)))))"

definition parse_f64 :: "string \<Rightarrow> f64 option" where
  "parse_f64 s =
     (case split_sign s of (neg, r) \<Rightarrow>
        let w = ascii_lower r
        in if w = ''inf'' \<or> w = ''infinity'' then Some (Inf neg)
           else if w = ''nan'' then Some NaN
           else parse_decimal neg r)"

section \<open>Printing a float without decimals\<close>

text \<open>\<open>{:.0}\<close>: the exact value rounded to an integer, ties to even, its sign kept for zero too.\<close>

fun fmt_fixed0 :: "f64 \<Rightarrow> string" where
  "fmt_fixed0 NaN = ''NaN''"
| "fmt_fixed0 (Inf s) = (if s then ''-inf'' else ''inf'')"
| "fmt_fixed0 (Fin s m e) = (if s then [CHR ''-''] else []) @ dec_digits (div_half_even m 1 (- e))"

text \<open>The double a printed float stands for: the nearest integer.\<close>

fun integral :: "f64 \<Rightarrow> f64" where
  "integral NaN = NaN"
| "integral (Inf s) = Inf s"
| "integral (Fin s m e) = round_ratio s (div_half_even m 1 (- e)) 1"

lemma digits_lower: "list_all is_digit s \<Longrightarrow> ascii_lower s = s"
  by (induction s) (auto simp: ascii_lower_def is_digit_def)

lemma parse_decimal_digits:
  assumes "list_all is_digit ds" "ds \<noteq> []"
  shows "parse_decimal s ds = Some (round_ratio s (digits_value ds) 1)"
proof -
  have "takeWhile is_digit ds = ds" "dropWhile is_digit ds = []" using digits_take [OF assms(1)] by auto
  then have "parse_decimal s ds = Some (decimal_value s (digits_value ds) 0)"
    unfolding parse_decimal_def Let_def by (simp only:) (simp add: assms(2) parse_exponent_def)
  then show ?thesis by (simp add: decimal_value_def)
qed

lemma parse_f64_digits:
  assumes "list_all is_digit ds" "ds \<noteq> []"
  shows "split_sign ds = (False, ds)"
    and "parse_f64 ds = Some (round_ratio False (digits_value ds) 1)"
    and "parse_f64 (CHR ''-'' # ds) = Some (round_ratio True (digits_value ds) 1)"
proof -
  obtain c r where ds: "ds = c # r" using assms(2) by (cases ds) auto
  have c: "is_digit c" using assms(1) ds by simp
  show sgn: "split_sign ds = (False, ds)" using c plus_not_digit by (auto simp: split_sign_def ds)
  have w: "ds \<noteq> ''inf''" "ds \<noteq> ''infinity''" "ds \<noteq> ''nan''" using c by (auto simp: ds is_digit_def)
  show "parse_f64 ds = Some (round_ratio False (digits_value ds) 1)"
    using parse_decimal_digits [OF assms] digits_lower [OF assms(1)] w by (simp add: parse_f64_def sgn)
  show "parse_f64 (CHR ''-'' # ds) = Some (round_ratio True (digits_value ds) 1)"
    using parse_decimal_digits [OF assms] digits_lower [OF assms(1)] w by (simp add: parse_f64_def split_sign_def)
qed

lemma lower_NaN: "ascii_lower ''NaN'' = ''nan''"
  by (simp add: ascii_lower_def char_of_def bit_0)

lemma lower_inf: "ascii_lower ''inf'' = ''inf''"
  by (simp add: ascii_lower_def)

lemma parse_fmt_fixed0: "parse_f64 (fmt_fixed0 x) = Some (integral x)"
proof (cases x rule: fmt_fixed0.cases)
  case (3 s m e)
  then show ?thesis
    using parse_f64_digits [OF dec_digits_digits dec_digits_not_Nil, of "div_half_even m 1 (- e)"]
    by (simp add: digits_value_dec)
qed (simp_all add: parse_f64_def split_sign_def lower_NaN lower_inf)

lemma fmt_fixed0_plain: "plain_word (fmt_fixed0 x)"
proof (cases x rule: fmt_fixed0.cases)
  case (3 s m e)
  have "list_all (\<lambda>c. \<not> is_ascii_ws c) (dec_digits n)" for n
    using dec_digits_digits [of n] by (auto simp: list_all_iff digit_not_ws)
  then show ?thesis by (simp add: 3 plain_word_def is_ascii_ws_def)
qed (simp_all add: plain_word_def is_ascii_ws_def)

lemma dec_digits_plain: "plain_word (dec_digits n)"
  using dec_digits_digits [of n] by (auto simp: plain_word_def list_all_iff digit_not_ws)

lemma plain_word_append: "plain_word v \<Longrightarrow> list_all (\<lambda>c. \<not> is_ascii_ws c) p \<Longrightarrow> plain_word (p @ v)"
  by (auto simp: plain_word_def)

end
