(* ===== verification/InjectPlan.thy ===== *)
theory InjectPlan
  imports WfgAst "HOL-Library.AList"
begin

text \<open>
  Planning of injected events (\<open>datagen/inject_gen\<close>: \<open>structures.rs\<close>, \<open>extract.rs\<close>, the alias
  maps and stream totals of \<open>dispatch.rs\<close>, \<open>helpers/plan.rs\<close>): from a compiled rule and a
  scenario to the number of events each rule step gets in a hit, near-miss or miss cluster and
  the number of clusters the budget of the streams allows.

  A compiled rule is data of the \<open>wf_lang\<close> library; the records below hold the parts the
  sources read, with one constructor for whatever they do not match. A hash map that the code
  iterates is an association list whose order stands for the hash order. The measure of a step is
  carried along and never read; it is left out. The message of a conflicting predicate names the
  step and the field and leaves out the two values, which the JSON library prints.
\<close>

section \<open>JSON values\<close>

datatype json = JNull | JBool bool | JInt int | JFloat f64 | JString string | JArray "json list"
  | JObject "(string \<times> json) list"

type_synonym jmap = "(string \<times> json) list"

definition json_f64 :: "f64 \<Rightarrow> json" where
  "json_f64 x = (case x of Fin s m e \<Rightarrow> JFloat x | _ \<Rightarrow> JNull)"

text \<open>\<open>==\<close> on values: two floats compare as numbers.\<close>

fun json_eq :: "json \<Rightarrow> json \<Rightarrow> bool" where
  "json_eq (JFloat a) (JFloat b) = feq a b"
| "json_eq a b = (a = b)"

section \<open>What is read of a compiled rule\<close>

datatype field_ref = FSimple string | FQualified string string | FBracketed string string | FRefOther

datatype bin_op = OpAnd | OpEq | OpOther

datatype expr = ENumber f64 | EString string | EBool bool | ENeg expr | EField field_ref
  | EBinOp bin_op expr expr | EOther

datatype window_spec = Sliding duration | Fixed duration | Session duration | Hop duration duration

record branch_plan =
  bp_source :: string
  bp_guard :: "expr option"
  bp_threshold :: expr

record bind_plan =
  bd_alias :: string
  bd_window :: string
  bd_filter :: "expr option"

record rule_plan =
  rp_name :: string
  rp_binds :: "bind_plan list"
  rp_window_spec :: window_spec
  rp_keys :: "field_ref list"
  rp_event_steps :: "branch_plan list list"
  rp_entity_id_expr :: expr

section \<open>Structures\<close>

record step_info =
  si_bind_alias :: string
  si_scenario_alias :: string
  si_window_name :: string
  si_threshold :: nat
  si_filter_overrides :: jmap

record rule_structure =
  rs_keys :: "string list"
  rs_window_dur :: duration
  rs_steps :: "step_info list"
  rs_entity_id_field :: "string option"

record use_step_overrides =
  uo_count :: nat
  uo_predicates :: jmap

record inject_overrides =
  io_entity_field :: "string option"
  io_count_per_entity :: "nat option"
  io_steps_completed :: "nat option"
  io_within :: "duration option"
  io_use_steps :: "use_step_overrides list"

type_synonym alias_map = "string \<rightharpoonup> string \<times> string"

definition validation :: "string \<Rightarrow> wfgen_error" where
  "validation msg = WfgenError RValidation msg"

section \<open>Extraction\<close>

fun eval_const_threshold :: "expr \<Rightarrow> f64 option" where
  "eval_const_threshold (ENumber n) = Some n"
| "eval_const_threshold (ENeg e) = map_option fneg (eval_const_threshold e)"
| "eval_const_threshold e = None"

definition field_ref_field_name :: "field_ref \<Rightarrow> string" where
  "field_ref_field_name fr =
     (case fr of FSimple n \<Rightarrow> n | FQualified q n \<Rightarrow> n | FBracketed q n \<Rightarrow> n | FRefOther \<Rightarrow> [])"

definition expr_to_json_value :: "expr \<Rightarrow> json option" where
  "expr_to_json_value e =
     (case e of EString s \<Rightarrow> Some (JString s) | ENumber n \<Rightarrow> Some (json_f64 n) | EBool b \<Rightarrow> Some (JBool b) | _ \<Rightarrow> None)"

definition add_field_eq :: "expr \<Rightarrow> expr \<Rightarrow> jmap \<Rightarrow> jmap" where
  "add_field_eq l r m =
     (case l of
        EField fr \<Rightarrow> (case expr_to_json_value r of Some v \<Rightarrow> AList.update (field_ref_field_name fr) v m | None \<Rightarrow> m)
      | _ \<Rightarrow> m)"

fun extract_filter_constraints_recursive :: "expr \<Rightarrow> jmap \<Rightarrow> jmap" where
  "extract_filter_constraints_recursive (EBinOp OpAnd l r) m =
     extract_filter_constraints_recursive r (extract_filter_constraints_recursive l m)"
| "extract_filter_constraints_recursive (EBinOp OpEq l r) m = add_field_eq r l (add_field_eq l r m)"
| "extract_filter_constraints_recursive e m = m"

definition extract_filter_constraints :: "expr \<Rightarrow> jmap" where
  "extract_filter_constraints e = extract_filter_constraints_recursive e []"

definition extract_entity_id_field :: "expr \<Rightarrow> string option" where
  "extract_entity_id_field e = (case e of EField fr \<Rightarrow> Some (field_ref_field_name fr) | _ \<Rightarrow> None)"

definition window_spec_dur :: "window_spec \<Rightarrow> duration" where
  "window_spec_dur w = (case w of Sliding d \<Rightarrow> d | Fixed d \<Rightarrow> d | Session d \<Rightarrow> d | Hop sz slide \<Rightarrow> sz)"

definition extend_map :: "jmap \<Rightarrow> jmap \<Rightarrow> jmap" where
  "extend_map m new = foldl (\<lambda>m kv. AList.update (fst kv) (snd kv) m) m new"

text \<open>One event step: only its first branch counts, a step of an uncovered bind is skipped.\<close>

definition extract_step :: "rule_plan \<Rightarrow> alias_map \<Rightarrow> branch_plan list \<Rightarrow> step_info list \<Rightarrow> wfgen_error + step_info list" where
  "extract_step rp am branches steps =
     (case branches of
        [] \<Rightarrow> Inl (validation ''step has no branches'')
      | b # _ \<Rightarrow>
         (case am (bp_source b) of
            None \<Rightarrow> Inr steps
          | Some (scenario_alias, window_name) \<Rightarrow>
             (case eval_const_threshold (bp_threshold b) of
                None \<Rightarrow> Inl (validation ''cannot evaluate threshold as constant'')
              | Some th \<Rightarrow>
                 let base = (case find_first (\<lambda>x. bd_alias x = bp_source b) (rp_binds rp) of
                               Some bd \<Rightarrow> (case bd_filter bd of Some f \<Rightarrow> extract_filter_constraints f | None \<Rightarrow> [])
                             | None \<Rightarrow> []);
                     fo = (case bp_guard b of Some g \<Rightarrow> extend_map base (extract_filter_constraints g) | None \<Rightarrow> base)
                 in Inr (steps @ [\<lparr>si_bind_alias = bp_source b, si_scenario_alias = scenario_alias,
                       si_window_name = window_name, si_threshold = to_u64 th, si_filter_overrides = fo\<rparr>]))))"

definition extract_rule_structure :: "rule_plan \<Rightarrow> alias_map \<Rightarrow> wfgen_error + rule_structure" where
  "extract_rule_structure rp am =
     rbind (rfold (extract_step rp am) (rp_event_steps rp) [])
       (\<lambda>steps. if steps = []
          then Inl (validation (''no inject streams map to any step in rule '' @ quoted (rp_name rp) @
                 ''; at least one inject alias must match a rule bind alias''))
          else Inr \<lparr>rs_keys = map field_ref_field_name (rp_keys rp), rs_window_dur = window_spec_dur (rp_window_spec rp),
                 rs_steps = steps, rs_entity_id_field = extract_entity_id_field (rp_entity_id_expr rp)\<rparr>)"

text \<open>The \<open>Debug\<close> form of a duration: its largest unit, with the fraction without trailing zeros.\<close>

definition pad_zeros :: "nat \<Rightarrow> string \<Rightarrow> string" where
  "pad_zeros w s = replicate (w - length s) (CHR ''0'') @ s"

definition trim_zeros :: "string \<Rightarrow> string" where
  "trim_zeros s = rev (dropWhile (\<lambda>c. c = CHR ''0'') (rev s))"

definition fmt_decimal :: "nat \<Rightarrow> nat \<Rightarrow> nat \<Rightarrow> string" where
  "fmt_decimal whole fr width =
     (let f = trim_zeros (pad_zeros width (dec_digits fr)) in
      if f = [] then dec_digits whole else dec_digits whole @ ''.'' @ f)"

definition duration_debug :: "duration \<Rightarrow> string" where
  "duration_debug d =
     (if 10 ^ 9 \<le> d then fmt_decimal (d div 10 ^ 9) (d mod 10 ^ 9) 9 @ ''s''
      else if 10 ^ 6 \<le> d then fmt_decimal (d div 10 ^ 6) (d mod 10 ^ 6) 6 @ ''ms''
      else if 10 ^ 3 \<le> d then fmt_decimal (d div 10 ^ 3) (d mod 10 ^ 3) 3 @ [CHR 0xC2, CHR 0xB5] @ ''s''
      else dec_digits d @ ''ns'')"

definition attr_value_to_json :: "attr_value \<Rightarrow> json option" where
  "attr_value_to_json v =
     (case v of AttrString s \<Rightarrow> Some (JString s) | AttrNumber n \<Rightarrow> Some (json_f64 n)
      | AttrBool b \<Rightarrow> Some (JBool b) | AttrDuration d \<Rightarrow> Some (JString (duration_debug d)))"

definition predicates_map :: "field_predicate list \<Rightarrow> jmap" where
  "predicates_map ps =
     foldl (\<lambda>m p. case attr_value_to_json (fp_value p) of Some v \<Rightarrow> AList.update (fp_field p) v m | None \<Rightarrow> m) [] ps"

definition no_overrides :: inject_overrides where
  "no_overrides = \<lparr>io_entity_field = None, io_count_per_entity = None, io_steps_completed = None,
     io_within = None, io_use_steps = []\<rparr>"

definition apply_param :: "inject_overrides \<Rightarrow> param_assign \<Rightarrow> inject_overrides" where
  "apply_param o1 p =
     (if pa_name p = ''count_per_entity''
      then (case pa_value p of PNumber n \<Rightarrow> o1\<lparr>io_count_per_entity := Some (to_u64 n)\<rparr> | _ \<Rightarrow> o1)
      else if pa_name p = ''steps_completed''
      then (case pa_value p of PNumber n \<Rightarrow> o1\<lparr>io_steps_completed := Some (to_u64 n)\<rparr> | _ \<Rightarrow> o1)
      else if pa_name p = ''within''
      then (case pa_value p of PDuration d \<Rightarrow> o1\<lparr>io_within := Some d\<rparr> | _ \<Rightarrow> o1)
      else o1)"

definition extract_inject_overrides :: "inject_line \<Rightarrow> inject_overrides" where
  "extract_inject_overrides line =
     (foldl apply_param no_overrides (il_params line))
       \<lparr>io_use_steps := map (\<lambda>u. \<lparr>uo_count = us_count u, uo_predicates = predicates_map (us_predicates u)\<rparr>)
                         (il_use_steps line)\<rparr>"

definition use_of_step :: "seq_step \<Rightarrow> use_step_overrides list" where
  "use_of_step st =
     (case st of SeqUse ps n \<Rightarrow> [\<lparr>uo_count = n, uo_predicates = predicates_map ps\<rparr>] | SeqNot ps w \<Rightarrow> [])"

definition extract_syntax_case_overrides :: "syntax_inject_case \<Rightarrow> inject_overrides" where
  "extract_syntax_case_overrides c =
     no_overrides\<lparr>io_entity_field := Some (seq_entity (ic_seq c)),
       io_use_steps := concat (map use_of_step (seq_steps (ic_seq c)))\<rparr>"

section \<open>Stream totals and alias maps\<close>

text \<open>The events of each stream by rate; the last stream takes what is left.\<close>

fun split_totals :: "nat \<Rightarrow> f64 \<Rightarrow> nat \<Rightarrow> stream_block list \<Rightarrow> (stream_block \<times> nat) list" where
  "split_totals tot rt remaining [] = []"
| "split_totals tot rt remaining [s] = [(s, remaining)]"
| "split_totals tot rt remaining (s # t # ss) =
     (let proportion = fdiv (events_per_second (sb_rate s)) rt;
          c = min (to_u64 (fround (fmul (f64_of_nat tot) proportion))) remaining
      in (s, c) # split_totals tot rt (remaining - c) (t # ss))"

definition total_rate :: "scenario_decl \<Rightarrow> f64" where
  "total_rate sc = fsum (map (\<lambda>s. events_per_second (sb_rate s)) (sc_streams sc))"

definition compute_stream_totals :: "scenario_decl \<Rightarrow> (string \<rightharpoonup> nat)" where
  "compute_stream_totals sc =
     (if feq (total_rate sc) f64_zero then Map.empty
      else foldl (\<lambda>m (s, c). m(sb_alias s \<mapsto> c)) Map.empty
             (split_totals (sc_total sc) (total_rate sc) (sc_total sc) (sc_streams sc)))"

definition map_stream :: "rule_plan \<Rightarrow> stream_block list \<Rightarrow> string \<Rightarrow> alias_map \<Rightarrow> wfgen_error + alias_map" where
  "map_stream rp streams name m =
     (case find_first (\<lambda>s. sb_alias s = name) streams of
        None \<Rightarrow> Inl (validation (''inject stream '' @ quoted name @ '' not found in scenario''))
      | Some s \<Rightarrow>
         rbind (if list_ex (\<lambda>b. bd_alias b = name) (rp_binds rp) then Inr name
                else (case map bd_alias (filter (\<lambda>b. bd_window b = sb_window s) (rp_binds rp)) of
                        [] \<Rightarrow> Inl (validation (''inject stream '' @ quoted name @ '' cannot be mapped to any bind in rule '' @ quoted (rp_name rp)))
                      | [b] \<Rightarrow> Inr b
                      | _ \<Rightarrow> Inl (validation (''inject stream '' @ quoted name @ '' maps to multiple binds in rule '' @ quoted (rp_name rp) @
                          ''; use explicit bind aliases in .wfg''))))
           (\<lambda>bind_alias. Inr (m(bind_alias \<mapsto> (sb_alias s, sb_window s)))))"

definition build_alias_map :: "string list \<Rightarrow> stream_block list \<Rightarrow> rule_plan \<Rightarrow> wfgen_error + alias_map" where
  "build_alias_map names streams rp = rfold (map_stream rp streams) names Map.empty"

definition map_branch :: "rule_plan \<Rightarrow> stream_block \<Rightarrow> alias_map \<Rightarrow> branch_plan \<Rightarrow> alias_map" where
  "map_branch rp s m b =
     (case find_first (\<lambda>x. bd_alias x = bp_source b) (rp_binds rp) of
        None \<Rightarrow> m
      | Some bd \<Rightarrow> if bd_window bd \<noteq> sb_window s then m
          else if m (bp_source b) \<noteq> None then m
          else m(bp_source b \<mapsto> (sb_alias s, sb_window s)))"

definition build_alias_map_for_syntax_case ::
  "syntax_inject_case \<Rightarrow> stream_block list \<Rightarrow> rule_plan \<Rightarrow> wfgen_error + alias_map" where
  "build_alias_map_for_syntax_case c streams rp =
     (case find_first (\<lambda>s. sb_alias s = ic_stream c) streams of
        None \<Rightarrow> Inl (validation (''inject stream '' @ quoted (ic_stream c) @ '' not found in scenario''))
      | Some s \<Rightarrow>
         let m = foldl (map_branch rp s) Map.empty (concat (rp_event_steps rp)) in
         if list_all (\<lambda>b. m (bp_source b) = None) (concat (rp_event_steps rp))
         then Inl (validation (''inject stream '' @ quoted (ic_stream c) @ '' cannot be mapped to any event step bind in rule '' @ quoted (rp_name rp)))
         else Inr m)"

section \<open>Event counts\<close>

record use_step_plan =
  up_rule_step_idx :: nat
  up_count :: nat
  up_predicates :: jmap

definition compute_window_bounds :: "f64 \<Rightarrow> duration \<Rightarrow> f64 \<times> f64" where
  "compute_window_bounds dur_secs window_dur =
     (let window_secs = as_secs_f64 window_dur in (window_secs, fmax (fsub dur_secs window_secs) f64_zero))"

definition check_predicate :: "nat \<Rightarrow> use_step_overrides \<Rightarrow> string \<times> json \<Rightarrow> unit \<Rightarrow> wfgen_error + unit" where
  "check_predicate i u fe s =
     (case map_of (uo_predicates u) (fst fe) of
        None \<Rightarrow> Inr ()
      | Some actual \<Rightarrow> if json_eq actual (snd fe) then Inr ()
          else Inl (validation (''injection use step '' @ dec_digits (i + 1) @ '' field '' @ quoted (fst fe) @ '' conflicts with rule step filter'')))"

definition validate_use_step_predicates :: "nat \<Rightarrow> use_step_overrides \<Rightarrow> step_info \<Rightarrow> wfgen_error + unit" where
  "validate_use_step_predicates i u step = rfold (check_predicate i u) (si_filter_overrides step) ()"

definition plan_use_step ::
  "step_info list \<Rightarrow> bool \<Rightarrow> nat \<times> use_step_overrides \<Rightarrow> use_step_plan list \<Rightarrow> wfgen_error + use_step_plan list" where
  "plan_use_step steps checked iu planned =
     (let (i, u) = iu in
      if length steps \<le> i
      then Inl (validation (''injection use step '' @ dec_digits (i + 1) @ '' exceeds rule step count '' @ dec_digits (length steps) @
                           ''; each use(...) maps to one rule step''))
      else if uo_count u = 0
      then Inl (validation (''injection use step '' @ dec_digits (i + 1) @ '' count must be greater than 0''))
      else rbind (if checked then validate_use_step_predicates i u (steps ! i) else Inr ())
             (\<lambda>_. Inr (planned @ [\<lparr>up_rule_step_idx = i, up_count = uo_count u, up_predicates = uo_predicates u\<rparr>])))"

definition plan_use_steps ::
  "step_info list \<Rightarrow> use_step_overrides list \<Rightarrow> bool \<Rightarrow> wfgen_error + use_step_plan list" where
  "plan_use_steps steps use_steps checked =
     (if steps = [] then Inr [] else rfold (plan_use_step steps checked) (enumerate 0 use_steps) [])"

definition add_planned :: "nat list \<Rightarrow> use_step_plan \<Rightarrow> nat list" where
  "add_planned counts p = counts[up_rule_step_idx p := counts ! up_rule_step_idx p + up_count p]"

definition planned_counts :: "nat \<Rightarrow> use_step_plan list \<Rightarrow> nat list" where
  "planned_counts n planned = foldl add_planned (replicate n 0) planned"

definition near_miss_step_idx_from_plan :: "use_step_plan list \<Rightarrow> nat \<Rightarrow> nat option" where
  "near_miss_step_idx_from_plan planned steps_len =
     (if planned = [] then None else Some (min (Max (set (map up_rule_step_idx planned))) (steps_len - 1)))"

definition compute_near_miss_counts :: "step_info list \<Rightarrow> inject_overrides \<Rightarrow> wfgen_error + nat list" where
  "compute_near_miss_counts steps ov =
     (let legacy =
        (if steps = [] then Inl (Panic ''index out of range'')
         else let n = length steps;
                  eff = (case io_count_per_entity ov of Some c \<Rightarrow> c | None \<Rightarrow> si_threshold (steps ! (n - 1)));
                  nm = min (case io_steps_completed ov of Some k \<Rightarrow> k | None \<Rightarrow> n - 1) (n - 1)
              in Inr (map (\<lambda>(i, step). if nm < i then 0 else if i = nm then eff - 1
                        else (case io_count_per_entity ov of Some c \<Rightarrow> c | None \<Rightarrow> si_threshold step))
                   (enumerate 0 steps)))
      in if io_use_steps ov = [] then legacy
         else rbind (plan_use_steps steps (io_use_steps ov) True)
           (\<lambda>planned. if planned = [] then legacy
              else let nm = (case near_miss_step_idx_from_plan planned (length steps) of Some i \<Rightarrow> i | None \<Rightarrow> length steps - 1);
                       counts = planned_counts (length steps) planned
                   in Inr (map (\<lambda>(i, c). if i < nm then (if c = 0 then si_threshold (steps ! i) else c)
                                 else if i = nm then min c (si_threshold (steps ! i) - 1) else 0)
                        (enumerate 0 counts))))"

text \<open>The events of a stream an injection may use: a rounded percentage.\<close>

definition stream_budget :: "f64 \<Rightarrow> (string \<rightharpoonup> nat) \<Rightarrow> string \<Rightarrow> nat" where
  "stream_budget percent totals a =
     to_u64 (fround (fdiv (fmul (f64_of_nat (count_at totals a)) percent) (f64_of_nat 100)))"

definition compute_cluster_count :: "f64 \<Rightarrow> step_info list \<Rightarrow> (string \<rightharpoonup> nat) \<Rightarrow> nat" where
  "compute_cluster_count percent steps totals =
     (let m = foldl (\<lambda>m step. let b = stream_budget percent totals (si_scenario_alias step) in
                       if 0 < si_threshold step then min m (b div si_threshold step) else m) u64_max steps
      in if m = u64_max then 0 else m)"

text \<open>The events of one cluster on a stream are added up in 64 bits; the release build wraps around.\<close>

definition stream_event_sum :: "step_info list \<Rightarrow> nat list \<Rightarrow> string \<Rightarrow> nat" where
  "stream_event_sum steps counts a =
     sum_list (map snd (filter (\<lambda>(s, c). si_scenario_alias s = a) (zip steps counts)))"

definition stream_events :: "step_info list \<Rightarrow> nat list \<Rightarrow> string \<Rightarrow> nat" where
  "stream_events steps counts a = stream_event_sum steps counts a mod 2 ^ 64"

definition compute_cluster_count_for_step_counts ::
  "f64 \<Rightarrow> step_info list \<Rightarrow> nat list \<Rightarrow> (string \<rightharpoonup> nat) \<Rightarrow> nat" where
  "compute_cluster_count_for_step_counts percent steps counts totals =
     (let m = foldl (\<lambda>m a. let ev = stream_events steps counts a in
                if ev = 0 then m else min m (stream_budget percent totals a div ev))
              u64_max (remdups (map (\<lambda>(s, c). si_scenario_alias s) (zip steps counts)))
      in if m = u64_max then 0 else m)"

definition compute_use_step_counts :: "step_info list \<Rightarrow> use_step_overrides list \<Rightarrow> wfgen_error + nat list" where
  "compute_use_step_counts steps use_steps =
     (if steps = [] then Inr []
      else rbind (plan_use_steps steps use_steps True) (\<lambda>planned. Inr (planned_counts (length steps) planned)))"

definition compute_hit_counts :: "step_info list \<Rightarrow> inject_overrides \<Rightarrow> wfgen_error + nat list" where
  "compute_hit_counts steps ov =
     (if io_use_steps ov = [] then Inr (map si_threshold steps)
      else rbind (compute_use_step_counts steps (io_use_steps ov))
        (\<lambda>counts. Inr (map (\<lambda>(c, step). if c = 0 then si_threshold step else c) (zip counts steps) @
                        drop (length steps) counts)))"


section \<open>What planning accepts\<close>

definition planned_step :: "nat \<times> use_step_overrides \<Rightarrow> use_step_plan" where
  "planned_step iu = \<lparr>up_rule_step_idx = fst iu, up_count = uo_count (snd iu), up_predicates = uo_predicates (snd iu)\<rparr>"

definition use_ok :: "step_info list \<Rightarrow> bool \<Rightarrow> nat \<Rightarrow> use_step_overrides \<Rightarrow> bool" where
  "use_ok steps checked i u =
     (i < length steps \<and> 0 < uo_count u \<and>
      (checked \<longrightarrow> (\<forall>(f, v) \<in> set (si_filter_overrides (steps ! i)). \<forall>actual.
          map_of (uo_predicates u) f = Some actual \<longrightarrow> json_eq actual v)))"

lemma rfold_unit_Inr:
  "rfold f xs () = Inr () \<longleftrightarrow> (\<forall>x \<in> set xs. f x () = Inr ())"
  by (induction xs) (auto simp: rbind_Inr_iff)

lemma validate_predicates_iff:
  "validate_use_step_predicates i u step = Inr () \<longleftrightarrow>
   (\<forall>(f, v) \<in> set (si_filter_overrides step). \<forall>actual. map_of (uo_predicates u) f = Some actual \<longrightarrow> json_eq actual v)"
  unfolding validate_use_step_predicates_def rfold_unit_Inr
  by (intro ball_cong refl) (auto simp: check_predicate_def split: option.splits if_splits)

lemma plan_use_step_iff:
  "plan_use_step steps checked (i, u) acc = Inr r \<longleftrightarrow> use_ok steps checked i u \<and> r = acc @ [planned_step (i, u)]"
  by (auto simp: plan_use_step_def use_ok_def planned_step_def rbind_Inr_iff validate_predicates_iff)

lemma plan_fold_iff:
  "rfold (plan_use_step steps checked) (enumerate k us) acc = Inr r \<longleftrightarrow>
   (\<forall>i < length us. use_ok steps checked (k + i) (us ! i)) \<and> r = acc @ map planned_step (enumerate k us)"
proof (induction us arbitrary: k acc)
  case (Cons u us)
  have "rfold (plan_use_step steps checked) (enumerate k (u # us)) acc = Inr r \<longleftrightarrow>
      use_ok steps checked k u \<and> rfold (plan_use_step steps checked) (enumerate (Suc k) us) (acc @ [planned_step (k, u)]) = Inr r"
    by (auto simp: rbind_Inr_iff plan_use_step_iff)
  then show ?case unfolding Cons.IH by (auto simp: nth_Cons less_Suc_eq_0_disj split: nat.splits)
qed auto

lemma plan_use_steps_iff:
  "steps \<noteq> [] \<Longrightarrow> plan_use_steps steps us checked = Inr r \<longleftrightarrow>
   (\<forall>i < length us. use_ok steps checked i (us ! i)) \<and> r = map planned_step (enumerate 0 us)"
  using plan_fold_iff [of steps checked 0 us "[]" r] by (simp add: plan_use_steps_def)

lemma plan_length: "steps \<noteq> [] \<Longrightarrow> plan_use_steps steps us checked = Inr r \<Longrightarrow> length us \<le> length steps"
  unfolding plan_use_steps_iff use_ok_def by (metis diff_less lessI less_imp_diff_less less_le_not_le linorder_le_less_linear)

lemma planned_counts_fold:
  "k + length us \<le> length cs \<Longrightarrow> i < length cs \<Longrightarrow>
   foldl add_planned cs (map planned_step (enumerate k us)) ! i =
     cs ! i + (if k \<le> i \<and> i < k + length us then uo_count (us ! (i - k)) else 0)"
proof (induction us arbitrary: k cs)
  case (Cons u us)
  let ?cs = "cs[k := cs ! k + uo_count u]"
  have "foldl add_planned cs (map planned_step (enumerate k (u # us))) ! i =
      foldl add_planned ?cs (map planned_step (enumerate (Suc k) us)) ! i"
    by (simp add: add_planned_def planned_step_def)
  also have "\<dots> = ?cs ! i + (if Suc k \<le> i \<and> i < Suc k + length us then uo_count (us ! (i - Suc k)) else 0)"
    using Cons by (intro Cons.IH) simp_all
  also have "\<dots> = cs ! i + (if k \<le> i \<and> i < k + length (u # us) then uo_count ((u # us) ! (i - k)) else 0)"
  proof (cases "Suc k \<le> i \<and> i < Suc k + length us")
    case True
    then have "(u # us) ! (i - k) = us ! (i - Suc k)" by (simp add: nth_Cons')
    then show ?thesis using True Cons.prems by auto
  next
    case False
    then show ?thesis using Cons.prems by (cases "i = k") (auto simp: nth_list_update)
  qed
  finally show ?case .
qed simp

lemma length_add_planned_fold [simp]: "length (foldl add_planned cs ps) = length cs"
  by (induction ps arbitrary: cs) (simp_all add: add_planned_def)

lemma planned_counts_nth:
  "length us \<le> n \<Longrightarrow> i < n \<Longrightarrow>
   planned_counts n (map planned_step (enumerate 0 us)) ! i = (if i < length us then uo_count (us ! i) else 0)"
  using planned_counts_fold [of 0 us "replicate n 0" i] by (simp add: planned_counts_def)

lemma length_planned_counts [simp]: "length (planned_counts n ps) = n"
  by (simp add: planned_counts_def)

lemma near_miss_idx:
  assumes "us \<noteq> []" "length us \<le> n"
  shows "near_miss_step_idx_from_plan (map planned_step (enumerate 0 us)) n = Some (length us - 1)"
proof -
  have "map up_rule_step_idx (map planned_step (enumerate 0 us)) = [0..<length us]"
    by (simp add: planned_step_def o_def)
  then have "set (map up_rule_step_idx (map planned_step (enumerate 0 us))) = {0..<length us}" by (metis set_upt)
  moreover have "Max {0..<length us} = length us - 1"
    using assms(1) by (intro Max_eqI) auto
  ultimately show ?thesis using assms
    by (simp add: near_miss_step_idx_from_plan_def enumerate_eq_zip)
qed

text \<open>
  C9: planning the ordered \<open>use\<close> steps of an injection against the steps of a rule succeeds
  exactly when there are no more of them than rule steps, every count is positive and (when
  filters are checked) no predicate contradicts the filter of its step; the plan is then one
  entry per \<open>use\<close>, on the rule step of the same position.
\<close>

theorem plan_use_steps_exact:
  assumes "steps \<noteq> []"
  shows "plan_use_steps steps us checked = Inr r \<longleftrightarrow>
    length us \<le> length steps \<and> (\<forall>i < length us. use_ok steps checked i (us ! i)) \<and>
    length r = length us \<and>
    (\<forall>i < length us. up_rule_step_idx (r ! i) = i \<and> up_count (r ! i) = uo_count (us ! i) \<and>
       up_predicates (r ! i) = uo_predicates (us ! i))"
proof
  assume p: "plan_use_steps steps us checked = Inr r"
  then have r: "r = map planned_step (enumerate 0 us)" "\<forall>i < length us. use_ok steps checked i (us ! i)"
    using plan_use_steps_iff [OF assms] by blast+
  then show "length us \<le> length steps \<and> (\<forall>i < length us. use_ok steps checked i (us ! i)) \<and>
    length r = length us \<and>
    (\<forall>i < length us. up_rule_step_idx (r ! i) = i \<and> up_count (r ! i) = uo_count (us ! i) \<and>
       up_predicates (r ! i) = uo_predicates (us ! i))"
    using plan_length [OF assms p] by (simp add: planned_step_def nth_enumerate_eq)
next
  assume h: "length us \<le> length steps \<and> (\<forall>i < length us. use_ok steps checked i (us ! i)) \<and>
    length r = length us \<and>
    (\<forall>i < length us. up_rule_step_idx (r ! i) = i \<and> up_count (r ! i) = uo_count (us ! i) \<and>
       up_predicates (r ! i) = uo_predicates (us ! i))"
  then have "r = map planned_step (enumerate 0 us)"
    by (intro nth_equalityI) (auto simp: planned_step_def nth_enumerate_eq)
  then show "plan_use_steps steps us checked = Inr r"
    using h plan_use_steps_iff [OF assms] by blast
qed

section \<open>Near misses stay below the threshold\<close>

text \<open>The boundary step and the events asked for at the other steps, as the scenario states them.\<close>

definition near_boundary :: "step_info list \<Rightarrow> inject_overrides \<Rightarrow> nat" where
  "near_boundary steps ov =
     (if io_use_steps ov \<noteq> [] then length (io_use_steps ov) - 1
      else min (case io_steps_completed ov of Some k \<Rightarrow> k | None \<Rightarrow> length steps - 1) (length steps - 1))"

definition step_request :: "step_info list \<Rightarrow> inject_overrides \<Rightarrow> nat \<Rightarrow> nat" where
  "step_request steps ov i =
     (if io_use_steps ov \<noteq> [] then uo_count (io_use_steps ov ! i)
      else (case io_count_per_entity ov of Some c \<Rightarrow> c | None \<Rightarrow> si_threshold (steps ! i)))"

text \<open>
  Without \<open>use\<close> steps the boundary gets one event less than \<open>count_per_entity\<close>, or than the
  threshold of the \<^emph>\<open>last\<close> step; the scenario asks for a near miss when that is not more than the
  boundary's own threshold.
\<close>

definition asks_near_miss :: "step_info list \<Rightarrow> inject_overrides \<Rightarrow> bool" where
  "asks_near_miss steps ov =
     (io_use_steps ov \<noteq> [] \<or>
      (case io_count_per_entity ov of Some c \<Rightarrow> c | None \<Rightarrow> si_threshold (steps ! (length steps - 1)))
        \<le> si_threshold (steps ! near_boundary steps ov))"

lemma near_miss_legacy_nth:
  assumes "steps \<noteq> []" "io_use_steps ov = []" "compute_near_miss_counts steps ov = Inr counts"
  shows "length counts = length steps" and "near_boundary steps ov < length steps"
    and "\<And>i. i < length steps \<Longrightarrow> counts ! i =
      (if near_boundary steps ov < i then 0
       else if i = near_boundary steps ov
       then (case io_count_per_entity ov of Some c \<Rightarrow> c | None \<Rightarrow> si_threshold (steps ! (length steps - 1))) - 1
       else step_request steps ov i)"
proof -
  let ?b = "near_boundary steps ov"
  let ?eff = "case io_count_per_entity ov of Some c \<Rightarrow> c | None \<Rightarrow> si_threshold (steps ! (length steps - 1))"
  have c: "counts = map (\<lambda>(i, step). if ?b < i then 0 else if i = ?b then ?eff - 1
        else (case io_count_per_entity ov of Some c \<Rightarrow> c | None \<Rightarrow> si_threshold step)) (enumerate 0 steps)"
    using assms by (simp add: compute_near_miss_counts_def near_boundary_def Let_def cong: if_cong split_cong)
  show "length counts = length steps" by (simp add: c)
  show "?b < length steps" using assms(1,2) by (simp add: near_boundary_def min_less_iff_disj)
  show "counts ! i = (if ?b < i then 0 else if i = ?b then ?eff - 1 else step_request steps ov i)"
    if "i < length steps" for i
    using that assms(2) by (simp add: c nth_enumerate_eq step_request_def)
qed

lemma near_miss_use_nth:
  assumes "steps \<noteq> []" "io_use_steps ov \<noteq> []" "compute_near_miss_counts steps ov = Inr counts"
  shows "length counts = length steps" and "near_boundary steps ov < length steps"
    and "\<And>i. i < length steps \<Longrightarrow> counts ! i =
      (if near_boundary steps ov < i then 0
       else if i = near_boundary steps ov then min (step_request steps ov i) (si_threshold (steps ! i) - 1)
       else step_request steps ov i)"
proof -
  let ?us = "io_use_steps ov" and ?n = "length steps"
  obtain r where r: "plan_use_steps steps ?us True = Inr r"
    using assms(2,3) by (auto simp: compute_near_miss_counts_def Let_def rbind_Inr_iff)
  have len: "length ?us \<le> ?n" by (rule plan_length [OF assms(1) r])
  have rr: "r = map planned_step (enumerate 0 ?us)" "\<forall>i < length ?us. use_ok steps True i (?us ! i)"
    using r plan_use_steps_iff [OF assms(1)] by blast+
  have "r \<noteq> []" using assms(2) rr(1) by (simp add: enumerate_eq_zip)
  then have c: "counts = map (\<lambda>(i, c). if i < length ?us - 1 then (if c = 0 then si_threshold (steps ! i) else c)
        else if i = length ?us - 1 then min c (si_threshold (steps ! i) - 1) else 0)
      (enumerate 0 (planned_counts ?n r))"
    using assms(2,3) r near_miss_idx [OF assms(2) len]
    by (simp add: compute_near_miss_counts_def Let_def rr(1) cong: if_cong)
  show "length counts = ?n" by (simp add: c)
  show "near_boundary steps ov < ?n" using assms(2) len by (cases ?us) (auto simp: near_boundary_def)
  show "counts ! i = (if near_boundary steps ov < i then 0
       else if i = near_boundary steps ov then min (step_request steps ov i) (si_threshold (steps ! i) - 1)
       else step_request steps ov i)" if "i < ?n" for i
  proof -
    have us: "\<not> i < length ?us \<or> planned_counts ?n r ! i = uo_count (?us ! i) \<and> 0 < uo_count (?us ! i)"
      using planned_counts_nth [of ?us ?n i] len rr that by (auto simp: use_ok_def)
    have "i < length ?us \<longleftrightarrow> i \<le> length ?us - 1" using assms(2) by (cases ?us) auto
    with us show ?thesis
      using that assms(2) by (auto simp: c nth_enumerate_eq near_boundary_def step_request_def)
  qed
qed


text \<open>
  Without \<open>use\<close> steps \<open>count_per_entity\<close> replaces the threshold but is not bounded by it: one
  past the threshold already gives the boundary step as many events as the rule asks for.
\<close>

lemma near_miss_count_per_entity_reaches_threshold:
  assumes "io_use_steps ov = []" "io_count_per_entity ov = Some c" "io_steps_completed ov = None"
    and "\<forall>s \<in> set steps. si_threshold s < c" "steps \<noteq> []"
  shows "\<exists>counts. compute_near_miss_counts steps ov = Inr counts \<and> length counts = length steps \<and>
    (\<forall>i < length steps. si_threshold (steps ! i) \<le> counts ! i)"
proof -
  have "si_threshold (steps ! 0) < c" using assms(4,5) by simp
  then have c: "0 < c" by simp
  have lt: "si_threshold (steps ! i) \<le> c - 1" if "i < length steps" for i
    using assms(4) nth_mem [OF that] by fastforce
  have "compute_near_miss_counts steps ov = Inr (map (\<lambda>(i, step). if length steps - 1 < i then 0
      else if i = length steps - 1 then c - 1 else c) (enumerate 0 steps))"
    using assms(1-3,5) by (simp add: compute_near_miss_counts_def Let_def cong: if_cong)
  moreover have "si_threshold (steps ! i) \<le> map (\<lambda>(i, step). if length steps - 1 < i then 0
      else if i = length steps - 1 then c - 1 else c) (enumerate 0 steps) ! i" if "i < length steps" for i
    using lt [OF that] that c by (auto simp: nth_enumerate_eq)
  ultimately show ?thesis by auto
qed

section \<open>Clusters fit the budget\<close>

lemma min_fold_le:
  "foldl (\<lambda>m a. if e a = 0 then m else min m (b a div e a)) m xs \<le> (m::nat) \<and>
   (\<forall>a \<in> set xs. e a \<noteq> 0 \<longrightarrow> foldl (\<lambda>m a. if e a = 0 then m else min m (b a div e a)) m xs \<le> b a div e a)"
proof (induction xs arbitrary: m)
  case (Cons x xs)
  show ?case using Cons [of "if e x = 0 then m else min m (b x div e x)"] by (auto split: if_splits)
qed simp

text \<open>
  C11: the number of clusters planned from the event counts of the steps (hits with \<open>use\<close> steps,
  near misses and misses with \<open>use\<close> steps) keeps every stream within its budget: the events these
  clusters put on a stream, over all the steps bound to it, are at most the rounded percentage of
  the stream's events, provided the events of one cluster on it can be counted in 64 bits.
  Hits without \<open>use\<close> steps are planned by \<open>compute_cluster_count\<close>, for which this does not hold
  (\<open>hit_clusters_exceed_stream_budget\<close> below).
\<close>

theorem clusters_within_budget:
  assumes "stream_event_sum steps counts a < 2 ^ 64"
  shows "stream_event_sum steps counts a * compute_cluster_count_for_step_counts percent steps counts totals
     \<le> stream_budget percent totals a"
proof (cases "stream_events steps counts a = 0")
  case False
  let ?xs = "remdups (map (\<lambda>(s, c). si_scenario_alias s) (zip steps counts))"
  have ev: "stream_events steps counts a = stream_event_sum steps counts a"
    using assms by (simp add: stream_events_def)
  have "a \<in> set ?xs"
  proof (rule ccontr)
    assume "a \<notin> set ?xs"
    then have "filter (\<lambda>(s, c). si_scenario_alias s = a) (zip steps counts) = []"
      by (force simp: filter_empty_conv)
    then show False using False by (simp add: stream_events_def stream_event_sum_def)
  qed
  then have "compute_cluster_count_for_step_counts percent steps counts totals \<le>
      stream_budget percent totals a div stream_events steps counts a"
    using min_fold_le [where e = "stream_events steps counts" and b = "stream_budget percent totals" and m = u64_max and xs = ?xs] False
    by (auto simp: compute_cluster_count_for_step_counts_def Let_def)
  then have "stream_events steps counts a * compute_cluster_count_for_step_counts percent steps counts totals \<le>
      stream_events steps counts a * (stream_budget percent totals a div stream_events steps counts a)"
    by simp
  also have "\<dots> \<le> stream_budget percent totals a" by simp
  finally show ?thesis unfolding ev .
qed (use assms in \<open>simp add: stream_events_def\<close>)

text \<open>
  The count used for hits without \<open>use\<close> steps bounds each step by the whole budget of its
  stream: two steps on one stream together take twice the budget.
\<close>

definition two_steps :: "step_info list" where
  "two_steps = (let s = \<lparr>si_bind_alias = ''b'', si_scenario_alias = ''s'', si_window_name = ''w'',
     si_threshold = 5, si_filter_overrides = []\<rparr> in [s, s])"

lemma hundred_ten_percent: "stream_budget (f64_of_nat 10) [''s'' \<mapsto> 100] ''s'' = 10"
  by (simp add: stream_budget_def count_at_def f64_eval)

lemma hit_clusters_exceed_stream_budget:
  "compute_cluster_count (f64_of_nat 10) two_steps [''s'' \<mapsto> 100] = 2 \<and>
   stream_event_sum two_steps (map si_threshold two_steps) ''s'' * 2 = 20 \<and>
   stream_budget (f64_of_nat 10) [''s'' \<mapsto> 100] ''s'' = 10"
  by (simp add: compute_cluster_count_def two_steps_def hundred_ten_percent stream_event_sum_def Let_def)

text \<open>
  The premise of the bound is needed: two steps of \<open>2 ^ 63\<close> events each add up to no event at
  all, and the stream no longer limits the number of clusters.
\<close>

lemma wrapped_events_do_not_limit:
  "stream_event_sum two_steps [2 ^ 63, 2 ^ 63] ''s'' = 2 ^ 64 \<and> stream_events two_steps [2 ^ 63, 2 ^ 63] ''s'' = 0"
  by (simp add: two_steps_def stream_events_def stream_event_sum_def Let_def)

theorem clusters_within_budget_witness:
  "stream_event_sum two_steps [5, 5] ''s'' = 10 \<and>
   10 * compute_cluster_count_for_step_counts (f64_of_nat 10) two_steps [5, 5] [''s'' \<mapsto> 100] \<le> 10"
proof -
  have e: "stream_event_sum two_steps [5, 5] ''s'' = 10"
    by (simp add: two_steps_def stream_event_sum_def Let_def)
  then show ?thesis
    using clusters_within_budget [of two_steps "[5, 5]" "''s''" "f64_of_nat 10" "[''s'' \<mapsto> 100]"]
    by (simp add: hundred_ten_percent)
qed

section \<open>Stream totals add up\<close>

lemma split_totals_sum:
  "ss \<noteq> [] \<Longrightarrow> (\<Sum>(s, c)\<leftarrow>split_totals n r k ss. c) = k \<and> map fst (split_totals n r k ss) = ss"
proof (induction n r k ss rule: split_totals.induct)
  case (3 n r k s t ss)
  then show ?case by (simp add: Let_def)
qed simp_all

lemma count_at_fold_update:
  "distinct (map (\<lambda>p. f (fst p)) ps) \<Longrightarrow> (s, c) \<in> set ps \<Longrightarrow>
   count_at (foldl (\<lambda>m (s, c). m(f s \<mapsto> c)) m ps) (f s) = c"
proof (induction ps rule: rev_induct)
  case (snoc p ps)
  then show ?case by (cases p) (force simp: count_at_def)
qed simp

text \<open>
  The events of a scenario are divided over its streams without loss: when the total rate
  is not zero and the stream aliases differ, the totals of the streams sum to the scenario's
  total.
\<close>

theorem stream_totals_sum:
  assumes "sc_streams sc \<noteq> []" "distinct (map sb_alias (sc_streams sc))" "\<not> feq (total_rate sc) f64_zero"
  shows "(\<Sum>s\<leftarrow>sc_streams sc. count_at (compute_stream_totals sc) (sb_alias s)) = sc_total sc"
proof -
  let ?ps = "split_totals (sc_total sc) (total_rate sc) (sc_total sc) (sc_streams sc)"
  have ps: "(\<Sum>(s, c)\<leftarrow>?ps. c) = sc_total sc" "map fst ?ps = sc_streams sc"
    using split_totals_sum [OF assms(1)] by blast+
  have d: "distinct (map (\<lambda>p. sb_alias (fst p)) ?ps)"
    using assms(2) ps(2) by (metis (no_types, lifting) list.map_comp comp_apply map_eq_conv)
  have "(\<Sum>s\<leftarrow>sc_streams sc. count_at (compute_stream_totals sc) (sb_alias s)) =
        (\<Sum>p\<leftarrow>?ps. count_at (compute_stream_totals sc) (sb_alias (fst p)))"
    using ps(2) by (metis (no_types, lifting) list.map_comp comp_apply map_eq_conv)
  also have "\<dots> = (\<Sum>(s, c)\<leftarrow>?ps. c)"
    using count_at_fold_update [OF d] assms(3)
    by (intro arg_cong [of _ _ sum_list] map_cong refl) (auto simp: compute_stream_totals_def)
  finally show ?thesis using ps(1) by simp
qed


section \<open>Concrete plans\<close>

definition login_step :: step_info where
  "login_step = \<lparr>si_bind_alias = ''fail'', si_scenario_alias = ''login'', si_window_name = ''login'',
     si_threshold = 5, si_filter_overrides = [(''action'', JString ''fail'')]\<rparr>"

definition three_uses :: inject_overrides where
  "three_uses = no_overrides\<lparr>io_use_steps := [\<lparr>uo_count = 7, uo_predicates = [(''action'', JString ''fail'')]\<rparr>]\<rparr>"

theorem plan_use_steps_exact_witness:
  "plan_use_steps [login_step] (io_use_steps three_uses) True =
     Inr [\<lparr>up_rule_step_idx = 0, up_count = 7, up_predicates = [(''action'', JString ''fail'')]\<rparr>]"
proof -
  have "[login_step] \<noteq> []" by simp
  from plan_use_steps_exact [OF this, of "io_use_steps three_uses" True
      "[\<lparr>up_rule_step_idx = 0, up_count = 7, up_predicates = [(''action'', JString ''fail'')]\<rparr>]"]
  show ?thesis by (simp add: three_uses_def no_overrides_def use_ok_def login_step_def)
qed

lemma login_near_miss: "compute_near_miss_counts [login_step] three_uses = Inr [4]"
  by (simp add: compute_near_miss_counts_def three_uses_def no_overrides_def plan_use_steps_def plan_use_step_def
      validate_use_step_predicates_def check_predicate_def login_step_def planned_counts_def add_planned_def
      near_miss_step_idx_from_plan_def)


theorem stream_totals_sum_witness:
  "\<exists>sc. sc_total sc = 10 \<and> (\<Sum>s\<leftarrow>sc_streams sc. count_at (compute_stream_totals sc) (sb_alias s)) = 10"
proof -
  define sc where "sc = \<lparr>sc_name = [], sc_seed = 0, sc_time_clause = \<lparr>tc_start = [], tc_duration = 0\<rparr>, sc_total = 10,
     sc_streams = [\<lparr>sb_alias = ''a'', sb_window = ''w'', sb_rate = \<lparr>rate_count = 1, rate_unit = PerSecond\<rparr>, sb_overrides = []\<rparr>,
       \<lparr>sb_alias = ''b'', sb_window = ''w'', sb_rate = \<lparr>rate_count = 2, rate_unit = PerSecond\<rparr>, sb_overrides = []\<rparr>],
     sc_injects = [], sc_faults = None, sc_oracle = None\<rparr>"
  have "\<not> feq (total_rate sc) f64_zero"
    by (simp add: sc_def total_rate_def events_per_second_def f64_eval)
  then have "(\<Sum>s\<leftarrow>sc_streams sc. count_at (compute_stream_totals sc) (sb_alias s)) = sc_total sc"
    by (intro stream_totals_sum) (simp_all add: sc_def)
  then show ?thesis by (intro exI [of _ sc]) (simp add: sc_def)
qed

end
