(* ===== verification/Datagen.thy ===== *)
theory Datagen
  imports InjectPlan Validate
begin

text \<open>
  Event generation (\<open>datagen/field_gen.rs\<close>, \<open>stream_gen.rs\<close>, \<open>inject_gen/helpers/generate.rs\<close>,
  \<open>hit.rs\<close>, \<open>near_miss.rs\<close>, \<open>non_hit.rs\<close>, \<open>dispatch.rs\<close>, \<open>inject_gen/mod.rs\<close>).

  The random generator of the \<open>rand\<close> library is a parameter: a state \<open>'g\<close> with operations
  that return a value and the next state; an empty or unbounded range is the panic the library
  documents. An instant is its number of nanoseconds since the epoch.
\<close>

section \<open>Random values\<close>

datatype int_kind = KU8 | KU32 | KI32 | KI64 | KU64 | KUsize

record 'g rng_ops =
  rng_int :: "int_kind \<Rightarrow> int \<Rightarrow> int \<Rightarrow> 'g \<Rightarrow> int \<times> 'g"
  rng_float :: "f64 \<Rightarrow> f64 \<Rightarrow> 'g \<Rightarrow> f64 \<times> 'g"
  rng_unit :: "'g \<Rightarrow> f64 \<times> 'g"
  rng_bool :: "'g \<Rightarrow> bool \<times> 'g"

text \<open>\<open>rng_int\<close> takes the two ends of the closed range; \<open>random_range\<close> stays in its range.\<close>

definition rng_laws :: "'g rng_ops \<Rightarrow> bool" where
  "rng_laws R =
     ((\<forall>k lo hi g. lo \<le> hi \<longrightarrow> lo \<le> fst (rng_int R k lo hi g) \<and> fst (rng_int R k lo hi g) \<le> hi) \<and>
      (\<forall>lo hi g. flt lo hi \<longrightarrow> fle lo (fst (rng_float R lo hi g)) \<and> flt (fst (rng_float R lo hi g)) hi) \<and>
      (\<forall>g. fle f64_zero (fst (rng_unit R g)) \<and> flt (fst (rng_unit R g)) (f64_of_nat 1)))"

definition finite_f64 :: "f64 \<Rightarrow> bool" where
  "finite_f64 x = (case x of Fin s m e \<Rightarrow> True | _ \<Rightarrow> False)"

definition float_range :: "'g rng_ops \<Rightarrow> f64 \<Rightarrow> f64 \<Rightarrow> 'g \<Rightarrow> wfgen_error + f64 \<times> 'g" where
  "float_range R lo hi g =
     (if flt lo hi \<and> finite_f64 lo \<and> finite_f64 hi \<and> finite_f64 (fsub hi lo) then Inr (rng_float R lo hi g)
      else Inl (Panic ''cannot sample empty range''))"

text \<open>\<open>random_range(0..n)\<close>\<close>

definition below :: "'g rng_ops \<Rightarrow> int_kind \<Rightarrow> nat \<Rightarrow> 'g \<Rightarrow> wfgen_error + nat \<times> 'g" where
  "below R k n g =
     (if n = 0 then Inl (Panic ''cannot sample empty range'')
      else let (i, g') = rng_int R k 0 (int n - 1) g in Inr (nat i, g'))"

fun draws :: "('g \<Rightarrow> 'a \<times> 'g) \<Rightarrow> nat \<Rightarrow> 'g \<Rightarrow> 'a list \<times> 'g" where
  "draws f 0 g = ([], g)"
| "draws f (Suc n) g = (let (x, g1) = f g; (xs, g2) = draws f n g1 in (x # xs, g2))"

section \<open>Field values\<close>

definition show_ip :: "nat \<Rightarrow> nat \<Rightarrow> nat \<Rightarrow> nat \<Rightarrow> string" where
  "show_ip a b c d = dec_digits a @ ''.'' @ dec_digits b @ ''.'' @ dec_digits c @ ''.'' @ dec_digits d"

text \<open>\<open>10.a.b.c\<close> from the low 24 bits of an index.\<close>

definition pool_ip :: "nat \<Rightarrow> string" where
  "pool_ip i = show_ip 10 (i div 2 ^ 16 mod 256) (i div 2 ^ 8 mod 256) (i mod 256)"

definition base36_char :: "nat \<Rightarrow> char" where
  "base36_char i = (if i < 26 then char_of (97 + i) else char_of (48 + i - 26))"

definition hex_char :: "nat \<Rightarrow> char" where
  "hex_char i = (if i < 10 then char_of (48 + i) else char_of (97 + i - 10))"

definition generate_default_base :: "'g rng_ops \<Rightarrow> base_type \<Rightarrow> 'g \<Rightarrow> json \<times> 'g" where
  "generate_default_base R b g =
     (case b of
        BChars \<Rightarrow> let (len, g1) = rng_int R KI32 6 16 g;
                      (cs, g2) = draws (\<lambda>g. let (i, g') = rng_int R KU8 0 35 g in (base36_char (nat i), g')) (nat len) g1
                  in (JString cs, g2)
      | BDigit \<Rightarrow> let (n, g1) = rng_int R KI64 0 99999 g in (JInt n, g1)
      | BFloat \<Rightarrow> let (x, g1) = rng_float R f64_zero (f64_of_nat 1000) g in (json_f64 x, g1)
      | BBool \<Rightarrow> let (x, g1) = rng_bool R g in (JBool x, g1)
      | BTime \<Rightarrow> (JInt 0, g)
      | BIp \<Rightarrow> let (a, g1) = rng_int R KU8 1 254 g; (b, g2) = rng_int R KU8 0 255 g1;
                   (c, g3) = rng_int R KU8 0 255 g2; (d, g4) = rng_int R KU8 1 254 g3
               in (JString (show_ip (nat a) (nat b) (nat c) (nat d)), g4)
      | BHex \<Rightarrow> let (cs, g1) = draws (\<lambda>g. let (i, g') = rng_int R KU8 0 15 g in (hex_char (nat i), g')) 32 g
                in (JString cs, g1))"

definition generate_default :: "'g rng_ops \<Rightarrow> field_type \<Rightarrow> 'g \<Rightarrow> json \<times> 'g" where
  "generate_default R t g =
     (case t of
        FBase b \<Rightarrow> generate_default_base R b g
      | FArrayAny \<Rightarrow> (JArray [], g)
      | FArray b \<Rightarrow> let (len, g1) = rng_int R KI32 1 5 g;
                        (xs, g2) = draws (generate_default_base R b) (nat len) g1 in (JArray xs, g2)
      | FObject \<Rightarrow> (JObject [], g))"

type_synonym gen_args = "(string option \<times> gen_expr) list"

definition resolve_arg :: "gen_args \<Rightarrow> string \<Rightarrow> nat \<Rightarrow> gen_expr option" where
  "resolve_arg args name i =
     (case find_first (\<lambda>a. fst a = Some name) args of
        Some a \<Rightarrow> Some (snd a)
      | None \<Rightarrow> if i < length args then Some (snd (args ! i)) else None)"

definition number_arg :: "gen_args \<Rightarrow> string \<Rightarrow> nat \<Rightarrow> f64 \<Rightarrow> f64" where
  "number_arg args name i dflt = (case resolve_arg args name i of Some (NumberLit n) \<Rightarrow> n | _ \<Rightarrow> dflt)"

definition to_u32 :: "f64 \<Rightarrow> nat" where
  "to_u32 x = min (to_u64 x) (2 ^ 32 - 1)"

text \<open>\<open>str::replace("{}", r)\<close>\<close>

fun replace_braces :: "string \<Rightarrow> string \<Rightarrow> string" where
  "replace_braces r (a # b # s) =
     (if a = CHR ''{'' \<and> b = CHR ''}'' then r @ replace_braces r s else a # replace_braces r (b # s))"
| "replace_braces r s = s"

definition enum_options :: "gen_args \<Rightarrow> string list" where
  "enum_options args =
     (case resolve_arg args ''values'' 0 of
        Some (StringLit values) \<Rightarrow> filter (\<lambda>s. s \<noteq> []) (map trim (split_on (CHR '','') values))
      | _ \<Rightarrow> [])"

lemma size_arg: "i < length args \<Longrightarrow> size (snd (args ! i)) < Suc (size_list (size_prod (\<lambda>x. 0) size) args)"
proof -
  assume "i < length args"
  then have "args ! i \<in> set args" by simp
  then have "size (snd (args ! i)) \<le> size_list (size_prod (\<lambda>x. 0) size) args"
    by (intro size_list_estimation' [where y = "size (snd (args ! i))"]) (auto simp: size_prod_def split: prod.splits)
  then show ?thesis by simp
qed

function generate_from_expr :: "'g rng_ops \<Rightarrow> gen_expr \<Rightarrow> 'g \<Rightarrow> wfgen_error + json \<times> 'g" where
  "generate_from_expr R e g =
     (case e of
        StringLit s \<Rightarrow> Inr (JString s, g)
      | NumberLit n \<Rightarrow> Inr (json_f64 n, g)
      | BoolLit b \<Rightarrow> Inr (JBool b, g)
      | GenFunc name args \<Rightarrow>
          if name = ''ipv4'' then
            rbind (below R KU32 (case resolve_arg args ''pool'' 0 of Some (NumberLit n) \<Rightarrow> to_u32 n | _ \<Rightarrow> 1000) g)
              (\<lambda>(i, g1). Inr (JString (pool_ip i), g1))
          else if name = ''pattern'' then
            rbind (below R KU64 100000 g)
              (\<lambda>(n, g1). Inr (JString (replace_braces (dec_digits n)
                 (case resolve_arg args ''format'' 0 of Some (StringLit s) \<Rightarrow> s | _ \<Rightarrow> ''val_{}'')), g1))
          else if name = ''enum'' then
            (if enum_options args \<noteq> [] then
               rbind (below R KUsize (length (enum_options args)) g) (\<lambda>(i, g1). Inr (JString (enum_options args ! i), g1))
             else if args = [] then Inr (JNull, g)
             else (case below R KUsize (length args) g of
                     Inl err \<Rightarrow> Inl err
                   | Inr (i, g1) \<Rightarrow> if i < length args then generate_from_expr R (snd (args ! i)) g1
                                   else Inl (Panic ''index out of bounds'')))
          else if name = ''range'' then
            rbind (float_range R (number_arg args ''min'' 0 f64_zero) (number_arg args ''max'' 1 (f64_of_nat 100)) g)
              (\<lambda>(x, g1). Inr (json_f64 x, g1))
          else if name = ''timestamp'' then Inr (JInt 0, g)
          else Inr (JNull, g))"
  by pat_completeness auto

termination
  by (relation "measure (\<lambda>(R, e, g). size e)") (auto intro: size_arg)

declare generate_from_expr.simps [simp del]

definition generate_field_value ::
  "'g rng_ops \<Rightarrow> field_type \<Rightarrow> gen_expr option \<Rightarrow> 'g \<Rightarrow> wfgen_error + json \<times> 'g" where
  "generate_field_value R t ov g =
     (case ov of Some e \<Rightarrow> generate_from_expr R e g | None \<Rightarrow> Inr (generate_default R t g))"


section \<open>Events of a stream\<close>

text \<open>\<open>as i64\<close> of an unsigned value keeps the low 64 bits.\<close>

definition wrap_i64 :: "int \<Rightarrow> int" where
  "wrap_i64 i = (i + 2 ^ 63) mod 2 ^ 64 - 2 ^ 63"

text \<open>Integer division truncates towards zero.\<close>

definition idiv :: "int \<Rightarrow> int \<Rightarrow> int" where
  "idiv a b = sgn a * sgn b * (\<bar>a\<bar> div \<bar>b\<bar>)"

definition timestamp_nanos :: "int \<Rightarrow> int option" where
  "timestamp_nanos t = (if - (2 ^ 63) \<le> t \<and> t < 2 ^ 63 then Some t else None)"

definition nanos_or_zero :: "int \<Rightarrow> json" where
  "nanos_or_zero t = JInt (case timestamp_nanos t of Some n \<Rightarrow> n | None \<Rightarrow> 0)"

record gen_event =
  ge_stream_name :: string
  ge_window_name :: string
  ge_timestamp :: int
  ge_fields :: "string \<rightharpoonup> json"

definition overrides_of :: "stream_block \<Rightarrow> (string \<rightharpoonup> gen_expr)" where
  "overrides_of s = map_of (rev (map (\<lambda>ov. (fo_field_name ov, fo_gen_expr ov)) (sb_overrides s)))"

definition stream_name_of :: "window_schema \<Rightarrow> string" where
  "stream_name_of schema = (case ws_streams schema of [] \<Rightarrow> ws_name schema | s # _ \<Rightarrow> s)"

definition timestamp_field :: "field_def \<Rightarrow> gen_expr option \<Rightarrow> bool" where
  "timestamp_field f ov =
     (fd_type f = FBase BTime \<and>
      (case ov of None \<Rightarrow> True | Some (GenFunc name args) \<Rightarrow> name = ''timestamp'' | _ \<Rightarrow> False))"

definition event_field ::
  "'g rng_ops \<Rightarrow> (string \<rightharpoonup> gen_expr) \<Rightarrow> (string \<rightharpoonup> json) \<Rightarrow> jmap \<Rightarrow> jmap \<Rightarrow> int \<Rightarrow> field_def \<Rightarrow>
   (string \<rightharpoonup> json) \<times> 'g \<Rightarrow> wfgen_error + (string \<rightharpoonup> json) \<times> 'g" where
  "event_field R ovs keys filt pred ts f st =
     (let (fields, g) = st; n = fd_name f in
      case keys n of
        Some v \<Rightarrow> Inr (fields(n \<mapsto> v), g)
      | None \<Rightarrow>
        (case map_of pred n of
           Some v \<Rightarrow> Inr (fields(n \<mapsto> v), g)
         | None \<Rightarrow>
           (case map_of filt n of
              Some v \<Rightarrow> Inr (fields(n \<mapsto> v), g)
            | None \<Rightarrow>
                if timestamp_field f (ovs n) then Inr (fields(n \<mapsto> nanos_or_zero ts), g)
                else rbind (generate_field_value R (fd_type f) (ovs n) g)
                       (\<lambda>(v, g1). Inr (fields(n \<mapsto> v), g1)))))"

definition build_event_fields_with_predicates ::
  "'g rng_ops \<Rightarrow> window_schema \<Rightarrow> (string \<rightharpoonup> gen_expr) \<Rightarrow> (string \<rightharpoonup> json) \<Rightarrow> jmap \<Rightarrow> jmap \<Rightarrow> int \<Rightarrow> 'g \<Rightarrow>
   wfgen_error + (string \<rightharpoonup> json) \<times> 'g" where
  "build_event_fields_with_predicates R schema ovs keys filt pred ts g =
     rfold (event_field R ovs keys filt pred ts) (ws_fields schema) (Map.empty, g)"

definition build_event_fields ::
  "'g rng_ops \<Rightarrow> window_schema \<Rightarrow> (string \<rightharpoonup> gen_expr) \<Rightarrow> (string \<rightharpoonup> json) \<Rightarrow> jmap \<Rightarrow> int \<Rightarrow> 'g \<Rightarrow>
   wfgen_error + (string \<rightharpoonup> json) \<times> 'g" where
  "build_event_fields R schema ovs keys filt ts g = build_event_fields_with_predicates R schema ovs keys filt [] ts g"

definition stream_event ::
  "'g rng_ops \<Rightarrow> stream_block \<Rightarrow> window_schema \<Rightarrow> int \<Rightarrow> int \<Rightarrow> nat \<Rightarrow> gen_event list \<times> 'g \<Rightarrow>
   wfgen_error + gen_event list \<times> 'g" where
  "stream_event R stream schema start interval i st =
     (let (events, g) = st; ts = start + interval * int i in
      rbind (build_event_fields R schema (overrides_of stream) Map.empty [] ts g)
        (\<lambda>(fields, g1). Inr (events @ [\<lparr>ge_stream_name = stream_name_of schema, ge_window_name = sb_window stream,
            ge_timestamp = ts, ge_fields = fields\<rparr>], g1)))"

definition generate_stream_events ::
  "'g rng_ops \<Rightarrow> stream_block \<Rightarrow> window_schema \<Rightarrow> nat \<Rightarrow> int \<Rightarrow> duration \<Rightarrow> 'g \<Rightarrow> wfgen_error + gen_event list \<times> 'g" where
  "generate_stream_events R stream schema n start dur g =
     (let interval = (if 1 < n then idiv (wrap_i64 (int dur)) (wrap_i64 (int n)) else 0) in
      rfold (stream_event R stream schema start interval) [0..<n] ([], g))"

section \<open>Key values\<close>

definition first_schema :: "window_schema list \<Rightarrow> step_info list \<Rightarrow> window_schema option" where
  "first_schema schemas steps = (case steps of [] \<Rightarrow> None | s # _ \<Rightarrow> find_schema (si_window_name s) schemas)"

definition key_value :: "nat \<Rightarrow> string \<Rightarrow> window_schema option \<Rightarrow> nat \<Rightarrow> string \<Rightarrow> json" where
  "key_value counter pre schema i name =
     (case Option.bind schema (\<lambda>s. find_first (\<lambda>f. fd_name f = name) (ws_fields s)) of
        Some f \<Rightarrow>
          (if fd_type f = FBase BIp then JString (pool_ip (counter + i))
           else if fd_type f = FBase BDigit then JInt (wrap_i64 (int counter) + int i)
           else if fd_type f = FBase BFloat then json_f64 (fadd (f64_of_nat counter) (f64_of_nat i))
           else JString (pre @ ''_'' @ name @ ''_'' @ pad_zeros 6 (dec_digits counter)))
      | None \<Rightarrow> JString (pre @ ''_'' @ name @ ''_'' @ pad_zeros 6 (dec_digits counter)))"

definition key_names :: "string list \<Rightarrow> string option \<Rightarrow> string list" where
  "key_names keys entity = (case entity of Some f \<Rightarrow> if f \<in> set keys then keys else keys @ [f] | None \<Rightarrow> keys)"

definition generate_key_values ::
  "string list \<Rightarrow> nat \<Rightarrow> string \<Rightarrow> window_schema list \<Rightarrow> step_info list \<Rightarrow> string option \<Rightarrow> (string \<rightharpoonup> json)" where
  "generate_key_values keys counter pre schemas steps entity =
     foldl (\<lambda>m (i, name). m(name \<mapsto> key_value counter pre (first_schema schemas steps) i name)) Map.empty
       (enumerate 0 (key_names keys entity))"

section \<open>Clusters\<close>

text \<open>What every generator of injected events is given: schemas, streams, their totals and the time span.\<close>

record gen_ctx =
  gc_schemas :: "window_schema list"
  gc_streams :: "stream_block list"
  gc_totals :: "string \<rightharpoonup> nat"
  gc_start :: int
  gc_duration :: duration

type_synonym inject_counts = "string \<rightharpoonup> nat"

definition fill_slots :: "nat list \<Rightarrow> use_step_plan \<Rightarrow> jmap list list \<Rightarrow> jmap list list" where
  "fill_slots counts p slots =
     (let i = up_rule_step_idx p in
      if i < length slots
      then slots[i := slots ! i @ replicate (min (counts ! i - length (slots ! i)) (up_count p)) (up_predicates p)]
      else slots)"

definition map_use_predicates_to_rule_steps ::
  "step_info list \<Rightarrow> use_step_overrides list \<Rightarrow> nat list \<Rightarrow> bool \<Rightarrow> wfgen_error + jmap list list" where
  "map_use_predicates_to_rule_steps steps use_steps counts checked =
     (let slots = replicate (length counts) [] in
      if use_steps = [] \<or> counts = [] then Inr slots
      else rbind (plan_use_steps steps use_steps checked)
        (\<lambda>planned. Inr (map (\<lambda>(c, sl). sl @ replicate (c - length sl) [])
           (zip counts (foldl (\<lambda>sl p. fill_slots counts p sl) slots planned)))))"

definition window_schema_of :: "gen_ctx \<Rightarrow> step_info \<Rightarrow> wfgen_error + window_schema" where
  "window_schema_of C step =
     ok_or (validation (''schema not found for '' @ quoted (si_window_name step))) (find_schema (si_window_name step) (gc_schemas C))"

definition stream_of :: "gen_ctx \<Rightarrow> step_info \<Rightarrow> wfgen_error + stream_block" where
  "stream_of C step =
     ok_or (Panic ''unwrap on None'') (find_first (\<lambda>s. sb_alias s = si_scenario_alias step) (gc_streams C))"

definition step_event ::
  "'g rng_ops \<Rightarrow> window_schema \<Rightarrow> stream_block \<Rightarrow> step_info \<Rightarrow> (string \<rightharpoonup> json) \<Rightarrow> jmap \<Rightarrow> int \<Rightarrow>
   gen_event list \<times> 'g \<Rightarrow> wfgen_error + gen_event list \<times> 'g" where
  "step_event R schema stream step keys pred ts st =
     (let (events, g) = st in
      rbind (build_event_fields_with_predicates R schema (overrides_of stream) keys (si_filter_overrides step) pred ts g)
        (\<lambda>(fields, g1). Inr (events @ [\<lparr>ge_stream_name = stream_name_of schema, ge_window_name = si_window_name step,
            ge_timestamp = ts, ge_fields = fields\<rparr>], g1)))"

definition nanos_e9 :: f64 where
  "nanos_e9 = f64_of_nat (10 ^ 9)"

definition cluster_ts :: "int \<Rightarrow> f64 \<Rightarrow> f64 \<Rightarrow> f64 \<Rightarrow> nat \<Rightarrow> nat \<Rightarrow> int" where
  "cluster_ts start cluster_start cumulative per_step i n =
     start + to_i64 (fmul (fadd (fadd cluster_start cumulative)
       (fdiv (fmul per_step (f64_of_nat i)) (f64_of_nat (max n 1)))) nanos_e9)"

definition cluster_step ::
  "'g rng_ops \<Rightarrow> gen_ctx \<Rightarrow> (string \<rightharpoonup> json) \<Rightarrow> jmap list list \<Rightarrow> nat list \<Rightarrow> f64 \<Rightarrow> f64 \<Rightarrow> nat \<times> step_info \<Rightarrow>
   f64 \<times> gen_event list \<times> 'g \<Rightarrow> wfgen_error + f64 \<times> gen_event list \<times> 'g" where
  "cluster_step R C keys slots counts cluster_start per_step istep st =
     (let (k, step) = istep; (cumulative, ev, g) = st; n = (if k < length counts then counts ! k else 0) in
      if n = 0 then Inr st
      else rbind (window_schema_of C step) (\<lambda>schema.
           rbind (stream_of C step) (\<lambda>stream.
           rbind (rfold (\<lambda>i. step_event R schema stream step keys
                    (if k < length slots \<and> i < length (slots ! k) then slots ! k ! i else [])
                    (cluster_ts (gc_start C) cluster_start cumulative per_step i n)) [0..<n] (ev, g))
             (\<lambda>(ev1, g1). Inr (fadd cumulative per_step, ev1, g1)))))"

definition generate_cluster_events ::
  "'g rng_ops \<Rightarrow> gen_ctx \<Rightarrow> step_info list \<Rightarrow> nat list \<Rightarrow> (string \<rightharpoonup> json) \<Rightarrow> use_step_overrides list \<Rightarrow> f64 \<Rightarrow> f64 \<Rightarrow>
   gen_event list \<times> 'g \<Rightarrow> wfgen_error + gen_event list \<times> 'g" where
  "generate_cluster_events R C steps counts keys use_steps cluster_start window_secs st =
     rbind (map_use_predicates_to_rule_steps steps use_steps counts True)
       (\<lambda>slots. let per_step = (if 1 < length steps then fdiv window_secs (f64_of_nat (length steps)) else window_secs) in
          rbind (rfold (cluster_step R C keys slots counts cluster_start per_step) (enumerate 0 steps)
                   (f64_zero, fst st, snd st))
            (\<lambda>(c, ev, g). Inr (ev, g)))"

definition add_counts :: "step_info list \<Rightarrow> nat list \<Rightarrow> nat \<Rightarrow> inject_counts \<Rightarrow> inject_counts" where
  "add_counts steps counts clusters m =
     foldl (\<lambda>m (s, c). add_at (si_scenario_alias s) (c * clusters) m) m (zip steps counts)"

definition one_cluster ::
  "'g rng_ops \<Rightarrow> gen_ctx \<Rightarrow> rule_structure \<Rightarrow> step_info list \<Rightarrow> nat list \<Rightarrow> string \<Rightarrow> inject_overrides \<Rightarrow> nat \<Rightarrow>
   gen_event list \<times> 'g \<Rightarrow> wfgen_error + gen_event list \<times> 'g" where
  "one_cluster R C rs steps counts pre ov k st =
     (let keys = generate_key_values (rs_keys rs) k pre (gc_schemas C) steps (io_entity_field ov);
          window_dur = (case io_within ov of Some d \<Rightarrow> d | None \<Rightarrow> rs_window_dur rs);
          (window_secs, max_start) = compute_window_bounds (as_secs_f64 (gc_duration C)) window_dur;
          (ev, g) = st
      in rbind (if flt f64_zero max_start then float_range R f64_zero max_start g else Inr (f64_zero, g))
           (\<lambda>(cluster_start, g1). generate_cluster_events R C steps counts keys (io_use_steps ov) cluster_start window_secs (ev, g1)))"

definition generate_clusters ::
  "'g rng_ops \<Rightarrow> gen_ctx \<Rightarrow> rule_structure \<Rightarrow> step_info list \<Rightarrow> nat list \<Rightarrow> nat \<Rightarrow> string \<Rightarrow> inject_overrides \<Rightarrow>
   inject_counts \<Rightarrow> 'g \<Rightarrow> wfgen_error + gen_event list \<times> inject_counts \<times> 'g" where
  "generate_clusters R C rs steps counts clusters pre ov ic g =
     (if clusters = 0 then Inr ([], ic, g)
      else rbind (rfold (one_cluster R C rs steps counts pre ov) [0..<clusters] ([], g))
             (\<lambda>(ev, g1). Inr (ev, add_counts steps counts clusters ic, g1)))"

definition generate_hit_clusters ::
  "'g rng_ops \<Rightarrow> gen_ctx \<Rightarrow> f64 \<Rightarrow> rule_structure \<Rightarrow> inject_overrides \<Rightarrow> inject_counts \<Rightarrow> 'g \<Rightarrow>
   wfgen_error + gen_event list \<times> inject_counts \<times> 'g" where
  "generate_hit_clusters R C percent rs ov ic g =
     (let steps = (case io_count_per_entity ov of
                     Some c \<Rightarrow> map (\<lambda>s. s\<lparr>si_threshold := c\<rparr>) (rs_steps rs) | None \<Rightarrow> rs_steps rs) in
      if steps = [] then Inr ([], ic, g)
      else rbind (compute_hit_counts steps ov) (\<lambda>counts.
        let clusters = (if io_use_steps ov = [] then compute_cluster_count percent steps (gc_totals C)
                        else compute_cluster_count_for_step_counts percent steps counts (gc_totals C))
        in generate_clusters R C rs steps counts clusters ''hit'' ov ic g))"

definition generate_near_miss_clusters ::
  "'g rng_ops \<Rightarrow> gen_ctx \<Rightarrow> f64 \<Rightarrow> rule_structure \<Rightarrow> inject_overrides \<Rightarrow> inject_counts \<Rightarrow> 'g \<Rightarrow>
   wfgen_error + gen_event list \<times> inject_counts \<times> 'g" where
  "generate_near_miss_clusters R C percent rs ov ic g =
     (let steps = rs_steps rs in
      if steps = [] then Inr ([], ic, g)
      else rbind (compute_near_miss_counts steps ov) (\<lambda>counts.
        if sum_list counts mod 2 ^ 64 = 0 then Inr ([], ic, g)
        else generate_clusters R C rs steps counts
               (compute_cluster_count_for_step_counts percent steps counts (gc_totals C)) ''nm'' ov ic g))"


section \<open>Misses\<close>

text \<open>Evenly spread instants; the product is a 64-bit one.\<close>

definition spread_offset :: "duration \<Rightarrow> int \<Rightarrow> int \<Rightarrow> int" where
  "spread_offset dur i n =
     (if 1 < n then idiv (wrap_i64 (wrap_i64 (int dur) * i)) n else idiv (wrap_i64 (int dur)) 2)"

definition miss_event ::
  "'g rng_ops \<Rightarrow> gen_ctx \<Rightarrow> rule_structure \<Rightarrow> window_schema \<Rightarrow> stream_block \<Rightarrow> step_info \<Rightarrow> nat \<Rightarrow> nat \<Rightarrow>
   gen_event list \<times> nat \<times> 'g \<Rightarrow> wfgen_error + gen_event list \<times> nat \<times> 'g" where
  "miss_event R C rs schema stream step n i st =
     (let (ev, entity, g) = st;
          keys = generate_key_values (rs_keys rs) entity ''bg'' (gc_schemas C) (rs_steps rs) None
      in rbind (step_event R schema stream step keys [] (gc_start C + spread_offset (gc_duration C) (int i) (wrap_i64 (int n))) (ev, g))
           (\<lambda>(ev1, g1). Inr (ev1, entity + 1, g1)))"

definition miss_step ::
  "'g rng_ops \<Rightarrow> gen_ctx \<Rightarrow> f64 \<Rightarrow> rule_structure \<Rightarrow> step_info \<Rightarrow> gen_event list \<times> nat \<times> inject_counts \<times> 'g \<Rightarrow>
   wfgen_error + gen_event list \<times> nat \<times> inject_counts \<times> 'g" where
  "miss_step R C percent rs step st =
     (let (ev, entity, ic, g) = st; n = stream_budget percent (gc_totals C) (si_scenario_alias step) in
      if n = 0 then Inr st
      else rbind (window_schema_of C step) (\<lambda>schema.
           rbind (stream_of C step) (\<lambda>stream.
           rbind (rfold (miss_event R C rs schema stream step n) [0..<n] (ev, entity, g))
             (\<lambda>(ev1, entity1, g1). Inr (ev1, entity1, add_at (si_scenario_alias step) n ic, g1)))))"

definition use_miss_event ::
  "'g rng_ops \<Rightarrow> gen_ctx \<Rightarrow> rule_structure \<Rightarrow> inject_overrides \<Rightarrow> window_schema \<Rightarrow> stream_block \<Rightarrow> step_info \<Rightarrow> jmap \<Rightarrow> int \<Rightarrow>
   nat \<Rightarrow> gen_event list \<times> nat \<times> int \<times> 'g \<Rightarrow> wfgen_error + gen_event list \<times> nat \<times> int \<times> 'g" where
  "use_miss_event R C rs ov schema stream step pred total_events j st =
     (let (ev, entity, k, g) = st;
          keys = generate_key_values (rs_keys rs) entity ''miss'' (gc_schemas C) (rs_steps rs) (io_entity_field ov)
      in rbind (step_event R schema stream step keys pred (gc_start C + spread_offset (gc_duration C) k total_events) (ev, g))
           (\<lambda>(ev1, g1). Inr (ev1, entity + 1, k + 1, g1)))"

definition use_miss_step ::
  "'g rng_ops \<Rightarrow> gen_ctx \<Rightarrow> rule_structure \<Rightarrow> inject_overrides \<Rightarrow> nat list \<Rightarrow> jmap option list \<Rightarrow> int \<Rightarrow> nat \<times> step_info \<Rightarrow>
   gen_event list \<times> nat \<times> int \<times> 'g \<Rightarrow> wfgen_error + gen_event list \<times> nat \<times> int \<times> 'g" where
  "use_miss_step R C rs ov counts preds total_events istep st =
     (let (i, step) = istep; n = counts ! i in
      if n = 0 then Inr st
      else rbind (window_schema_of C step) (\<lambda>schema.
           rbind (stream_of C step) (\<lambda>stream.
           rbind (ok_or (validation (''injection use step '' @ dec_digits (i + 1) @ '' is missing predicates for planned miss events'')) (preds ! i)) (\<lambda>pred.
           rfold (use_miss_event R C rs ov schema stream step pred total_events) [0..<n] st))))"

definition use_miss_repeat ::
  "'g rng_ops \<Rightarrow> gen_ctx \<Rightarrow> rule_structure \<Rightarrow> inject_overrides \<Rightarrow> nat list \<Rightarrow> jmap option list \<Rightarrow> int \<Rightarrow> nat \<Rightarrow>
   gen_event list \<times> nat \<times> int \<times> 'g \<Rightarrow> wfgen_error + gen_event list \<times> nat \<times> int \<times> 'g" where
  "use_miss_repeat R C rs ov counts preds total_events r st =
     rfold (use_miss_step R C rs ov counts preds total_events) (enumerate 0 (rs_steps rs)) st"

definition planned_predicates :: "nat \<Rightarrow> use_step_plan list \<Rightarrow> jmap option list" where
  "planned_predicates n planned =
     foldl (\<lambda>ps p. ps[up_rule_step_idx p := Some (up_predicates p)]) (replicate n None) planned"

definition generate_non_hit_use_step_events ::
  "'g rng_ops \<Rightarrow> gen_ctx \<Rightarrow> f64 \<Rightarrow> rule_structure \<Rightarrow> inject_overrides \<Rightarrow> inject_counts \<Rightarrow> 'g \<Rightarrow>
   wfgen_error + gen_event list \<times> inject_counts \<times> 'g" where
  "generate_non_hit_use_step_events R C percent rs ov ic g =
     (let steps = rs_steps rs in
      if steps = [] then Inr ([], ic, g)
      else rbind (plan_use_steps steps (io_use_steps ov) False) (\<lambda>planned.
        let counts = planned_counts (length steps) planned; preds = planned_predicates (length steps) planned in
        if list_all (\<lambda>c. c = 0) counts then Inr ([], ic, g)
        else let repeats = compute_cluster_count_for_step_counts percent steps counts (gc_totals C) in
          if repeats = 0 then Inr ([], ic, g)
          else rbind (rfold (use_miss_repeat R C rs ov counts preds (wrap_i64 (int (max (repeats * sum_list counts mod 2 ^ 64) 1))))
                       [0..<repeats] ([], 1000000, 0, g))
                 (\<lambda>(ev, entity, k, g1). Inr (ev, add_counts steps counts repeats ic, g1))))"

definition generate_non_hit_events ::
  "'g rng_ops \<Rightarrow> gen_ctx \<Rightarrow> f64 \<Rightarrow> rule_structure \<Rightarrow> inject_overrides \<Rightarrow> inject_counts \<Rightarrow> 'g \<Rightarrow>
   wfgen_error + gen_event list \<times> inject_counts \<times> 'g" where
  "generate_non_hit_events R C percent rs ov ic g =
     (if io_use_steps ov \<noteq> [] then generate_non_hit_use_step_events R C percent rs ov ic g
      else rbind (rfold (miss_step R C percent rs) (rs_steps rs) ([], 1000000, ic, g))
             (\<lambda>(ev, entity, ic1, g1). Inr (ev, ic1, g1)))"

section \<open>Dispatch\<close>

definition generate_for_mode ::
  "'g rng_ops \<Rightarrow> gen_ctx \<Rightarrow> inject_mode \<Rightarrow> f64 \<Rightarrow> inject_overrides \<Rightarrow> rule_structure \<Rightarrow> inject_counts \<Rightarrow> 'g \<Rightarrow>
   wfgen_error + gen_event list \<times> inject_counts \<times> 'g" where
  "generate_for_mode R C mode percent ov rs ic g =
     (case mode of
        Hit \<Rightarrow> generate_hit_clusters R C percent rs ov ic g
      | NearMiss \<Rightarrow> generate_near_miss_clusters R C percent rs ov ic g
      | NonHit \<Rightarrow> generate_non_hit_events R C percent rs ov ic g)"

definition inject_mode_from_case :: "inject_case_mode \<Rightarrow> inject_mode" where
  "inject_mode_from_case m = (case m of CaseHit \<Rightarrow> Hit | CaseNearMiss \<Rightarrow> NearMiss | CaseMiss \<Rightarrow> NonHit)"

definition generate_for_line ::
  "'g rng_ops \<Rightarrow> gen_ctx \<Rightarrow> rule_structure \<Rightarrow> inject_line \<Rightarrow> inject_counts \<Rightarrow> 'g \<Rightarrow>
   wfgen_error + gen_event list \<times> inject_counts \<times> 'g" where
  "generate_for_line R C rs line ic g =
     generate_for_mode R C (il_mode line) (il_percent line) (extract_inject_overrides line) rs ic g"

definition generate_for_syntax_case ::
  "'g rng_ops \<Rightarrow> gen_ctx \<Rightarrow> rule_structure \<Rightarrow> syntax_inject_case \<Rightarrow> inject_counts \<Rightarrow> 'g \<Rightarrow>
   wfgen_error + gen_event list \<times> inject_counts \<times> 'g" where
  "generate_for_syntax_case R C rs c ic g =
     generate_for_mode R C (inject_mode_from_case (ic_mode c)) (ic_percent c) (extract_syntax_case_overrides c) rs ic g"

definition resolve_rule_plan :: "string \<Rightarrow> rule_plan list \<Rightarrow> wfgen_error + rule_plan" where
  "resolve_rule_plan name plans =
     (if name = [] then
        (case plans of [p] \<Rightarrow> Inr p
         | _ \<Rightarrow> Inl (validation (''injection target rule is ambiguous: expect(...) is missing and '' @
                   dec_digits (length plans) @ '' rules are loaded'')))
      else ok_or (validation (''inject references rule '' @ quoted name @ '' not found in compiled plans''))
             (find_first (\<lambda>p. rp_name p = name) plans))"

type_synonym 'g inject_state = "gen_event list \<times> inject_counts \<times> 'g"

definition inject_case ::
  "'g rng_ops \<Rightarrow> gen_ctx \<Rightarrow> rule_plan list \<Rightarrow> string \<Rightarrow> syntax_inject_case \<Rightarrow> 'g inject_state \<Rightarrow> wfgen_error + 'g inject_state" where
  "inject_case R C plans dflt c st =
     (let (ev, ic, g) = st in
      rbind (resolve_rule_plan (case ic_target_rule c of Some r \<Rightarrow> r | None \<Rightarrow> dflt) plans) (\<lambda>rp.
      rbind (build_alias_map_for_syntax_case c (gc_streams C) rp) (\<lambda>am.
      rbind (extract_rule_structure rp am) (\<lambda>rs.
      rbind (generate_for_syntax_case R C rs c ic g) (\<lambda>(ev1, ic1, g1). Inr (ev @ ev1, ic1, g1))))))"

definition inject_one_line ::
  "'g rng_ops \<Rightarrow> gen_ctx \<Rightarrow> rule_structure \<Rightarrow> inject_line \<Rightarrow> 'g inject_state \<Rightarrow> wfgen_error + 'g inject_state" where
  "inject_one_line R C rs line st =
     (let (ev, ic, g) = st in
      rbind (generate_for_line R C rs line ic g) (\<lambda>(ev1, ic1, g1). Inr (ev @ ev1, ic1, g1)))"

definition inject_one_block ::
  "'g rng_ops \<Rightarrow> gen_ctx \<Rightarrow> rule_plan list \<Rightarrow> inject_block \<Rightarrow> 'g inject_state \<Rightarrow> wfgen_error + 'g inject_state" where
  "inject_one_block R C plans ib st =
     rbind (resolve_rule_plan (ib_rule ib) plans) (\<lambda>rp.
     rbind (build_alias_map (ib_streams ib) (gc_streams C) rp) (\<lambda>am.
     rbind (extract_rule_structure rp am) (\<lambda>rs.
     rfold (inject_one_line R C rs) (ib_lines ib) st)))"

definition default_rule :: "syntax_scenario \<Rightarrow> string" where
  "default_rule syn =
     (case Option.bind (sy_expect syn) unique_expected_rule of Some r \<Rightarrow> r | None \<Rightarrow> [])"

definition generate_inject_events ::
  "'g rng_ops \<Rightarrow> wfg_file \<Rightarrow> rule_plan list \<Rightarrow> window_schema list \<Rightarrow> int \<Rightarrow> duration \<Rightarrow> 'g \<Rightarrow>
   wfgen_error + 'g inject_state" where
  "generate_inject_events R wfg plans schemas start dur g =
     (let sc = wfg_scenario wfg;
          C = \<lparr>gc_schemas = schemas, gc_streams = sc_streams sc, gc_totals = compute_stream_totals sc,
               gc_start = start, gc_duration = dur\<rparr>
      in case wfg_syntax wfg of
           Some syn \<Rightarrow>
             (case sy_injection syn of
                Some cs \<Rightarrow> rbind (injected_rule_names wfg)
                   (\<lambda>_. rfold (inject_case R C plans (default_rule syn)) cs ([], Map.empty, g))
              | None \<Rightarrow> rfold (inject_one_block R C plans) (sc_injects sc) ([], Map.empty, g))
         | None \<Rightarrow> rfold (inject_one_block R C plans) (sc_injects sc) ([], Map.empty, g))"

section \<open>Merging sorted chunks\<close>

text \<open>An item of the heap, ordered by its instant and then by its chunk.\<close>

datatype heap_item = HeapItem (hi_ts: int) (hi_chunk: nat) (hi_event: gen_event)

definition new_heap_item :: "nat \<Rightarrow> gen_event \<Rightarrow> heap_item" where
  "new_heap_item i e = HeapItem (case timestamp_nanos (ge_timestamp e) of Some n \<Rightarrow> n | None \<Rightarrow> 2 ^ 63 - 1) i e"

definition heap_less :: "heap_item \<Rightarrow> heap_item \<Rightarrow> bool" where
  "heap_less a b = (hi_ts a < hi_ts b \<or> (hi_ts a = hi_ts b \<and> hi_chunk a < hi_chunk b))"

text \<open>The heap as the list of its items; \<open>pop\<close> removes a least one.\<close>

fun heap_min :: "heap_item \<Rightarrow> heap_item list \<Rightarrow> heap_item" where
  "heap_min m [] = m"
| "heap_min m (x # xs) = heap_min (if heap_less x m then x else m) xs"

definition heap_pop :: "heap_item list \<Rightarrow> (heap_item \<times> heap_item list) option" where
  "heap_pop h = (case h of [] \<Rightarrow> None | x # xs \<Rightarrow> let m = heap_min x xs in Some (m, remove1 m h))"

lemma heap_min_in: "heap_min m xs \<in> set (m # xs)"
  by (induction m xs rule: heap_min.induct) auto

lemma heap_pop_length:
  assumes "heap_pop h = Some (m, h1)"
  shows "m \<in> set h \<and> h1 = remove1 m h \<and> length h = Suc (length h1)"
proof -
  obtain x xs where h: "h = x # xs" using assms by (cases h) (auto simp: heap_pop_def)
  then have m: "m = heap_min x xs" "h1 = remove1 m h" using assms by (auto simp: heap_pop_def Let_def)
  have "m \<in> set h" using heap_min_in [of x xs] h m(1) by simp
  then show ?thesis using m(2) length_pos_if_in_set [of m h] by (simp add: length_remove1)
qed

lemma sum_lengths_update:
  "i < length xs \<Longrightarrow> xs ! i = e # rest \<Longrightarrow> sum_list (map length xs) = Suc (sum_list (map length (xs[i := rest])))"
  by (induction xs arbitrary: i) (auto split: nat.splits simp: nth_Cons less_Suc_eq_0_disj)

function merge_loop :: "gen_event list list \<Rightarrow> heap_item list \<Rightarrow> gen_event list" where
  "merge_loop iters h =
     (case heap_pop h of
        None \<Rightarrow> []
      | Some (m, h1) \<Rightarrow>
          hi_event m #
          (case (if hi_chunk m < length iters then iters ! hi_chunk m else []) of
             [] \<Rightarrow> merge_loop iters h1
           | e # rest \<Rightarrow> merge_loop (iters[hi_chunk m := rest]) (new_heap_item (hi_chunk m) e # h1)))"
  by pat_completeness auto

termination
  by (relation "measure (\<lambda>(iters, h). sum_list (map length iters) + sum_list (map length iters) + length h)")
    (auto dest!: heap_pop_length sum_lengths_update split: if_splits)

declare merge_loop.simps [simp del]

definition merge_sorted_chunks :: "gen_event list list \<Rightarrow> gen_event list" where
  "merge_sorted_chunks chunks =
     merge_loop (map tl chunks)
       (concat (map (\<lambda>(i, c). case c of [] \<Rightarrow> [] | e # _ \<Rightarrow> [new_heap_item i e]) (enumerate 0 chunks)))"

section \<open>The generator\<close>

definition stream_chunk ::
  "'g rng_ops \<Rightarrow> window_schema list \<Rightarrow> inject_counts \<Rightarrow> int \<Rightarrow> duration \<Rightarrow> stream_block \<times> nat \<Rightarrow>
   gen_event list list \<times> 'g \<Rightarrow> wfgen_error + gen_event list list \<times> 'g" where
  "stream_chunk R schemas ic start dur sc st =
     (let (stream, tot) = sc; (chunks, g) = st; bg = tot - count_at ic (sb_alias stream) in
      if bg = 0 then Inr st
      else rbind (ok_or (validation (''schema not found for window '' @ quoted (sb_window stream))) (find_schema (sb_window stream) schemas))
        (\<lambda>schema. rbind (generate_stream_events R stream schema bg start dur g)
          (\<lambda>(ev, g1). Inr (if ev = [] then chunks else chunks @ [ev], g1))))"

definition has_inject :: "wfg_file \<Rightarrow> rule_plan list \<Rightarrow> bool" where
  "has_inject wfg plans =
     (((case wfg_syntax wfg of Some syn \<Rightarrow> (case sy_injection syn of Some cs \<Rightarrow> cs \<noteq> [] | None \<Rightarrow> False) | None \<Rightarrow> False) \<or>
       sc_injects (wfg_scenario wfg) \<noteq> []) \<and> plans \<noteq> [])"

text \<open>
  \<open>start\<close> is what \<open>chrono\<close> makes of the start text (the instant, or its error text), \<open>g0\<close> the generator seeded with the
  scenario's seed.
\<close>

definition generate ::
  "'g rng_ops \<Rightarrow> string + int \<Rightarrow> 'g \<Rightarrow> wfg_file \<Rightarrow> window_schema list \<Rightarrow> rule_plan list \<Rightarrow> wfgen_error + gen_event list" where
  "generate R start g0 wfg schemas plans =
     (let sc = wfg_scenario wfg; dur = tc_duration (sc_time_clause sc) in
      rbind (case start of Inr t \<Rightarrow> Inr t
             | Inl e \<Rightarrow> Inl (WfgenError RGeneration (''invalid start time '' @ quoted (tc_start (sc_time_clause sc)) @ '': '' @ e))) (\<lambda>st.
      rbind (if has_inject wfg plans then generate_inject_events R wfg plans schemas st dur g0 else Inr ([], Map.empty, g0))
        (\<lambda>(inj, ic, g1).
          if feq (total_rate sc) f64_zero then Inl (validation ''total rate across all streams is 0'')
          else rbind (rfold (stream_chunk R schemas ic st dur)
                       (split_totals (sc_total sc) (total_rate sc) (sc_total sc) (sc_streams sc))
                       (if inj = [] then [] else [sort_key ge_timestamp inj], g1))
                 (\<lambda>(chunks, g2). Inr (merge_sorted_chunks chunks)))))"

end
