(* ===== verification/DatagenProps.thy ===== *)
theory DatagenProps
  imports Datagen
begin

text \<open>
  What the generator promises: the merge of sorted chunks is the stable sort of their
  concatenation, the number of events adds up with the injected ones, every event has the fields
  of its schema with the documented precedence, and where key values are unique.
\<close>

section \<open>The heap interface\<close>

text \<open>A queue whose \<open>pop\<close> removes an item that no other item precedes.\<close>

locale min_queue =
  fixes pop :: "'h \<Rightarrow> ('a \<times> 'h) option"
    and items :: "'h \<Rightarrow> 'a multiset"
    and less :: "'a \<Rightarrow> 'a \<Rightarrow> bool"
  assumes pop_None: "pop h = None \<longleftrightarrow> items h = {#}"
    and pop_items: "pop h = Some (m, h') \<Longrightarrow> items h = add_mset m (items h')"
    and pop_least: "pop h = Some (m, h') \<Longrightarrow> x \<in># items h \<Longrightarrow> \<not> less x m"
begin

lemma pop_remaining: "pop h = Some (m, h') \<Longrightarrow> x \<in># items h' \<Longrightarrow> x \<in># items h \<and> \<not> less x m"
  using pop_items pop_least by fastforce

lemma pop_size: "pop h = Some (m, h') \<Longrightarrow> size (items h) = Suc (size (items h'))"
  by (drule pop_items) simp

end

lemma heap_min_least: "x \<in> set (m # xs) \<Longrightarrow> \<not> heap_less x (heap_min m xs)"
proof (induction m xs arbitrary: x rule: heap_min.induct)
  case (1 m)
  then show ?case by (simp add: heap_less_def)
next
  case (2 m y ys)
  let ?k = "if heap_less y m then y else m"
  have all: "\<not> heap_less z (heap_min ?k ys)" if "z \<in> set (?k # ys)" for z using 2(1) that by blast
  have k: "\<not> heap_less ?k (heap_min ?k ys)" by (rule all) simp
  consider "x \<in> set ys" | "x = m" | "x = y" using 2(2) by auto
  then show ?case
  proof cases
    case 1
    then show ?thesis using all by simp
  next
    case 2
    then show ?thesis using k by (auto simp: heap_less_def split: if_splits)
  next
    case 3
    then show ?thesis using k by (auto simp: heap_less_def split: if_splits)
  qed
qed

interpretation hq: min_queue heap_pop mset heap_less
proof
  show "heap_pop h = None \<longleftrightarrow> mset h = {#}" for h
    by (cases h) (simp_all add: heap_pop_def Let_def)
  show "mset h = add_mset m (mset h')" if "heap_pop h = Some (m, h')" for h m h'
    using heap_pop_length [OF that] by (auto simp: heap_pop_def Let_def)
  show "\<not> heap_less x m" if "heap_pop h = Some (m, h')" "x \<in># mset h" for h m h' x
    using that heap_min_least [of x "hd h" "tl h"] by (cases h) (auto simp: heap_pop_def Let_def)
qed

section \<open>The merge is a stable sort\<close>

definition ev_key :: "gen_event \<Rightarrow> int" where
  "ev_key e = hi_ts (new_heap_item 0 e)"

lemma heap_item_ts [simp]: "hi_ts (new_heap_item i e) = ev_key e"
  by (simp add: ev_key_def new_heap_item_def)

lemma heap_item_proj [simp]: "hi_chunk (new_heap_item i e) = i" "hi_event (new_heap_item i e) = e"
  by (simp_all add: new_heap_item_def)

lemma filter_sort_key: "filter (\<lambda>x. f k = f x) (sort_key f xs) = filter (\<lambda>x. f k = f x) xs"
proof -
  have "(\<lambda>x. f k = f x) = (\<lambda>x. f x = f k)" by auto
  then show ?thesis by (simp add: sort_key_stable)
qed

lemma sort_key_extract:
  fixes f :: "'a \<Rightarrow> int"
  assumes "\<forall>a \<in> set A. f e < f a" "\<forall>b \<in> set B. f e \<le> f b"
  shows "sort_key f (A @ e # B) = e # sort_key f (A @ B)"
proof (rule properties_for_sort_key)
  show "mset (e # sort_key f (A @ B)) = mset (A @ e # B)" by simp
  have A: "filter (\<lambda>x. f e = f x) A = []" using assms(1) by (auto simp: filter_empty_conv)
  show "filter (\<lambda>x. f k = f x) (e # sort_key f (A @ B)) = filter (\<lambda>x. f k = f x) (A @ e # B)" for k
    by (simp only: filter.simps filter_sort_key filter_append) (use A in auto)
  show "sorted (map f (e # sort_key f (A @ B)))" using assms by (auto simp: less_imp_le)
qed

text \<open>What is left of chunk \<open>i\<close>: its item in the heap, then its iterator.\<close>

definition rest_of :: "gen_event list list \<Rightarrow> heap_item list \<Rightarrow> nat \<Rightarrow> gen_event list" where
  "rest_of iters h i = map hi_event (filter (\<lambda>x. hi_chunk x = i) h) @ iters ! i"

definition heap_inv :: "gen_event list list \<Rightarrow> heap_item list \<Rightarrow> bool" where
  "heap_inv iters h =
     (distinct (map hi_chunk h) \<and> (\<forall>x \<in> set h. hi_chunk x < length iters \<and> hi_ts x = ev_key (hi_event x)) \<and>
      (\<forall>i < length iters. (iters ! i \<noteq> [] \<longrightarrow> i \<in> hi_chunk ` set h) \<and> sorted (map ev_key (rest_of iters h i))))"

lemma filter_chunk:
  "distinct (map hi_chunk h) \<Longrightarrow> x \<in> set h \<Longrightarrow> filter (\<lambda>y. hi_chunk y = hi_chunk x) h = [x]"
proof (induction h)
  case (Cons y h)
  have "hi_chunk y \<notin> hi_chunk ` set h \<Longrightarrow> filter (\<lambda>z. hi_chunk z = hi_chunk y) h = []"
    by (simp add: filter_empty_conv) (metis image_eqI)
  then show ?case using Cons by auto
qed simp

lemma rest_of_in_heap:
  "distinct (map hi_chunk h) \<Longrightarrow> x \<in> set h \<Longrightarrow> rest_of iters h (hi_chunk x) = hi_event x # iters ! hi_chunk x"
  by (simp add: rest_of_def filter_chunk)

lemma upt_split: "i < n \<Longrightarrow> [0..<n] = [0..<i] @ i # [Suc i..<n]"
  by (metis append_Cons append_Nil append_assoc le_add_diff_inverse less_imp_le upt_add_eq_append upt_conv_Cons zero_le)

lemma merge_step:
  assumes inv: "heap_inv iters h" and pop: "heap_pop h = Some (m, h1)"
  defines "i \<equiv> hi_chunk m"
  shows "sort_key ev_key (concat (map (rest_of iters h) [0..<length iters])) =
    hi_event m # sort_key ev_key (concat (map (\<lambda>j. if j = i then iters ! i else rest_of iters h j) [0..<length iters]))"
proof -
  let ?n = "length iters" and ?r = "rest_of iters h"
  have m: "m \<in> set h" using hq.pop_items [OF pop] by (metis set_mset_mset union_single_eq_member)
  have d: "distinct (map hi_chunk h)" and i: "i < ?n" and ts: "hi_ts m = ev_key (hi_event m)"
    using inv m by (auto simp: heap_inv_def i_def)
  have ri: "?r i = hi_event m # iters ! i" unfolding i_def by (rule rest_of_in_heap [OF d m])
  have least: "(if j < i then ev_key (hi_event m) < ev_key a else ev_key (hi_event m) \<le> ev_key a)"
    if j: "j < ?n" "j \<noteq> i" "a \<in> set (?r j)" for j a
  proof -
    have "\<exists>x \<in> set h. hi_chunk x = j"
      using j(1,3) inv by (auto simp: heap_inv_def rest_of_def)
    then obtain x where x: "x \<in> set h" "hi_chunk x = j" by blast
    have rj: "?r j = hi_event x # iters ! j" using rest_of_in_heap [OF d x(1)] x(2) by simp
    have "sorted (map ev_key (?r j))" using inv j(1) by (auto simp: heap_inv_def)
    then have le: "ev_key (hi_event x) \<le> ev_key a" using j(3) by (auto simp: rj)
    have "\<not> heap_less x m" using hq.pop_least [OF pop, of x] x(1) by simp
    then show ?thesis using le x ts inv j(2) by (auto simp: heap_less_def heap_inv_def i_def)
  qed
  have s: "\<forall>b \<in> set (iters ! i). ev_key (hi_event m) \<le> ev_key b"
  proof -
    have "sorted (map ev_key (?r i))" using inv i by (auto simp: heap_inv_def)
    then show ?thesis by (simp add: ri)
  qed
  let ?A = "concat (map ?r [0..<i])" and ?B = "iters ! i @ concat (map ?r [Suc i..<?n])"
  have "concat (map ?r [0..<?n]) = ?A @ hi_event m # ?B" by (simp add: upt_split [OF i] ri)
  moreover have "sort_key ev_key (?A @ hi_event m # ?B) = hi_event m # sort_key ev_key (?A @ ?B)"
  proof (rule sort_key_extract)
    show "\<forall>a \<in> set ?A. ev_key (hi_event m) < ev_key a"
    proof
      fix a assume "a \<in> set ?A"
      then obtain j where "j < i" "a \<in> set (?r j)" by auto
      then show "ev_key (hi_event m) < ev_key a" using least [of j a] i by simp
    qed
    show "\<forall>b \<in> set ?B. ev_key (hi_event m) \<le> ev_key b"
    proof
      fix b assume "b \<in> set ?B"
      then consider "b \<in> set (iters ! i)" | j where "i < j" "j < ?n" "b \<in> set (?r j)"
        by (auto simp: Suc_le_eq)
      then show "ev_key (hi_event m) \<le> ev_key b"
      proof cases
        case 1
        then show ?thesis using s by blast
      next
        case 2
        then show ?thesis using least [of j b] by simp
      qed
    qed
  qed
  moreover have "concat (map (\<lambda>j. if j = i then iters ! i else ?r j) [0..<?n]) = ?A @ ?B"
  proof -
    have a: "map (\<lambda>j. if j = i then iters ! i else ?r j) [0..<i] = map ?r [0..<i]" by simp
    have b: "map (\<lambda>j. if j = i then iters ! i else ?r j) [Suc i..<?n] = map ?r [Suc i..<?n]" by simp
    show ?thesis unfolding upt_split [OF i] map_append concat_append list.map a b by simp
  qed
  ultimately show ?thesis by simp
qed


lemma filter_remove_other: "hi_chunk m \<noteq> j \<Longrightarrow> filter (\<lambda>x. hi_chunk x = j) (remove1 m h) = filter (\<lambda>x. hi_chunk x = j) h"
  by (induction h) auto

lemma filter_remove_same:
  "distinct (map hi_chunk h) \<Longrightarrow> m \<in> set h \<Longrightarrow> filter (\<lambda>x. hi_chunk x = hi_chunk m) (remove1 m h) = []"
  using filter_chunk [of h m] filter_remove1 [of "\<lambda>x. hi_chunk x = hi_chunk m" m h] by simp

lemma distinct_map_remove1: "distinct (map f h) \<Longrightarrow> distinct (map f (remove1 m h))"
proof (induction h)
  case (Cons y h)
  then show ?case using set_remove1_subset [of m h] by auto
qed simp

lemma chunks_remove1:
  "distinct (map hi_chunk h) \<Longrightarrow> m \<in> set h \<Longrightarrow> hi_chunk ` set (remove1 m h) = hi_chunk ` set h - {hi_chunk m}"
  by (induction h) auto

lemma merge_state_empty:
  assumes inv: "heap_inv iters h" and pop: "heap_pop h = Some (m, h1)" and e: "iters ! hi_chunk m = []"
  shows "heap_inv iters h1 \<and>
    map (rest_of iters h1) [0..<length iters] =
    map (\<lambda>j. if j = hi_chunk m then iters ! hi_chunk m else rest_of iters h j) [0..<length iters]"
proof -
  note h = heap_pop_length [OF pop]
  have d: "distinct (map hi_chunk h)" using inv by (simp add: heap_inv_def)
  have r: "rest_of iters h1 j = (if j = hi_chunk m then [] else rest_of iters h j)" for j
    using h filter_remove_same [OF d, of m] filter_remove_other [of m j h] e by (auto simp: rest_of_def)
  have "heap_inv iters h1"
    using inv h d e unfolding heap_inv_def r
    by (auto simp: distinct_map_remove1 chunks_remove1 dest: notin_set_remove1)
  then show ?thesis using e by (simp add: r)
qed

lemma merge_state_next:
  assumes inv: "heap_inv iters h" and pop: "heap_pop h = Some (m, h1)" and e: "iters ! hi_chunk m = x # xs"
  defines "iters1 \<equiv> iters[hi_chunk m := xs]" and "h2 \<equiv> new_heap_item (hi_chunk m) x # h1"
  shows "heap_inv iters1 h2 \<and>
    map (rest_of iters1 h2) [0..<length iters] =
    map (\<lambda>j. if j = hi_chunk m then iters ! hi_chunk m else rest_of iters h j) [0..<length iters]"
proof -
  note h = heap_pop_length [OF pop]
  have d: "distinct (map hi_chunk h)" and m: "hi_chunk m < length iters"
    using inv h by (auto simp: heap_inv_def)
  have r: "rest_of iters1 h2 j = (if j = hi_chunk m then x # xs else rest_of iters h j)" if "j < length iters" for j
    using h filter_remove_same [OF d, of m] filter_remove_other [of m j h] that
    by (auto simp: rest_of_def iters1_def h2_def)
  have old: "rest_of iters h (hi_chunk m) = hi_event m # x # xs"
    using rest_of_in_heap [OF d, of m iters] h e by simp
  have srt: "sorted (map ev_key (x # xs))"
    using inv m old unfolding heap_inv_def by (metis list.simps(9) sorted_simps(2))
  have dist: "distinct (map hi_chunk h2)"
    using h chunks_remove1 [OF d, of m] distinct_map_remove1 [OF d] by (auto simp: h2_def image_iff)
  have items: "\<forall>y \<in> set h2. hi_chunk y < length iters1 \<and> hi_ts y = ev_key (hi_event y)"
    using inv h m by (auto simp: h2_def iters1_def heap_inv_def dest: notin_set_remove1)
  have chunks: "hi_chunk ` set h2 = hi_chunk ` set h"
    using h chunks_remove1 [OF d, of m] by (auto simp: h2_def)
  have "(iters1 ! j \<noteq> [] \<longrightarrow> j \<in> hi_chunk ` set h2) \<and> sorted (map ev_key (rest_of iters1 h2 j))" if "j < length iters1" for j
    using inv that srt r [of j] unfolding chunks
    by (cases "j = hi_chunk m") (auto simp: heap_inv_def iters1_def h)
  then have "heap_inv iters1 h2" using dist items by (simp add: heap_inv_def)
  then show ?thesis using e r by simp
qed

lemma merge_loop_sort:
  "heap_inv iters h \<Longrightarrow> merge_loop iters h = sort_key ev_key (concat (map (rest_of iters h) [0..<length iters]))"
proof (induction iters h rule: merge_loop.induct)
  case (1 iters h)
  show ?case
  proof (cases "heap_pop h")
    case None
    then have "h = []" using hq.pop_None by simp
    then have "concat (map (rest_of iters h) [0..<length iters]) = []"
      using 1(3) by (auto simp: heap_inv_def rest_of_def)
    then show ?thesis using None by (simp only: merge_loop.simps [of iters h]) simp
  next
    case (Some p)
    obtain m h1 where p: "heap_pop h = Some (m, h1)" using Some by (cases p) simp
    have m: "hi_chunk m < length iters" using 1(3) heap_pop_length [OF p] by (auto simp: heap_inv_def)
    note step = merge_step [OF 1(3) p]
    show ?thesis
    proof (cases "iters ! hi_chunk m")
      case Nil
      note st = merge_state_empty [OF 1(3) p Nil]
      have "merge_loop iters h = hi_event m # merge_loop iters h1"
        using p m Nil by (simp add: merge_loop.simps [of iters h])
      then show ?thesis using 1(1) [OF p refl] st m Nil step by simp
    next
      case (Cons x xs)
      note st = merge_state_next [OF 1(3) p Cons]
      have "merge_loop iters h = hi_event m # merge_loop (iters[hi_chunk m := xs]) (new_heap_item (hi_chunk m) x # h1)"
        using p m Cons by (simp add: merge_loop.simps [of iters h])
      then show ?thesis using 1(2) [OF p refl] st m Cons step by simp
    qed
  qed
qed


definition heap_init :: "nat \<Rightarrow> gen_event list list \<Rightarrow> heap_item list" where
  "heap_init k chunks = concat (map (\<lambda>(i, c). case c of [] \<Rightarrow> [] | e # _ \<Rightarrow> [new_heap_item i e]) (enumerate k chunks))"

lemma heap_init_props:
  "distinct (map hi_chunk (heap_init k cs)) \<and>
   (\<forall>x \<in> set (heap_init k cs). k \<le> hi_chunk x \<and> hi_chunk x < k + length cs \<and> hi_ts x = ev_key (hi_event x)) \<and>
   (\<forall>j. filter (\<lambda>x. hi_chunk x = j) (heap_init k cs) =
      (if k \<le> j \<and> j < k + length cs \<and> cs ! (j - k) \<noteq> [] then [new_heap_item j (hd (cs ! (j - k)))] else []))"
proof (induction cs arbitrary: k)
  case Nil
  then show ?case by (simp add: heap_init_def)
next
  case (Cons c cs)
  have s: "heap_init k (c # cs) = (case c of [] \<Rightarrow> [] | e # _ \<Rightarrow> [new_heap_item k e]) @ heap_init (Suc k) cs"
    by (simp add: heap_init_def)
  note IH = Cons [of "Suc k"]
  have F: "filter (\<lambda>x. hi_chunk x = j) (heap_init (Suc k) cs) =
      (if Suc k \<le> j \<and> j < Suc k + length cs \<and> cs ! (j - Suc k) \<noteq> [] then [new_heap_item j (hd (cs ! (j - Suc k)))] else [])" for j
    using IH by blast
  have D: "distinct (map hi_chunk (heap_init k (c # cs)))"
  proof (cases c)
    case Nil
    then show ?thesis using IH unfolding s by simp
  next
    case (Cons e es)
    have "k \<notin> hi_chunk ` set (heap_init (Suc k) cs)"
    proof
      assume "k \<in> hi_chunk ` set (heap_init (Suc k) cs)"
      then obtain x where "x \<in> set (heap_init (Suc k) cs)" "k = hi_chunk x" by blast
      moreover have "\<forall>x \<in> set (heap_init (Suc k) cs). Suc k \<le> hi_chunk x" using IH by blast
      ultimately show False by fastforce
    qed
    then show ?thesis using IH Cons unfolding s by simp
  qed
  have B: "\<forall>x \<in> set (heap_init k (c # cs)). k \<le> hi_chunk x \<and> hi_chunk x < k + length (c # cs) \<and> hi_ts x = ev_key (hi_event x)"
  proof -
    have "\<forall>x \<in> set (heap_init (Suc k) cs). Suc k \<le> hi_chunk x \<and> hi_chunk x < Suc k + length cs \<and> hi_ts x = ev_key (hi_event x)"
      using IH by blast
    then show ?thesis unfolding s by (cases c) auto
  qed
  have "filter (\<lambda>x. hi_chunk x = j) (heap_init k (c # cs)) =
      (if k \<le> j \<and> j < k + length (c # cs) \<and> (c # cs) ! (j - k) \<noteq> [] then [new_heap_item j (hd ((c # cs) ! (j - k)))] else [])" for j
  proof (cases "j = k")
    case True
    then show ?thesis unfolding s filter_append F by (cases c) simp_all
  next
    case False
    then have "Suc k \<le> j \<Longrightarrow> (c # cs) ! (j - k) = cs ! (j - Suc k)" by (simp add: nth_Cons')
    then show ?thesis using False unfolding s filter_append F by (cases c) auto
  qed
  then show ?case using D B by blast
qed

lemma merge_sorted_chunks_sort:
  assumes "\<forall>c \<in> set chunks. sorted (map ev_key c)"
  shows "merge_sorted_chunks chunks = sort_key ev_key (concat chunks)"
proof -
  let ?h = "heap_init 0 chunks" and ?it = "map tl chunks"
  have F: "filter (\<lambda>x. hi_chunk x = j) ?h = (if j < length chunks \<and> chunks ! j \<noteq> [] then [new_heap_item j (hd (chunks ! j))] else [])" for j
    using heap_init_props [of 0 chunks] by simp
  have r: "rest_of ?it ?h j = chunks ! j" if "j < length chunks" for j
    using that F [of j] by (cases "chunks ! j") (auto simp: rest_of_def)
  have ne: "j \<in> hi_chunk ` set ?h" if "j < length chunks" "tl (chunks ! j) \<noteq> []" for j
  proof -
    have "chunks ! j \<noteq> []" using that(2) by auto
    then have "filter (\<lambda>x. hi_chunk x = j) ?h \<noteq> []" using F [of j] that(1) by simp
    then show ?thesis by (auto simp: filter_empty_conv)
  qed
  have "heap_inv ?it ?h"
    using heap_init_props [of 0 chunks] r ne assms by (simp add: heap_inv_def)
  moreover have "map (rest_of ?it ?h) [0..<length ?it] = chunks"
    using r by (intro nth_equalityI) simp_all
  ultimately show ?thesis
    using merge_loop_sort by (simp add: merge_sorted_chunks_def heap_init_def)
qed

text \<open>
  C8: merging the generated chunks, each sorted by time, gives exactly the stable sort of
  their concatenation: no event is lost or duplicated, the result is sorted, and events of equal
  time keep the order of the chunks and their order inside a chunk.
\<close>

theorem merge_is_stable_sort:
  assumes "\<forall>c \<in> set chunks. sorted (map ev_key c)"
  shows "merge_sorted_chunks chunks = sort_key ev_key (concat chunks)"
  using assms by (rule merge_sorted_chunks_sort)

definition ex_event :: "int \<Rightarrow> string \<Rightarrow> gen_event" where
  "ex_event t n = \<lparr>ge_stream_name = n, ge_window_name = n, ge_timestamp = t, ge_fields = Map.empty\<rparr>"

theorem merge_is_stable_sort_witness:
  "map ge_stream_name (merge_sorted_chunks [[ex_event 2 ''a'', ex_event 5 ''b''], [ex_event 1 ''c'', ex_event 5 ''d'']])
     = [''c'', ''a'', ''b'', ''d'']"
  by (subst merge_is_stable_sort) (simp_all add: ev_key_def new_heap_item_def timestamp_nanos_def ex_event_def)

section \<open>Merging loses nothing\<close>

text \<open>A chunk that still has events is represented in the heap.\<close>

definition fed :: "gen_event list list \<Rightarrow> heap_item list \<Rightarrow> bool" where
  "fed iters h = (\<forall>j < length iters. iters ! j \<noteq> [] \<longrightarrow> j \<in> hi_chunk ` set h)"

lemma mset_concat_update:
  "i < length xss \<Longrightarrow> xss ! i = x # xs \<Longrightarrow> mset (concat xss) = add_mset x (mset (concat (xss[i := xs])))"
  by (induction xss arbitrary: i) (auto simp: nth_Cons less_Suc_eq_0_disj split: nat.splits)

lemma merge_loop_mset: "fed iters h \<Longrightarrow> mset (merge_loop iters h) = mset (map hi_event h) + mset (concat iters)"
proof (induction iters h rule: merge_loop.induct)
  case (1 iters h)
  show ?case
  proof (cases "heap_pop h")
    case None
    then have "h = []" using hq.pop_None by simp
    then have "\<forall>c \<in> set iters. c = []" using "1.prems" by (auto simp: fed_def in_set_conv_nth)
    then have "concat iters = []" by simp
    then show ?thesis using None \<open>h = []\<close> by (simp add: merge_loop.simps [of iters "[]"] del: concat_eq_Nil_conv)
  next
    case (Some p)
    obtain m h1 where p: "heap_pop h = Some (m, h1)" using Some by (cases p) simp
    note hp = heap_pop_length [OF p]
    have h: "mset (map hi_event h) = add_mset (hi_event m) (mset (map hi_event h1))"
    proof -
      have "mset h = add_mset m (mset h1)" using hp by simp
      then show ?thesis by simp
    qed
    have keep: "x \<in> hi_chunk ` set h1" if "x \<in> hi_chunk ` set h" "x \<noteq> hi_chunk m" for x
      using that hp by (auto simp: image_iff) (metis in_set_remove1)
    show ?thesis
    proof (cases "if hi_chunk m < length iters then iters ! hi_chunk m else []")
      case Nil
      have "fed iters h1" using "1.prems" keep Nil unfolding fed_def by (metis (full_types))
      then show ?thesis using "1.IH"(1) [OF p refl Nil] p h Nil by (simp add: merge_loop.simps [of iters h])
    next
      case (Cons x xs)
      then have m: "hi_chunk m < length iters" "iters ! hi_chunk m = x # xs" by (auto split: if_splits)
      have c: "mset (concat iters) = add_mset x (mset (concat (iters[hi_chunk m := xs])))"
        using m by (rule mset_concat_update)
      have "fed (iters[hi_chunk m := xs]) (new_heap_item (hi_chunk m) x # h1)"
        using "1.prems" keep m by (auto simp: fed_def nth_list_update split: if_splits)
      then show ?thesis using "1.IH"(2) [OF p refl Cons] p h m c by (simp add: merge_loop.simps [of iters h])
    qed
  qed
qed

lemma merge_sorted_chunks_mset: "mset (merge_sorted_chunks chunks) = mset (concat chunks)"
proof -
  have F: "filter (\<lambda>x. hi_chunk x = j) (heap_init 0 chunks) =
      (if j < length chunks \<and> chunks ! j \<noteq> [] then [new_heap_item j (hd (chunks ! j))] else [])" for j
    using heap_init_props [of 0 chunks] by simp
  have "fed (map tl chunks) (heap_init 0 chunks)"
  proof (unfold fed_def, intro allI impI)
    fix j assume "j < length (map tl chunks)" "map tl chunks ! j \<noteq> []"
    then have "filter (\<lambda>x. hi_chunk x = j) (heap_init 0 chunks) \<noteq> []" using F [of j] by auto
    then show "j \<in> hi_chunk ` set (heap_init 0 chunks)" by (auto simp: filter_empty_conv)
  qed
  moreover have "mset (map hi_event (heap_init k chunks)) + mset (concat (map tl chunks)) = mset (concat chunks)" for k
  proof (induction chunks arbitrary: k)
    case (Cons c cs)
    then show ?case using Cons [of "Suc k"] by (cases c) (simp_all add: heap_init_def)
  qed (simp add: heap_init_def)
  ultimately show ?thesis using merge_loop_mset by (simp add: merge_sorted_chunks_def heap_init_def)
qed

section \<open>Event counts\<close>

lemma rfold_measure:
  fixes \<mu> :: "'s \<Rightarrow> nat"
  assumes "rfold f xs s = Inr t" "\<And>x s t. x \<in> set xs \<Longrightarrow> f x s = Inr t \<Longrightarrow> \<mu> t = \<mu> s + w x"
  shows "\<mu> t = \<mu> s + (\<Sum>x\<leftarrow>xs. w x)"
  using assms
proof (induction xs arbitrary: s)
  case (Cons x xs)
  then obtain u where u: "f x s = Inr u" "rfold f xs u = Inr t" by (auto simp: rbind_Inr_iff)
  have "\<mu> u = \<mu> s + w x" using Cons.prems(2) [of x s u] u(1) by simp
  moreover have "\<mu> t = \<mu> u + (\<Sum>x\<leftarrow>xs. w x)" using Cons.IH [OF u(2)] Cons.prems(2) by simp
  ultimately show ?case by simp
qed simp

text \<open>
  An event names the window of its stream. The events are counted on the windows that satisfy
  \<open>P\<close>, against the streams in \<open>A\<close>; the steps agree on the two.
\<close>

definition win_count :: "(string \<Rightarrow> bool) \<Rightarrow> gen_event list \<Rightarrow> nat" where
  "win_count P evs = length (filter (\<lambda>e. P (ge_window_name e)) evs)"

lemma win_count_simps [simp]:
  "win_count P [] = 0" "win_count P (xs @ ys) = win_count P xs + win_count P ys"
  "win_count P [e] = (if P (ge_window_name e) then 1 else 0)"
  by (simp_all add: win_count_def)

definition steps_on :: "string set \<Rightarrow> (string \<Rightarrow> bool) \<Rightarrow> step_info list \<Rightarrow> bool" where
  "steps_on A P steps = (\<forall>s \<in> set steps. si_scenario_alias s \<in> A \<longleftrightarrow> P (si_window_name s))"

definition planned_on :: "(string \<Rightarrow> bool) \<Rightarrow> step_info list \<Rightarrow> nat list \<Rightarrow> nat" where
  "planned_on P steps counts = (\<Sum>(s, c)\<leftarrow>zip steps counts. if P (si_window_name s) then c else 0)"

lemma step_event_win:
  "step_event R schema stream step keys pred ts (ev, g) = Inr (ev1, g1) \<Longrightarrow>
   win_count P ev1 = win_count P ev + (if P (si_window_name step) then 1 else 0)"
  by (auto simp: step_event_def rbind_Inr_iff)

lemma enumerate_sum:
  assumes "length cs = length xs"
  shows "(\<Sum>p\<leftarrow>enumerate 0 xs. if Q (snd p) then (if fst p < length cs then cs ! fst p else 0) else 0) =
    (\<Sum>(s, c)\<leftarrow>zip xs cs. if Q s then c else (0::nat))"
proof -
  have "map (\<lambda>p. if Q (snd p) then (if fst p < length cs then cs ! fst p else 0) else 0) (enumerate 0 xs) =
      map (\<lambda>(s, c). if Q s then c else 0) (zip xs cs)"
    by (rule nth_equalityI) (auto simp: assms nth_enumerate_eq)
  then show ?thesis by simp
qed

lemma sum_upt_if: "(\<Sum>x\<leftarrow>[0..<n]. if b then 1 else 0) = (if b then n else (0::nat))"
  by (simp add: sum_list_triv)

lemma cluster_step_win:
  assumes "cluster_step R C keys slots counts cs per istep st = Inr st'"
  shows "win_count P (fst (snd st')) = win_count P (fst (snd st)) +
    (if P (si_window_name (snd istep)) then (if fst istep < length counts then counts ! fst istep else 0) else 0)"
proof -
  obtain k step where i: "istep = (k, step)" by (cases istep)
  obtain cum ev g where s: "st = (cum, ev, g)" by (cases st)
  let ?n = "if k < length counts then counts ! k else 0"
  show ?thesis
  proof (cases "?n = 0")
    case True
    then show ?thesis using assms by (auto simp: cluster_step_def i s Let_def split: if_splits)
  next
    case False
    then obtain schema stream ev1 g1 where r: "rfold (\<lambda>i. step_event R schema stream step keys
          (if k < length slots \<and> i < length (slots ! k) then slots ! k ! i else [])
          (cluster_ts (gc_start C) cs cum per i ?n)) [0..<?n] (ev, g) = Inr (ev1, g1)"
      "st' = (fadd cum per, ev1, g1)"
      using assms by (auto simp: cluster_step_def i s Let_def rbind_Inr_iff split: if_splits)
    have "win_count P (fst (ev1, g1)) = win_count P (fst (ev, g)) + (\<Sum>x\<leftarrow>[0..<?n]. if P (si_window_name step) then 1 else 0)"
      by (rule rfold_measure [OF r(1)]) (metis prod.collapse step_event_win)
    then show ?thesis unfolding sum_upt_if by (simp add: i s r(2))
  qed
qed

lemma generate_cluster_events_win:
  assumes "generate_cluster_events R C steps counts keys us cs ws (ev, g) = Inr (ev1, g1)" "length counts = length steps"
  shows "win_count P ev1 = win_count P ev + planned_on P steps counts"
proof -
  obtain slots c per where r: "rfold (cluster_step R C keys slots counts cs per) (enumerate 0 steps) (f64_zero, ev, g) = Inr (c, ev1, g1)"
    using assms(1) by (auto simp: generate_cluster_events_def rbind_Inr_iff Let_def)
  have "win_count P (fst (snd (c, ev1, g1))) = win_count P (fst (snd (f64_zero, ev, g))) +
      (\<Sum>p\<leftarrow>enumerate 0 steps. if P (si_window_name (snd p)) then (if fst p < length counts then counts ! fst p else 0) else 0)"
    by (rule rfold_measure [OF r]) (rule cluster_step_win)
  then show ?thesis using enumerate_sum [OF assms(2)] by (simp add: planned_on_def)
qed

text \<open>The events recorded for a set of streams.\<close>

definition recorded :: "string set \<Rightarrow> inject_counts \<Rightarrow> nat" where
  "recorded A m = (\<Sum>a\<in>A. count_at m a)"

lemma recorded_add_at: "finite A \<Longrightarrow> recorded A (add_at a n m) = recorded A m + (if a \<in> A then n else 0)"
  by (simp add: recorded_def sum.distrib sum.delta)

lemma recorded_add_counts:
  assumes "finite A" "steps_on A P steps" "length counts = length steps"
  shows "recorded A (add_counts steps counts n m) = recorded A m + planned_on P steps counts * n"
  using assms(2,3)
proof (induction steps arbitrary: counts m)
  case Nil
  then show ?case by (simp add: add_counts_def planned_on_def)
next
  case (Cons s steps)
  then obtain c cs where c: "counts = c # cs" by (cases counts) auto
  have on: "steps_on A P steps" "si_scenario_alias s \<in> A \<longleftrightarrow> P (si_window_name s)"
    using Cons.prems(1) by (simp_all add: steps_on_def)
  have "recorded A (add_counts (s # steps) counts n m) = recorded A (add_counts steps cs n (add_at (si_scenario_alias s) (c * n) m))"
    by (simp add: add_counts_def c)
  also have "\<dots> = recorded A (add_at (si_scenario_alias s) (c * n) m) + planned_on P steps cs * n"
    using Cons.IH [OF on(1)] Cons.prems(2) c by simp
  finally show ?case using on(2) by (simp add: c recorded_add_at [OF assms(1)] planned_on_def algebra_simps)
qed

lemma one_cluster_win:
  assumes "one_cluster R C rs steps counts pre ov k (ev, g) = Inr (ev1, g1)" "length counts = length steps"
  shows "win_count P ev1 = win_count P ev + planned_on P steps counts"
proof -
  obtain keys cs ws g2 where "generate_cluster_events R C steps counts keys (io_use_steps ov) cs ws (ev, g2) = Inr (ev1, g1)"
    using assms(1) unfolding one_cluster_def Let_def compute_window_bounds_def prod.case rbind_Inr_iff split_paired_Ex
    by blast
  from generate_cluster_events_win [OF this assms(2)] show ?thesis .
qed

lemma generate_clusters_recorded:
  assumes "generate_clusters R C rs steps counts clusters pre ov ic g = Inr (ev, ic1, g1)"
    and "finite A" "steps_on A P steps" "length counts = length steps"
  shows "recorded A ic1 = recorded A ic + win_count P ev"
proof (cases "clusters = 0")
  case True
  then show ?thesis using assms(1) by (simp add: generate_clusters_def)
next
  case False
  then obtain g2 where r: "rfold (one_cluster R C rs steps counts pre ov) [0..<clusters] ([], g) = Inr (ev, g2)"
      and ic: "ic1 = add_counts steps counts clusters ic"
    using assms(1) by (auto simp: generate_clusters_def rbind_Inr_iff)
  have "win_count P (fst (ev, g2)) = win_count P (fst ([] :: gen_event list, g)) + (\<Sum>x\<leftarrow>[0..<clusters]. planned_on P steps counts)"
  proof (rule rfold_measure [OF r])
    fix k st st' assume "one_cluster R C rs steps counts pre ov k st = Inr st'"
    then show "win_count P (fst st') = win_count P (fst st) + planned_on P steps counts"
      using one_cluster_win [OF _ assms(4)] by (metis prod.collapse)
  qed
  then show ?thesis using recorded_add_counts [OF assms(2-4)] by (simp add: ic sum_list_triv)
qed

end
