(* ===== verification/DatagenCount.thy ===== *)
theory DatagenCount
  imports DatagenProps
begin

text \<open>
  Accounting of the generated events: what the injection records per stream is what it emits,
  the background takes the rest of each stream's total, and merging loses nothing.
\<close>

section \<open>Planned counts fit the steps\<close>

lemma compute_hit_counts_length:
  assumes "compute_hit_counts steps ov = Inr counts"
  shows "length counts = length steps"
  using assms
  by (auto simp: compute_hit_counts_def compute_use_step_counts_def rbind_Inr_iff split: if_splits)

lemma compute_near_miss_counts_length:
  assumes "compute_near_miss_counts steps ov = Inr counts"
  shows "length counts = length steps"
  using assms
  by (cases "steps = []")
    (auto simp: compute_near_miss_counts_def plan_use_steps_def rbind_Inr_iff Let_def split: if_splits)

section \<open>Every mode records what it emits\<close>

definition emits :: "string set \<Rightarrow> (string \<Rightarrow> bool) \<Rightarrow> inject_counts \<Rightarrow> gen_event list \<times> inject_counts \<times> 'g \<Rightarrow> bool" where
  "emits A P ic r = (recorded A (fst (snd r)) = recorded A ic + win_count P (fst r))"

lemma emits_none: "emits A P ic ([], ic, g)"
  by (simp add: emits_def)

lemma emits_clusters:
  assumes "generate_clusters R C rs steps counts clusters pre ov ic g = Inr r"
    and "finite A" "steps_on A P steps" "length counts = length steps"
  shows "emits A P ic r"
  using generate_clusters_recorded [of R C rs steps counts clusters pre ov ic g "fst r" "fst (snd r)" "snd (snd r)"] assms
  by (simp add: emits_def)

lemma emits_hit:
  assumes "generate_hit_clusters R C percent rs ov ic g = Inr r"
    and "finite A" "steps_on A P (rs_steps rs)"
  shows "emits A P ic r"
proof -
  define steps where "steps = (case io_count_per_entity ov of
      Some c \<Rightarrow> map (\<lambda>s. s\<lparr>si_threshold := c\<rparr>) (rs_steps rs) | None \<Rightarrow> rs_steps rs)"
  have A: "steps_on A P steps" using assms(3) by (auto simp: steps_on_def steps_def split: option.splits)
  show ?thesis
  proof (cases "steps = []")
    case True
    then show ?thesis using assms(1) by (auto simp: generate_hit_clusters_def Let_def steps_def [symmetric] emits_none)
  next
    case False
    then obtain counts n where n: "compute_hit_counts steps ov = Inr counts"
        "generate_clusters R C rs steps counts n ''hit'' ov ic g = Inr r"
      using assms(1) unfolding generate_hit_clusters_def Let_def steps_def [symmetric] by (auto simp: rbind_Inr_iff)
    show ?thesis by (rule emits_clusters [OF n(2) assms(2) A compute_hit_counts_length [OF n(1)]])
  qed
qed

lemma emits_near_miss:
  assumes "generate_near_miss_clusters R C percent rs ov ic g = Inr r"
    and "finite A" "steps_on A P (rs_steps rs)"
  shows "emits A P ic r"
proof -
  have "r = ([], ic, g) \<or> (\<exists>counts n. compute_near_miss_counts (rs_steps rs) ov = Inr counts \<and>
      generate_clusters R C rs (rs_steps rs) counts n ''nm'' ov ic g = Inr r)"
    using assms(1) by (auto simp: generate_near_miss_clusters_def Let_def rbind_Inr_iff split: if_splits)
  then show ?thesis using emits_clusters assms(2,3) compute_near_miss_counts_length emits_none by metis
qed

lemma miss_step_emits:
  assumes "miss_step R C percent rs step (ev, en, ic, g) = Inr (ev1, en1, ic1, g1)"
    and "finite A" "si_scenario_alias step \<in> A \<longleftrightarrow> P (si_window_name step)"
  shows "recorded A ic1 + win_count P ev = recorded A ic + win_count P ev1"
proof -
  let ?n = "stream_budget percent (gc_totals C) (si_scenario_alias step)"
  show ?thesis
  proof (cases "?n = 0")
    case True
    then show ?thesis using assms(1) by (simp add: miss_step_def Let_def)
  next
    case False
    then obtain schema stream where
      r: "rfold (miss_event R C rs schema stream step ?n) [0..<?n] (ev, en, g) = Inr (ev1, en1, g1)"
      and ic: "ic1 = add_at (si_scenario_alias step) ?n ic"
      using assms(1) by (auto simp: miss_step_def Let_def rbind_Inr_iff)
    have "win_count P (fst (ev1, en1, g1)) = win_count P (fst (ev, en, g)) + (\<Sum>x\<leftarrow>[0..<?n]. if P (si_window_name step) then 1 else 0)"
    proof (rule rfold_measure [OF r])
      fix i st st' assume "miss_event R C rs schema stream step ?n i st = Inr st'"
      then show "win_count P (fst st') = win_count P (fst st) + (if P (si_window_name step) then 1 else 0)"
        by (cases st) (auto simp: miss_event_def Let_def rbind_Inr_iff dest!: step_event_win [where P = P])
    qed
    then show ?thesis using assms(3) unfolding sum_upt_if by (simp add: ic recorded_add_at [OF assms(2)])
  qed
qed

lemma use_miss_step_win:
  assumes "use_miss_step R C rs ov counts preds tot istep st = Inr st'"
  shows "win_count P (fst st') = win_count P (fst st) + (if P (si_window_name (snd istep)) then counts ! fst istep else 0)"
proof -
  obtain i step where i: "istep = (i, step)" by (cases istep)
  show ?thesis
  proof (cases "counts ! i = 0")
    case True
    then show ?thesis using assms by (simp add: use_miss_step_def Let_def i)
  next
    case False
    then obtain schema stream pred where
      r: "rfold (use_miss_event R C rs ov schema stream step pred tot) [0..<counts ! i] st = Inr st'"
      using assms by (auto simp: use_miss_step_def Let_def i rbind_Inr_iff)
    have "win_count P (fst st') = win_count P (fst st) + (\<Sum>x\<leftarrow>[0..<counts ! i]. if P (si_window_name step) then 1 else 0)"
    proof (rule rfold_measure [OF r])
      fix j s t assume "use_miss_event R C rs ov schema stream step pred tot j s = Inr t"
      then show "win_count P (fst t) = win_count P (fst s) + (if P (si_window_name step) then 1 else 0)"
        by (cases s) (auto simp: use_miss_event_def Let_def rbind_Inr_iff dest!: step_event_win [where P = P])
    qed
    then show ?thesis unfolding sum_upt_if by (simp add: i)
  qed
qed

lemma use_miss_repeat_win:
  assumes "use_miss_repeat R C rs ov counts preds tot k st = Inr st'" "length counts = length (rs_steps rs)"
  shows "win_count P (fst st') = win_count P (fst st) + planned_on P (rs_steps rs) counts"
proof -
  have "win_count P (fst st') = win_count P (fst st) +
      (\<Sum>p\<leftarrow>enumerate 0 (rs_steps rs). if P (si_window_name (snd p)) then counts ! fst p else 0)"
    by (rule rfold_measure [OF assms(1) [unfolded use_miss_repeat_def]]) (rule use_miss_step_win)
  moreover have "map (\<lambda>p. if P (si_window_name (snd p)) then counts ! fst p else 0) (enumerate 0 (rs_steps rs)) =
      map (\<lambda>(s, c). if P (si_window_name s) then c else 0) (zip (rs_steps rs) counts)"
    by (rule nth_equalityI) (auto simp: assms(2) nth_enumerate_eq)
  ultimately show ?thesis by (simp add: planned_on_def)
qed

lemma emits_use_miss:
  assumes "generate_non_hit_use_step_events R C percent rs ov ic g = Inr r"
    and "finite A" "steps_on A P (rs_steps rs)"
  shows "emits A P ic r"
proof -
  have "r = ([], ic, g) \<or> (\<exists>planned preds tot n ev en k g1.
      rfold (use_miss_repeat R C rs ov (planned_counts (length (rs_steps rs)) planned) preds tot) [0..<n] ([], 1000000, 0, g)
        = Inr (ev, en, k, g1) \<and>
      r = (ev, add_counts (rs_steps rs) (planned_counts (length (rs_steps rs)) planned) n ic, g1))"
    using assms(1) unfolding generate_non_hit_use_step_events_def Let_def rbind_Inr_iff
    by (auto simp: rbind_Inr_iff split: if_splits; blast)
  then show ?thesis
  proof (elim disjE exE conjE)
    fix planned preds tot n ev en k g1
    let ?c = "planned_counts (length (rs_steps rs)) planned"
    assume r: "rfold (use_miss_repeat R C rs ov ?c preds tot) [0..<n] ([], 1000000, 0, g) = Inr (ev, en, k, g1)"
      and eq: "r = (ev, add_counts (rs_steps rs) ?c n ic, g1)"
    have "win_count P (fst (ev, en, k, g1)) = win_count P (fst ([] :: gen_event list, 1000000 :: nat, 0 :: int, g)) +
        (\<Sum>x\<leftarrow>[0..<n]. planned_on P (rs_steps rs) ?c)"
      by (rule rfold_measure [OF r]) (auto intro: use_miss_repeat_win)
    then show ?thesis using recorded_add_counts [OF assms(2,3), of ?c] by (simp add: emits_def eq sum_list_triv)
  qed (simp add: emits_none)
qed

lemma emits_non_hit:
  assumes "generate_non_hit_events R C percent rs ov ic g = Inr r"
    and A: "finite A" "steps_on A P (rs_steps rs)"
  shows "emits A P ic r"
proof (cases "io_use_steps ov = []")
  case True
  then obtain ev en ic1 g1 where
    f: "rfold (miss_step R C percent rs) (rs_steps rs) ([], 1000000, ic, g) = Inr (ev, en, ic1, g1)" and r: "r = (ev, ic1, g1)"
    using assms(1) by (auto simp: generate_non_hit_events_def rbind_Inr_iff)
  have "steps_on A P steps \<Longrightarrow>
      rfold (miss_step R C percent rs) steps (ev0, en0, ic0, g0) = Inr (ev, en, ic1, g1) \<Longrightarrow>
      recorded A ic1 + win_count P ev0 = recorded A ic0 + win_count P ev" for steps ev0 en0 ic0 g0
  proof (induction steps arbitrary: ev0 en0 ic0 g0)
    case (Cons s steps)
    then obtain ev2 en2 ic2 g2 where s: "miss_step R C percent rs s (ev0, en0, ic0, g0) = Inr (ev2, en2, ic2, g2)"
        "rfold (miss_step R C percent rs) steps (ev2, en2, ic2, g2) = Inr (ev, en, ic1, g1)"
      by (auto simp: rbind_Inr_iff)
    have "recorded A ic2 + win_count P ev0 = recorded A ic0 + win_count P ev2"
      using miss_step_emits [OF s(1) A(1)] Cons.prems(1) by (simp add: steps_on_def)
    moreover have "recorded A ic1 + win_count P ev2 = recorded A ic2 + win_count P ev"
      using Cons.IH [OF _ s(2)] Cons.prems(1) by (simp add: steps_on_def)
    ultimately show ?case by simp
  qed simp
  from this [OF A(2) f] show ?thesis by (simp add: emits_def r)
next
  case False
  then show ?thesis using assms(1) emits_use_miss [OF _ A] by (simp add: generate_non_hit_events_def)
qed

lemma emits_mode:
  assumes "generate_for_mode R C mode percent ov rs ic g = Inr r"
    and "finite A" "steps_on A P (rs_steps rs)"
  shows "emits A P ic r"
proof (cases mode)
  case Hit
  then show ?thesis using emits_hit [OF _ assms(2,3)] assms(1) by (simp add: generate_for_mode_def)
next
  case NearMiss
  then show ?thesis using emits_near_miss [OF _ assms(2,3)] assms(1) by (simp add: generate_for_mode_def)
next
  case NonHit
  then show ?thesis using emits_non_hit [OF _ assms(2,3)] assms(1) by (simp add: generate_for_mode_def)
qed

section \<open>The steps of a rule name streams of the scenario\<close>

definition alias_map_ok :: "stream_block list \<Rightarrow> alias_map \<Rightarrow> bool" where
  "alias_map_ok streams am =
     (\<forall>b a w. am b = Some (a, w) \<longrightarrow> (a, w) \<in> set (map (\<lambda>s. (sb_alias s, sb_window s)) streams))"

lemma alias_map_ok_update:
  "alias_map_ok streams am \<Longrightarrow> s \<in> set streams \<Longrightarrow> alias_map_ok streams (am(b \<mapsto> (sb_alias s, sb_window s)))"
  by (auto simp: alias_map_ok_def)

lemma map_stream_ok:
  "map_stream rp streams n m = Inr m1 \<Longrightarrow> alias_map_ok streams m \<Longrightarrow> alias_map_ok streams m1"
  by (auto simp: map_stream_def rbind_Inr_iff split: option.splits dest!: find_first_Some intro!: alias_map_ok_update)

lemma build_alias_map_ok: "build_alias_map names streams rp = Inr am \<Longrightarrow> alias_map_ok streams am"
  unfolding build_alias_map_def
  by (rule rfold_invariant [where P = "alias_map_ok streams"]) (auto simp: alias_map_ok_def [of _ Map.empty] intro: map_stream_ok)

lemma map_branch_ok: "alias_map_ok streams m \<Longrightarrow> s \<in> set streams \<Longrightarrow> alias_map_ok streams (map_branch rp s m b)"
  by (auto simp: map_branch_def intro: alias_map_ok_update split: option.splits)

lemma build_alias_map_for_syntax_case_ok:
  assumes "build_alias_map_for_syntax_case c streams rp = Inr am"
  shows "alias_map_ok streams am"
proof -
  obtain s where s: "s \<in> set streams" "am = foldl (map_branch rp s) Map.empty (concat (rp_event_steps rp))"
    using assms by (auto simp: build_alias_map_for_syntax_case_def Let_def split: option.splits if_splits dest!: find_first_Some)
  have "alias_map_ok streams (foldl (map_branch rp s) m bs)" if "alias_map_ok streams m" for m bs
    using that by (induction bs arbitrary: m) (simp_all add: map_branch_ok s(1))
  then show ?thesis by (simp add: s(2) alias_map_ok_def [of _ Map.empty])
qed

lemma extract_rule_structure_aliases:
  assumes "extract_rule_structure rp am = Inr rs" "alias_map_ok streams am"
  shows "\<forall>s \<in> set (rs_steps rs). (si_scenario_alias s, si_window_name s) \<in> set (map (\<lambda>s. (sb_alias s, sb_window s)) streams)"
proof -
  obtain steps where f: "rfold (extract_step rp am) (rp_event_steps rp) [] = Inr steps" and rs: "rs_steps rs = steps"
    using assms(1) by (auto simp: extract_rule_structure_def rbind_Inr_iff split: if_splits)
  have "\<forall>s \<in> set steps. (si_scenario_alias s, si_window_name s) \<in> set (map (\<lambda>s. (sb_alias s, sb_window s)) streams)"
  proof (rule rfold_invariant [OF f])
    fix bs st st' assume "extract_step rp am bs st = Inr st'" "\<forall>s \<in> set st. (si_scenario_alias s, si_window_name s) \<in> set (map (\<lambda>s. (sb_alias s, sb_window s)) streams)"
    then show "\<forall>s \<in> set st'. (si_scenario_alias s, si_window_name s) \<in> set (map (\<lambda>s. (sb_alias s, sb_window s)) streams)"
      using assms(2) by (auto simp: extract_step_def alias_map_ok_def Let_def split: list.splits option.splits; blast)
  qed simp
  then show ?thesis by (simp add: rs)
qed

section \<open>Injection and background together\<close>

definition streams_on :: "(string \<Rightarrow> bool) \<Rightarrow> stream_block list \<Rightarrow> string set" where
  "streams_on Q streams = set (map sb_alias (filter (\<lambda>s. Q (sb_window s)) streams))"

lemma steps_on_streams:
  assumes "distinct (map sb_alias streams)"
    and "\<forall>s \<in> set steps. (si_scenario_alias s, si_window_name s) \<in> set (map (\<lambda>s. (sb_alias s, sb_window s)) streams)"
  shows "steps_on (streams_on Q streams) Q steps"
  unfolding steps_on_def streams_on_def using assms
  by (force simp: distinct_map inj_on_def)

lemma injection_records:
  assumes "generate_inject_events R wfg plans schemas start dur g = Inr (ev, ic, g1)"
    and dist: "distinct (map sb_alias (sc_streams (wfg_scenario wfg)))"
  shows "recorded (streams_on Q (sc_streams (wfg_scenario wfg))) ic = win_count Q ev"
proof -
  let ?streams = "sc_streams (wfg_scenario wfg)"
  let ?A = "streams_on Q ?streams"
  let ?P = "\<lambda>st. recorded ?A (fst (snd st)) = win_count Q (fst st)"
  have fin: "finite ?A" by (simp add: streams_on_def)
  define C where "C = \<lparr>gc_schemas = schemas, gc_streams = ?streams, gc_totals = compute_stream_totals (wfg_scenario wfg),
                      gc_start = start, gc_duration = dur\<rparr>"
  have streams: "gc_streams C = ?streams" by (simp add: C_def)
  have mode: "recorded ?A ic1 = win_count Q (ev @ ev1)"
    if "generate_for_mode R C m p ov rs ic g = Inr (ev1, ic1, g1)" "extract_rule_structure rp am = Inr rs"
      "alias_map_ok ?streams am" "recorded ?A ic = win_count Q ev" for m p ov rs ic g ev ev1 ic1 g1 rp am
    using emits_mode [OF that(1) fin steps_on_streams [OF dist extract_rule_structure_aliases [OF that(2,3)]]] that(4)
    by (simp add: emits_def)
  have case_ok: "?P st'" if c: "inject_case R C plans d c st = Inr st'" and P: "?P st" for d c st st'
  proof -
    obtain rp am rs ev1 ic1 g1 where "build_alias_map_for_syntax_case c ?streams rp = Inr am" "extract_rule_structure rp am = Inr rs"
        "generate_for_syntax_case R C rs c (fst (snd st)) (snd (snd st)) = Inr (ev1, ic1, g1)" "st' = (fst st @ ev1, ic1, g1)"
      using c by (cases st) (auto simp: inject_case_def rbind_Inr_iff streams)
    then show ?thesis
      using mode [OF _ _ build_alias_map_for_syntax_case_ok P] by (simp add: generate_for_syntax_case_def)
  qed
  have line_ok: "?P st'" if l: "inject_one_line R C rs l st = Inr st'" and P: "?P st"
      and am: "extract_rule_structure rp am = Inr rs" "alias_map_ok ?streams am" for rs l st st' rp am
  proof -
    obtain ev1 ic1 g1 where "generate_for_line R C rs l (fst (snd st)) (snd (snd st)) = Inr (ev1, ic1, g1)"
        "st' = (fst st @ ev1, ic1, g1)"
      using l by (cases st) (auto simp: inject_one_line_def rbind_Inr_iff)
    then show ?thesis using mode [OF _ am P] by (simp add: generate_for_line_def)
  qed
  have block_ok: "?P st'" if b: "inject_one_block R C plans b st = Inr st'" and P: "?P st" for b st st'
  proof -
    obtain rp am rs where am: "build_alias_map (ib_streams b) ?streams rp = Inr am" and rs: "extract_rule_structure rp am = Inr rs"
        and f: "rfold (inject_one_line R C rs) (ib_lines b) st = Inr st'"
      using b unfolding inject_one_block_def rbind_Inr_iff streams by blast
    show ?thesis
      by (rule rfold_invariant [where P = ?P, OF f P]) (rule line_ok [OF _ _ rs build_alias_map_ok [OF am]])
  qed
  have init: "?P ([], Map.empty, g)" by (simp add: recorded_def count_at_def)
  have "(\<exists>d cs. rfold (inject_case R C plans d) cs ([], Map.empty, g) = Inr (ev, ic, g1)) \<or>
        rfold (inject_one_block R C plans) (sc_injects (wfg_scenario wfg)) ([], Map.empty, g) = Inr (ev, ic, g1)"
    using assms unfolding generate_inject_events_def Let_def C_def [symmetric]
    by (auto simp: rbind_Inr_iff split: option.splits)
  then have "?P (ev, ic, g1)"
  proof (elim disjE exE)
    fix d cs assume "rfold (inject_case R C plans d) cs ([], Map.empty, g) = Inr (ev, ic, g1)"
    then show ?thesis using init case_ok by (rule rfold_invariant [where P = ?P])
  next
    assume "rfold (inject_one_block R C plans) (sc_injects (wfg_scenario wfg)) ([], Map.empty, g) = Inr (ev, ic, g1)"
    then show ?thesis using init block_ok by (rule rfold_invariant [where P = ?P])
  qed
  then show ?thesis by simp
qed

section \<open>Background events\<close>

lemma generate_stream_events_spec:
  assumes "generate_stream_events R stream schema n start dur g = Inr (ev, g1)"
  shows "length ev = n \<and> (\<forall>i < n. ge_timestamp (ev ! i) =
           start + (if 1 < n then idiv (wrap_i64 (int dur)) (wrap_i64 (int n)) else 0) * int i \<and>
         ge_window_name (ev ! i) = sb_window stream)"
proof -
  define interval where "interval = (if 1 < n then idiv (wrap_i64 (int dur)) (wrap_i64 (int n)) else 0)"
  have "rfold (stream_event R stream schema start interval) [0..<k] ([], g) = Inr (ev, g1) \<Longrightarrow>
      length ev = k \<and> (\<forall>i < k. ge_timestamp (ev ! i) = start + interval * int i \<and> ge_window_name (ev ! i) = sb_window stream)"
    for k ev g1
  proof (induction k arbitrary: ev g1)
    case (Suc k)
    then obtain ev0 g0 where f: "rfold (stream_event R stream schema start interval) [0..<k] ([], g) = Inr (ev0, g0)"
        and s: "stream_event R stream schema start interval k (ev0, g0) = Inr (ev, g1)"
      by (auto simp: rfold_append rbind_Inr_iff)
    show ?case using Suc.IH [OF f] s
      by (auto simp: stream_event_def Let_def rbind_Inr_iff nth_append less_Suc_eq)
  qed simp
  then show ?thesis using assms by (simp add: generate_stream_events_def interval_def)
qed

text \<open>The background of one stream: what the stream's generator makes, as many as the injection left.\<close>

definition background_of ::
  "'g rng_ops \<Rightarrow> window_schema list \<Rightarrow> inject_counts \<Rightarrow> int \<Rightarrow> duration \<Rightarrow> stream_block \<times> nat \<Rightarrow> gen_event list \<Rightarrow> bool" where
  "background_of R schemas ic start dur sn b =
     (case sn of (s, n) \<Rightarrow> length b = n - count_at ic (sb_alias s) \<and>
        (b = [] \<or> (\<exists>schema g g'. find_schema (sb_window s) schemas = Some schema \<and>
           generate_stream_events R s schema (length b) start dur g = Inr (b, g'))))"

lemma stream_chunk_background:
  assumes "stream_chunk R schemas ic start dur sn st = Inr st'"
  shows "\<exists>b. concat (fst st') = concat (fst st) @ b \<and> background_of R schemas ic start dur sn b"
proof -
  obtain s n where sn: "sn = (s, n)" by (cases sn)
  obtain cs g where st: "st = (cs, g)" by (cases st)
  let ?k = "n - count_at ic (sb_alias s)"
  show ?thesis
  proof (cases "?k = 0")
    case True
    then show ?thesis using assms by (auto simp: stream_chunk_def Let_def sn st background_of_def)
  next
    case False
    then obtain schema b g1 where b: "find_schema (sb_window s) schemas = Some schema"
        "generate_stream_events R s schema ?k start dur g = Inr (b, g1)" "fst st' = (if b = [] then cs else cs @ [b])"
      using assms False
      by (cases "find_schema (sb_window s) schemas")
        (auto simp: stream_chunk_def Let_def sn st rbind_Inr_iff ok_or_def that)
    have "length b = ?k" using generate_stream_events_spec [OF b(2)] by blast
    then show ?thesis using b by (intro exI [of _ b]) (auto simp: sn st background_of_def)
  qed
qed

lemma stream_chunks_background:
  assumes "rfold (stream_chunk R schemas ic start dur) sns st = Inr st'"
  shows "\<exists>bs. concat (fst st') = concat (fst st) @ concat bs \<and> list_all2 (background_of R schemas ic start dur) sns bs"
  using assms
proof (induction sns arbitrary: st)
  case (Cons sn sns)
  then obtain u where u: "stream_chunk R schemas ic start dur sn st = Inr u"
      "rfold (stream_chunk R schemas ic start dur) sns u = Inr st'"
    by (auto simp: rbind_Inr_iff)
  obtain b where b: "concat (fst u) = concat (fst st) @ b" "background_of R schemas ic start dur sn b"
    using stream_chunk_background [OF u(1)] by blast
  obtain bs where "concat (fst st') = concat (fst u) @ concat bs" "list_all2 (background_of R schemas ic start dur) sns bs"
    using Cons.IH [OF u(2)] by blast
  then show ?case using b by (intro exI [of _ "b # bs"]) simp
qed simp

lemma background_win:
  assumes "list_all2 (background_of R schemas ic start dur) sns bs"
  shows "win_count Q (concat bs) = (\<Sum>(s, n)\<leftarrow>sns. if Q (sb_window s) then n - count_at ic (sb_alias s) else 0)"
  using assms
proof (induction rule: list_all2_induct)
  case (Cons sn sns b bs)
  obtain s n where sn: "sn = (s, n)" by (cases sn)
  have "\<forall>e \<in> set b. ge_window_name e = sb_window s"
    using Cons(1) by (auto simp: background_of_def sn in_set_conv_nth dest!: generate_stream_events_spec)
  then have "filter (\<lambda>e. Q (ge_window_name e)) b = (if Q (sb_window s) then b else [])"
    by (auto simp: filter_id_conv filter_empty_conv)
  then have "win_count Q b = (if Q (sb_window s) then n - count_at ic (sb_alias s) else 0)"
    using Cons(1) by (simp add: win_count_def background_of_def sn)
  then show ?case using Cons.IH by (simp add: sn)
qed simp

section \<open>The generator keeps the books\<close>

definition injected ::
  "'g rng_ops \<Rightarrow> int \<Rightarrow> 'g \<Rightarrow> wfg_file \<Rightarrow> window_schema list \<Rightarrow> rule_plan list \<Rightarrow> wfgen_error + 'g inject_state" where
  "injected R start g0 wfg schemas plans =
     (if has_inject wfg plans
      then generate_inject_events R wfg plans schemas start (tc_duration (sc_time_clause (wfg_scenario wfg))) g0
      else Inr ([], Map.empty, g0))"

abbreviation scenario_split :: "scenario_decl \<Rightarrow> (stream_block \<times> nat) list" where
  "scenario_split sc \<equiv> split_totals (sc_total sc) (total_rate sc) (sc_total sc) (sc_streams sc)"

lemma generate_chunks:
  assumes "generate R start g0 wfg schemas plans = Inr evs"
  obtains t injs ic g1 chunks g2 where
    "start = Inr t" "injected R t g0 wfg schemas plans = Inr (injs, ic, g1)"
    "sc_streams (wfg_scenario wfg) \<noteq> []"
    "rfold (stream_chunk R schemas ic t (tc_duration (sc_time_clause (wfg_scenario wfg)))) (scenario_split (wfg_scenario wfg))
       (if injs = [] then [] else [sort_key ge_timestamp injs], g1) = Inr (chunks, g2)"
    "evs = merge_sorted_chunks chunks"
proof -
  obtain t injs ic g1 where a: "start = Inr t" "injected R t g0 wfg schemas plans = Inr (injs, ic, g1)"
      "\<not> feq (total_rate (wfg_scenario wfg)) f64_zero"
    and b: "rbind (rfold (stream_chunk R schemas ic t (tc_duration (sc_time_clause (wfg_scenario wfg)))) (scenario_split (wfg_scenario wfg))
       (if injs = [] then [] else [sort_key ge_timestamp injs], g1)) (\<lambda>(chunks, g2). Inr (merge_sorted_chunks chunks)) = Inr evs"
    using assms unfolding generate_def Let_def injected_def [symmetric]
    by (auto simp: rbind_Inr_iff split: sum.splits if_splits)
  have "sc_streams (wfg_scenario wfg) \<noteq> []"
    using a(3) by (auto simp: total_rate_def f64_eval)
  then show thesis using a b that by (auto simp: rbind_Inr_iff)
qed

lemma sum_list_max:
  "(\<Sum>x\<leftarrow>xs. if P x then c x else 0) + (\<Sum>x\<leftarrow>xs. if P x then n x - c x else 0) =
   (\<Sum>x\<leftarrow>xs. if P x then max (n x) (c x :: nat) else 0)"
  by (induction xs) auto

lemma recorded_streams_on:
  assumes "distinct (map sb_alias streams)"
  shows "recorded (streams_on Q streams) ic = (\<Sum>s\<leftarrow>streams. if Q (sb_window s) then count_at ic (sb_alias s) else 0)"
proof -
  have "distinct (map sb_alias (filter (\<lambda>s. Q (sb_window s)) streams))" by (rule distinct_map_filter [OF assms])
  then show ?thesis
    using sum_list_distinct_conv_sum_set [of "map sb_alias (filter (\<lambda>s. Q (sb_window s)) streams)" "count_at ic"]
    by (simp add: recorded_def streams_on_def comp_def sum_list_map_filter')
qed

lemma injected_records:
  assumes "injected R start g0 wfg schemas plans = Inr (injs, ic, g1)"
    and dist: "distinct (map sb_alias (sc_streams (wfg_scenario wfg)))"
  shows "win_count Q injs = (\<Sum>s\<leftarrow>sc_streams (wfg_scenario wfg). if Q (sb_window s) then count_at ic (sb_alias s) else 0)"
proof (cases "has_inject wfg plans")
  case True
  then show ?thesis using assms injection_records [OF _ dist] recorded_streams_on [OF dist]
    by (metis (no_types, lifting) injected_def)
next
  case False
  then have "ic = Map.empty" "injs = []" using assms(1) by (auto simp: injected_def)
  then show ?thesis by (auto simp: count_at_def)
qed

text \<open>
  C12: the generator keeps its books, stream by stream. When it succeeds on a scenario whose
  stream aliases differ, the events are the injected ones together with a background of each
  stream, made by that stream's generator, of as many events as the stream's share exceeds what
  was injected for it (none when it does not). An event names the window of its stream: on every
  window there are as many injected events as were recorded for its streams, and as many events
  in all as its streams have, each the larger of its share and its injected events. So the events
  are never fewer than the scenario's total.
\<close>

theorem generate_keeps_books:
  assumes gen: "generate R start g0 wfg schemas plans = Inr evs"
    and dist: "distinct (map sb_alias (sc_streams (wfg_scenario wfg)))"
  shows "\<exists>t injs ic g1 bs. start = Inr t \<and> injected R t g0 wfg schemas plans = Inr (injs, ic, g1) \<and>
    mset evs = mset injs + mset (concat bs) \<and>
    list_all2 (background_of R schemas ic t (tc_duration (sc_time_clause (wfg_scenario wfg)))) (scenario_split (wfg_scenario wfg)) bs \<and>
    (\<forall>w. win_count ((=) w) injs =
       (\<Sum>(s, n)\<leftarrow>scenario_split (wfg_scenario wfg). if w = sb_window s then count_at ic (sb_alias s) else 0)) \<and>
    (\<forall>w. win_count ((=) w) evs =
       (\<Sum>(s, n)\<leftarrow>scenario_split (wfg_scenario wfg). if w = sb_window s then max n (count_at ic (sb_alias s)) else 0)) \<and>
    length evs = (\<Sum>(s, n)\<leftarrow>scenario_split (wfg_scenario wfg). max n (count_at ic (sb_alias s))) \<and>
    sc_total (wfg_scenario wfg) \<le> length evs"
proof -
  let ?sp = "scenario_split (wfg_scenario wfg)" and ?streams = "sc_streams (wfg_scenario wfg)"
  let ?dur = "tc_duration (sc_time_clause (wfg_scenario wfg))"
  obtain t injs ic g1 chunks g2 where st: "start = Inr t" and injs: "injected R t g0 wfg schemas plans = Inr (injs, ic, g1)"
    and ne: "?streams \<noteq> []"
    and ch: "rfold (stream_chunk R schemas ic t ?dur) ?sp
       (if injs = [] then [] else [sort_key ge_timestamp injs], g1) = Inr (chunks, g2)"
    and evs: "evs = merge_sorted_chunks chunks"
    by (rule generate_chunks [OF gen])
  note sp = split_totals_sum [OF ne, of "sc_total (wfg_scenario wfg)" "total_rate (wfg_scenario wfg)" "sc_total (wfg_scenario wfg)"]
  obtain bs where bs: "concat chunks = concat (if injs = [] then [] else [sort_key ge_timestamp injs]) @ concat bs"
      "list_all2 (background_of R schemas ic t ?dur) ?sp bs"
    using stream_chunks_background [OF ch] by auto
  have m: "mset evs = mset injs + mset (concat bs)"
    using bs(1) merge_sorted_chunks_mset [of chunks] evs by simp
  have inj: "win_count Q injs = (\<Sum>(s, n)\<leftarrow>?sp. if Q (sb_window s) then count_at ic (sb_alias s) else 0)" for Q
  proof -
    have "(\<Sum>(s, n)\<leftarrow>?sp. if Q (sb_window s) then count_at ic (sb_alias s) else 0) =
        (\<Sum>s\<leftarrow>map fst ?sp. if Q (sb_window s) then count_at ic (sb_alias s) else 0)"
      by (simp add: case_prod_beta' comp_def)
    then show ?thesis using injected_records [OF injs dist] sp by simp
  qed
  have all: "win_count Q evs = (\<Sum>(s, n)\<leftarrow>?sp. if Q (sb_window s) then max n (count_at ic (sb_alias s)) else 0)" for Q
  proof -
    have "win_count Q evs = win_count Q injs + win_count Q (concat bs)"
      using arg_cong [OF m, of "\<lambda>x. size (filter_mset (\<lambda>e. Q (ge_window_name e)) x)"]
      by (simp add: win_count_def flip: mset_filter)
    then show ?thesis
      using sum_list_max [of "\<lambda>p. Q (sb_window (fst p))" "\<lambda>p. count_at ic (sb_alias (fst p))" ?sp snd]
      by (simp add: inj background_win [OF bs(2)] case_prod_beta')
  qed
  have len: "length evs = (\<Sum>(s, n)\<leftarrow>?sp. max n (count_at ic (sb_alias s)))"
    using all [of "\<lambda>w. True"] by (simp add: win_count_def)
  have "(\<Sum>(s, n)\<leftarrow>?sp. n) \<le> (\<Sum>(s, n)\<leftarrow>?sp. max n (count_at ic (sb_alias s)))"
    by (rule sum_list_mono) auto
  then have tot: "sc_total (wfg_scenario wfg) \<le> length evs" using sp len by simp
  show ?thesis
    by (intro exI [of _ t] exI [of _ injs] exI [of _ ic] exI [of _ g1] exI [of _ bs] conjI allI st injs m bs(2) inj all len tot)
qed

section \<open>Time order\<close>

lemma wrap_i64_id: "0 \<le> i \<Longrightarrow> i < 2 ^ 63 \<Longrightarrow> wrap_i64 i = i"
  by (simp add: wrap_i64_def)

lemma stream_interval_nonneg:
  assumes "d < 2 ^ 63" "n < 2 ^ 63"
  shows "0 \<le> (if 1 < n then idiv (wrap_i64 (int d)) (wrap_i64 (int n)) else 0)"
proof -
  have "wrap_i64 (int d) = int d" "wrap_i64 (int n) = int n"
    using assms by (auto intro!: wrap_i64_id simp: of_nat_less_iff [symmetric] simp del: of_nat_less_iff)
  then show ?thesis by (simp add: idiv_def pos_imp_zdiv_nonneg_iff)
qed

lemma generate_stream_events_sorted:
  assumes "generate_stream_events R stream schema n start dur g = Inr (ev, g1)" "dur < 2 ^ 63" "n < 2 ^ 63"
  shows "sorted (map ge_timestamp ev)"
proof -
  let ?i = "if 1 < n then idiv (wrap_i64 (int dur)) (wrap_i64 (int n)) else 0"
  have "ge_timestamp (ev ! i) \<le> ge_timestamp (ev ! j)" if "i \<le> j" "j < n" for i j
  proof -
    have "?i * int i \<le> ?i * int j" by (rule mult_left_mono) (use that stream_interval_nonneg [OF assms(2,3)] in simp_all)
    moreover have "\<forall>k < n. ge_timestamp (ev ! k) = start + ?i * int k"
      using generate_stream_events_spec [OF assms(1)] by blast
    ultimately show ?thesis using that by simp
  qed
  moreover have "length ev = n" using generate_stream_events_spec [OF assms(1)] by blast
  ultimately show ?thesis by (simp add: sorted_iff_nth_mono)
qed

lemma stream_chunk_sorted:
  assumes "stream_chunk R schemas ic start dur (s, n) st = Inr st'" "dur < 2 ^ 63" "n < 2 ^ 63"
    and "\<forall>c \<in> set (fst st). sorted (map ge_timestamp c)"
  shows "\<forall>c \<in> set (fst st'). sorted (map ge_timestamp c)"
proof -
  have "fst st' = fst st \<or> (\<exists>schema ev g g1. fst st' = fst st @ [ev] \<and>
      generate_stream_events R s schema (n - count_at ic (sb_alias s)) start dur g = Inr (ev, g1))"
    using assms(1) by (cases st) (auto simp: stream_chunk_def Let_def rbind_Inr_iff split: if_splits)
  moreover have "n - k < 2 ^ 63" for k using assms(3) by simp
  ultimately show ?thesis
    using assms(4) generate_stream_events_sorted [OF _ assms(2)] by fastforce
qed

lemma split_totals_le: "k \<le> b \<Longrightarrow> (s, n) \<in> set (split_totals t r k ss) \<Longrightarrow> n \<le> b"
proof (induction t r k ss rule: split_totals.induct)
  case (3 t r k s1 s2 ss)
  then show ?case by (auto simp: Let_def min_def split: if_splits)
qed simp_all

lemma ev_key_timestamp: "timestamp_nanos (ge_timestamp e) \<noteq> None \<Longrightarrow> ev_key e = ge_timestamp e"
  by (auto simp: ev_key_def new_heap_item_def timestamp_nanos_def split: if_splits)

text \<open>
  C13: the generated events come out in the order of their time, injected and background events
  interleaved, when their instants are representable in nanoseconds and the duration and the total
  fit a signed 64-bit integer.
\<close>

theorem generate_in_time_order:
  assumes gen: "generate R start g0 wfg schemas plans = Inr evs"
    and rep: "\<forall>e \<in> set evs. timestamp_nanos (ge_timestamp e) \<noteq> None"
    and dur: "tc_duration (sc_time_clause (wfg_scenario wfg)) < 2 ^ 63" and tot: "sc_total (wfg_scenario wfg) < 2 ^ 63"
  shows "sorted (map ge_timestamp evs)"
proof -
  obtain t injs ic g1 chunks g2 where
    ch: "rfold (stream_chunk R schemas ic t (tc_duration (sc_time_clause (wfg_scenario wfg)))) (scenario_split (wfg_scenario wfg))
       (if injs = [] then [] else [sort_key ge_timestamp injs], g1) = Inr (chunks, g2)"
    and evs: "evs = merge_sorted_chunks chunks"
    by (rule generate_chunks [OF gen])
  have srt: "\<forall>c \<in> set (fst (chunks, g2)). sorted (map ge_timestamp c)"
  proof (rule rfold_invariant [OF ch])
    fix sn st st' assume sn: "sn \<in> set (scenario_split (wfg_scenario wfg))" and P: "\<forall>c \<in> set (fst st). sorted (map ge_timestamp c)"
      and step: "stream_chunk R schemas ic t (tc_duration (sc_time_clause (wfg_scenario wfg))) sn st = Inr st'"
    obtain s n where p: "sn = (s, n)" by (cases sn)
    have "n < 2 ^ 63" using split_totals_le [OF order_refl sn [unfolded p]] tot by simp
    then show "\<forall>c \<in> set (fst st'). sorted (map ge_timestamp c)"
      using stream_chunk_sorted [OF step [unfolded p] dur _ P] by simp
  qed simp
  have key: "ev_key e = ge_timestamp e" if "e \<in> set (concat chunks)" for e
    using that rep ev_key_timestamp merge_sorted_chunks_mset [of chunks] unfolding evs by (metis set_mset_mset)
  have c: "map ev_key c = map ge_timestamp c" if "c \<in> set chunks" for c
    using that key by (intro map_cong) auto
  have "\<forall>c \<in> set chunks. sorted (map ev_key c)"
  proof
    fix x assume x: "x \<in> set chunks"
    show "sorted (map ev_key x)" unfolding c [OF x] using srt x by simp
  qed
  from merge_sorted_chunks_sort [OF this] have "sorted (map ev_key evs)" by (simp add: evs)
  moreover have "map ev_key evs = map ge_timestamp evs" using rep ev_key_timestamp by (intro map_cong) auto
  ultimately show ?thesis by (simp only:)
qed

section \<open>A concrete run\<close>

definition ex_rng :: "nat rng_ops" where
  "ex_rng = \<lparr>rng_int = (\<lambda>k lo hi g. (lo + int g mod (hi - lo + 1), Suc g)), rng_float = (\<lambda>lo hi g. (lo, Suc g)),
     rng_unit = (\<lambda>g. (f64_zero, Suc g)), rng_bool = (\<lambda>g. (even g, Suc g))\<rparr>"

definition ex_login_schema :: window_schema where
  "ex_login_schema = \<lparr>ws_name = ''login'', ws_streams = [''auth''], ws_time_field = None,
     ws_fields = [\<lparr>fd_name = ''user'', fd_type = FBase BDigit\<rparr>, \<lparr>fd_name = ''action'', fd_type = FBase BBool\<rparr>,
                  \<lparr>fd_name = ''at'', fd_type = FBase BTime\<rparr>]\<rparr>"

definition ex_rule :: rule_plan where
  "ex_rule = \<lparr>rp_name = ''brute'', rp_binds = [\<lparr>bd_alias = ''f'', bd_window = ''login'',
       bd_filter = Some (EBinOp OpEq (EField (FSimple ''action'')) (EBool False))\<rparr>],
     rp_window_spec = Sliding (from_secs 1), rp_keys = [FSimple ''user''],
     rp_event_steps = [[\<lparr>bp_source = ''f'', bp_guard = None, bp_threshold = ENumber (f64_of_nat 2)\<rparr>]],
     rp_entity_id_expr = EField (FSimple ''user'')\<rparr>"

definition ex_scenario :: wfg_file where
  "ex_scenario = \<lparr>wfg_uses = [], wfg_scenario = \<lparr>sc_name = ''s'', sc_seed = 0,
       sc_time_clause = \<lparr>tc_start = ''2026-01-01T00:00:00Z'', tc_duration = from_secs 4\<rparr>, sc_total = 4,
       sc_streams = [\<lparr>sb_alias = ''login'', sb_window = ''login'', sb_rate = \<lparr>rate_count = 1, rate_unit = PerSecond\<rparr>, sb_overrides = []\<rparr>],
       sc_injects = [\<lparr>ib_rule = ''brute'', ib_streams = [''login''],
          ib_lines = [\<lparr>il_mode = NonHit, il_percent = f64_of_nat 50, il_params = [], il_use_steps = []\<rparr>]\<rparr>],
       sc_faults = None, sc_oracle = None\<rparr>, wfg_syntax = None\<rparr>"


lemma ex_total: "total_rate (wfg_scenario ex_scenario) = f64_of_nat 1"
  by (simp add: ex_scenario_def total_rate_def events_per_second_def f64_eval)
lemma ex_split: "scenario_split (wfg_scenario ex_scenario) = [(hd (sc_streams (wfg_scenario ex_scenario)), 4)]"
  by (simp add: ex_scenario_def)
lemma ex_totals: "compute_stream_totals (wfg_scenario ex_scenario) = [''login'' \<mapsto> 4]"
  by (simp add: compute_stream_totals_def ex_split ex_total) (simp add: ex_scenario_def f64_eval)

lemma ex_alias: "build_alias_map [''login''] (sc_streams (wfg_scenario ex_scenario)) ex_rule = Inr [''f'' \<mapsto> (''login'', ''login'')]"
  by (simp add: build_alias_map_def map_stream_def ex_scenario_def find_first_def ex_rule_def)

definition ex_rs :: rule_structure where
  "ex_rs = \<lparr>rs_keys = [''user''], rs_window_dur = from_secs 1,
     rs_steps = [\<lparr>si_bind_alias = ''f'', si_scenario_alias = ''login'', si_window_name = ''login'', si_threshold = 2, si_filter_overrides = [(''action'', JBool False)]\<rparr>],
     rs_entity_id_field = Some ''user''\<rparr>"

lemma ex_structure: "extract_rule_structure ex_rule [''f'' \<mapsto> (''login'', ''login'')] = Inr ex_rs"
  by (simp add: find_first_def ex_rule_def extract_rule_structure_def extract_step_def ex_rs_def window_spec_dur_def
     f64_eval  Let_def extract_filter_constraints_def add_field_eq_def field_ref_field_name_def expr_to_json_value_def extract_entity_id_field_def)

abbreviation ex_ctx :: gen_ctx where
  "ex_ctx \<equiv> \<lparr>gc_schemas = [ex_login_schema], gc_streams = sc_streams (wfg_scenario ex_scenario), gc_totals = [''login'' \<mapsto> 4], gc_start = 0, gc_duration = from_secs 4\<rparr>"

lemma ex_budget: "stream_budget (f64_of_nat 50) [''login'' \<mapsto> 4] ''login'' = 2"
  by (simp add: stream_budget_def count_at_def f64_eval)

lemma two: "[0..<2] = [0, 1::nat]" by (simp add: upt_rec numeral_eq_Suc)

lemma ex_keys: "generate_key_values [''user''] n ''bg'' [ex_login_schema] (rs_steps ex_rs) None = [''user'' \<mapsto> JInt (wrap_i64 (int n))]"
  by (simp add: generate_key_values_def key_names_def first_schema_def key_value_def find_schema_def find_first_def ex_login_schema_def ex_rs_def)


definition ex_ev :: "json \<Rightarrow> int \<Rightarrow> json \<Rightarrow> gen_event" where
  "ex_ev u t a = \<lparr>ge_stream_name = ''auth'', ge_window_name = ''login'', ge_timestamp = t,
     ge_fields = [''user'' \<mapsto> u, ''action'' \<mapsto> a, ''at'' \<mapsto> JInt t]\<rparr>"

abbreviation ex_stream :: stream_block where "ex_stream \<equiv> hd (sc_streams (wfg_scenario ex_scenario))"

lemma ex_step_event:
  assumes "timestamp_nanos t = Some t"
  shows "step_event R ex_login_schema ex_stream (hd (rs_steps ex_rs)) [''user'' \<mapsto> u] [] t (ev, g) = Inr (ev @ [ex_ev u t (JBool False)], g)"
  using assms
  by (simp add: step_event_def build_event_fields_with_predicates_def ex_login_schema_def event_field_def ex_rs_def ex_scenario_def
      overrides_of_def stream_name_of_def timestamp_field_def nanos_or_zero_def ex_ev_def)

lemma ex_miss: "miss_step ex_rng ex_ctx (f64_of_nat 50) ex_rs (hd (rs_steps ex_rs)) ([], 1000000, Map.empty, 0) =
   Inr ([ex_ev (JInt 1000000) 0 (JBool False), ex_ev (JInt 1000001) 2000000000 (JBool False)], 1000002, [''login'' \<mapsto> 2], 0)"
proof -
  have s: "window_schema_of ex_ctx (hd (rs_steps ex_rs)) = Inr ex_login_schema" "stream_of ex_ctx (hd (rs_steps ex_rs)) = Inr ex_stream"
      "si_scenario_alias (hd (rs_steps ex_rs)) = ''login''" "rs_keys ex_rs = [''user'']"
    by (simp_all add: window_schema_of_def stream_of_def find_schema_def find_first_def ex_rs_def ex_login_schema_def ex_scenario_def)
  have t: "timestamp_nanos 0 = Some 0" "timestamp_nanos 2000000000 = Some 2000000000" by (simp_all add: timestamp_nanos_def)
  have o: "spread_offset (from_secs 4) 0 2 = 0" "spread_offset (from_secs 4) 1 2 = 2000000000"
    by (simp_all add: spread_offset_def wrap_i64_def idiv_def from_secs_def)
  have w: "wrap_i64 2 = 2" "wrap_i64 1000000 = 1000000" "wrap_i64 1000001 = 1000001" by (simp_all add: wrap_i64_def)
  show ?thesis
    by (simp add: miss_step_def s ex_budget two miss_event_def ex_keys ex_step_event t o w add_at_def count_at_def Let_def numeral_2_eq_2)
qed

lemma ex_injected: "injected ex_rng 0 0 ex_scenario [ex_login_schema] [ex_rule] =
   Inr ([ex_ev (JInt 1000000) 0 (JBool False), ex_ev (JInt 1000001) 2000000000 (JBool False)], [''login'' \<mapsto> 2], 0)"
proof -
  have c: "sc_injects (wfg_scenario ex_scenario) = [\<lparr>ib_rule = ''brute'', ib_streams = [''login''],
          ib_lines = [\<lparr>il_mode = NonHit, il_percent = f64_of_nat 50, il_params = [], il_use_steps = []\<rparr>]\<rparr>]"
     "wfg_syntax ex_scenario = None" "tc_duration (sc_time_clause (wfg_scenario ex_scenario)) = from_secs 4" by (simp_all add: ex_scenario_def)
  have r: "resolve_rule_plan ''brute'' [ex_rule] = Inr ex_rule" by (simp add: resolve_rule_plan_def find_first_def ex_rule_def)
  have st: "rs_steps ex_rs = [hd (rs_steps ex_rs)]" by (simp add: ex_rs_def)
  have n: "generate_non_hit_events ex_rng ex_ctx (f64_of_nat 50) ex_rs (extract_inject_overrides
      \<lparr>il_mode = NonHit, il_percent = f64_of_nat 50, il_params = [], il_use_steps = []\<rparr>) Map.empty 0 =
    Inr ([ex_ev (JInt 1000000) 0 (JBool False), ex_ev (JInt 1000001) 2000000000 (JBool False)], [''login'' \<mapsto> 2], 0)"
    by (subst generate_non_hit_events_def, subst st) (simp add: ex_miss extract_inject_overrides_def no_overrides_def)
  show ?thesis
    by (simp add: injected_def has_inject_def c generate_inject_events_def ex_totals inject_one_block_def r ex_alias ex_structure
        inject_one_line_def generate_for_line_def generate_for_mode_def n Let_def)
qed

lemma ex_chunk: "stream_chunk ex_rng [ex_login_schema] [''login'' \<mapsto> 2] 0 (from_secs 4) (ex_stream, 4) (cs, 0) =
   Inr (cs @ [[ex_ev (JInt 0) 0 (JBool False), ex_ev (JInt 2) 2000000000 (JBool False)]], 4)"
proof -
  have s: "sb_alias ex_stream = ''login''" "find_schema ''login'' [ex_login_schema] = Some ex_login_schema" "overrides_of ex_stream = Map.empty" "sb_window ex_stream = ''login''"
    by (simp_all add: find_schema_def find_first_def ex_login_schema_def ex_scenario_def overrides_of_def)
  have w: "wrap_i64 (int (from_secs 4)) = 4000000000" "wrap_i64 2 = 2" "idiv 4000000000 2 = 2000000000" by (simp_all add: wrap_i64_def idiv_def from_secs_def)
  show ?thesis
    by (simp add: stream_chunk_def Let_def s find_schema_def find_first_def count_at_def generate_stream_events_def two stream_event_def w build_event_fields_def
      build_event_fields_with_predicates_def ex_login_schema_def event_field_def timestamp_field_def nanos_or_zero_def timestamp_nanos_def
      generate_field_value_def generate_default_def generate_default_base_def ex_rng_def stream_name_of_def ex_ev_def)
qed

lemma ex_generate: "generate ex_rng (Inr 0) 0 ex_scenario [ex_login_schema] [ex_rule] =
  Inr [ex_ev (JInt 1000000) 0 (JBool False), ex_ev (JInt 0) 0 (JBool False), ex_ev (JInt 1000001) 2000000000 (JBool False), ex_ev (JInt 2) 2000000000 (JBool False)]"
proof -
  have t: "timestamp_nanos 0 = Some 0" "timestamp_nanos 2000000000 = Some 2000000000" by (simp_all add: timestamp_nanos_def)
  have m: "merge_sorted_chunks [[ex_ev (JInt 1000000) 0 (JBool False), ex_ev (JInt 1000001) 2000000000 (JBool False)],
      [ex_ev (JInt 0) 0 (JBool False), ex_ev (JInt 2) 2000000000 (JBool False)]] =
    [ex_ev (JInt 1000000) 0 (JBool False), ex_ev (JInt 0) 0 (JBool False), ex_ev (JInt 1000001) 2000000000 (JBool False), ex_ev (JInt 2) 2000000000 (JBool False)]"
    by (subst merge_sorted_chunks_sort) (simp_all add: ev_key_def new_heap_item_def ex_ev_def t)
  have d: "tc_duration (sc_time_clause (wfg_scenario ex_scenario)) = from_secs 4" by (simp add: ex_scenario_def)
  have sp: "split_totals (sc_total (wfg_scenario ex_scenario)) (f64_of_nat 1) (sc_total (wfg_scenario ex_scenario)) (sc_streams (wfg_scenario ex_scenario)) = [(ex_stream, 4)]"
    by (simp add: ex_scenario_def)
  have z: "feq (f64_of_nat 1) f64_zero = False" by (simp add: f64_eval)
  have o: "sort_key ge_timestamp [ex_ev (JInt 1000000) 0 (JBool False), ex_ev (JInt 1000001) 2000000000 (JBool False)] =
     [ex_ev (JInt 1000000) 0 (JBool False), ex_ev (JInt 1000001) 2000000000 (JBool False)]" by (simp add: ex_ev_def)
  show ?thesis
    unfolding generate_def Let_def d ex_total
    by (simp only: rbind_simps sum.case ex_injected [unfolded injected_def d] prod.case z if_False sp rfold.simps ex_chunk o list.distinct if_False append.simps m)
qed
definition ex_events :: "gen_event list" where
  "ex_events = [ex_ev (JInt 1000000) 0 (JBool False), ex_ev (JInt 0) 0 (JBool False),
      ex_ev (JInt 1000001) 2000000000 (JBool False), ex_ev (JInt 2) 2000000000 (JBool False)]"

lemmas ex_run = ex_generate [folded ex_events_def]

theorem generate_keeps_books_witness:
  "\<exists>injs ic g1 bs. injected ex_rng 0 0 ex_scenario [ex_login_schema] [ex_rule] = Inr (injs, ic, g1) \<and>
     mset ex_events = mset injs + mset (concat bs) \<and> sc_total (wfg_scenario ex_scenario) \<le> length ex_events"
proof -
  have "distinct (map sb_alias (sc_streams (wfg_scenario ex_scenario)))" by (simp add: ex_scenario_def)
  from generate_keeps_books [OF ex_run this] show ?thesis by blast
qed

theorem generate_in_time_order_witness:
  "sorted (map ge_timestamp ex_events)"
  by (rule generate_in_time_order [OF ex_run])
    (simp_all add: ex_events_def ex_ev_def timestamp_nanos_def ex_scenario_def from_secs_def)

end
