(* ===== verification/DatagenEvents.thy ===== *)
theory DatagenEvents
  imports RustText DatagenCount
begin

text \<open>
  Content of the generated events: which value a field gets, and that every event of a cluster
  carries the keys of its cluster and satisfies the filter of its rule step.
\<close>

section \<open>Fields of one event\<close>

text \<open>The value a field is pinned to: a key, then a predicate, then a filter constraint.\<close>

definition pinned :: "(string \<rightharpoonup> json) \<Rightarrow> jmap \<Rightarrow> jmap \<Rightarrow> string \<Rightarrow> json option" where
  "pinned keys pred filt n =
     (case keys n of Some v \<Rightarrow> Some v
      | None \<Rightarrow> (case map_of pred n of Some v \<Rightarrow> Some v | None \<Rightarrow> map_of filt n))"

lemma event_field_spec:
  assumes "event_field R ovs keys filt pred ts f st = Inr st'"
  shows "\<exists>v. fst st' = (fst st)(fd_name f \<mapsto> v) \<and>
     (\<forall>w. pinned keys pred filt (fd_name f) = Some w \<longrightarrow> v = w) \<and>
     (pinned keys pred filt (fd_name f) = None \<and> timestamp_field f (ovs (fd_name f)) \<longrightarrow> v = nanos_or_zero ts)"
  using assms
  by (cases st) (auto simp: event_field_def pinned_def Let_def rbind_Inr_iff split: option.splits if_splits)

definition fields_ok :: "(string \<Rightarrow> json option) \<Rightarrow> (string \<rightharpoonup> json) \<Rightarrow> bool" where
  "fields_ok p fm = (\<forall>n v. n \<in> dom fm \<and> p n = Some v \<longrightarrow> fm n = Some v)"

lemma event_fields_fold:
  assumes "rfold (event_field R ovs keys filt pred ts) fs st = Inr st'" "fields_ok (pinned keys pred filt) (fst st)"
  shows "fields_ok (pinned keys pred filt) (fst st') \<and> dom (fst st') = dom (fst st) \<union> fd_name ` set fs"
  using assms
proof (induction fs arbitrary: st)
  case (Cons f fs)
  then obtain st1 where s: "event_field R ovs keys filt pred ts f st = Inr st1"
      and r: "rfold (event_field R ovs keys filt pred ts) fs st1 = Inr st'"
    by (auto simp: rbind_Inr_iff)
  obtain v where v: "fst st1 = (fst st)(fd_name f \<mapsto> v)" "\<forall>w. pinned keys pred filt (fd_name f) = Some w \<longrightarrow> v = w"
    using event_field_spec [OF s] by blast
  have "fields_ok (pinned keys pred filt) (fst st1)"
    using Cons.prems(2) v unfolding fields_ok_def by (auto split: if_splits)
  from Cons.IH [OF r this] show ?case using v(1) by auto
qed simp

text \<open>
  An event has exactly the fields of its schema; a field named by a key, a use predicate or a
  filter constraint has that value, the key winning over the predicate and the predicate over the
  constraint.
\<close>

theorem event_fields_precedence:
  assumes "build_event_fields_with_predicates R schema ovs keys filt pred ts g = Inr (fm, g1)"
  shows "dom fm = fd_name ` set (ws_fields schema) \<and>
    (\<forall>n \<in> dom fm. (\<forall>v. keys n = Some v \<longrightarrow> fm n = Some v) \<and>
      (\<forall>v. keys n = None \<and> map_of pred n = Some v \<longrightarrow> fm n = Some v) \<and>
      (\<forall>v. keys n = None \<and> map_of pred n = None \<and> map_of filt n = Some v \<longrightarrow> fm n = Some v))"
proof -
  have "fields_ok (pinned keys pred filt) fm \<and> dom fm = fd_name ` set (ws_fields schema)"
    using event_fields_fold [OF assms [unfolded build_event_fields_with_predicates_def]] by (simp add: fields_ok_def)
  then show ?thesis by (auto simp: fields_ok_def pinned_def split: option.splits)
qed

section \<open>Events of a cluster\<close>

definition event_of :: "gen_ctx \<Rightarrow> (string \<rightharpoonup> json) \<Rightarrow> step_info \<Rightarrow> jmap \<Rightarrow> gen_event \<Rightarrow> bool" where
  "event_of C keys step pred e =
     (ge_window_name e = si_window_name step \<and>
      (\<exists>schema. find_schema (si_window_name step) (gc_schemas C) = Some schema \<and>
         dom (ge_fields e) = fd_name ` set (ws_fields schema)) \<and>
      fields_ok (pinned keys pred (si_filter_overrides step)) (ge_fields e))"

lemma step_event_of:
  assumes "step_event R schema stream step keys pred ts (ev, g) = Inr (ev1, g1)"
    "find_schema (si_window_name step) (gc_schemas C) = Some schema"
  shows "\<exists>e. ev1 = ev @ [e] \<and> event_of C keys step pred e"
proof -
  obtain fm where b: "build_event_fields_with_predicates R schema (overrides_of stream) keys (si_filter_overrides step) pred ts g = Inr (fm, g1)"
    and e: "ev1 = ev @ [\<lparr>ge_stream_name = stream_name_of schema, ge_window_name = si_window_name step, ge_timestamp = ts, ge_fields = fm\<rparr>]"
    using assms(1) by (auto simp: step_event_def rbind_Inr_iff)
  have "fields_ok (pinned keys pred (si_filter_overrides step)) fm \<and> dom fm = fd_name ` set (ws_fields schema)"
    using event_fields_fold [OF b [unfolded build_event_fields_with_predicates_def]] by (simp add: fields_ok_def)
  then show ?thesis using e assms(2) by (auto simp: event_of_def)
qed

text \<open>The predicates of an event slot: those of the use step of its rule step, or none.\<close>

definition slots_ok :: "use_step_overrides list \<Rightarrow> jmap list list \<Rightarrow> bool" where
  "slots_ok us slots = (\<forall>k < length slots. \<forall>p \<in> set (slots ! k). p = [] \<or> (k < length us \<and> p = uo_predicates (us ! k)))"

lemma fill_slots_ok:
  assumes "slots_ok us slots" "k < length us"
  shows "slots_ok us (fill_slots counts (planned_step (k, us ! k)) slots)"
  using assms by (auto simp: slots_ok_def fill_slots_def planned_step_def Let_def nth_list_update)

lemma length_fill_slots [simp]: "length (fill_slots counts p slots) = length slots"
  by (simp add: fill_slots_def Let_def)

lemma map_use_predicates_ok:
  assumes "map_use_predicates_to_rule_steps steps us counts True = Inr slots" "length counts = length steps"
  shows "slots_ok us slots \<and> (us \<noteq> [] \<and> steps \<noteq> [] \<longrightarrow> (\<forall>i < length us. use_ok steps True i (us ! i)))"
proof (cases "us = [] \<or> counts = []")
  case True
  then show ?thesis using assms by (auto simp: map_use_predicates_to_rule_steps_def Let_def slots_ok_def)
next
  case False
  then have steps: "steps \<noteq> []" using assms(2) by auto
  obtain planned where p: "plan_use_steps steps us True = Inr planned"
    and s: "slots = map (\<lambda>(c, sl). sl @ replicate (c - length sl) [])
        (zip counts (foldl (\<lambda>sl p. fill_slots counts p sl) (replicate (length counts) []) planned))"
    using assms(1) False by (auto simp: map_use_predicates_to_rule_steps_def Let_def rbind_Inr_iff)
  note pl = p [unfolded plan_use_steps_iff [OF steps]]
  have "slots_ok us (foldl (\<lambda>sl p. fill_slots counts p sl) sl ps) \<and> length (foldl (\<lambda>sl p. fill_slots counts p sl) sl ps) = length sl"
    if "\<forall>p \<in> set ps. \<exists>k < length us. p = planned_step (k, us ! k)" "slots_ok us sl" for ps sl
    using that by (induction ps arbitrary: sl) (auto simp: fill_slots_ok)
  moreover have "\<forall>p \<in> set planned. \<exists>k < length us. p = planned_step (k, us ! k)"
    using pl by (auto simp: in_set_enumerate_eq)
  moreover have "slots_ok us (replicate (length counts) [])" by (simp add: slots_ok_def)
  ultimately have "slots_ok us (foldl (\<lambda>sl p. fill_slots counts p sl) (replicate (length counts) []) planned)"
    by blast
  then have "slots_ok us slots" unfolding s slots_ok_def by (auto simp: in_set_replicate)
  then show ?thesis using pl by simp
qed

text \<open>What a cluster guarantees of one of its events: the step it belongs to and its predicates.\<close>

definition cluster_event_ok :: "gen_ctx \<Rightarrow> (string \<rightharpoonup> json) \<Rightarrow> use_step_overrides list \<Rightarrow> step_info list \<Rightarrow> gen_event \<Rightarrow> bool" where
  "cluster_event_ok C keys us steps e =
     (\<exists>k < length steps. \<exists>pred. event_of C keys (steps ! k) pred e \<and> (pred = [] \<or> (k < length us \<and> pred = uo_predicates (us ! k))))"

lemma cluster_step_ok:
  assumes "cluster_step R C keys slots counts cs per (k, step) st = Inr st'"
    and "slots_ok us slots" "k < length steps" "step = steps ! k"
    and "\<forall>e \<in> set (fst (snd st)). cluster_event_ok C keys us steps e"
  shows "\<forall>e \<in> set (fst (snd st')). cluster_event_ok C keys us steps e"
proof -
  obtain cum ev g where s: "st = (cum, ev, g)" by (cases st)
  let ?n = "if k < length counts then counts ! k else 0"
  let ?pred = "\<lambda>i. if k < length slots \<and> i < length (slots ! k) then slots ! k ! i else []"
  have pred: "?pred i = [] \<or> (k < length us \<and> ?pred i = uo_predicates (us ! k))" for i
    using assms(2) by (auto simp: slots_ok_def)
  show ?thesis
  proof (cases "?n = 0")
    case True
    then show ?thesis using assms(1,5) by (auto simp: cluster_step_def s Let_def split: if_splits)
  next
    case False
    then obtain schema stream ev1 g1 where schema: "window_schema_of C step = Inr schema"
      and r: "rfold (\<lambda>i. step_event R schema stream step keys (?pred i) (cluster_ts (gc_start C) cs cum per i ?n)) [0..<?n] (ev, g) = Inr (ev1, g1)"
      and st': "st' = (fadd cum per, ev1, g1)"
      using assms(1) by (auto simp: cluster_step_def s Let_def rbind_Inr_iff split: if_splits)
    have "find_schema (si_window_name step) (gc_schemas C) = Some schema"
      using schema by (auto simp: window_schema_of_def ok_or_def split: option.splits)
    note se = step_event_of [OF _ this]
    have "\<forall>e \<in> set (fst (ev1, g1)). cluster_event_ok C keys us steps e"
    proof (rule rfold_invariant [OF r])
      fix i t t' assume P: "\<forall>e \<in> set (fst t). cluster_event_ok C keys us steps e"
        and i: "step_event R schema stream step keys (?pred i) (cluster_ts (gc_start C) cs cum per i ?n) t = Inr t'"
      obtain e where "fst t' = fst t @ [e]" "event_of C keys step (?pred i) e"
        using se [of R stream keys "?pred i" _ "fst t" "snd t" "fst t'" "snd t'"] i by auto
      then show "\<forall>e \<in> set (fst t'). cluster_event_ok C keys us steps e"
        using P pred [of i] assms(3,4) unfolding cluster_event_ok_def by auto
    qed (use assms(5) s in simp)
    then show ?thesis by (simp add: st')
  qed
qed


theorem event_fields_precedence_witness:
  "\<exists>fm. build_event_fields_with_predicates ex_rng ex_login_schema Map.empty [''user'' \<mapsto> JInt 7] [(''action'', JBool False)]
      [(''action'', JBool True)] 5 0 = Inr (fm, 0) \<and> fm ''user'' = Some (JInt 7) \<and> fm ''action'' = Some (JBool True) \<and> fm ''at'' = Some (JInt 5)"
proof -
  let ?fm = "[''user'' \<mapsto> JInt 7, ''action'' \<mapsto> JBool True, ''at'' \<mapsto> JInt 5]"
  have "build_event_fields_with_predicates ex_rng ex_login_schema Map.empty [''user'' \<mapsto> JInt 7] [(''action'', JBool False)]
      [(''action'', JBool True)] 5 0 = Inr (?fm, 0)"
    by (simp add: build_event_fields_with_predicates_def ex_login_schema_def event_field_def timestamp_field_def
        nanos_or_zero_def timestamp_nanos_def)
  moreover from event_fields_precedence [OF this]
  have "?fm ''user'' = Some (JInt 7) \<and> ?fm ''action'' = Some (JBool True)" by simp
  ultimately show ?thesis by (intro exI [of _ ?fm]) simp
qed

lemma ex_cluster:
  "generate_cluster_events ex_rng ex_ctx (rs_steps ex_rs) [2] [''user'' \<mapsto> JInt 0] [] f64_zero (f64_of_nat 1) ([], 0) =
     Inr ([ex_ev (JInt 0) 0 (JBool False), ex_ev (JInt 0) 500000000 (JBool False)], 0)"
proof -
  have s: "window_schema_of ex_ctx (hd (rs_steps ex_rs)) = Inr ex_login_schema" "stream_of ex_ctx (hd (rs_steps ex_rs)) = Inr ex_stream"
    by (simp_all add: window_schema_of_def stream_of_def find_schema_def find_first_def ex_rs_def ex_login_schema_def ex_scenario_def)
  have st: "rs_steps ex_rs = [hd (rs_steps ex_rs)]" by (simp add: ex_rs_def)
  have t: "cluster_ts 0 f64_zero f64_zero (f64_of_nat 1) 0 2 = 0" "cluster_ts 0 f64_zero f64_zero (f64_of_nat 1) 1 2 = 500000000"
    by (simp_all add: cluster_ts_def nanos_e9_def f64_eval)
  have n: "timestamp_nanos 0 = Some 0" "timestamp_nanos 500000000 = Some 500000000" by (simp_all add: timestamp_nanos_def)
  have "cluster_step ex_rng ex_ctx [''user'' \<mapsto> JInt 0] [[]] [2] f64_zero (f64_of_nat 1) (0, hd (rs_steps ex_rs)) (f64_zero, [], 0) =
     Inr (fadd f64_zero (f64_of_nat 1), [ex_ev (JInt 0) 0 (JBool False), ex_ev (JInt 0) 500000000 (JBool False)], 0)"
    by (simp add: cluster_step_def s two t ex_step_event n del: One_nat_def)
  then show ?thesis
    by (subst st) (simp add: generate_cluster_events_def map_use_predicates_to_rule_steps_def)
qed


section \<open>Keys of different entities differ\<close>

lemma digits_value_pad: "digits_value (pad_zeros w s) = digits_value s"
proof -
  have "foldl (\<lambda>a c. 10 * a + (of_char c - 48)) (0 :: nat) (replicate k (CHR ''0'') @ s) = foldl (\<lambda>a c. 10 * a + (of_char c - 48)) 0 s" for k
    by (induction k) simp_all
  then show ?thesis by (simp add: digits_value_def pad_zeros_def)
qed

lemma dot_not_digit: "CHR ''.'' \<notin> set (dec_digits n)"
proof (induction n rule: dec_digits.induct)
  case (1 n)
  have d: "CHR ''.'' \<noteq> digit_char k" if "k < 10" for k
  proof
    assume "CHR ''.'' = digit_char k"
    then have "of_char (CHR ''.'') = (48 + k) mod 256" by (simp add: digit_char_def)
    then show False using that by simp
  qed
  show ?case using 1 d by (auto simp: dec_digits.simps [of n])
qed

lemma append_sep: "c \<notin> set x \<Longrightarrow> c \<notin> set y \<Longrightarrow> x @ c # r = y @ c # s \<longleftrightarrow> x = y \<and> r = s"
proof (induction x arbitrary: y)
  case Nil
  then show ?case by (cases y) auto
next
  case (Cons a x)
  then show ?case by (cases y) auto
qed

lemma show_ip_inj: "show_ip a b c d = show_ip a' b' c' d' \<longleftrightarrow> a = a' \<and> b = b' \<and> c = c' \<and> d = d'"
  by (auto simp: show_ip_def append_sep dot_not_digit dest: dec_digits_inj)

lemma pool_ip_inj:
  assumes "pool_ip i = pool_ip j" "i < 2 ^ 24" "j < 2 ^ 24"
  shows "i = j"
proof -
  have e: "i div 65536 mod 256 = j div 65536 mod 256" "i div 256 mod 256 = j div 256 mod 256" "i mod 256 = j mod 256"
    using assms(1) by (simp_all add: pool_ip_def show_ip_inj)
  have "i div 256 mod 256 = j div 256 mod 256" "i div 256 div 256 = j div 256 div 256"
    using e(1,2) assms(2,3) by (simp_all flip: div_mult2_eq)
  then have "i div 256 = j div 256" by (metis div_mult_mod_eq)
  then show ?thesis using e(3) by (metis div_mult_mod_eq)
qed

definition key_map :: "(nat \<Rightarrow> string \<Rightarrow> json) \<Rightarrow> string list \<Rightarrow> (string \<rightharpoonup> json)" where
  "key_map F ns = foldl (\<lambda>m (i, name). m(name \<mapsto> F i name)) Map.empty (enumerate 0 ns)"

lemma key_map_snoc: "key_map F (ns @ [x]) = (key_map F ns)(x \<mapsto> F (length ns) x)"
  by (simp add: key_map_def enumerate_append_eq)

lemma key_map_index:
  assumes "n \<in> set ns"
  obtains i where "i < length ns" "\<And>F. key_map F ns n = Some (F i n)"
  using assms
proof (induction ns arbitrary: thesis rule: rev_induct)
  case (snoc x ns)
  show ?case
  proof (cases "x = n")
    case True
    show ?thesis by (rule snoc.prems(1) [of "length ns"]) (simp_all add: True key_map_snoc)
  next
    case False
    show ?thesis
    proof (rule snoc.IH)
      fix i assume "i < length ns" "\<And>F. key_map F ns n = Some (F i n)"
      then show thesis using False by (intro snoc.prems(1) [of i]) (simp_all add: key_map_snoc)
    qed (use snoc.prems(2) False in simp)
  qed
qed simp

lemma dom_key_map: "dom (key_map F ns) = set ns"
proof (induction ns rule: rev_induct)
  case Nil
  show ?case by (simp add: key_map_def)
next
  case (snoc x ns)
  show ?case by (subst key_map_snoc) (auto simp: snoc.IH [symmetric] dom_def split: if_splits)
qed

lemma generate_key_values_map:
  "generate_key_values keys c pre schemas steps entity =
     key_map (key_value c pre (first_schema schemas steps)) (key_names keys entity)"
  by (simp add: generate_key_values_def key_map_def)

definition key_field :: "window_schema list \<Rightarrow> step_info list \<Rightarrow> string \<Rightarrow> field_def option" where
  "key_field schemas steps n = Option.bind (first_schema schemas steps) (\<lambda>s. find_first (\<lambda>f. fd_name f = n) (ws_fields s))"

lemma key_value_inj:
  assumes "key_value c pre schema i n = key_value c' pre schema i n"
    and "c + i < 2 ^ 24" "c' + i < 2 ^ 24"
    and "\<forall>f. Option.bind schema (\<lambda>s. find_first (\<lambda>f. fd_name f = n) (ws_fields s)) = Some f \<longrightarrow> fd_type f \<noteq> FBase BFloat"
  shows "c = c'"
proof -
  have w: "wrap_i64 (int c) = int c" "wrap_i64 (int c') = int c'"
    using assms(2,3) by (simp_all add: wrap_i64_def)
  have pad: "c = c'" if "pad_zeros 6 (dec_digits c) = pad_zeros 6 (dec_digits c')"
    using that digits_value_pad digits_value_dec by metis
  have ip: "c = c'" if "pool_ip (c + i) = pool_ip (c' + i)"
    using pool_ip_inj [OF that] assms(2,3) by simp
  show ?thesis
    using assms(1,4) w pad ip unfolding key_value_def by (auto split: option.splits if_splits)
qed

text \<open>
  Two clusters of one injection never share a key: for different entity counters below 2 ^ 24
  every key name gets different values, whatever the type of the field, floats left aside.
\<close>

theorem cluster_keys_distinct:
  assumes "generate_key_values keys c pre schemas steps entity n = Some v"
    and "generate_key_values keys c' pre schemas steps entity n = Some v'"
    and "c \<noteq> c'" "c + length (key_names keys entity) \<le> 2 ^ 24" "c' + length (key_names keys entity) \<le> 2 ^ 24"
    and "\<forall>f. key_field schemas steps n = Some f \<longrightarrow> fd_type f \<noteq> FBase BFloat"
  shows "v \<noteq> v'"
proof
  assume "v = v'"
  have "n \<in> set (key_names keys entity)"
    using assms(1) dom_key_map unfolding generate_key_values_map by (metis domI)
  then obtain i where i: "i < length (key_names keys entity)"
    and F: "\<And>F. key_map F (key_names keys entity) n = Some (F i n)"
    using key_map_index by blast
  have "key_value c pre (first_schema schemas steps) i n = key_value c' pre (first_schema schemas steps) i n"
    using assms(1,2) \<open>v = v'\<close> by (simp add: generate_key_values_map F)
  from key_value_inj [OF this] show False using assms(3-5) i assms(6) [unfolded key_field_def] by simp
qed

theorem cluster_keys_distinct_witness:
  "generate_key_values [''user''] 3 ''hit'' [ex_login_schema] (rs_steps ex_rs) None ''user'' \<noteq>
   generate_key_values [''user''] 4 ''hit'' [ex_login_schema] (rs_steps ex_rs) None ''user''"
proof -
  have k: "generate_key_values [''user''] c ''hit'' [ex_login_schema] (rs_steps ex_rs) None ''user'' = Some (JInt (wrap_i64 (int c)))" for c
    by (simp add: generate_key_values_def key_names_def first_schema_def key_value_def find_schema_def find_first_def ex_login_schema_def ex_rs_def)
  have "JInt (wrap_i64 (int 3)) \<noteq> JInt (wrap_i64 (int 4))"
    by (rule cluster_keys_distinct [OF k k])
      (simp_all add: key_names_def key_field_def first_schema_def find_schema_def find_first_def ex_login_schema_def ex_rs_def)
  then show ?thesis using k by simp
qed

text \<open>
  The prefix that tells hits, near misses and misses apart is not part of a numeric or address
  key: the first hit and the first near miss act on one entity.
\<close>

lemma key_value_ignores_prefix:
  "generate_key_values [''user''] 0 ''hit'' [ex_login_schema] (rs_steps ex_rs) None =
   generate_key_values [''user''] 0 ''nm'' [ex_login_schema] (rs_steps ex_rs) None"
  by (simp add: generate_key_values_def key_names_def first_schema_def key_value_def find_schema_def find_first_def ex_login_schema_def ex_rs_def)

text \<open>An empty address pool passes validation and stops the generation with a panic.\<close>

lemma empty_pool_panics:
  "check_gen_expr_compat (GenFunc ''ipv4'' [(Some ''pool'', NumberLit f64_zero)]) BIp = None \<and>
   (\<exists>msg. generate_from_expr R (GenFunc ''ipv4'' [(Some ''pool'', NumberLit f64_zero)]) g = Inl (Panic msg))"
  by (simp add: check_gen_expr_compat_def check_gen_func_compat_def generate_from_expr.simps resolve_arg_def find_first_def
      to_u32_def below_def f64_zero_def trunc_nat_def)

end
