(* ===== verification/TypedEvents.thy ===== *)
theory TypedEvents
  imports DatagenEvents
begin

text \<open>
  Types of the generated values: the JSON form a field of each schema type must have, and that the
  background events of a validated scenario have it. Validation alone is not enough: it accepts
  \<open>timestamp()\<close> on a text field, a scalar generator on an array field and any function it does not
  know; the last section shows what such a field then holds.
\<close>

section \<open>The JSON form of a type\<close>

definition json_number :: "json \<Rightarrow> bool" where
  "json_number v = (case v of JInt i \<Rightarrow> True | JFloat x \<Rightarrow> True | _ \<Rightarrow> False)"

definition json_string :: "json \<Rightarrow> bool" where
  "json_string v = (case v of JString s \<Rightarrow> True | _ \<Rightarrow> False)"

fun base_typed :: "base_type \<Rightarrow> json \<Rightarrow> bool" where
  "base_typed BChars v = json_string v"
| "base_typed BIp v = json_string v"
| "base_typed BHex v = json_string v"
| "base_typed BDigit v = json_number v"
| "base_typed BFloat v = json_number v"
| "base_typed BBool v = (case v of JBool b \<Rightarrow> True | _ \<Rightarrow> False)"
| "base_typed BTime v = (case v of JInt i \<Rightarrow> True | JString s \<Rightarrow> True | _ \<Rightarrow> False)"

definition json_typed :: "field_type \<Rightarrow> json \<Rightarrow> bool" where
  "json_typed t v =
     (case t of FBase b \<Rightarrow> base_typed b v
      | FArray b \<Rightarrow> (case v of JArray xs \<Rightarrow> list_all (base_typed b) xs | _ \<Rightarrow> False)
      | FArrayAny \<Rightarrow> (case v of JArray xs \<Rightarrow> True | _ \<Rightarrow> False)
      | FObject \<Rightarrow> (case v of JObject m \<Rightarrow> True | _ \<Rightarrow> False))"

text \<open>A generator whose values have the type validation compares it with: a finite literal, or one of
  the typed functions; \<open>timestamp()\<close> only on a time field, and no generator on an array.\<close>

definition typed_generator :: "field_type \<Rightarrow> gen_expr \<Rightarrow> bool" where
  "typed_generator t e =
     (case t of
        FBase b \<Rightarrow>
          (case e of
             GenFunc f args \<Rightarrow> f \<in> {''ipv4'', ''pattern'', ''range''} \<or> (f = ''timestamp'' \<and> b = BTime)
           | NumberLit n \<Rightarrow> finite_f64 n | StringLit s \<Rightarrow> True | BoolLit x \<Rightarrow> True)
      | _ \<Rightarrow> False)"

section \<open>Generated values are typed\<close>

lemma rng_float_finite:
  assumes "rng_laws R" "flt lo hi" "finite_f64 lo"
  shows "\<exists>s m e. fst (rng_float R lo hi g) = Fin s m e"
proof -
  have b: "fle lo (fst (rng_float R lo hi g))" "flt (fst (rng_float R lo hi g)) hi"
    using assms(1,2) unfolding rng_laws_def by blast+
  obtain s m e where "lo = Fin s m e" using assms(3) by (cases lo) (auto simp: finite_f64_def)
  then show ?thesis using b by (cases "fst (rng_float R lo hi g)") (auto simp: fle_def split: if_splits, (cases hi; simp)+)
qed

lemma default_base_typed:
  assumes "rng_laws R"
  shows "base_typed b (fst (generate_default_base R b g))"
proof (cases b)
  case BFloat
  have "flt f64_zero (f64_of_nat 1000)" "finite_f64 f64_zero" by (simp_all add: f64_eval finite_f64_def)
  from rng_float_finite [OF assms this, of g] show ?thesis
    by (auto simp: BFloat generate_default_base_def json_f64_def json_number_def split: prod.splits f64.splits)
qed (auto simp: generate_default_base_def json_string_def json_number_def Let_def split: prod.splits)

lemma typed_draws_all: "(\<And>g. P (fst (f g))) \<Longrightarrow> list_all P (fst (draws f n g))"
proof (induction n arbitrary: g)
  case (Suc n)
  obtain x g1 where x: "f g = (x, g1)" by (cases "f g")
  obtain xs g2 where "draws f n g1 = (xs, g2)" by (cases "draws f n g1")
  then show ?case using x Suc.IH [OF Suc.prems, of g1] Suc.prems [of g] by simp
qed simp

lemma default_typed: "rng_laws R \<Longrightarrow> json_typed t (fst (generate_default R t g))"
proof (cases t)
  case (FArray b)
  assume "rng_laws R"
  then have "list_all (base_typed b) (fst (draws (generate_default_base R b) n g))" for n g
    by (intro typed_draws_all default_base_typed)
  moreover obtain len g1 where "rng_int R KI32 1 5 g = (len, g1)" by (cases "rng_int R KI32 1 5 g")
  moreover obtain xs g2 where "draws (generate_default_base R b) (nat len) g1 = (xs, g2)"
    by (cases "draws (generate_default_base R b) (nat len) g1")
  ultimately show ?thesis by (simp add: FArray generate_default_def json_typed_def) (metis fst_conv)
qed (auto simp: generate_default_def json_typed_def default_base_typed)

lemma string_values:
  "generate_from_expr R (GenFunc ''ipv4'' args) g = Inr (v, g1) \<Longrightarrow> json_string v"
  "generate_from_expr R (GenFunc ''pattern'' args) g = Inr (v, g1) \<Longrightarrow> json_string v"
  by (auto simp: generate_from_expr.simps [of R "GenFunc ''ipv4'' args"] generate_from_expr.simps [of R "GenFunc ''pattern'' args"]
      rbind_Inr_iff json_string_def)

lemma time_value: "generate_from_expr R (GenFunc ''timestamp'' args) g = Inr (v, g1) \<Longrightarrow> v = JInt 0"
  by (simp add: generate_from_expr.simps [of R "GenFunc ''timestamp'' args"])

lemma range_value:
  assumes "generate_from_expr R (GenFunc ''range'' args) g = Inr (v, g1)"
  obtains lo hi x where "float_range R lo hi g = Inr (x, g1)" "v = json_f64 x"
  using assms by (auto simp: generate_from_expr.simps [of R "GenFunc ''range'' args"] rbind_Inr_iff)

lemma expr_typed:
  assumes R: "rng_laws R" and e: "typed_generator (FBase b) e" "check_gen_expr_compat e b = None"
    and g: "generate_from_expr R e g = Inr (v, g1)"
  shows "base_typed b v"
proof (cases e)
  case (GenFunc f args)
  consider "f = ''ipv4''" | "f = ''pattern''" | "f = ''range''" | "f = ''timestamp''" "b = BTime"
    using e(1) by (auto simp: GenFunc typed_generator_def)
  then show ?thesis
  proof cases
    case 3
    obtain lo hi x where lh: "float_range R lo hi g = Inr (x, g1)" "v = json_f64 x"
      using g unfolding GenFunc 3 by (rule range_value)
    then have "flt lo hi" "finite_f64 lo" "x = fst (rng_float R lo hi g)" by (auto simp: float_range_def split: if_splits)
    from rng_float_finite [OF R this(1,2), of g] this(3) have "json_number v" by (auto simp: lh(2) json_f64_def json_number_def)
    then show ?thesis using e(2) 3 by (cases b) (simp_all add: GenFunc check_gen_expr_compat_def check_gen_func_compat_def)
  next
    case 1
    have "json_string v" using g unfolding GenFunc 1 by (rule string_values(1))
    then show ?thesis using e(2) 1 by (cases b) (simp_all add: GenFunc check_gen_expr_compat_def check_gen_func_compat_def)
  next
    case 2
    have "json_string v" using g unfolding GenFunc 2 by (rule string_values(2))
    then show ?thesis using e(2) 2 by (cases b) (simp_all add: GenFunc check_gen_expr_compat_def check_gen_func_compat_def)
  next
    case 4
    have "v = JInt 0" using g unfolding GenFunc 4(1) by (rule time_value)
    then show ?thesis using 4 by simp
  qed
qed (use g e in \<open>auto simp: generate_from_expr.simps check_gen_expr_compat_def typed_generator_def json_string_def json_number_def
       json_f64_def finite_f64_def split: if_splits f64.splits\<close>)

section \<open>Background events of a validated scenario\<close>

definition typed_overrides :: "stream_block \<Rightarrow> window_schema \<Rightarrow> bool" where
  "typed_overrides s schema \<longleftrightarrow>
     (\<forall>ov \<in> set (sb_overrides s). \<forall>f \<in> set (ws_fields schema). fd_name f = fo_field_name ov \<longrightarrow> typed_generator (fd_type f) (fo_gen_expr ov))"

definition event_typed :: "window_schema \<Rightarrow> (string \<rightharpoonup> json) \<Rightarrow> bool" where
  "event_typed schema fm \<longleftrightarrow>
     dom fm = fd_name ` set (ws_fields schema) \<and>
     (\<forall>f \<in> set (ws_fields schema). pred_option (json_typed (fd_type f)) (fm (fd_name f)))"

lemma override_at:
  assumes "overrides_of s n = Some e"
  obtains ov where "ov \<in> set (sb_overrides s)" "fo_field_name ov = n" "fo_gen_expr ov = e"
  using map_of_SomeD [OF assms [unfolded overrides_of_def]] by auto

lemma validated_override:
  assumes "override_wf schema ov" "f \<in> set (ws_fields schema)" "fd_name f = fo_field_name ov" "distinct (map fd_name (ws_fields schema))"
    and "typed_generator (fd_type f) (fo_gen_expr ov)"
  obtains b where "fd_type f = FBase b" "check_gen_expr_compat (fo_gen_expr ov) b = None"
proof -
  obtain fd b where fd: "find_first (\<lambda>f. fd_name f = fo_field_name ov) (ws_fields schema) = Some fd"
    "fd_type fd = FBase b \<or> fd_type fd = FArray b" "check_gen_expr_compat (fo_gen_expr ov) b = None"
    using assms(1) by (auto simp: override_wf_def split: option.splits)
  have "fd \<in> set (ws_fields schema)" "fd_name fd = fd_name f" using find_first_Some [OF fd(1)] assms(3) by auto
  then have "fd = f" using assms(2,4) by (metis distinct_map inj_onD)
  then show thesis using that fd(2,3) assms(5) by (auto simp: typed_generator_def)
qed

lemma event_field_typed:
  assumes R: "rng_laws R" and ov: "\<forall>ov \<in> set (sb_overrides s). override_wf schema ov" and t: "typed_overrides s schema"
    and d: "distinct (map fd_name (ws_fields schema))" and f: "f \<in> set (ws_fields schema)"
    and ev: "event_field R (overrides_of s) Map.empty [] [] ts f (fm, g) = Inr (fm1, g1)"
  shows "\<exists>v. fm1 = fm(fd_name f \<mapsto> v) \<and> json_typed (fd_type f) v"
proof (cases "timestamp_field f (overrides_of s (fd_name f))")
  case True
  then show ?thesis using ev
    by (auto simp: event_field_def timestamp_field_def json_typed_def nanos_or_zero_def)
next
  case False
  then obtain v where v: "generate_field_value R (fd_type f) (overrides_of s (fd_name f)) g = Inr (v, g1)" "fm1 = fm(fd_name f \<mapsto> v)"
    using ev by (auto simp: event_field_def Let_def rbind_Inr_iff)
  have "json_typed (fd_type f) v"
  proof (cases "overrides_of s (fd_name f)")
    case None
    then show ?thesis using v(1) default_typed [OF R, of "fd_type f" g] by (simp add: generate_field_value_def)
  next
    case (Some e)
    then obtain o' where o': "o' \<in> set (sb_overrides s)" "fo_field_name o' = fd_name f" "fo_gen_expr o' = e" by (rule override_at)
    have ty: "typed_generator (fd_type f) e" using t f o' unfolding typed_overrides_def by auto
    obtain b where "fd_type f = FBase b" "check_gen_expr_compat e b = None"
      using validated_override [of schema o' f] ov o' f d ty by metis
    then show ?thesis using expr_typed [OF R _ _ , of b e g v g1] v(1) ty Some
      by (simp add: generate_field_value_def json_typed_def)
  qed
  then show ?thesis using v(2) by blast
qed

lemma event_fields_typed:
  assumes R: "rng_laws R" and ov: "\<forall>ov \<in> set (sb_overrides s). override_wf schema ov" and t: "typed_overrides s schema"
    and d: "distinct (map fd_name (ws_fields schema))"
    and b: "build_event_fields R schema (overrides_of s) Map.empty [] ts g = Inr (fm, g1)"
  shows "event_typed schema fm"
proof -
  have "dom fm1 = dom fm0 \<union> fd_name ` set fs \<and>
      (\<forall>f \<in> set fs. pred_option (json_typed (fd_type f)) (fm1 (fd_name f))) \<and> (\<forall>n. n \<notin> fd_name ` set fs \<longrightarrow> fm1 n = fm0 n)"
    if "rfold (event_field R (overrides_of s) Map.empty [] [] ts) fs (fm0, g0) = Inr (fm1, g1)"
      "set fs \<subseteq> set (ws_fields schema)" "distinct (map fd_name fs)" for fs fm0 g0 fm1 g1
    using that
  proof (induction fs arbitrary: fm0 g0)
    case (Cons f fs)
    obtain fmx gx where x: "event_field R (overrides_of s) Map.empty [] [] ts f (fm0, g0) = Inr (fmx, gx)"
      "rfold (event_field R (overrides_of s) Map.empty [] [] ts) fs (fmx, gx) = Inr (fm1, g1)"
      using Cons.prems(1) by (auto simp: rbind_Inr_iff)
    obtain v where v: "fmx = fm0(fd_name f \<mapsto> v)" "json_typed (fd_type f) v"
      using event_field_typed [OF R ov t d _ x(1)] Cons.prems(2) by auto
    show ?case using Cons.IH [OF x(2)] Cons.prems(2,3) v by (auto simp: fun_upd_def)
  qed simp
  from this [OF b [unfolded build_event_fields_def build_event_fields_with_predicates_def] _ d]
  show ?thesis by (simp add: event_typed_def)
qed

text \<open>
  The scenarios that are generated from: the parser always fills in a syntax block and derives streams
  without overrides from its traffic; a scenario built without one is validated, and its overrides are
  typed here, which the validator does not ask.
\<close>

definition settled_stream :: "wfg_file \<Rightarrow> window_schema list \<Rightarrow> rule_decl list list \<Rightarrow> bool \<Rightarrow> stream_block \<Rightarrow> window_schema \<Rightarrow> bool" where
  "settled_stream wfg schemas wfl_files skip_wfl s schema =
     (case wfg_syntax wfg of
        Some syn \<Rightarrow> sc_streams (wfg_scenario wfg) = derive_legacy_streams (sy_traffic syn)
      | None \<Rightarrow> validate_wfg wfg schemas wfl_files skip_wfl = [] \<and> typed_overrides s schema)"

lemma settled_overrides:
  assumes "settled_stream wfg schemas wfl_files skip_wfl s schema"
    and "s \<in> set (sc_streams (wfg_scenario wfg))" "find_schema (sb_window s) schemas = Some schema"
  shows "\<forall>ov \<in> set (sb_overrides s). override_wf schema ov" and "typed_overrides s schema"
proof -
  have "(\<forall>ov \<in> set (sb_overrides s). override_wf schema ov) \<and> typed_overrides s schema"
  proof (cases "wfg_syntax wfg")
    case None
    then have "scenario_wf (wfg_scenario wfg) schemas (concat wfl_files) skip_wfl"
      using assms(1) validate_legacy_Nil [of "wfg_scenario wfg" schemas "concat wfl_files" skip_wfl]
      by (simp add: settled_stream_def validate_wfg_def Let_def)
    then show ?thesis using None assms by (auto simp: scenario_wf_def settled_stream_def)
  next
    case (Some syn)
    then have "sb_overrides s = []" using assms(1,2) by (auto simp: settled_stream_def derive_legacy_streams_def)
    then show ?thesis by (simp add: typed_overrides_def)
  qed
  then show "\<forall>ov \<in> set (sb_overrides s). override_wf schema ov" and "typed_overrides s schema" by simp_all
qed


lemma ex_rng_laws: "rng_laws ex_rng"
proof -
  have "fle lo lo" if "flt lo hi" for lo hi using flt_not_NaN [OF that] feq_refl by (simp add: fle_def)
  moreover have "lo \<le> lo + int g mod (hi - lo + 1) \<and> lo + int g mod (hi - lo + 1) \<le> hi" if "lo \<le> hi" for lo hi g
    using that pos_mod_bound [of "hi - lo + 1" "int g"] pos_mod_sign [of "hi - lo + 1" "int g"] by linarith
  ultimately show ?thesis by (simp add: rng_laws_def ex_rng_def f64_eval)
qed

text \<open>The scenario of \<open>DatagenCount\<close> with the syntax block it comes from.\<close>

definition ex_parsed :: wfg_file where
  "ex_parsed = ex_scenario\<lparr>wfg_syntax := Some \<lparr>sy_attrs = [], sy_inline_annos = [],
     sy_traffic = [\<lparr>sd_stream = ''login'', sd_rate = RateConstant \<lparr>rate_count = 1, rate_unit = PerSecond\<rparr>\<rparr>],
     sy_injection = None, sy_expect = None\<rparr>\<rparr>"


section \<open>Accepted overrides with values of another type\<close>

text \<open>
  Validation takes \<open>timestamp()\<close> on a text field, but only a time field is given the time of its
  event: the text field holds the number 0. It compares a generator on an array field with the
  type of the elements, and the field then holds a single element instead of an array.
\<close>

lemma timestamp_on_text_is_zero:
  "check_gen_expr_compat (GenFunc ''timestamp'' []) BChars = None"
  "event_field R [''t'' \<mapsto> GenFunc ''timestamp'' []] Map.empty [] [] ts \<lparr>fd_name = ''t'', fd_type = FBase BChars\<rparr> (fm, g) =
     Inr (fm(''t'' \<mapsto> JInt 0), g)"
  by (simp_all add: check_gen_expr_compat_def check_gen_func_compat_def event_field_def timestamp_field_def generate_field_value_def
      generate_from_expr.simps [of R "GenFunc ''timestamp'' []"])

lemma scalar_in_array_field:
  "override_wf \<lparr>ws_name = ''w'', ws_streams = [], ws_time_field = None, ws_fields = [\<lparr>fd_name = ''xs'', fd_type = FArray BBool\<rparr>]\<rparr>
     \<lparr>fo_field_name = ''xs'', fo_gen_expr = BoolLit True\<rparr>"
  "generate_field_value R (FArray BBool) (Some (BoolLit True)) g = Inr (JBool True, g)"
  "\<not> json_typed (FArray BBool) (JBool True)"
  by (simp_all add: override_wf_def find_first_def check_gen_expr_compat_def generate_field_value_def
      generate_from_expr.simps [of R "BoolLit True"] json_typed_def)

end
