(* ===== verification/Faults.thy ===== *)
theory Faults
  imports DatagenCount
begin

text \<open>
  Temporal faults (\<open>datagen/fault_gen.rs\<close>): each event of a clean stream is assigned at most one
  fault by cumulative thresholds, then a first pass emits, drops, doubles or swaps events and
  collects the late ones, which a second pass inserts at their targets.

  The two passes never look inside an event, so they are stated for any type of event. The first
  pass is the loop over the index with its \<open>consumed\<close> flags, written as the code has it; the
  reference \<open>arrivals\<close> is a recursion over the list.
\<close>

section \<open>The code\<close>

record fault_stats =
  fs_out_of_order :: nat
  fs_late :: nat
  fs_duplicate :: nat
  fs_dropped :: nat
  fs_clean :: nat

definition no_faults :: fault_stats where
  "no_faults = \<lparr>fs_out_of_order = 0, fs_late = 0, fs_duplicate = 0, fs_dropped = 0, fs_clean = 0\<rparr>"

definition show_fault_stats :: "fault_stats \<Rightarrow> string" where
  "show_fault_stats s =
     dec_digits (fs_out_of_order s) @ '' out_of_order, '' @ dec_digits (fs_late s) @ '' late, '' @
     dec_digits (fs_duplicate s) @ '' duplicate, '' @ dec_digits (fs_dropped s) @ '' dropped, '' @
     dec_digits (fs_clean s) @ '' clean''"

datatype assignment = Clean | Fault fault_type

fun thresholds_from :: "f64 \<Rightarrow> fault_line list \<Rightarrow> (fault_type \<times> f64) list" where
  "thresholds_from c [] = []"
| "thresholds_from c (fl # fls) =
     (let c' = fadd c (fdiv (fl_percent fl) (f64_of_nat 100)) in (fl_fault_type fl, c') # thresholds_from c' fls)"

definition assign_roll :: "(fault_type \<times> f64) list \<Rightarrow> f64 \<Rightarrow> assignment" where
  "assign_roll ts roll = (case find_first (\<lambda>t. flt roll (snd t)) ts of Some t \<Rightarrow> Fault (fst t) | None \<Rightarrow> Clean)"

definition assign_faults :: "'g rng_ops \<Rightarrow> nat \<Rightarrow> fault_line list \<Rightarrow> 'g \<Rightarrow> assignment list \<times> 'g" where
  "assign_faults R n fls g =
     draws (\<lambda>g. let (roll, g') = rng_unit R g in (assign_roll (thresholds_from f64_zero fls) roll, g')) n g"

record 'a pass_state =
  ps_result :: "'a list"
  ps_deferred :: "('a \<times> nat) list"
  ps_consumed :: "bool list"
  ps_stats :: fault_stats

definition emit_clean :: "'a \<Rightarrow> 'a pass_state \<Rightarrow> 'a pass_state" where
  "emit_clean e s = s\<lparr>ps_result := ps_result s @ [e], ps_stats := (ps_stats s)\<lparr>fs_clean := fs_clean (ps_stats s) + 1\<rparr>\<rparr>"

definition late_offset :: "'g rng_ops \<Rightarrow> nat \<Rightarrow> 'g \<Rightarrow> nat \<times> 'g" where
  "late_offset R remaining g =
     (let mx = min remaining 120; mn = min 1 mx; (k, g') = rng_int R KUsize (int mn) (int mx) g in (nat k, g'))"

text \<open>The body of the loop for an event that no swap consumed; the two lists are as long as the events.\<close>

definition pass_step ::
  "'g rng_ops \<Rightarrow> 'a list \<Rightarrow> assignment list \<Rightarrow> nat \<Rightarrow> 'a pass_state \<times> 'g \<Rightarrow> 'a pass_state \<times> 'g" where
  "pass_step R events assigns i sg =
     (case sg of (s, g) \<Rightarrow>
        (let e = events ! i; st = ps_stats s in
         case assigns ! i of
           Clean \<Rightarrow> (emit_clean e s, g)
         | Fault Drop \<Rightarrow> (s\<lparr>ps_stats := st\<lparr>fs_dropped := fs_dropped st + 1\<rparr>\<rparr>, g)
         | Fault Duplicate \<Rightarrow>
             (s\<lparr>ps_result := ps_result s @ [e, e], ps_stats := st\<lparr>fs_duplicate := fs_duplicate st + 1\<rparr>\<rparr>, g)
         | Fault OutOfOrder \<Rightarrow>
             (if i + 1 < length events \<and> \<not> ps_consumed s ! (i + 1)
              then (s\<lparr>ps_result := ps_result s @ [events ! (i + 1), e],
                      ps_consumed := (ps_consumed s)[i + 1 := True],
                      ps_stats := st\<lparr>fs_out_of_order := fs_out_of_order st + 1, fs_clean := fs_clean st + 1\<rparr>\<rparr>, g)
              else (emit_clean e s, g))
         | Fault Late \<Rightarrow>
             (let remaining = length events - i - 1 in
              if 1 \<le> remaining
              then let (k, g') = late_offset R remaining g
                   in (s\<lparr>ps_deferred := ps_deferred s @ [(e, length (ps_result s) + k)],
                         ps_stats := st\<lparr>fs_late := fs_late st + 1\<rparr>\<rparr>, g')
              else (emit_clean e s, g))))"

function pass_loop ::
  "'g rng_ops \<Rightarrow> 'a list \<Rightarrow> assignment list \<Rightarrow> nat \<Rightarrow> 'a pass_state \<times> 'g \<Rightarrow> 'a pass_state \<times> 'g" where
  "pass_loop R events assigns i sg =
     (if i < length events
      then (if ps_consumed (fst sg) ! i then pass_loop R events assigns (i + 1) sg
            else pass_loop R events assigns (i + 1) (pass_step R events assigns i sg))
      else sg)"
  by pat_completeness auto

termination by (relation "measure (\<lambda>(R, events, assigns, i, sg). length events - i)") auto

declare pass_loop.simps [simp del]

definition insert_at :: "nat \<Rightarrow> 'a \<Rightarrow> 'a list \<Rightarrow> 'a list" where
  "insert_at i x xs = take i xs @ [x] @ drop i xs"

definition insert_late :: "'a \<times> nat \<Rightarrow> 'a list \<Rightarrow> 'a list" where
  "insert_late d xs = insert_at (min (snd d) (length xs)) (fst d) xs"

text \<open>\<open>sort_by_key\<close> with \<open>Reverse\<close> is stable: equal targets stay in the order they were deferred.\<close>

definition by_target_desc :: "('a \<times> nat) list \<Rightarrow> ('a \<times> nat) list" where
  "by_target_desc ds = sort_key (\<lambda>d. - int (snd d)) ds"

definition two_pass_transform ::
  "'g rng_ops \<Rightarrow> 'a list \<Rightarrow> assignment list \<Rightarrow> 'g \<Rightarrow> ('a list \<times> fault_stats) \<times> 'g" where
  "two_pass_transform R events assigns g =
     (let (s, g') = pass_loop R events assigns 0
            (\<lparr>ps_result = [], ps_deferred = [], ps_consumed = replicate (length events) False, ps_stats = no_faults\<rparr>, g)
      in ((fold insert_late (by_target_desc (ps_deferred s)) (ps_result s), ps_stats s), g'))"

definition apply_faults ::
  "'g rng_ops \<Rightarrow> 'a list \<Rightarrow> fault_line list \<Rightarrow> 'g \<Rightarrow> ('a list \<times> fault_stats) \<times> 'g" where
  "apply_faults R events fls g =
     (if events = [] \<or> fls = [] then ((events, no_faults\<lparr>fs_clean := length events\<rparr>), g)
      else let (as, g1) = assign_faults R (length events) fls g in two_pass_transform R events as g1)"

section \<open>The reference\<close>

text \<open>
  The first pass over the events still to come: what arrives, what is deferred with its target
  (\<open>pos\<close> is the number of events that have arrived), and the counts. A swap takes the next event
  with it, whatever that event was assigned.
\<close>

fun arrivals :: "'g rng_ops \<Rightarrow> ('a \<times> assignment) list \<Rightarrow> nat \<Rightarrow> 'g \<Rightarrow> ('a list \<times> ('a \<times> nat) list \<times> fault_stats) \<times> 'g" where
  "arrivals R [] pos g = (([], [], no_faults), g)"
| "arrivals R ((e, Clean) # r) pos g =
     (let ((xs, ds, st), g') = arrivals R r (pos + 1) g in ((e # xs, ds, st\<lparr>fs_clean := fs_clean st + 1\<rparr>), g'))"
| "arrivals R ((e, Fault Drop) # r) pos g =
     (let ((xs, ds, st), g') = arrivals R r pos g in ((xs, ds, st\<lparr>fs_dropped := fs_dropped st + 1\<rparr>), g'))"
| "arrivals R ((e, Fault Duplicate) # r) pos g =
     (let ((xs, ds, st), g') = arrivals R r (pos + 2) g in ((e # e # xs, ds, st\<lparr>fs_duplicate := fs_duplicate st + 1\<rparr>), g'))"
| "arrivals R ((e, Fault OutOfOrder) # (f, a) # r) pos g =
     (let ((xs, ds, st), g') = arrivals R r (pos + 2) g
      in ((f # e # xs, ds, st\<lparr>fs_out_of_order := fs_out_of_order st + 1, fs_clean := fs_clean st + 1\<rparr>), g'))"
| "arrivals R ((e, Fault Late) # x # r) pos g =
     (let (k, g1) = late_offset R (Suc (length r)) g; ((xs, ds, st), g') = arrivals R (x # r) pos g1
      in ((xs, (e, pos + k) # ds, st\<lparr>fs_late := fs_late st + 1\<rparr>), g'))"
| "arrivals R [(e, Fault OutOfOrder)] pos g = (([e], [], no_faults\<lparr>fs_clean := 1\<rparr>), g)"
| "arrivals R [(e, Fault Late)] pos g = (([e], [], no_faults\<lparr>fs_clean := 1\<rparr>), g)"

section \<open>The loop is the reference\<close>

definition stats_add :: "fault_stats \<Rightarrow> fault_stats \<Rightarrow> fault_stats" where
  "stats_add a b = \<lparr>fs_out_of_order = fs_out_of_order a + fs_out_of_order b, fs_late = fs_late a + fs_late b,
     fs_duplicate = fs_duplicate a + fs_duplicate b, fs_dropped = fs_dropped a + fs_dropped b,
     fs_clean = fs_clean a + fs_clean b\<rparr>"

definition seen :: "'a pass_state \<times> 'g \<Rightarrow> 'a list \<times> ('a \<times> nat) list \<times> fault_stats \<times> 'g" where
  "seen sg = (ps_result (fst sg), ps_deferred (fst sg), ps_stats (fst sg), snd sg)"

definition after :: "'a pass_state \<Rightarrow> ('a list \<times> ('a \<times> nat) list \<times> fault_stats) \<times> 'g \<Rightarrow>
    'a list \<times> ('a \<times> nat) list \<times> fault_stats \<times> 'g" where
  "after s r = (case r of ((xs, ds, st), g) \<Rightarrow>
     (ps_result s @ xs, ps_deferred s @ ds, stats_add (ps_stats s) st, g))"

definition unconsumed_from :: "nat \<Rightarrow> 'a pass_state \<Rightarrow> nat \<Rightarrow> bool" where
  "unconsumed_from i s n = (length (ps_consumed s) = n \<and> (\<forall>j. i \<le> j \<and> j < n \<longrightarrow> \<not> ps_consumed s ! j))"

lemma stats_add_no_faults [simp]: "stats_add a no_faults = a" "stats_add no_faults a = a"
  by (simp_all add: stats_add_def no_faults_def)

lemma drop_zip_Cons:
  assumes "drop i (zip xs ys) = (x, y) # r"
  shows "i < length xs \<and> xs ! i = x \<and> ys ! i = y \<and> drop (Suc i) (zip xs ys) = r"
proof -
  have i: "i < length (zip xs ys)" by (metis assms drop_eq_Nil not_le list.distinct(1))
  then have "drop i (zip xs ys) = zip xs ys ! i # drop (Suc i) (zip xs ys)" by (rule Cons_nth_drop_Suc [symmetric])
  then show ?thesis using assms i by simp
qed

lemma drop_zip_single:
  assumes "drop i (zip xs ys) = [p]" "length ys = length xs"
  shows "length xs = Suc i"
proof -
  have "length (drop i (zip xs ys)) = 1" by (simp add: assms(1))
  then show ?thesis using assms(2) by simp
qed

lemma pass_loop_step:
  assumes "i < length events" "unconsumed_from i s (length events)"
  shows "pass_loop R events as i (s, g) = pass_loop R events as (Suc i) (pass_step R events as i (s, g))"
  using assms by (subst pass_loop.simps) (simp add: unconsumed_from_def)

lemma pass_loop_end: "length events \<le> i \<Longrightarrow> pass_loop R events as i sg = sg"
  by (subst pass_loop.simps) simp

lemma unconsumed_Suc: "unconsumed_from i s n \<Longrightarrow> unconsumed_from (Suc i) s n"
  by (simp add: unconsumed_from_def)

lemma unconsumed_keep: "ps_consumed t = ps_consumed s \<Longrightarrow> unconsumed_from i s n \<Longrightarrow> unconsumed_from (Suc i) t n"
  by (simp add: unconsumed_from_def)

lemma pass_loop_arrivals:
  assumes len: "length as = length events"
  shows "rest = drop i (zip events as) \<Longrightarrow> pos = length (ps_result s) \<Longrightarrow> unconsumed_from i s (length events) \<Longrightarrow>
     seen (pass_loop R events as i (s, g)) = after s (arrivals R rest pos g)"
proof (induction R rest pos g arbitrary: i s rule: arrivals.induct)
  case (1 R pos g)
  then have "length events \<le> i" using len by simp
  then show ?case by (simp add: pass_loop_end seen_def after_def)
next
  case (2 R e r pos g)
  note d = drop_zip_Cons [OF 2(2) [symmetric]]
  have "seen (pass_loop R events as (Suc i) (emit_clean e s, g)) = after (emit_clean e s) (arrivals R r (pos + 1) g)"
    using d 2(3,4) by (intro 2(1)) (auto simp: emit_clean_def unconsumed_from_def)
  then show ?case using d 2(4)
    by (simp add: pass_loop_step pass_step_def after_def emit_clean_def stats_add_def split: prod.splits)
next
  case (3 R e r pos g)
  note d = drop_zip_Cons [OF 3(2) [symmetric]]
  let ?s = "s\<lparr>ps_stats := (ps_stats s)\<lparr>fs_dropped := fs_dropped (ps_stats s) + 1\<rparr>\<rparr>"
  have "seen (pass_loop R events as (Suc i) (?s, g)) = after ?s (arrivals R r pos g)"
    using d 3(3,4) by (intro 3(1)) (auto simp: unconsumed_from_def)
  then show ?case using d 3(4)
    by (simp add: pass_loop_step pass_step_def after_def stats_add_def Let_def split: prod.splits)
next
  case (4 R e r pos g)
  note d = drop_zip_Cons [OF 4(2) [symmetric]]
  let ?s = "s\<lparr>ps_result := ps_result s @ [e, e], ps_stats := (ps_stats s)\<lparr>fs_duplicate := fs_duplicate (ps_stats s) + 1\<rparr>\<rparr>"
  have "seen (pass_loop R events as (Suc i) (?s, g)) = after ?s (arrivals R r (pos + 2) g)"
    using d 4(3,4) by (intro 4(1)) (auto simp: unconsumed_from_def)
  then show ?case using d 4(4)
    by (simp add: pass_loop_step pass_step_def after_def stats_add_def Let_def split: prod.splits)
next
  case (5 R e f a r pos g)
  note d = drop_zip_Cons [OF 5(2) [symmetric]]
  note d' = drop_zip_Cons [OF conjunct2 [OF conjunct2 [OF conjunct2 [OF d]]]]
  let ?s = "s\<lparr>ps_result := ps_result s @ [f, e], ps_consumed := (ps_consumed s)[Suc i := True],
     ps_stats := (ps_stats s)\<lparr>fs_out_of_order := fs_out_of_order (ps_stats s) + 1, fs_clean := fs_clean (ps_stats s) + 1\<rparr>\<rparr>"
  have u: "\<not> ps_consumed s ! Suc i" "length (ps_consumed s) = length events" using 5(4) d' by (simp_all add: unconsumed_from_def)
  have "seen (pass_loop R events as (Suc (Suc i)) (?s, g)) = after ?s (arrivals R r (pos + 2) g)"
    using d' 5(3,4) by (intro 5(1)) (auto simp: unconsumed_from_def)
  moreover have "pass_loop R events as (Suc i) (?s, g) = pass_loop R events as (Suc (Suc i)) (?s, g)"
    using d' u by (subst pass_loop.simps) simp
  ultimately show ?case using d d' u 5(4)
    by (simp add: pass_loop_step pass_step_def after_def stats_add_def Let_def split: prod.splits)
next
  case (6 R e x r pos g)
  note d = drop_zip_Cons [OF 6(2) [symmetric]]
  obtain k g1 where k: "late_offset R (Suc (length r)) g = (k, g1)" by fastforce
  have "length (x # r) = length events - Suc i"
    using d len by (metis length_drop length_zip min.idem)
  then have n: "length events - Suc i = Suc (length r)" by simp
  let ?s = "s\<lparr>ps_deferred := ps_deferred s @ [(e, length (ps_result s) + k)],
     ps_stats := (ps_stats s)\<lparr>fs_late := fs_late (ps_stats s) + 1\<rparr>\<rparr>"
  have "seen (pass_loop R events as (Suc i) (?s, g1)) = after ?s (arrivals R (x # r) pos g1)"
    using d 6(3,4) by (intro 6(1) [OF k [symmetric] refl]) (auto simp: unconsumed_from_def)
  then show ?case using d 6(3,4) n
    by (simp add: pass_loop_step pass_step_def after_def stats_add_def k Let_def split: prod.splits)
next
  case (7 R e pos g)
  note d = drop_zip_Cons [OF 7(1) [symmetric]]
  note n = drop_zip_single [OF 7(1) [symmetric] len]
  then show ?case using d 7(3)
    by (simp add: pass_loop_step pass_step_def pass_loop_end seen_def after_def emit_clean_def stats_add_def no_faults_def)
next
  case (8 R e pos g)
  note d = drop_zip_Cons [OF 8(1) [symmetric]]
  note n = drop_zip_single [OF 8(1) [symmetric] len]
  then show ?case using d 8(3)
    by (simp add: pass_loop_step pass_step_def pass_loop_end seen_def after_def emit_clean_def stats_add_def no_faults_def)
qed

lemma pass_loop_start:
  assumes "length as = length events"
  shows "seen (pass_loop R events as 0 (\<lparr>ps_result = [], ps_deferred = [],
           ps_consumed = replicate (length events) False, ps_stats = no_faults\<rparr>, g)) =
         (case arrivals R (zip events as) 0 g of ((xs, ds, st), g') \<Rightarrow> (xs, ds, st, g'))"
  by (subst pass_loop_arrivals [OF assms, of "zip events as" _ 0])
    (auto simp: unconsumed_from_def after_def split: prod.splits)

lemma two_pass_arrivals:
  assumes "length as = length events" "arrivals R (zip events as) 0 g = ((xs, ds, st), g')"
  shows "two_pass_transform R events as g = ((fold insert_late (by_target_desc ds) xs, st), g')"
  using pass_loop_start [OF assms(1), of R g] assms(2)
  by (simp add: two_pass_transform_def seen_def case_prod_beta' Let_def)

lemma length_draws: "length (fst (draws f n g)) = n"
  by (induction n arbitrary: g) (auto split: prod.splits simp: Let_def, metis fst_conv)

lemma assign_faults_length: "length (fst (assign_faults R n fls g)) = n"
  by (simp add: assign_faults_def length_draws)

section \<open>What the passes keep\<close>

lemma mset_insert_at [simp]: "mset (insert_at i x xs) = add_mset x (mset xs)"
  by (simp add: insert_at_def) (metis append_take_drop_id mset_append)

lemma subseq_insert_at: "subseq xs (insert_at i x xs)"
proof -
  have "subseq (take i xs @ [] @ drop i xs) (take i xs @ [x] @ drop i xs)"
    by (intro list_emb_append_mono) simp_all
  then show ?thesis by (simp add: insert_at_def)
qed

lemma mset_insert_all: "mset (fold insert_late ds xs) = mset xs + mset (map fst ds)"
  by (induction ds arbitrary: xs) (simp_all add: insert_late_def)

lemma subseq_insert_all: "subseq xs (fold insert_late ds xs)"
proof (induction ds arbitrary: xs)
  case (Cons d ds)
  have "subseq xs (insert_late d xs)" by (simp add: insert_late_def subseq_insert_at)
  also have "subseq \<dots> (fold insert_late ds (insert_late d xs))" by (rule Cons)
  finally show ?case by simp
qed simp

lemma mset_by_target_desc: "mset (by_target_desc ds) = mset ds"
  by (simp add: by_target_desc_def)

definition balanced :: "'a multiset \<Rightarrow> 'a multiset \<Rightarrow> nat \<Rightarrow> nat \<Rightarrow> bool" where
  "balanced inp out dropped dup =
     (\<exists>D U. out + D = inp + U \<and> D + U \<subseteq># inp \<and> size D = dropped \<and> size U = dup)"

lemma balanced_refl: "balanced m m 0 0"
  by (auto simp: balanced_def)

lemma balancedI: "out + D = inp + U \<Longrightarrow> D + U \<subseteq># inp \<Longrightarrow> balanced inp out (size D) (size U)"
  by (auto simp: balanced_def)

lemma balancedE:
  assumes "balanced inp out d u"
  obtains D U where "out + D = inp + U" "D + U \<subseteq># inp" "d = size D" "u = size U"
  using assms by (auto simp: balanced_def)

lemma balanced_add: "balanced m n d u \<Longrightarrow> balanced (add_mset e m) (add_mset e n) d u"
proof (erule balancedE)
  fix D U assume "n + D = m + U" "D + U \<subseteq># m" "d = size D" "u = size U"
  then show ?thesis using balancedI [of "add_mset e n" D "add_mset e m" U]
      subset_mset.order_trans [of "D + U" m "add_mset e m"] by simp
qed

lemma balanced_drop: "balanced m n d u \<Longrightarrow> balanced (add_mset e m) n (Suc d) u"
proof (erule balancedE)
  fix D U assume "n + D = m + U" "D + U \<subseteq># m" "d = size D" "u = size U"
  then show ?thesis using balancedI [of n "add_mset e D" "add_mset e m" U] by simp
qed

lemma balanced_dup: "balanced m n d u \<Longrightarrow> balanced (add_mset e m) (add_mset e (add_mset e n)) d (Suc u)"
proof (erule balancedE)
  fix D U assume "n + D = m + U" "D + U \<subseteq># m" "d = size D" "u = size U"
  then show ?thesis using balancedI [of "add_mset e (add_mset e n)" D "add_mset e m" "add_mset e U"] by simp
qed

lemma arrivals_late:
  assumes "arrivals R ((e, Fault Late) # x # r) pos g = ((xs, ds, st), g')"
  obtains k g1 ds' st' where "late_offset R (Suc (length r)) g = (k, g1)"
    and "arrivals R (x # r) pos g1 = ((xs, ds', st'), g')"
    and "ds = (e, pos + k) # ds'" and "st = st'\<lparr>fs_late := fs_late st' + 1\<rparr>"
  using assms by (auto simp: Let_def split: prod.splits)

lemma arrivals_balanced:
  "arrivals R rest pos g = ((xs, ds, st), g') \<Longrightarrow>
     balanced (mset (map fst rest)) (mset xs + mset (map fst ds)) (fs_dropped st) (fs_duplicate st)"
proof (induction R rest pos g arbitrary: xs ds st g' rule: arrivals.induct)
  case (5 R e f a r pos g)
  then show ?case by (auto split: prod.splits intro!: balanced_add simp: add_mset_commute [of f e] Let_def)
next
  case (6 R e x r pos g)
  from 6(2) obtain k g1 ds' st' where k: "late_offset R (Suc (length r)) g = (k, g1)"
    and r: "arrivals R (x # r) pos g1 = ((xs, ds', st'), g')"
    and d: "ds = (e, pos + k) # ds'" "st = st'\<lparr>fs_late := fs_late st' + 1\<rparr>" by (rule arrivals_late)
  show ?case using balanced_add [OF 6(1) [OF k [symmetric] refl r], of e] by (simp add: d)
qed (auto split: prod.splits intro: balanced_add balanced_drop balanced_dup balanced_refl simp: no_faults_def Let_def)

lemma arrivals_counts:
  "arrivals R rest pos g = ((xs, ds, st), g') \<Longrightarrow>
     fs_out_of_order st + fs_late st + fs_duplicate st + fs_dropped st + fs_clean st = length rest \<and>
     fs_late st = length ds"
proof (induction R rest pos g arbitrary: xs ds st g' rule: arrivals.induct)
  case (6 R e x r pos g)
  from 6(2) obtain k g1 ds' st' where k: "late_offset R (Suc (length r)) g = (k, g1)"
    and r: "arrivals R (x # r) pos g1 = ((xs, ds', st'), g')"
    and d: "ds = (e, pos + k) # ds'" "st = st'\<lparr>fs_late := fs_late st' + 1\<rparr>" by (rule arrivals_late)
  show ?case using 6(1) [OF k [symmetric] refl r] by (simp add: d)
qed (auto split: prod.splits simp: no_faults_def Let_def)

lemma arrivals_in_order:
  "arrivals R rest pos g = ((xs, ds, st), g') \<Longrightarrow> Fault OutOfOrder \<notin> snd ` set rest \<Longrightarrow>
     sorted (map key (map fst rest)) \<Longrightarrow> sorted (map key xs) \<and> set xs \<subseteq> fst ` set rest"
proof (induction R rest pos g arbitrary: xs ds st g' rule: arrivals.induct)
  case (2 R e r pos g)
  from 2(2) obtain ys es st' where r: "arrivals R r (pos + 1) g = ((ys, es, st'), g')" and x: "xs = e # ys"
    by (auto simp: Let_def split: prod.splits)
  have "sorted (map key ys) \<and> set ys \<subseteq> fst ` set r" using 2(3,4) by (intro 2(1) [OF r]) auto
  then show ?case using 2(4) by (auto simp: x)
next
  case (3 R e r pos g)
  from 3(2) obtain es st' where r: "arrivals R r pos g = ((xs, es, st'), g')"
    by (auto simp: Let_def split: prod.splits)
  have "sorted (map key xs) \<and> set xs \<subseteq> fst ` set r" using 3(3,4) by (intro 3(1) [OF r]) auto
  then show ?case by auto
next
  case (4 R e r pos g)
  from 4(2) obtain ys es st' where r: "arrivals R r (pos + 2) g = ((ys, es, st'), g')" and x: "xs = e # e # ys"
    by (auto simp: Let_def split: prod.splits)
  have "sorted (map key ys) \<and> set ys \<subseteq> fst ` set r" using 4(3,4) by (intro 4(1) [OF r]) auto
  then show ?case using 4(4) by (auto simp: x)
next
  case (6 R e x r pos g)
  from 6(2) obtain k g1 ds' st' where k: "late_offset R (Suc (length r)) g = (k, g1)"
    and r: "arrivals R (x # r) pos g1 = ((xs, ds', st'), g')" by (rule arrivals_late)
  have "sorted (map key xs) \<and> set xs \<subseteq> fst ` set (x # r)" using 6(3,4) by (intro 6(1) [OF k [symmetric] refl r]) auto
  then show ?case by auto
qed auto

section \<open>Where late events arrive\<close>

lemma length_insert_at [simp]: "length (insert_at i x xs) = Suc (length xs)"
  by (simp add: insert_at_def)

lemma length_insert_late [simp]: "length (insert_late d xs) = Suc (length xs)"
  by (simp add: insert_late_def)

lemma nth_insert_at_self: "i \<le> length xs \<Longrightarrow> insert_at i x xs ! i = x"
  by (simp add: insert_at_def nth_append)

lemma nth_insert_at_after: "i \<le> j \<Longrightarrow> j < length xs \<Longrightarrow> insert_at i x xs ! Suc j = xs ! j"
  by (simp add: insert_at_def nth_append min_def)

text \<open>An insertion at or before a position moves what stands there one to the right.\<close>

lemma nth_insert_all_before:
  "\<forall>d \<in> set ds. snd d \<le> j \<Longrightarrow> j < length xs \<Longrightarrow> fold insert_late ds xs ! (j + length ds) = xs ! j"
proof (induction ds arbitrary: xs j)
  case (Cons d ds)
  have "fold insert_late ds (insert_late d xs) ! (Suc j + length ds) = insert_late d xs ! Suc j"
    using Cons.prems by (intro Cons.IH) auto
  also have "\<dots> = xs ! j" using Cons.prems by (simp add: insert_late_def nth_insert_at_after)
  finally show ?case by simp
qed simp

lemma late_position:
  assumes "sorted_wrt (\<lambda>a b. snd b \<le> snd a) ds" "k < length ds" "snd (ds ! k) \<le> length xs + k"
  shows "fold insert_late ds xs ! (snd (ds ! k) + (length ds - Suc k)) = fst (ds ! k)"
  using assms
proof (induction ds arbitrary: xs k)
  case (Cons d ds)
  show ?case
  proof (cases k)
    case 0
    have "fold insert_late ds (insert_late d xs) ! (snd d + length ds) = insert_late d xs ! snd d"
      using Cons.prems 0 by (intro nth_insert_all_before) auto
    also have "insert_late d xs ! snd d = fst d" using Cons.prems 0 by (simp add: insert_late_def nth_insert_at_self)
    finally show ?thesis by (simp add: 0)
  next
    case (Suc m)
    then show ?thesis using Cons.IH [of m "insert_late d xs"] Cons.prems by simp
  qed
qed simp

lemma mset_fst_by_target_desc: "mset (map fst (by_target_desc ds)) = mset (map fst ds)"
  by (metis mset_by_target_desc mset_map)

lemma by_target_desc_sorted: "sorted_wrt (\<lambda>a b. snd b \<le> snd a) (by_target_desc ds)"
proof -
  have "sorted (map (\<lambda>d. - int (snd d)) (by_target_desc ds))" by (simp add: by_target_desc_def)
  then show ?thesis by (simp add: sorted_map)
qed

section \<open>What the faults promise\<close>

definition reference_transform :: "'g rng_ops \<Rightarrow> ('a \<times> assignment) list \<Rightarrow> 'g \<Rightarrow> ('a list \<times> fault_stats) \<times> 'g" where
  "reference_transform R assigned g =
     (let ((xs, ds, st), g') = arrivals R assigned 0 g in ((fold insert_late (by_target_desc ds) xs, st), g'))"

text \<open>
  C15: The transform, a loop over an index with flags for the events a swap consumed, is the
  recursion of the reference over the events and their assignments: a swap always takes the next
  event and that event's own fault is never applied, and only the last event is left in place;
  moreover a late event whose target is within the stream stands at its target plus one place per late
  event inserted after it, so insertions in descending order do not disturb each other's targets.
\<close>

theorem faults_match_reference:
  assumes "length as = length events"
  shows "two_pass_transform R events as g = reference_transform R (zip events as) g \<and>
     (case arrivals R (zip events as) 0 g of ((xs, ds, st), g') \<Rightarrow>
        \<forall>k < length ds. snd (by_target_desc ds ! k) \<le> length xs + k \<longrightarrow>
          fst (fst (two_pass_transform R events as g)) ! (snd (by_target_desc ds ! k) + (length ds - Suc k)) =
          fst (by_target_desc ds ! k))"
proof -
  obtain xs ds st g' where a: "arrivals R (zip events as) 0 g = ((xs, ds, st), g')" by (metis prod.exhaust)
  have "length (by_target_desc ds) = length ds" by (simp add: by_target_desc_def)
  then show ?thesis
    using late_position [OF by_target_desc_sorted, of _ ds xs]
    by (simp add: two_pass_arrivals [OF assms a] reference_transform_def a)
qed

theorem faults_match_reference_witness:
  "two_pass_transform ex_rng [1, 2, 3, 4, 5 :: nat] [Fault Late, Fault OutOfOrder, Fault Drop, Fault Duplicate, Fault OutOfOrder] 0 =
     reference_transform ex_rng (zip [1, 2, 3, 4, 5] [Fault Late, Fault OutOfOrder, Fault Drop, Fault Duplicate, Fault OutOfOrder]) 0 \<and>
   reference_transform ex_rng (zip [1, 2, 3, 4, 5 :: nat] [Fault Late, Fault OutOfOrder, Fault Drop, Fault Duplicate, Fault OutOfOrder]) 0 =
     (([3, 1, 2, 4, 4, 5], \<lparr>fs_out_of_order = 1, fs_late = 1, fs_duplicate = 1, fs_dropped = 0, fs_clean = 2\<rparr>), 1)"
proof
  show "two_pass_transform ex_rng [1, 2, 3, 4, 5 :: nat] [Fault Late, Fault OutOfOrder, Fault Drop, Fault Duplicate, Fault OutOfOrder] 0 =
     reference_transform ex_rng (zip [1, 2, 3, 4, 5] [Fault Late, Fault OutOfOrder, Fault Drop, Fault Duplicate, Fault OutOfOrder]) 0"
    using faults_match_reference [of "[Fault Late, Fault OutOfOrder, Fault Drop, Fault Duplicate, Fault OutOfOrder]" "[1, 2, 3, 4, 5 :: nat]" ex_rng 0]
    by simp
  show "reference_transform ex_rng (zip [1, 2, 3, 4, 5 :: nat] [Fault Late, Fault OutOfOrder, Fault Drop, Fault Duplicate, Fault OutOfOrder]) 0 =
     (([3, 1, 2, 4, 4, 5], \<lparr>fs_out_of_order = 1, fs_late = 1, fs_duplicate = 1, fs_dropped = 0, fs_clean = 2\<rparr>), 1)"
    by (simp add: reference_transform_def late_offset_def ex_rng_def no_faults_def by_target_desc_def insert_late_def insert_at_def Let_def)
qed

text \<open>
  C16: Applying faults loses and invents nothing: every event is counted once, as swapped, late,
  duplicated, dropped or clean, and what arrives is the clean stream without as many of its events
  as were dropped and with a second copy of as many others as were duplicated.
\<close>

theorem faults_keep_books:
  "case apply_faults R events fls g of ((out, st), g') \<Rightarrow>
     fs_out_of_order st + fs_late st + fs_duplicate st + fs_dropped st + fs_clean st = length events \<and>
     balanced (mset events) (mset out) (fs_dropped st) (fs_duplicate st)"
proof (cases "events = [] \<or> fls = []")
  case True
  then show ?thesis by (auto simp: apply_faults_def no_faults_def balanced_refl)
next
  case False
  obtain as g1 where as: "assign_faults R (length events) fls g = (as, g1)" by fastforce
  then have len: "length as = length events" using assign_faults_length [of R "length events" fls g] by simp
  obtain xs ds st g' where a: "arrivals R (zip events as) 0 g1 = ((xs, ds, st), g')" by (metis prod.exhaust)
  have "balanced (mset events) (mset xs + mset (map fst ds)) (fs_dropped st) (fs_duplicate st)"
    using arrivals_balanced [OF a] len by simp
  then show ?thesis using arrivals_counts [OF a] False len
    by (simp add: apply_faults_def as two_pass_arrivals [OF len a] mset_insert_all mset_fst_by_target_desc del: mset_map)
qed

lemma assign_roll_in: "assign_roll (thresholds_from c fls) x = Fault ft \<Longrightarrow> ft \<in> fl_fault_type ` set fls"
proof -
  have t: "fst ` set (thresholds_from c fls) = fl_fault_type ` set fls" for c
    by (induction fls arbitrary: c) (simp_all add: Let_def)
  assume "assign_roll (thresholds_from c fls) x = Fault ft"
  then have "ft \<in> fst ` set (thresholds_from c fls)"
    by (auto simp: assign_roll_def split: option.splits dest: find_first_Some)
  then show ?thesis by (simp add: t)
qed

lemma draws_all: "(\<And>g. P (fst (f g))) \<Longrightarrow> \<forall>x \<in> set (fst (draws f n g)). P x"
  by (induction n arbitrary: g) (auto simp: Let_def case_prod_beta')

lemma assign_faults_in:
  "\<forall>a \<in> set (fst (assign_faults R n fls g)). a = Clean \<or> a \<in> Fault ` fl_fault_type ` set fls"
  unfolding assign_faults_def
  by (rule draws_all) (metis (mono_tags, lifting) assign_roll_in assignment.exhaust case_prod_beta' fst_conv image_eqI)

text \<open>
  C17: Without an out-of-order fault, the events that are not late arrive in the order of their
  timestamps, whatever is dropped, duplicated or inserted late among them.
\<close>

theorem faults_keep_time_order:
  assumes "sorted (map ge_timestamp events)" "OutOfOrder \<notin> fl_fault_type ` set fls"
    and "apply_faults R events fls g = ((out, st), g')"
  shows "\<exists>on_time. subseq on_time out \<and> sorted (map ge_timestamp on_time) \<and> length on_time + fs_late st = length out"
proof (cases "events = [] \<or> fls = []")
  case True
  then show ?thesis using assms by (auto simp: apply_faults_def no_faults_def intro!: exI [of _ out])
next
  case False
  obtain as g1 where as: "assign_faults R (length events) fls g = (as, g1)" by fastforce
  then have len: "length as = length events" using assign_faults_length [of R "length events" fls g] by simp
  obtain xs ds st' g2 where a: "arrivals R (zip events as) 0 g1 = ((xs, ds, st'), g2)" by (metis prod.exhaust)
  have "Fault OutOfOrder \<notin> set as" using assign_faults_in [of R "length events" fls g] assms(2) by (auto simp: as)
  then have n: "Fault OutOfOrder \<notin> snd ` set (zip events as)" by (auto dest: set_zip_rightD)
  have s: "sorted (map ge_timestamp xs)" using arrivals_in_order [OF a n, of ge_timestamp] assms(1) len by simp
  have out: "out = fold insert_late (by_target_desc ds) xs" and st: "st = st'"
    using assms(3) False by (simp_all add: apply_faults_def as two_pass_arrivals [OF len a])
  have "length out = length xs + length ds"
    using arg_cong [OF mset_insert_all [of "by_target_desc ds" xs], of size] by (simp add: out by_target_desc_def)
  then show ?thesis using s arrivals_counts [OF a] by (auto simp: out st subseq_insert_all intro!: exI [of _ xs])
qed

lemma ex_late: "apply_faults ex_rng [ex_ev (JInt 0) 0 (JBool False), ex_ev (JInt 2) 2000000000 (JBool False), ex_ev (JInt 4) 3000000000 (JBool False)]
    [\<lparr>fl_fault_type = Late, fl_percent = f64_of_nat 50\<rparr>] 0 =
  (([ex_ev (JInt 4) 3000000000 (JBool False), ex_ev (JInt 2) 2000000000 (JBool False), ex_ev (JInt 0) 0 (JBool False)],
    no_faults\<lparr>fs_late := 2, fs_clean := 1\<rparr>), 5)"
proof -
  have t: "thresholds_from f64_zero [\<lparr>fl_fault_type = Late, fl_percent = f64_of_nat 50\<rparr>] = [(Late, Fin False (2 ^ 52) (- 53))]"
    by (simp add: f64_eval)
  have a: "assign_faults ex_rng 3 [\<lparr>fl_fault_type = Late, fl_percent = f64_of_nat 50\<rparr>] 0 = ([Fault Late, Fault Late, Fault Late], 3)"
    by (simp add: assign_faults_def t ex_rng_def numeral_3_eq_3 assign_roll_def find_first_def f64_eval)
  have r: "arrivals ex_rng (zip es [Fault Late, Fault Late, Fault Late]) 0 3 =
     (([es ! 2], [(es ! 0, 2), (es ! 1, 1)], no_faults\<lparr>fs_late := 2, fs_clean := 1\<rparr>), 5)" if "es = [e1, e2, e3]"
    for es :: "gen_event list" and e1 e2 e3
    by (simp add: that late_offset_def ex_rng_def no_faults_def Let_def)
  show ?thesis
    by (simp add: apply_faults_def a [unfolded numeral_3_eq_3] two_pass_arrivals [OF _ r [OF refl, unfolded numeral_3_eq_3]]
        by_target_desc_def insert_late_def insert_at_def)
qed

theorem faults_keep_time_order_witness:
  "\<exists>on_time. subseq on_time [ex_ev (JInt 4) 3000000000 (JBool False), ex_ev (JInt 2) 2000000000 (JBool False), ex_ev (JInt 0) 0 (JBool False)] \<and>
     sorted (map ge_timestamp on_time) \<and> length on_time + 2 = 3"
proof -
  have "sorted (map ge_timestamp [ex_ev (JInt 0) 0 (JBool False), ex_ev (JInt 2) 2000000000 (JBool False), ex_ev (JInt 4) 3000000000 (JBool False)])"
    by (simp add: ex_ev_def)
  from faults_keep_time_order [OF this _ ex_late] show ?thesis by (simp add: no_faults_def)
qed

end
