(* ===== verification/RemoteFs.thy ===== *)
theory RemoteFs
  imports Prelude "HOL-Library.List_Lexorder" "HOL-Library.Char_ord"
begin

text \<open>
  The managed directories of a remote project (\<open>wf-project-remote/src/managed.rs\<close>) over a model of
  the file system calls it makes.

  A file system is a list of paths with their entries, the first entry of a path being the current
  one; a path is the list of its components below the work root, which itself always exists. Every
  call of \<open>std::fs\<close> may fail: the world carries the failures still to come, each with its message
  and with what an interrupted call leaves behind, and which of the queries of \<open>Path::exists\<close> to come
  fail, which that call does not report: it answers false. Whether the target of a symbolic link exists
  (\<open>follows\<close>) is a parameter. Messages name paths relative to the work root. A path the code reads
  or writes as a file is not reached through a link: that is the error \<open>IoOther\<close>.
\<close>

section \<open>Worlds and calls that may fail\<close>

type_synonym path = "string list"

datatype entry = EFile bytes nat | EDir | ELink string | EOther

type_synonym file_system = "(path \<times> entry) list"

datatype io_error = IoNotFound | IoOther string

text \<open>
  An interrupted call: \<open>if_done\<close> components of a directory chain were created, \<open>if_keep\<close> are the
  paths an interrupted removal left, \<open>if_bytes\<close> what an interrupted write left (if it got that far).
\<close>

record io_fault =
  if_msg :: string
  if_done :: nat
  if_keep :: "path \<Rightarrow> bool"
  if_bytes :: "bytes option"

record world =
  w_fs :: file_system
  w_locked :: bool
  w_faults :: "io_fault option list"
  w_unseen :: "bool list"

type_synonym ('e, 'a) io = "world \<Rightarrow> ('e + 'a) \<times> world"

definition io_ret :: "'a \<Rightarrow> ('e, 'a) io" where
  "io_ret x w = (Inr x, w)"

definition io_err :: "'e \<Rightarrow> ('e, 'a) io" where
  "io_err e w = (Inl e, w)"

definition io_bind :: "('e, 'a) io \<Rightarrow> ('a \<Rightarrow> ('e, 'b) io) \<Rightarrow> ('e, 'b) io" where
  "io_bind m f w = (case m w of (Inl e, w') \<Rightarrow> (Inl e, w') | (Inr x, w') \<Rightarrow> f x w')"

definition io_seq :: "('e, 'a) io \<Rightarrow> ('e, 'b) io \<Rightarrow> ('e, 'b) io" where
  "io_seq m k = io_bind m (\<lambda>_. k)"

definition io_map_err :: "('e \<Rightarrow> 'f) \<Rightarrow> ('e, 'a) io \<Rightarrow> ('f, 'a) io" where
  "io_map_err h m w = (case m w of (Inl e, w') \<Rightarrow> (Inl (h e), w') | (Inr x, w') \<Rightarrow> (Inr x, w'))"

fun io_each :: "('a \<Rightarrow> ('e, unit) io) \<Rightarrow> 'a list \<Rightarrow> ('e, unit) io" where
  "io_each f [] = io_ret ()"
| "io_each f (x # xs) = io_seq (f x) (io_each f xs)"

definition show_io :: "io_error \<Rightarrow> string" where
  "show_io e = (case e of IoNotFound \<Rightarrow> ''No such file or directory (os error 2)'' | IoOther m \<Rightarrow> m)"

definition conf_err_source :: "string \<Rightarrow> io_error \<Rightarrow> string" where
  "conf_err_source what e = what @ '': '' @ show_io e"

definition show_path :: "path \<Rightarrow> string" where
  "show_path p = join ''/'' p"

definition failed :: "string \<Rightarrow> path \<Rightarrow> io_error \<Rightarrow> string" where
  "failed verb p = conf_err_source (verb @ '' '' @ show_path p @ '' failed'')"

text \<open>A call of the operating system: the next planned failure, or its effect.\<close>

definition sys :: "(file_system \<Rightarrow> io_fault \<Rightarrow> file_system) \<Rightarrow> (file_system \<Rightarrow> (io_error + 'a) \<times> file_system) \<Rightarrow>
    (io_error, 'a) io" where
  "sys damage f w =
     (let w1 = w\<lparr>w_faults := tl (w_faults w)\<rparr> in
      case w_faults w of
        Some ft # _ \<Rightarrow> (Inl (IoOther (if_msg ft)), w1\<lparr>w_fs := damage (w_fs w) ft\<rparr>)
      | _ \<Rightarrow> (let (r, fs) = f (w_fs w) in (r, w1\<lparr>w_fs := fs\<rparr>)))"

definition unharmed :: "file_system \<Rightarrow> io_fault \<Rightarrow> file_system" where
  "unharmed fs ft = fs"

section \<open>The calls of \<open>std::fs\<close>\<close>

definition put :: "path \<Rightarrow> entry \<Rightarrow> file_system \<Rightarrow> file_system" where
  "put p e fs = (p, e) # fs"

definition drop_tree :: "path \<Rightarrow> file_system \<Rightarrow> file_system" where
  "drop_tree p fs = filter (\<lambda>qe. \<not> prefix p (fst qe)) fs"

definition is_dir_at :: "file_system \<Rightarrow> path \<Rightarrow> bool" where
  "is_dir_at fs p = (p = [] \<or> map_of fs p = Some EDir)"

fun make_dirs :: "path \<Rightarrow> path \<Rightarrow> file_system \<Rightarrow> (io_error + unit) \<times> file_system" where
  "make_dirs p [] fs = (Inr (), fs)"
| "make_dirs p (n # r) fs =
     (case map_of fs (p @ [n]) of
        None \<Rightarrow> make_dirs (p @ [n]) r (put (p @ [n]) EDir fs)
      | Some EDir \<Rightarrow> make_dirs (p @ [n]) r fs
      | Some _ \<Rightarrow> (Inl (IoOther ''File exists (os error 17)''), fs))"

definition create_dir_all :: "path \<Rightarrow> (io_error, unit) io" where
  "create_dir_all p = sys (\<lambda>fs ft. snd (make_dirs [] (take (if_done ft) p) fs)) (make_dirs [] p)"

definition symlink_metadata :: "path \<Rightarrow> (io_error, entry) io" where
  "symlink_metadata p = sys unharmed (\<lambda>fs. (case map_of fs p of None \<Rightarrow> Inl IoNotFound | Some e \<Rightarrow> Inr e, fs))"

definition read_file :: "file_system \<Rightarrow> path \<Rightarrow> io_error + bytes" where
  "read_file fs p =
     (case map_of fs p of
        None \<Rightarrow> Inl IoNotFound | Some (EFile bs m) \<Rightarrow> Inr bs
      | Some EDir \<Rightarrow> Inl (IoOther ''Is a directory (os error 21)'') | Some _ \<Rightarrow> Inl (IoOther ''not a regular file''))"

definition fs_read :: "path \<Rightarrow> (io_error, bytes) io" where
  "fs_read p = sys unharmed (\<lambda>fs. (read_file fs p, fs))"

text \<open>A file is created in an existing directory, or an existing file is overwritten.\<close>

definition store :: "path \<Rightarrow> entry \<Rightarrow> file_system \<Rightarrow> (io_error + unit) \<times> file_system" where
  "store p e fs =
     (if \<not> is_dir_at fs (butlast p) then (Inl IoNotFound, fs)
      else case map_of fs p of
        None \<Rightarrow> (Inr (), put p e fs) | Some (EFile bs m) \<Rightarrow> (Inr (), put p e fs)
      | Some _ \<Rightarrow> (Inl (IoOther ''not a regular file''), fs))"

definition default_mode :: nat where
  "default_mode = 420"

definition mode_at :: "file_system \<Rightarrow> path \<Rightarrow> nat" where
  "mode_at fs p = (case map_of fs p of Some (EFile bs m) \<Rightarrow> m | _ \<Rightarrow> default_mode)"

definition partial_store :: "path \<Rightarrow> file_system \<Rightarrow> io_fault \<Rightarrow> file_system" where
  "partial_store p fs ft =
     (case if_bytes ft of None \<Rightarrow> fs | Some bs \<Rightarrow> snd (store p (EFile bs (mode_at fs p)) fs))"

definition fs_write :: "path \<Rightarrow> bytes \<Rightarrow> (io_error, unit) io" where
  "fs_write p bs = sys (partial_store p) (\<lambda>fs. store p (EFile bs (mode_at fs p)) fs)"

text \<open>\<open>fs::copy\<close> copies the content and the permission bits of a file.\<close>

definition fs_copy :: "path \<Rightarrow> path \<Rightarrow> (io_error, unit) io" where
  "fs_copy src dst = sys (partial_store dst)
     (\<lambda>fs. case map_of fs src of
        None \<Rightarrow> (Inl IoNotFound, fs)
      | Some (EFile bs m) \<Rightarrow> store dst (EFile bs m) fs
      | Some _ \<Rightarrow> (Inl (IoOther ''not a regular file''), fs))"

definition set_permissions :: "path \<Rightarrow> nat \<Rightarrow> (io_error, unit) io" where
  "set_permissions p m = sys unharmed
     (\<lambda>fs. case map_of fs p of
        Some (EFile bs m') \<Rightarrow> (Inr (), put p (EFile bs m) fs) | None \<Rightarrow> (Inl IoNotFound, fs)
      | Some _ \<Rightarrow> (Inl (IoOther ''not a regular file''), fs))"

definition read_link :: "path \<Rightarrow> (io_error, string) io" where
  "read_link p = sys unharmed
     (\<lambda>fs. (case map_of fs p of Some (ELink t) \<Rightarrow> Inr t | None \<Rightarrow> Inl IoNotFound
              | Some _ \<Rightarrow> Inl (IoOther ''Invalid argument (os error 22)''), fs))"

definition symlink :: "string \<Rightarrow> path \<Rightarrow> (io_error, unit) io" where
  "symlink t p = sys unharmed
     (\<lambda>fs. if \<not> is_dir_at fs (butlast p) then (Inl IoNotFound, fs)
           else case map_of fs p of None \<Rightarrow> (Inr (), put p (ELink t) fs)
             | Some _ \<Rightarrow> (Inl (IoOther ''File exists (os error 17)''), fs))"

definition remove_file :: "path \<Rightarrow> (io_error, unit) io" where
  "remove_file p = sys unharmed
     (\<lambda>fs. case map_of fs p of
        None \<Rightarrow> (Inl IoNotFound, fs) | Some EDir \<Rightarrow> (Inl (IoOther ''Is a directory (os error 21)''), fs)
      | Some _ \<Rightarrow> (Inr (), drop_tree p fs))"

text \<open>An interrupted removal keeps the paths none of whose ancestors below the directory went.\<close>

definition partly_dropped :: "path \<Rightarrow> file_system \<Rightarrow> io_fault \<Rightarrow> file_system" where
  "partly_dropped p fs ft =
     filter (\<lambda>qe. \<not> prefix p (fst qe) \<or> list_all (if_keep ft) (prefixes (drop (length p) (fst qe)))) fs"

definition remove_dir_all :: "path \<Rightarrow> (io_error, unit) io" where
  "remove_dir_all p = sys (partly_dropped p) (\<lambda>fs. (Inr (), drop_tree p fs))"

text \<open>\<open>rename\<close> of a file over a file or a free name.\<close>

definition rename_file :: "path \<Rightarrow> path \<Rightarrow> (io_error, unit) io" where
  "rename_file src dst = sys unharmed
     (\<lambda>fs. case map_of fs src of
        None \<Rightarrow> (Inl IoNotFound, fs) | Some EDir \<Rightarrow> (Inl (IoOther ''not a regular file''), fs)
      | Some e \<Rightarrow> (case store dst e fs of
            (Inl err, fs') \<Rightarrow> (Inl err, fs) | (Inr _, fs') \<Rightarrow> (Inr (), drop_tree src fs')))"

text \<open>
  \<open>Path::exists\<close> follows a link, so it is false of a link that dangles; and it is false when its
  query fails, which \<open>w_unseen\<close> says of each query to come.
\<close>

definition exists_at :: "(file_system \<Rightarrow> path \<Rightarrow> bool) \<Rightarrow> file_system \<Rightarrow> path \<Rightarrow> bool" where
  "exists_at follows fs p =
     (case map_of fs p of None \<Rightarrow> False | Some (ELink t) \<Rightarrow> follows fs p | Some _ \<Rightarrow> True)"

definition seen :: "bool list \<Rightarrow> bool \<Rightarrow> bool" where
  "seen unseen answer = (case unseen of True # _ \<Rightarrow> False | _ \<Rightarrow> answer)"

definition path_exists :: "(file_system \<Rightarrow> path \<Rightarrow> bool) \<Rightarrow> path \<Rightarrow> (string, bool) io" where
  "path_exists follows p w =
     (Inr (seen (w_unseen w) (exists_at follows (w_fs w) p)), w\<lparr>w_unseen := tl (w_unseen w)\<rparr>)"

definition names_in :: "file_system \<Rightarrow> path \<Rightarrow> string list" where
  "names_in fs p = remdups (map (last \<circ> fst) (filter (\<lambda>qe. fst qe \<noteq> [] \<and> butlast (fst qe) = p) fs))"

lemma names_in_iff: "n \<in> set (names_in fs p) \<longleftrightarrow> p @ [n] \<in> fst ` set fs"
proof
  assume "n \<in> set (names_in fs p)"
  then obtain q e where "(q, e) \<in> set fs" "q \<noteq> []" "butlast q = p" "last q = n"
    by (auto simp: names_in_def)
  then show "p @ [n] \<in> fst ` set fs" by (metis append_butlast_last_id fst_conv image_eqI)
next
  assume "p @ [n] \<in> fst ` set fs"
  then obtain e where "(p @ [n], e) \<in> set fs" by auto
  then have "(p @ [n], e) \<in> set (filter (\<lambda>qe. fst qe \<noteq> [] \<and> butlast (fst qe) = p) fs)" by simp
  from imageI [OF this, of "last \<circ> fst"] show "n \<in> set (names_in fs p)" by (simp add: names_in_def)
qed

definition below_count :: "file_system \<Rightarrow> path \<Rightarrow> nat" where
  "below_count fs p = length (filter (strict_prefix p) (map fst fs))"

lemma below_count_child: "n \<in> set (names_in fs p) \<Longrightarrow> below_count fs (p @ [n]) < below_count fs p"
proof -
  assume "n \<in> set (names_in fs p)"
  then have m: "p @ [n] \<in> set (filter (strict_prefix p) (map fst fs))" by (auto simp: names_in_iff strict_prefix_def)
  have "strict_prefix (p @ [n]) q \<Longrightarrow> strict_prefix p q" for q
    by (auto simp: strict_prefix_def prefix_def)
  then have "filter (strict_prefix (p @ [n])) (map fst fs) =
      filter (strict_prefix (p @ [n])) (filter (strict_prefix p) (map fst fs))"
    by (auto intro!: filter_cong)
  also have "length \<dots> < length (filter (strict_prefix p) (map fst fs))"
    by (rule length_filter_less [OF m]) simp
  finally show ?thesis by (simp add: below_count_def)
qed

function walk :: "file_system \<Rightarrow> path \<Rightarrow> path list" where
  "walk fs p =
     concat (map (\<lambda>n. [n] # (if map_of fs (p @ [n]) = Some EDir then map ((#) n) (walk fs (p @ [n])) else []))
       (names_in fs p))"
  by pat_completeness auto

termination by (relation "measure (\<lambda>(fs, p). below_count fs p)") (auto simp: below_count_child)

declare walk.simps [simp del]

section \<open>The managed directories (\<open>managed.rs\<close>)\<close>

datatype remote_group = Models | Infra

definition managed_dirs_for :: "remote_group option \<Rightarrow> string list" where
  "managed_dirs_for g =
     (case g of Some Models \<Rightarrow> [''models''] | Some Infra \<Rightarrow> [''conf'', ''topology'', ''connectors'']
      | None \<Rightarrow> [''conf'', ''models'', ''topology'', ''connectors''])"

definition backup_path :: path where
  "backup_path = [''.run'', ''project_remote'', ''backup'']"

definition backup_manifest_path :: path where
  "backup_manifest_path = backup_path @ [''manifest.json'']"

definition remove_path :: "path \<Rightarrow> (string, unit) io" where
  "remove_path p w =
     (case symlink_metadata p w of
        (Inl IoNotFound, w1) \<Rightarrow> (Inr (), w1)
      | (Inl e, w1) \<Rightarrow> (Inl (failed ''stat'' p e), w1)
      | (Inr EDir, w1) \<Rightarrow> io_map_err (failed ''remove'' p) (remove_dir_all p) w1
      | (Inr _, w1) \<Rightarrow> io_map_err (failed ''remove'' p) (remove_file p) w1)"

definition arrow :: "string \<Rightarrow> path \<Rightarrow> path \<Rightarrow> io_error \<Rightarrow> string" where
  "arrow verb a b = conf_err_source (verb @ '' '' @ show_path a @ '' -> '' @ show_path b @ '' failed'')"

definition copy_symlink :: "path \<Rightarrow> path \<Rightarrow> (string, unit) io" where
  "copy_symlink src dst =
     io_seq (io_map_err (failed ''create'' (butlast dst)) (create_dir_all (butlast dst)))
    (io_seq (remove_path dst)
    (io_bind (io_map_err (failed ''read link'' src) (read_link src)) (\<lambda>target.
     io_map_err (\<lambda>e. conf_err_source (''create symlink '' @ show_path dst @ '' -> '' @ target @ '' failed'') e) (symlink target dst))))"

definition entry_mode :: "entry \<Rightarrow> nat" where
  "entry_mode e = (case e of EFile bs m \<Rightarrow> m | _ \<Rightarrow> default_mode)"

definition copy_file :: "path \<Rightarrow> path \<Rightarrow> (string, nat) io \<Rightarrow> (string, unit) io" where
  "copy_file src dst mode =
     io_seq (io_map_err (failed ''create'' (butlast dst)) (create_dir_all (butlast dst)))
    (io_seq (io_map_err (arrow ''copy'' src dst) (fs_copy src dst))
    (io_bind mode (\<lambda>m. io_map_err (failed ''set permissions on'' dst) (set_permissions dst m))))"

text \<open>One entry that the walk of a directory yields.\<close>

definition copy_entry :: "path \<Rightarrow> path \<Rightarrow> path \<Rightarrow> (string, unit) io" where
  "copy_entry src dst rel =
     io_bind (io_map_err (failed ''walk'' src) (symlink_metadata (src @ rel))) (\<lambda>e.
       case e of
         EDir \<Rightarrow> io_map_err (failed ''create'' (dst @ rel)) (create_dir_all (dst @ rel))
       | EFile bs m \<Rightarrow> copy_file (src @ rel) (dst @ rel)
           (io_bind (io_map_err (failed ''stat'' (src @ rel)) (symlink_metadata (src @ rel))) (\<lambda>e. io_ret (entry_mode e)))
       | ELink t \<Rightarrow> copy_symlink (src @ rel) (dst @ rel)
       | EOther \<Rightarrow> io_err (''unsupported file type under '' @ show_path (src @ rel)))"

definition copy_dir :: "path \<Rightarrow> path \<Rightarrow> (string, unit) io" where
  "copy_dir src dst =
     io_seq (io_map_err (failed ''create'' dst) (create_dir_all dst))
       (\<lambda>w. io_each (copy_entry src dst) (walk (w_fs w) src) w)"

definition copy_path :: "path \<Rightarrow> path \<Rightarrow> (string, unit) io" where
  "copy_path src dst =
     io_bind (io_map_err (failed ''stat'' src) (symlink_metadata src)) (\<lambda>e.
       case e of
         EDir \<Rightarrow> copy_dir src dst
       | EFile bs m \<Rightarrow> copy_file src dst (io_ret m)
       | ELink t \<Rightarrow> copy_symlink src dst
       | EOther \<Rightarrow> io_err (''unsupported file type '' @ show_path src))"

text \<open>
  Comparing two trees only reads: it runs over the failures to come, of the calls and of the
  existence queries, with the file system fixed.
\<close>

type_synonym pending = "io_fault option list \<times> bool list"

type_synonym 'a reads = "pending \<Rightarrow> (string + 'a) \<times> pending"

definition reading :: "string \<Rightarrow> (io_error + 'a) \<Rightarrow> 'a reads" where
  "reading what r fl =
     (case fst fl of Some ft # _ \<Rightarrow> Inl (conf_err_source what (IoOther (if_msg ft)))
      | _ \<Rightarrow> (case r of Inl e \<Rightarrow> Inl (conf_err_source what e) | Inr x \<Rightarrow> Inr x), (tl (fst fl), snd fl))"

definition exists_read :: "(file_system \<Rightarrow> path \<Rightarrow> bool) \<Rightarrow> file_system \<Rightarrow> path \<Rightarrow> bool reads" where
  "exists_read follows fs p fl = (Inr (seen (snd fl) (exists_at follows fs p)), (fst fl, tl (snd fl)))"

definition reads_bind :: "'a reads \<Rightarrow> ('a \<Rightarrow> 'b reads) \<Rightarrow> 'b reads" where
  "reads_bind m f fl = (case m fl of (Inl e, fl') \<Rightarrow> (Inl e, fl') | (Inr x, fl') \<Rightarrow> f x fl')"

fun all_equal :: "('a \<Rightarrow> bool reads) \<Rightarrow> 'a list \<Rightarrow> bool reads" where
  "all_equal f [] = Pair (Inr True)"
| "all_equal f (x # xs) = reads_bind (f x) (\<lambda>b. if b then all_equal f xs else Pair (Inr False))"

lemma all_equal_cong [fundef_cong]:
  "xs = ys \<Longrightarrow> (\<And>x. x \<in> set ys \<Longrightarrow> f x = g x) \<Longrightarrow> all_equal f xs = all_equal g ys"
  by (induction ys arbitrary: xs) (auto cong: if_cong)

lemma reads_bind_cong [fundef_cong]:
  "m = n \<Longrightarrow> (\<And>x. \<exists>fl fl'. n fl = (Inr x, fl') \<Longrightarrow> f x = g x) \<Longrightarrow> reads_bind m f = reads_bind n g"
proof (rule ext)
  fix fl assume a: "m = n" "\<And>x. \<exists>fl fl'. n fl = (Inr x, fl') \<Longrightarrow> f x = g x"
  show "reads_bind m f fl = reads_bind n g fl"
  proof -
    obtain r fl' where n: "n fl = (r, fl')" using prod.exhaust by blast
    have "f x = g x" if "r = Inr x" for x by (rule a(2)) (use n that in blast)
    then show ?thesis using a(1) n by (cases r) (simp_all add: reads_bind_def)
  qed
qed

definition stat_at :: "file_system \<Rightarrow> path \<Rightarrow> entry reads" where
  "stat_at fs p = reading (''stat '' @ show_path p @ '' failed'')
     (case map_of fs p of None \<Rightarrow> Inl IoNotFound | Some e \<Rightarrow> Inr e)"

definition file_bytes_equal :: "file_system \<Rightarrow> path \<Rightarrow> path \<Rightarrow> bool reads" where
  "file_bytes_equal fs l r =
     reads_bind (reading (''read '' @ show_path l @ '' failed'') (read_file fs l)) (\<lambda>a.
     reads_bind (reading (''read '' @ show_path r @ '' failed'') (read_file fs r)) (\<lambda>b. Pair (Inr (a = b))))"

definition link_at :: "file_system \<Rightarrow> path \<Rightarrow> string reads" where
  "link_at fs p = reading (''read link '' @ show_path p @ '' failed'')
     (case map_of fs p of Some (ELink t) \<Rightarrow> Inr t | _ \<Rightarrow> Inl (IoOther ''Invalid argument (os error 22)''))"

text \<open>The names are collected in a sorted set.\<close>

definition read_dir_names :: "file_system \<Rightarrow> path \<Rightarrow> string list reads" where
  "read_dir_names fs p = reading (''read dir '' @ show_path p @ '' failed'')
     (if is_dir_at fs p then Inr (sort (names_in fs p)) else Inl (IoOther ''Not a directory (os error 20)''))"

definition same_type :: "entry \<Rightarrow> entry \<Rightarrow> bool" where
  "same_type a b = (case (a, b) of (EFile _ _, EFile _ _) \<Rightarrow> True | (EDir, EDir) \<Rightarrow> True
     | (ELink _, ELink _) \<Rightarrow> True | (EOther, EOther) \<Rightarrow> True | _ \<Rightarrow> False)"

lemma reading_Inr: "reading what r fl = (Inr x, fl') \<Longrightarrow> r = Inr x"
  by (auto simp: reading_def split: list.splits option.splits sum.splits)

lemma read_dir_names_Inr:
  "read_dir_names fs p fl = (Inr ns, fl') \<Longrightarrow> is_dir_at fs p \<and> set ns = set (names_in fs p) \<and> ns = sort (names_in fs p)"
  by (auto simp: read_dir_names_def dest!: reading_Inr split: if_splits)

function paths_equal :: "(file_system \<Rightarrow> path \<Rightarrow> bool) \<Rightarrow> file_system \<Rightarrow> path \<Rightarrow> path \<Rightarrow> bool reads" where
  "paths_equal follows fs l r =
     reads_bind (exists_read follows fs l) (\<lambda>le. reads_bind (exists_read follows fs r) (\<lambda>re.
      if \<not> le \<and> \<not> re then Pair (Inr True)
      else if le \<noteq> re then Pair (Inr False)
      else reads_bind (stat_at fs l) (\<lambda>a. reads_bind (stat_at fs r) (\<lambda>b.
        if \<not> same_type a b then Pair (Inr False)
        else case a of
          EFile _ _ \<Rightarrow> file_bytes_equal fs l r
        | ELink _ \<Rightarrow> reads_bind (link_at fs l) (\<lambda>s. reads_bind (link_at fs r) (\<lambda>t. Pair (Inr (s = t))))
        | _ \<Rightarrow>
            reads_bind (read_dir_names fs l) (\<lambda>ns. reads_bind (read_dir_names fs r) (\<lambda>ms.
              if ns \<noteq> ms then Pair (Inr False)
              else all_equal (\<lambda>n. paths_equal follows fs (l @ [n]) (r @ [n])) ns))))))"
  by pat_completeness auto

termination
  by (relation "measure (\<lambda>(follows, fs, l, r). below_count fs l)")
    (auto simp: below_count_child dest!: read_dir_names_Inr)

declare paths_equal.simps [simp del]

text \<open>\<open>serde_json\<close> writes a value and reads it back; its error is a message.\<close>

record 's codec =
  encode :: "'s \<Rightarrow> bytes"
  decode :: "bytes \<Rightarrow> string + 's"

definition codec_laws :: "'s codec \<Rightarrow> bool" where
  "codec_laws c = (\<forall>x. decode c (encode c x) = Inr x)"

definition with_reads :: "(file_system \<Rightarrow> 'a reads) \<Rightarrow> (string, 'a) io" where
  "with_reads m w =
     (let (r, fl) = m (w_fs w) (w_faults w, w_unseen w) in (r, w\<lparr>w_faults := fst fl, w_unseen := snd fl\<rparr>))"

definition managed_dirs_differ :: "(file_system \<Rightarrow> path \<Rightarrow> bool) \<Rightarrow> path \<Rightarrow> string list \<Rightarrow> (string, bool) io" where
  "managed_dirs_differ follows remote dirs =
     io_bind (with_reads (\<lambda>fs. all_equal (\<lambda>d. paths_equal follows fs (remote @ [d]) [d]) dirs)) (\<lambda>b. io_ret (\<not> b))"

fun backup_each :: "(file_system \<Rightarrow> path \<Rightarrow> bool) \<Rightarrow> string list \<Rightarrow> (string, string list) io" where
  "backup_each follows [] = io_ret []"
| "backup_each follows (d # ds) =
     io_bind (path_exists follows [d]) (\<lambda>there.
       if \<not> there then backup_each follows ds
       else io_seq (copy_path [d] (backup_path @ [d])) (io_bind (backup_each follows ds) (\<lambda>es. io_ret (d # es))))"

definition backup_managed_dirs ::
  "string list codec \<Rightarrow> (file_system \<Rightarrow> path \<Rightarrow> bool) \<Rightarrow> string list \<Rightarrow> (string, unit) io" where
  "backup_managed_dirs J follows dirs =
     io_seq (remove_path backup_path)
    (io_seq (io_map_err (failed ''create'' backup_path) (create_dir_all backup_path))
    (io_bind (backup_each follows dirs) (\<lambda>existing_dirs.
     io_map_err (failed ''write'' backup_manifest_path) (fs_write backup_manifest_path (encode J existing_dirs)))))"

definition sync_dir :: "(file_system \<Rightarrow> path \<Rightarrow> bool) \<Rightarrow> path \<Rightarrow> string \<Rightarrow> (string, unit) io" where
  "sync_dir follows remote d =
     io_seq (remove_path [d])
       (io_bind (path_exists follows (remote @ [d])) (\<lambda>there.
          if there then copy_path (remote @ [d]) [d] else io_ret ()))"

definition sync_managed_dirs :: "(file_system \<Rightarrow> path \<Rightarrow> bool) \<Rightarrow> path \<Rightarrow> string list \<Rightarrow> (string, unit) io" where
  "sync_managed_dirs follows remote dirs = io_each (sync_dir follows remote) dirs"

definition show_dirs :: "string list \<Rightarrow> string" where
  "show_dirs dirs = ''['' @ join '', '' (map dquoted dirs) @ '']''"

definition restore_managed_dirs :: "string list codec \<Rightarrow> string list \<Rightarrow> (string, unit) io" where
  "restore_managed_dirs J dirs w =
     (case fs_read backup_manifest_path w of
        (Inl IoNotFound, w1) \<Rightarrow> (Inr (), w1)
      | (Inl e, w1) \<Rightarrow> (Inl (failed ''read'' backup_manifest_path e), w1)
      | (Inr body, w1) \<Rightarrow>
          (case decode J body of
             Inl e \<Rightarrow> (Inl (failed ''parse'' backup_manifest_path (IoOther e)), w1)
           | Inr existing_dirs \<Rightarrow>
               (case find_first (\<lambda>d. d \<notin> set dirs) existing_dirs of
                  Some d \<Rightarrow> (Inl (''backup manifest contains unexpected directory '' @ quoted d @
                                 ''; expected one of '' @ show_dirs dirs), w1)
                | None \<Rightarrow> io_seq (io_each (\<lambda>d. remove_path [d]) dirs)
                           (io_each (\<lambda>d. copy_path (backup_path @ [d]) [d]) existing_dirs) w1)))"

end
