(* ===== verification/RemoteFiles.thy ===== *)
theory RemoteFiles
  imports RemoteFs
begin

text \<open>
  What the operations on the managed directories do to the file system: which paths each may touch
  however it ends (\<open>confined\<close>), what a copy leaves when it succeeds, when two trees compare equal,
  and that a restore undoes anything done to the directories since their backup.
\<close>

section \<open>Well-formed file systems\<close>

text \<open>Every entry lies in a directory.\<close>

definition tree_ok :: "file_system \<Rightarrow> bool" where
  "tree_ok fs = (\<forall>p e. map_of fs p = Some e \<longrightarrow> p \<noteq> [] \<and> is_dir_at fs (butlast p))"

lemma tree_okD: "tree_ok fs \<Longrightarrow> map_of fs p = Some e \<Longrightarrow> p \<noteq> [] \<and> is_dir_at fs (butlast p)"
  unfolding tree_ok_def by blast

lemma tree_ok_ancestor:
  assumes "tree_ok fs"
  shows "map_of fs (p @ q) = Some e \<Longrightarrow> q \<noteq> [] \<Longrightarrow> is_dir_at fs p"
proof (induction q arbitrary: e rule: rev_induct)
  case (snoc n q)
  have d: "is_dir_at fs (p @ q)" using tree_okD [OF assms snoc(2)] by (simp add: butlast_append)
  show ?case
  proof (cases "q = []")
    case False
    then have "map_of fs (p @ q) = Some EDir" using d by (simp add: is_dir_at_def)
    then show ?thesis using snoc(1) False by blast
  qed (use d in simp)
qed simp

lemma map_of_put [simp]: "map_of (put p e fs) q = (if q = p then Some e else map_of fs q)"
  by (simp add: put_def)

lemma map_of_filter_path: "map_of (filter (\<lambda>qe. K (fst qe)) fs) q = (if K q then map_of fs q else None)"
  by (induction fs) auto

lemma map_of_drop_tree [simp]: "map_of (drop_tree p fs) q = (if prefix p q then None else map_of fs q)"
  using map_of_filter_path [of "\<lambda>q. \<not> prefix p q" fs q] by (simp add: drop_tree_def)

lemma tree_ok_put:
  assumes "tree_ok fs" "p \<noteq> []" "is_dir_at fs (butlast p)" "map_of fs p = Some EDir \<Longrightarrow> e = EDir"
  shows "tree_ok (put p e fs)"
proof -
  have "is_dir_at (put p e fs) q" if "is_dir_at fs q" for q
    using that assms(4) by (auto simp: is_dir_at_def)
  then show ?thesis using assms by (auto simp: tree_ok_def)
qed

lemma tree_ok_filter:
  assumes "tree_ok fs" "\<And>q. K q \<Longrightarrow> butlast q = [] \<or> K (butlast q)"
  shows "tree_ok (filter (\<lambda>qe. K (fst qe)) fs)"
  unfolding tree_ok_def
proof (intro allI impI)
  fix p e assume p: "map_of (filter (\<lambda>qe. K (fst qe)) fs) p = Some e"
  then have K: "K p" "map_of fs p = Some e" by (auto simp: map_of_filter_path split: if_splits)
  then show "p \<noteq> [] \<and> is_dir_at (filter (\<lambda>qe. K (fst qe)) fs) (butlast p)"
    using tree_okD [OF assms(1) K(2)] assms(2) [OF K(1)] by (auto simp: is_dir_at_def map_of_filter_path)
qed

lemma prefix_butlast: "prefix p (butlast q) \<Longrightarrow> prefix p q"
  by (metis append_butlast_last_id butlast.simps(1) prefix_prefix)

lemma tree_ok_drop_tree: "tree_ok fs \<Longrightarrow> tree_ok (drop_tree p fs)"
  unfolding drop_tree_def by (rule tree_ok_filter) (auto dest: prefix_butlast)

lemma tree_ok_partly_dropped: "tree_ok fs \<Longrightarrow> tree_ok (partly_dropped p fs ft)"
  unfolding partly_dropped_def
proof (rule tree_ok_filter)
  fix q assume q: "\<not> prefix p q \<or> list_all (if_keep ft) (prefixes (drop (length p) q))"
  show "butlast q = [] \<or> \<not> prefix p (butlast q) \<or> list_all (if_keep ft) (prefixes (drop (length p) (butlast q)))"
  proof (cases "prefix p (butlast q)")
    case True
    then obtain r where r: "butlast q = p @ r" by (auto simp: prefix_def)
    have "prefix p q" using True by (rule prefix_butlast)
    then have "list_all (if_keep ft) (prefixes (drop (length p) q))" using q by simp
    moreover have "set (prefixes r) \<subseteq> set (prefixes (drop (length p) q))"
    proof (cases q rule: rev_cases)
      case (snoc q' n)
      then show ?thesis using r by auto
    qed (use r in simp)
    ultimately show ?thesis using r by (auto simp: list_all_iff)
  qed simp
qed

section \<open>What a call may touch\<close>

definition fs_step :: "path set \<Rightarrow> (file_system \<Rightarrow> file_system) \<Rightarrow> bool" where
  "fs_step S g = (\<forall>fs. (\<forall>p. p \<notin> S \<longrightarrow> map_of (g fs) p = map_of fs p) \<and> (tree_ok fs \<longrightarrow> tree_ok (g fs)))"

text \<open>No query of \<open>Path::exists\<close> to come fails.\<close>

definition sees :: "world \<Rightarrow> bool" where
  "sees w = (True \<notin> set (w_unseen w))"

definition keeps :: "path set \<Rightarrow> world \<Rightarrow> world \<Rightarrow> bool" where
  "keeps S w w' = ((\<forall>p. p \<notin> S \<longrightarrow> map_of (w_fs w') p = map_of (w_fs w) p) \<and>
     (tree_ok (w_fs w) \<longrightarrow> tree_ok (w_fs w')) \<and> w_locked w' = w_locked w \<and> (sees w \<longrightarrow> sees w'))"

definition confined :: "path set \<Rightarrow> ('e, 'a) io \<Rightarrow> bool" where
  "confined S m = (\<forall>w. keeps S w (snd (m w)))"

named_theorems confined_intros \<open>what an operation may touch\<close>

lemma keeps_refl: "keeps S w w"
  by (simp add: keeps_def)

lemma keeps_trans: "keeps S w w1 \<Longrightarrow> keeps S w1 w2 \<Longrightarrow> keeps S w w2"
  by (simp add: keeps_def)

lemma keeps_mono: "keeps S w w1 \<Longrightarrow> S \<subseteq> T \<Longrightarrow> keeps T w w1"
  by (auto simp: keeps_def)

lemma keepsD:
  assumes "keeps S w w'"
  shows "p \<notin> S \<Longrightarrow> map_of (w_fs w') p = map_of (w_fs w) p"
    and "tree_ok (w_fs w) \<Longrightarrow> tree_ok (w_fs w')" and "w_locked w' = w_locked w" and "sees w \<Longrightarrow> sees w'"
  using assms by (simp_all add: keeps_def)

lemma confinedD: "confined S m \<Longrightarrow> m w = (r, w') \<Longrightarrow> keeps S w w'"
  unfolding confined_def by (metis snd_conv)

lemma confinedI: "(\<And>w r w'. m w = (r, w') \<Longrightarrow> keeps S w w') \<Longrightarrow> confined S m"
  unfolding confined_def by (metis prod.collapse)

lemma confined_mono: "confined S m \<Longrightarrow> S \<subseteq> T \<Longrightarrow> confined T m"
  unfolding confined_def by (blast intro: keeps_mono)

lemma confined_ret [confined_intros]: "confined S (io_ret x)"
  by (simp add: confined_def io_ret_def keeps_refl)

lemma confined_err [confined_intros]: "confined S (io_err x)"
  by (simp add: confined_def io_err_def keeps_refl)

lemma io_bind_cases:
  assumes "io_bind m f w = (r, w')"
  obtains (err) e where "m w = (Inl e, w')" and "r = Inl e"
    | (ok) x w1 where "m w = (Inr x, w1)" and "f x w1 = (r, w')"
  using assms by (auto simp: io_bind_def split: prod.splits sum.splits)

lemma confined_bind [confined_intros]:
  assumes "confined S m" "\<And>x. confined S (f x)"
  shows "confined S (io_bind m f)"
  by (rule confinedI, erule io_bind_cases) (blast intro: confinedD [OF assms(1)] confinedD [OF assms(2)] keeps_trans)+

lemma confined_seq [confined_intros]: "confined S m \<Longrightarrow> confined S k \<Longrightarrow> confined S (io_seq m k)"
  by (simp add: io_seq_def confined_bind)

lemma io_map_err_Inr: "io_map_err h m w = (Inr x, w') \<longleftrightarrow> m w = (Inr x, w')"
  by (auto simp: io_map_err_def split: prod.splits sum.splits)

lemma snd_io_map_err: "snd (io_map_err h m w) = snd (m w)"
  by (auto simp: io_map_err_def split: prod.splits sum.splits)

lemma confined_io_map_err [confined_intros]: "confined S m \<Longrightarrow> confined S (io_map_err h m)"
  by (simp add: confined_def snd_io_map_err)

lemma confined_if [confined_intros]: "confined S a \<Longrightarrow> confined S b \<Longrightarrow> confined S (\<lambda>w. if P w then a w else b w)"
  by (simp add: confined_def)

lemma confined_each [confined_intros]: "(\<And>x. x \<in> set xs \<Longrightarrow> confined S (f x)) \<Longrightarrow> confined S (io_each f xs)"
  by (induction xs) (auto intro: confined_intros)

lemma confined_sys:
  assumes "fs_step S (\<lambda>fs. snd (f fs))" "\<And>ft. fs_step S (\<lambda>fs. damage fs ft)"
  shows "confined S (sys damage f)"
  using assms
  by (simp add: confined_def keeps_def sees_def sys_def fs_step_def Let_def case_prod_beta' split: list.splits option.splits)

lemma not_in_tl: "x \<notin> set xs \<Longrightarrow> x \<notin> set (tl xs)"
  by (cases xs) auto

lemma confined_exists [confined_intros]: "confined S (path_exists follows p)"
  by (simp add: confined_def keeps_def sees_def path_exists_def not_in_tl)

lemma seen_all [simp]: "True \<notin> set unseen \<Longrightarrow> seen unseen b = b"
  by (cases unseen) (auto simp: seen_def split: bool.splits)

lemma path_exists_sees:
  "path_exists follows p w = (r, w') \<Longrightarrow> sees w \<Longrightarrow> r = Inr (exists_at follows (w_fs w) p) \<and> w_fs w' = w_fs w \<and> sees w'"
  by (auto simp: path_exists_def sees_def not_in_tl)

lemma fs_step_unharmed [simp]: "fs_step S (\<lambda>fs. unharmed fs ft)"
  by (simp add: fs_step_def unharmed_def)

lemma confined_stat [confined_intros]: "confined S (symlink_metadata p)"
  unfolding symlink_metadata_def by (rule confined_sys) (simp_all add: fs_step_def)

lemma confined_read [confined_intros]: "confined S (fs_read p)"
  unfolding fs_read_def by (rule confined_sys) (simp_all add: fs_step_def)

lemma confined_read_link [confined_intros]: "confined S (read_link p)"
  unfolding read_link_def by (rule confined_sys) (simp_all add: fs_step_def)

definition ancestors :: "path \<Rightarrow> path set" where
  "ancestors p = {q. prefix q p \<and> q \<noteq> []}"

lemma make_dirs_step:
  "map_of (snd (make_dirs p r fs)) q \<noteq> map_of fs q \<Longrightarrow> prefix q (p @ r) \<and> q \<noteq> [] \<and> map_of fs q = None \<and>
     map_of (snd (make_dirs p r fs)) q = Some EDir"
proof (induction p r fs rule: make_dirs.induct)
  case (2 p n r fs)
  show ?case
  proof (cases "map_of fs (p @ [n])")
    case None
    show ?thesis
    proof (cases "map_of (snd (make_dirs (p @ [n]) r (put (p @ [n]) EDir fs))) q = map_of (put (p @ [n]) EDir fs) q")
      case True
      then show ?thesis using 2 None by (auto split: if_splits)
    next
      case False
      then show ?thesis using 2(1) [OF None False] None by (auto split: if_splits)
    qed
  next
    case (Some e)
    then show ?thesis using 2 by (cases e) auto
  qed
qed simp

lemma make_dirs_ok: "tree_ok fs \<Longrightarrow> is_dir_at fs p \<Longrightarrow> tree_ok (snd (make_dirs p r fs))"
proof (induction p r fs rule: make_dirs.induct)
  case (2 p n r fs)
  then show ?case
    by (auto simp: is_dir_at_def tree_ok_put split: option.split entry.split)
qed simp

lemma confined_create_dir_all: "confined (ancestors p) (create_dir_all p)"
proof -
  have "fs_step (ancestors p) (\<lambda>fs. snd (make_dirs [] (take k p) fs))" for k
    using make_dirs_step [of "[]" "take k p"] prefix_order.trans [OF _ take_is_prefix, of _ k p]
    by (auto simp: fs_step_def ancestors_def make_dirs_ok is_dir_at_def)
  from this [of "length p"] this show ?thesis
    unfolding create_dir_all_def by (intro confined_sys) simp_all
qed

definition under :: "path \<Rightarrow> path set" where
  "under p = {q. prefix p q}"

lemma store_step: "fs_step {p} (\<lambda>fs. snd (store p (e fs) fs))" if "\<And>fs. e fs \<noteq> EDir" "p \<noteq> []"
  using that by (auto simp: fs_step_def store_def intro!: tree_ok_put split: option.split entry.split)

lemma partial_store_step: "p \<noteq> [] \<Longrightarrow> fs_step {p} (\<lambda>fs. partial_store p fs ft)"
  using store_step [of "\<lambda>fs. EFile (the (if_bytes ft)) (mode_at fs p)" p]
  by (auto simp: partial_store_def fs_step_def split: option.splits)

lemma confined_write: "p \<noteq> [] \<Longrightarrow> confined {p} (fs_write p bs)"
  unfolding fs_write_def by (rule confined_sys) (simp_all add: store_step partial_store_step)

lemma copy_step: "dst \<noteq> [] \<Longrightarrow> fs_step {dst} (\<lambda>fs. snd (case map_of fs src of
        None \<Rightarrow> (Inl IoNotFound, fs)
      | Some (EFile bs m) \<Rightarrow> store dst (EFile bs m) fs
      | Some _ \<Rightarrow> (Inl (IoOther ''not a regular file''), fs)))"
  by (auto simp: fs_step_def store_def intro!: tree_ok_put split: option.splits entry.splits)

lemma confined_copy: "dst \<noteq> [] \<Longrightarrow> confined {dst} (fs_copy src dst)"
  unfolding fs_copy_def by (rule confined_sys) (simp_all add: copy_step partial_store_step)

lemma confined_set_permissions: "confined {p} (set_permissions p m)"
  unfolding set_permissions_def
  by (rule confined_sys) (auto simp: fs_step_def intro!: tree_ok_put dest: tree_okD split: option.splits entry.splits)

lemma confined_symlink: "p \<noteq> [] \<Longrightarrow> confined {p} (symlink t p)"
  unfolding symlink_def
  by (rule confined_sys) (auto simp: fs_step_def intro!: tree_ok_put split: option.splits)

lemma drop_tree_step: "fs_step (under p) (drop_tree p)"
  by (simp add: fs_step_def under_def tree_ok_drop_tree)

lemma confined_remove_file: "confined (under p) (remove_file p)"
  unfolding remove_file_def
  by (rule confined_sys) (use drop_tree_step [of p] in \<open>auto simp: fs_step_def split: option.splits entry.splits\<close>)

lemma partly_dropped_step: "fs_step (under p) (\<lambda>fs. partly_dropped p fs ft)"
  unfolding fs_step_def
proof (intro allI conjI impI tree_ok_partly_dropped)
  fix fs q assume "q \<notin> under p"
  then show "map_of (partly_dropped p fs ft) q = map_of fs q"
    unfolding partly_dropped_def
    by (subst map_of_filter_path [of "\<lambda>q. \<not> prefix p q \<or> list_all (if_keep ft) (prefixes (drop (length p) q))"])
      (simp add: under_def)
qed

lemma confined_remove_dir_all: "confined (under p) (remove_dir_all p)"
  unfolding remove_dir_all_def
  by (rule confined_sys) (use drop_tree_step [of p] in \<open>simp_all add: partly_dropped_step\<close>)

lemma confined_remove_path: "confined (under p) (remove_path p)"
proof (rule confinedI)
  fix w :: "world" and r w' assume r: "remove_path p w = (r, w')"
  obtain x w1 where x: "symlink_metadata p w = (x, w1)" by fastforce
  have k: "keeps (under p) w w1" using confinedD [OF confined_stat x] .
  have d: "keeps (under p) w1 w2" if "io_map_err (failed ''remove'' p) (remove_dir_all p) w1 = (y, w2)" for y w2
    using confinedD [OF confined_io_map_err [OF confined_remove_dir_all] that] .
  have f: "keeps (under p) w1 w2" if "io_map_err (failed ''remove'' p) (remove_file p) w1 = (y, w2)" for y w2
    using confinedD [OF confined_io_map_err [OF confined_remove_file] that] .
  show "keeps (under p) w w'"
    using r k d f by (auto simp: remove_path_def x intro: keeps_trans split: sum.splits io_error.splits entry.splits)
qed

definition spot :: "path \<Rightarrow> path set" where
  "spot p = under p \<union> ancestors p"

lemma ancestors_spot: "ancestors (butlast (p @ r)) \<subseteq> spot p" "ancestors (p @ r) \<subseteq> spot p"
  using prefix_same_cases [of _ "p @ r" p] prefix_butlast
  by (auto simp: spot_def under_def ancestors_def dest: prefix_order.trans [OF _ prefixeq_butlast])

lemma under_spot: "under (p @ r) \<subseteq> spot p" "p @ r \<in> spot p"
  by (auto simp: spot_def under_def dest: append_prefixD)

lemma confined_copy_symlink: "dst @ r \<noteq> [] \<Longrightarrow> confined (spot dst) (copy_symlink src (dst @ r))"
  unfolding copy_symlink_def
  by (intro confined_intros confined_mono [OF confined_create_dir_all ancestors_spot(1)]
      confined_mono [OF confined_remove_path under_spot(1)] confined_mono [OF confined_symlink])
    (auto simp: under_spot)

lemma confined_copy_file: "dst @ r \<noteq> [] \<Longrightarrow> confined (spot dst) mode \<Longrightarrow> confined (spot dst) (copy_file src (dst @ r) mode)"
  unfolding copy_file_def
  by (intro confined_intros confined_mono [OF confined_create_dir_all ancestors_spot(1)]
      confined_mono [OF confined_copy] confined_mono [OF confined_set_permissions])
    (auto simp: under_spot)

lemma confined_copy_entry: "dst @ r \<noteq> [] \<Longrightarrow> confined (spot dst) (copy_entry src dst r)"
  unfolding copy_entry_def
proof (intro confined_intros)
  fix e assume d: "dst @ r \<noteq> []"
  show "confined (spot dst) (case e of
         EDir \<Rightarrow> io_map_err (failed ''create'' (dst @ r)) (create_dir_all (dst @ r))
       | EFile bs m \<Rightarrow> copy_file (src @ r) (dst @ r)
           (io_bind (io_map_err (failed ''stat'' (src @ r)) (symlink_metadata (src @ r))) (\<lambda>e. io_ret (entry_mode e)))
       | ELink t \<Rightarrow> copy_symlink (src @ r) (dst @ r)
       | EOther \<Rightarrow> io_err (''unsupported file type under '' @ show_path (src @ r)))"
    by (cases e) (simp_all add: confined_intros confined_copy_file [OF d] confined_copy_symlink [OF d]
        confined_mono [OF confined_create_dir_all ancestors_spot(2)])
qed

lemma confined_copy_dir:
  assumes "dst \<noteq> []"
  shows "confined (spot dst) (copy_dir src dst)"
  unfolding copy_dir_def
proof (intro confined_intros)
  show "confined (spot dst) (create_dir_all dst)"
    using confined_mono [OF confined_create_dir_all ancestors_spot(2), of dst "[]"] by simp
  have "confined (spot dst) (io_each (copy_entry src dst) ws)" for ws :: "path list"
    using assms by (intro confined_intros confined_copy_entry) simp
  then show "confined (spot dst) (\<lambda>w. io_each (copy_entry src dst) (walk (w_fs w) src) w)"
    unfolding confined_def by blast
qed

lemma confined_copy_path:
  assumes "dst \<noteq> []"
  shows "confined (spot dst) (copy_path src dst)"
  unfolding copy_path_def
proof (intro confined_intros)
  fix e
  have d: "dst @ [] \<noteq> []" using assms by simp
  note c = confined_copy_file [OF d, simplified] confined_copy_symlink [OF d, simplified]
  show "confined (spot dst) (case e of
         EDir \<Rightarrow> copy_dir src dst | EFile bs m \<Rightarrow> copy_file src dst (io_ret m)
       | ELink t \<Rightarrow> copy_symlink src dst | EOther \<Rightarrow> io_err (''unsupported file type '' @ show_path src))"
    by (cases e) (simp_all add: c confined_intros confined_copy_dir [OF assms])
qed

section \<open>What a successful copy leaves\<close>

lemma sys_Inr:
  assumes "sys damage f w = (Inr x, w')"
  shows "f (w_fs w) = (Inr x, w_fs w')"
  using assms by (auto simp: sys_def Let_def split: list.splits option.splits prod.splits)

lemma sys_Inl_NotFound:
  assumes "sys damage f w = (Inl IoNotFound, w')"
  shows "f (w_fs w) = (Inl IoNotFound, w_fs w')"
  using assms by (auto simp: sys_def Let_def split: list.splits option.splits prod.splits)

lemma io_seq_Inr:
  assumes "io_seq m k w = (Inr x, w')"
  obtains u w1 where "m w = (Inr u, w1)" and "k w1 = (Inr x, w')"
  using assms by (auto simp: io_seq_def elim: io_bind_cases)

lemma io_bind_Inr:
  assumes "io_bind m f w = (Inr x, w')"
  obtains u w1 where "m w = (Inr u, w1)" and "f u w1 = (Inr x, w')"
  using assms by (auto elim: io_bind_cases)

lemma symlink_metadata_Inr:
  "symlink_metadata p w = (Inr e, w') \<Longrightarrow> w_fs w' = w_fs w \<and> map_of (w_fs w) p = Some e"
  by (auto simp: symlink_metadata_def dest!: sys_Inr split: option.splits)

lemma symlink_metadata_NotFound:
  "symlink_metadata p w = (Inl IoNotFound, w') \<Longrightarrow> w_fs w' = w_fs w \<and> map_of (w_fs w) p = None"
  by (auto simp: symlink_metadata_def dest!: sys_Inl_NotFound split: option.splits)

lemma create_dir_all_Inr: "create_dir_all p w = (Inr u, w') \<Longrightarrow> make_dirs [] p (w_fs w) = (Inr (), w_fs w')"
  by (auto simp: create_dir_all_def dest!: sys_Inr)

lemma make_dirs_Inr:
  "make_dirs p r fs = (Inr (), fs') \<Longrightarrow> prefix q r \<Longrightarrow> q \<noteq> [] \<Longrightarrow> map_of fs' (p @ q) = Some EDir"
proof (induction p r fs arbitrary: q rule: make_dirs.induct)
  case (2 p n r fs)
  from 2(4,5) obtain q' where q: "q = n # q'" "prefix q' r" by (cases q) auto
  have *: "map_of fs' (p @ [n]) = Some EDir"
    if "make_dirs (p @ [n]) r gs = (Inr (), fs')" "map_of gs (p @ [n]) = Some EDir" for gs
    using that make_dirs_step [of "p @ [n]" r gs "p @ [n]"] by force
  show ?case
  proof (cases "map_of fs (p @ [n])")
    case None
    then show ?thesis using 2(1) [OF None _ q(2)] 2(3) q * by (cases "q' = []") auto
  next
    case (Some e)
    then have e: "e = EDir" using 2(3) by (cases e) auto
    then show ?thesis using 2(2) [OF _ _ _ q(2)] 2(3) q * Some by (cases "q' = []") auto
  qed
qed simp

lemma fs_copy_Inr:
  assumes "fs_copy src dst w = (Inr u, w')"
  obtains bs m where "map_of (w_fs w) src = Some (EFile bs m)" and "w_fs w' = put dst (EFile bs m) (w_fs w)"
  using assms by (auto simp: fs_copy_def store_def dest!: sys_Inr split: option.splits entry.splits if_splits)

lemma set_permissions_Inr:
  assumes "set_permissions p m w = (Inr u, w')"
  obtains bs m' where "map_of (w_fs w) p = Some (EFile bs m')" and "w_fs w' = put p (EFile bs m) (w_fs w)"
  using assms by (auto simp: set_permissions_def dest!: sys_Inr split: option.splits entry.splits)

lemma read_link_Inr: "read_link p w = (Inr t, w') \<Longrightarrow> map_of (w_fs w) p = Some (ELink t) \<and> w_fs w' = w_fs w"
  by (auto simp: read_link_def dest!: sys_Inr split: option.splits entry.splits)

lemma symlink_Inr: "symlink t p w = (Inr u, w') \<Longrightarrow> w_fs w' = put p (ELink t) (w_fs w)"
  by (auto simp: symlink_def dest!: sys_Inr split: option.splits if_splits)

lemma map_of_remove_path:
  assumes "remove_path p w = (Inr u, w')" "tree_ok (w_fs w)" "p \<noteq> []"
  shows "map_of (w_fs w') q = (if prefix p q then None else map_of (w_fs w) q)"
proof -
  obtain x w1 where x: "symlink_metadata p w = (x, w1)" by fastforce
  show ?thesis
  proof (cases x)
    case (Inl e)
    then have e: "e = IoNotFound" and w: "w1 = w'" using assms(1) x by (auto simp: remove_path_def split: io_error.splits)
    then have n: "map_of (w_fs w) p = None" "w_fs w' = w_fs w" using symlink_metadata_NotFound x Inl by blast+
    have "map_of (w_fs w) q = None" if pq: "prefix p q"
    proof (rule ccontr)
      assume "map_of (w_fs w) q \<noteq> None"
      then obtain r f where r: "q = p @ r" "map_of (w_fs w) (p @ r) = Some f" using pq by (auto simp: prefix_def)
      then have "r \<noteq> []" using n(1) by auto
      from tree_ok_ancestor [OF assms(2) r(2) this] show False using n(1) assms(3) by (simp add: is_dir_at_def)
    qed
    then show ?thesis using n by auto
  next
    case (Inr e)
    then have w1: "w_fs w1 = w_fs w" using symlink_metadata_Inr x by blast
    have "w_fs w' = drop_tree p (w_fs w1)"
      using assms(1) x Inr
      by (auto simp: remove_path_def io_map_err_Inr remove_dir_all_def remove_file_def dest!: sys_Inr split: entry.splits option.splits)
    then show ?thesis by (simp add: w1)
  qed
qed

text \<open>
  A copy in progress: what is at the target is already what the source \<open>fs0\<close> has there, and the
  source itself has not changed.
\<close>

definition copying :: "path \<Rightarrow> path \<Rightarrow> file_system \<Rightarrow> file_system \<Rightarrow> bool" where
  "copying src dst fs0 fs =
     (tree_ok fs \<and> (\<forall>q. map_of fs (src @ q) = map_of fs0 (src @ q)) \<and>
      (\<forall>q. map_of fs (dst @ q) = None \<or> map_of fs (dst @ q) = map_of fs0 (src @ q)))"

definition grown :: "path \<Rightarrow> file_system \<Rightarrow> file_system \<Rightarrow> bool" where
  "grown dst fs fs' = (\<forall>q. map_of fs (dst @ q) \<noteq> None \<longrightarrow> map_of fs' (dst @ q) \<noteq> None)"

definition apart :: "path \<Rightarrow> path \<Rightarrow> bool" where
  "apart p q = (\<not> prefix p q \<and> \<not> prefix q p)"

lemma apart_spot: "apart src dst \<Longrightarrow> src @ q \<notin> spot dst"
  by (auto simp: apart_def spot_def under_def ancestors_def dest: append_prefixD prefix_same_cases [of src "src @ q" dst, simplified])

lemma grown_trans: "grown dst a b \<Longrightarrow> grown dst b c \<Longrightarrow> grown dst a c"
  by (auto simp: grown_def)

lemma copying_source:
  assumes "copying src dst fs0 fs" "keeps (spot dst) w w'" "apart src dst" "w_fs w = fs"
  shows "map_of (w_fs w') (src @ q) = map_of fs0 (src @ q)" and "tree_ok (w_fs w')"
  using assms keepsD(1) [OF assms(2) apart_spot [OF assms(3)]] keepsD(2) [OF assms(2)] by (simp_all add: copying_def)

lemma copying_ancestor:
  assumes "copying src dst fs0 fs" "map_of fs0 (src @ r) = Some e" "prefix q r" "q \<noteq> r" "src \<noteq> []"
  shows "map_of fs0 (src @ q) = Some EDir"
proof -
  obtain r' where r: "r = q @ r'" "r' \<noteq> []" using assms(3,4) by (auto simp: prefix_def)
  have "map_of fs ((src @ q) @ r') = Some e" using assms(1,2) r by (simp add: copying_def)
  from tree_ok_ancestor [OF _ this r(2)] show ?thesis using assms(1,5) by (simp add: copying_def is_dir_at_def)
qed

lemma mkdirs_copying:
  assumes c: "copying src dst fs0 (w_fs w)" and a: "apart src dst" and src: "map_of fs0 (src @ r) = Some EDir"
    and m: "create_dir_all (dst @ r) w = (Inr u, w')" and ne: "dst \<noteq> []"
  shows "copying src dst fs0 (w_fs w') \<and> grown dst (w_fs w) (w_fs w') \<and> map_of (w_fs w') (dst @ r) = Some EDir"
proof -
  have ne': "src \<noteq> []" using a by (auto simp: apart_def)
  have mk: "make_dirs [] (dst @ r) (w_fs w) = (Inr (), w_fs w')" using create_dir_all_Inr [OF m] .
  have k: "keeps (spot dst) w w'"
    using confinedD [OF confined_mono [OF confined_create_dir_all ancestors_spot(2)] m] .
  have step: "map_of (w_fs w') (dst @ q) = map_of (w_fs w) (dst @ q) \<or>
      map_of (w_fs w') (dst @ q) = Some EDir \<and> map_of (w_fs w) (dst @ q) = None \<and> prefix q r" for q
    using make_dirs_step [of "[]" "dst @ r" "w_fs w" "dst @ q"] by (auto simp: mk)
  have anc: "map_of fs0 (src @ q) = Some EDir" if "prefix q r" for q
    using copying_ancestor [OF c src that _ ne'] src by (cases "q = r") auto
  have "map_of (w_fs w') (dst @ q) = None \<or> map_of (w_fs w') (dst @ q) = map_of fs0 (src @ q)" for q
    using step [of q] anc [of q] c by (auto simp: copying_def)
  then have "copying src dst fs0 (w_fs w')"
    using copying_source [OF c k a refl] by (simp add: copying_def)
  moreover have "grown dst (w_fs w) (w_fs w')"
    unfolding grown_def
  proof (intro allI impI)
    fix q assume "map_of (w_fs w) (dst @ q) \<noteq> None"
    then show "map_of (w_fs w') (dst @ q) \<noteq> None" using step [of q] by auto
  qed
  moreover have "map_of (w_fs w') (dst @ r) = Some EDir"
    using make_dirs_Inr [OF mk, of "dst @ r"] ne by simp
  ultimately show ?thesis by blast
qed

lemma parent_copying:
  assumes c: "copying src dst fs0 (w_fs w)" and a: "apart src dst" and src: "map_of fs0 (src @ r) = Some e"
    and m: "create_dir_all (butlast (dst @ r)) w = (Inr u, w')" and ne: "dst \<noteq> []" and r: "r \<noteq> []"
  shows "copying src dst fs0 (w_fs w') \<and> grown dst (w_fs w) (w_fs w')"
proof -
  have ne': "src \<noteq> []" using a by (auto simp: apart_def)
  have "butlast r \<noteq> r" using r by (metis append_butlast_last_id not_Cons_self2 append_self_conv)
  then have d: "map_of fs0 (src @ butlast r) = Some EDir"
    using copying_ancestor [OF c src prefixeq_butlast _ ne'] by blast
  have "create_dir_all (dst @ butlast r) w = (Inr u, w')" using m r by (simp add: butlast_append)
  from mkdirs_copying [OF c a d this ne] show ?thesis by blast
qed

lemma put_copying:
  assumes "copying src dst fs0 fs" "map_of fs0 (src @ r) = Some e" "tree_ok (put (dst @ r) e fs)" "apart src dst"
  shows "copying src dst fs0 (put (dst @ r) e fs) \<and> grown dst fs (put (dst @ r) e fs)"
proof -
  have "src @ q \<noteq> dst @ r" for q using assms(4) by (metis apart_def prefixI prefix_same_cases)
  then show ?thesis using assms by (auto simp: copying_def grown_def)
qed

lemma file_no_children:
  assumes "tree_ok fs" "map_of fs p = Some e" "e \<noteq> EDir" "q \<noteq> []"
  shows "map_of fs (p @ q) = None"
proof (rule ccontr)
  assume "map_of fs (p @ q) \<noteq> None"
  then obtain f where "map_of fs (p @ q) = Some f" by auto
  from tree_ok_ancestor [OF assms(1) this assms(4)] tree_okD [OF assms(1,2)] show False
    using assms(2,3) by (simp add: is_dir_at_def)
qed

text \<open>A file or a link at \<open>r\<close> of the source (the whole source when \<open>r\<close> is empty) is copied.\<close>

lemma copy_symlink_copying:
  assumes c: "copying src dst fs0 (w_fs w)" and a: "apart src dst" and e: "map_of fs0 (src @ r) = Some (ELink t)"
    and m: "copy_symlink (src @ r) (dst @ r) w = (Inr u, w')" and ne: "dst \<noteq> []"
    and p: "\<And>u w1. create_dir_all (butlast (dst @ r)) w = (Inr u, w1) \<Longrightarrow>
      copying src dst fs0 (w_fs w1) \<and> grown dst (w_fs w) (w_fs w1)"
  shows "copying src dst fs0 (w_fs w') \<and> grown dst (w_fs w) (w_fs w') \<and> map_of (w_fs w') (dst @ r) = Some (ELink t)"
proof -
  from m obtain u1 w1 u2 w2 t' w3 where m1: "create_dir_all (butlast (dst @ r)) w = (Inr u1, w1)"
    and m2: "remove_path (dst @ r) w1 = (Inr u2, w2)" and m3: "read_link (src @ r) w2 = (Inr t', w3)"
    and m4: "symlink t' (dst @ r) w3 = (Inr u, w')"
    by (auto simp: copy_symlink_def io_map_err_Inr elim!: io_seq_Inr io_bind_Inr)
  have c1: "copying src dst fs0 (w_fs w1)" "grown dst (w_fs w) (w_fs w1)" using p [OF m1] by auto
  have k2: "keeps (spot dst) w1 w2" using confinedD [OF confined_mono [OF confined_remove_path under_spot(1)] m2] .
  have ok1: "tree_ok (w_fs w1)" using c1(1) by (simp add: copying_def)
  have rm: "map_of (w_fs w2) q = (if prefix (dst @ r) q then None else map_of (w_fs w1) q)" for q
    using map_of_remove_path [OF m2 ok1] ne by simp
  have s2: "map_of (w_fs w2) (src @ q) = map_of fs0 (src @ q)" for q by (rule copying_source [OF c1(1) k2 a refl])
  have t: "t' = t" "w_fs w3 = w_fs w2" using read_link_Inr [OF m3] s2 [of r] e by auto
  have c2: "copying src dst fs0 (w_fs w2)"
    using copying_source [OF c1(1) k2 a refl] rm c1(1) by (auto simp: copying_def)
  have w': "w_fs w' = put (dst @ r) (ELink t) (w_fs w2)" using symlink_Inr [OF m4] t by simp
  have ok: "tree_ok (w_fs w')"
    using keepsD(2) [OF confinedD [OF confined_symlink m4]] ne c2 t(2) by (simp add: copying_def)
  have c': "copying src dst fs0 (w_fs w')" using put_copying [OF c2 e _ a] ok by (simp add: w')
  have "grown dst (w_fs w1) (w_fs w')"
    unfolding grown_def
  proof (intro allI impI)
    fix q assume q: "map_of (w_fs w1) (dst @ q) \<noteq> None"
    have "q = r" if pr: "prefix (dst @ r) (dst @ q)"
    proof (rule ccontr)
      assume "q \<noteq> r"
      then obtain z where z: "q = r @ z" "z \<noteq> []" using pr by (auto simp: prefix_def)
      have "map_of (w_fs w1) (src @ r) = Some (ELink t)" using c1(1) e by (simp add: copying_def)
      from file_no_children [OF ok1 this _ z(2)] have "map_of fs0 (src @ q) = None"
        using c1(1) z by (simp add: copying_def)
      then show False using q c1(1) unfolding copying_def by metis
    qed
    then show "map_of (w_fs w') (dst @ q) \<noteq> None" using q rm [of "dst @ q"] by (auto simp: w')
  qed
  then show ?thesis using c' grown_trans [OF c1(2)] by (simp add: w')
qed

lemma copy_file_copying:
  assumes c: "copying src dst fs0 (w_fs w)" and a: "apart src dst" and e: "map_of fs0 (src @ r) = Some (EFile bs m)"
    and cf: "copy_file (src @ r) (dst @ r) mode w = (Inr u, w')" and ne: "dst \<noteq> []"
    and p: "\<And>u w1. create_dir_all (butlast (dst @ r)) w = (Inr u, w1) \<Longrightarrow>
      copying src dst fs0 (w_fs w1) \<and> grown dst (w_fs w) (w_fs w1)"
    and mode: "\<And>w1 k w2. mode w1 = (Inr k, w2) \<Longrightarrow> map_of (w_fs w1) (src @ r) = Some (EFile bs m) \<Longrightarrow> k = m \<and> w_fs w2 = w_fs w1"
  shows "copying src dst fs0 (w_fs w') \<and> grown dst (w_fs w) (w_fs w') \<and> map_of (w_fs w') (dst @ r) = Some (EFile bs m)"
proof -
  from cf obtain u1 w1 u2 w2 k w3 where m1: "create_dir_all (butlast (dst @ r)) w = (Inr u1, w1)"
    and m2: "fs_copy (src @ r) (dst @ r) w1 = (Inr u2, w2)" and m3: "mode w2 = (Inr k, w3)"
    and m4: "set_permissions (dst @ r) k w3 = (Inr u, w')"
    by (auto simp: copy_file_def io_map_err_Inr elim!: io_seq_Inr io_bind_Inr)
  have c1: "copying src dst fs0 (w_fs w1)" "grown dst (w_fs w) (w_fs w1)" using p [OF m1] by auto
  obtain bs' m' where s1: "map_of (w_fs w1) (src @ r) = Some (EFile bs' m')"
    and w2: "w_fs w2 = put (dst @ r) (EFile bs' m') (w_fs w1)" by (rule fs_copy_Inr [OF m2])
  have eq: "bs' = bs" "m' = m" using c1(1) e s1 by (simp_all add: copying_def)
  have "tree_ok (w_fs w2)" using keepsD(2) [OF confinedD [OF confined_copy m2]] ne c1(1) by (simp add: copying_def)
  then have c2: "copying src dst fs0 (w_fs w2)" "grown dst (w_fs w1) (w_fs w2)"
    using put_copying [OF c1(1) e _ a] by (simp_all add: w2 eq)
  have k: "k = m" "w_fs w3 = w_fs w2" using mode [OF m3] c2(1) e by (simp_all add: copying_def)
  obtain bs'' m'' where s3: "map_of (w_fs w3) (dst @ r) = Some (EFile bs'' m'')"
    and w': "w_fs w' = put (dst @ r) (EFile bs'' k) (w_fs w3)" by (rule set_permissions_Inr [OF m4])
  have eq': "bs'' = bs" using s3 by (simp add: k w2 eq)
  have "tree_ok (w_fs w')" using keepsD(2) [OF confinedD [OF confined_set_permissions m4]] c2(1) k by (simp add: copying_def)
  then have "copying src dst fs0 (w_fs w')" "grown dst (w_fs w2) (w_fs w')"
    using put_copying [OF c2(1) e _ a] by (simp_all add: w' k eq')
  then show ?thesis using grown_trans [OF c1(2) grown_trans [OF c2(2)]] by (simp add: w' k eq')
qed

lemma copy_entry_copying:
  assumes c: "copying src dst fs0 (w_fs w)" and a: "apart src dst"
    and m: "copy_entry src dst r w = (Inr u, w')" and ne: "dst \<noteq> []" and r: "r \<noteq> []"
  shows "copying src dst fs0 (w_fs w') \<and> grown dst (w_fs w) (w_fs w') \<and> map_of (w_fs w') (dst @ r) = map_of fs0 (src @ r) \<and>
    map_of fs0 (src @ r) \<noteq> None"
proof -
  from m obtain e w1 where s: "symlink_metadata (src @ r) w = (Inr e, w1)" and k: "(case e of
         EDir \<Rightarrow> io_map_err (failed ''create'' (dst @ r)) (create_dir_all (dst @ r))
       | EFile bs m \<Rightarrow> copy_file (src @ r) (dst @ r)
           (io_bind (io_map_err (failed ''stat'' (src @ r)) (symlink_metadata (src @ r))) (\<lambda>e. io_ret (entry_mode e)))
       | ELink t \<Rightarrow> copy_symlink (src @ r) (dst @ r)
       | EOther \<Rightarrow> io_err (''unsupported file type under '' @ show_path (src @ r))) w1 = (Inr u, w')"
    by (auto simp: copy_entry_def io_map_err_Inr elim!: io_bind_Inr)
  have w1: "w_fs w1 = w_fs w" and e0: "map_of fs0 (src @ r) = Some e"
    using symlink_metadata_Inr [OF s] c by (simp_all add: copying_def)
  have c1: "copying src dst fs0 (w_fs w1)" using c w1 by simp
  note p = parent_copying [OF c1 a e0 _ ne r]
  show ?thesis
  proof (cases e)
    case EDir
    then have "create_dir_all (dst @ r) w1 = (Inr u, w')" using k by (simp add: io_map_err_Inr)
    from mkdirs_copying [OF c1 a _ this ne] e0 EDir show ?thesis by (simp add: w1)
  next
    case (EFile bs m)
    then have cf: "copy_file (src @ r) (dst @ r)
           (io_bind (io_map_err (failed ''stat'' (src @ r)) (symlink_metadata (src @ r))) (\<lambda>e. io_ret (entry_mode e))) w1 = (Inr u, w')"
      using k by simp
    have "copying src dst fs0 (w_fs w') \<and> grown dst (w_fs w1) (w_fs w') \<and> map_of (w_fs w') (dst @ r) = Some (EFile bs m)"
      using e0 EFile
      by (intro copy_file_copying [OF c1 a _ cf ne p])
        (auto simp: io_map_err_Inr io_ret_def entry_mode_def dest!: symlink_metadata_Inr elim!: io_bind_Inr)
    then show ?thesis using e0 EFile by (simp add: w1)
  next
    case (ELink t)
    then have "copy_symlink (src @ r) (dst @ r) w1 = (Inr u, w')" using k by simp
    from copy_symlink_copying [OF c1 a _ this ne p] e0 ELink show ?thesis by (simp add: w1)
  next
    case EOther
    then show ?thesis using k by (simp add: io_err_def)
  qed
qed

lemma copy_entries_copying:
  assumes a: "apart src dst" and ne: "dst \<noteq> []"
  shows "io_each (copy_entry src dst) rs w = (Inr u, w') \<Longrightarrow> copying src dst fs0 (w_fs w) \<Longrightarrow> [] \<notin> set rs \<Longrightarrow>
    copying src dst fs0 (w_fs w') \<and> grown dst (w_fs w) (w_fs w') \<and>
    (\<forall>r \<in> set rs. map_of (w_fs w') (dst @ r) = map_of fs0 (src @ r))"
proof (induction rs arbitrary: w)
  case Nil
  then show ?case by (simp add: io_ret_def grown_def)
next
  case (Cons r rs)
  from Cons.prems(1) obtain u1 w1 where m1: "copy_entry src dst r w = (Inr u1, w1)"
    and m2: "io_each (copy_entry src dst) rs w1 = (Inr u, w')" by (auto elim: io_seq_Inr)
  have r: "r \<noteq> []" using Cons.prems(3) by auto
  note s = copy_entry_copying [OF Cons.prems(2) a m1 ne r]
  have t: "copying src dst fs0 (w_fs w') \<and> grown dst (w_fs w1) (w_fs w') \<and>
      (\<forall>r \<in> set rs. map_of (w_fs w') (dst @ r) = map_of fs0 (src @ r))"
    using Cons.IH [OF m2] s Cons.prems(3) by simp
  have "map_of (w_fs w') (dst @ r) = map_of fs0 (src @ r)"
    using s t unfolding grown_def copying_def by metis
  then show ?case using s t grown_trans by auto
qed

lemma walk_members:
  assumes "tree_ok fs"
  shows "map_of fs (p @ q) \<noteq> None \<Longrightarrow> q \<noteq> [] \<Longrightarrow> q \<in> set (walk fs p)"
proof (induction q arbitrary: p)
  case (Cons n q)
  show ?case
  proof (cases "q = []")
    case True
    then have "n \<in> set (names_in fs p)" using Cons.prems(1)
      by (auto simp: names_in_iff dest!: map_of_SomeD intro: rev_image_eqI)
    then show ?thesis by (subst walk.simps) (auto simp: True)
  next
    case False
    have "is_dir_at fs (p @ [n])" using Cons.prems(1) tree_ok_ancestor [OF assms, of "p @ [n]" q] False by auto
    then have d: "map_of fs (p @ [n]) = Some EDir" by (simp add: is_dir_at_def)
    then have n: "n \<in> set (names_in fs p)" by (auto simp: names_in_iff dest!: map_of_SomeD intro: rev_image_eqI)
    have "q \<in> set (walk fs (p @ [n]))" using Cons False by simp
    then show ?thesis using n d by (subst walk.simps) auto
  qed
qed simp

lemma walk_nonempty: "[] \<notin> set (walk fs p)"
  by (subst walk.simps) auto

lemma copy_path_Inr:
  assumes m: "copy_path src dst w = (Inr u, w')" and ok: "tree_ok (w_fs w)" and a: "apart src dst"
    and free: "\<And>q. map_of (w_fs w) (dst @ q) = None" and ne: "dst \<noteq> []"
  shows "map_of (w_fs w') (dst @ q) = map_of (w_fs w) (src @ q)"
proof -
  from m obtain e w1 where s: "symlink_metadata src w = (Inr e, w1)" and k: "(case e of
         EDir \<Rightarrow> copy_dir src dst | EFile bs m \<Rightarrow> copy_file src dst (io_ret m)
       | ELink t \<Rightarrow> copy_symlink src dst | EOther \<Rightarrow> io_err (''unsupported file type '' @ show_path src)) w1 = (Inr u, w')"
    by (auto simp: copy_path_def io_map_err_Inr elim!: io_bind_Inr)
  have w1: "w_fs w1 = w_fs w" and e: "map_of (w_fs w) (src @ []) = Some e" using symlink_metadata_Inr [OF s] by simp_all
  have c1: "copying src dst (w_fs w) (w_fs w1)" using ok free by (simp add: copying_def w1)
  have p: "copying src dst (w_fs w) (w_fs w2) \<and> grown dst (w_fs w1) (w_fs w2)"
    if m2: "create_dir_all (butlast (dst @ [])) w1 = (Inr v, w2)" for v w2
  proof -
    have kp: "keeps (ancestors (butlast dst)) w1 w2" using confinedD [OF confined_create_dir_all] m2 by simp
    have "dst @ q \<notin> ancestors (butlast dst)" for q
      using ne by (auto simp: ancestors_def prefix_def) (metis append_butlast_last_id append_assoc append_self_conv snoc_eq_iff_butlast butlast_append not_Cons_self2)
    then have d: "map_of (w_fs w2) (dst @ q) = None" for q using keepsD(1) [OF kp] free w1 by simp
    have "keeps (spot dst) w1 w2" using keeps_mono [OF kp] ancestors_spot(1) [of dst "[]"] by simp
    from copying_source [OF c1 this a refl] show ?thesis using d by (simp add: copying_def grown_def free w1)
  qed
  have single: "map_of (w_fs w') (dst @ q) = map_of (w_fs w) (src @ q)"
    if c: "copying src dst (w_fs w) (w_fs w')" and d: "map_of (w_fs w') (dst @ []) = Some e" and nd: "e \<noteq> EDir" for q
  proof (cases "q = []")
    case False
    have "map_of (w_fs w') (dst @ q) = None" using file_no_children [of "w_fs w'" dst e q] c d nd False by (simp add: copying_def)
    moreover have "map_of (w_fs w) (src @ q) = None" using file_no_children [OF ok, of src e q] e nd False by simp
    ultimately show ?thesis by simp
  qed (use d e in simp)
  show ?thesis
  proof (cases e)
    case EDir
    then obtain v w2 where m2: "create_dir_all dst w1 = (Inr v, w2)"
      and m3: "io_each (copy_entry src dst) (walk (w_fs w2) src) w2 = (Inr u, w')"
      using k by (auto simp: copy_dir_def io_map_err_Inr elim!: io_seq_Inr)
    have c2: "copying src dst (w_fs w) (w_fs w2)" "map_of (w_fs w2) dst = Some EDir"
      using mkdirs_copying [OF c1 a, of "[]"] e EDir m2 ne by simp_all
    from copy_entries_copying [OF a ne m3 c2(1) walk_nonempty]
    have c3: "copying src dst (w_fs w) (w_fs w')" "grown dst (w_fs w2) (w_fs w')"
      "\<And>r. r \<in> set (walk (w_fs w2) src) \<Longrightarrow> map_of (w_fs w') (dst @ r) = map_of (w_fs w) (src @ r)" by blast+
    have src2: "map_of (w_fs w2) (src @ q) = map_of (w_fs w) (src @ q)" "tree_ok (w_fs w2)" using c2(1) by (simp_all add: copying_def)
    show ?thesis
    proof (cases "q = []")
      case True
      have "map_of (w_fs w') (dst @ []) = None \<or> map_of (w_fs w') (dst @ []) = map_of (w_fs w) (src @ [])"
        using c3(1) unfolding copying_def by blast
      moreover have "map_of (w_fs w') (dst @ []) \<noteq> None" using c3(2) c2(2) unfolding grown_def by (metis append_Nil2 option.discI)
      ultimately show ?thesis unfolding True by argo
    next
      case False
      show ?thesis
      proof (cases "map_of (w_fs w) (src @ q) = None")
        case True
        then show ?thesis using c3(1) by (simp add: copying_def) metis
      next
        case some: False
        show ?thesis using c3(3) walk_members [OF src2(2) _ False] some src2(1) by simp
      qed
    qed
  next
    case (EFile bs m)
    then have cf: "copy_file (src @ []) (dst @ []) (io_ret m) w1 = (Inr u, w')" using k by simp
    have "copying src dst (w_fs w) (w_fs w') \<and> grown dst (w_fs w1) (w_fs w') \<and> map_of (w_fs w') (dst @ []) = Some (EFile bs m)"
      using e EFile by (intro copy_file_copying [OF c1 a _ cf ne p]) (auto simp: io_ret_def)
    then show ?thesis using single EFile by blast
  next
    case (ELink t)
    then have cl: "copy_symlink (src @ []) (dst @ []) w1 = (Inr u, w')" using k by simp
    have "copying src dst (w_fs w) (w_fs w') \<and> grown dst (w_fs w1) (w_fs w') \<and> map_of (w_fs w') (dst @ []) = Some (ELink t)"
      using e ELink by (intro copy_symlink_copying [OF c1 a _ cl ne p]) auto
    then show ?thesis using single ELink by blast
  next
    case EOther
    then show ?thesis using k by (simp add: io_err_def)
  qed
qed

end
