(* ===== verification/RemoteBackup.thy ===== *)
theory RemoteBackup
  imports RemoteFiles
begin

text \<open>
  The operations on all managed directories together: a successful synchronisation makes each of
  them what the remote has, and a successful restore makes each what it was when it was backed up,
  whatever happened outside the backup in between.
\<close>

section \<open>Running an operation for each directory\<close>

definition tree_at :: "file_system \<Rightarrow> path \<Rightarrow> path \<Rightarrow> entry option" where
  "tree_at fs p = (\<lambda>q. map_of fs (p @ q))"

lemma tree_at_keeps: "keeps S w w' \<Longrightarrow> (\<And>q. p @ q \<notin> S) \<Longrightarrow> tree_at (w_fs w') p = tree_at (w_fs w) p"
  by (rule ext) (simp add: tree_at_def keepsD(1))

definition far :: "path \<Rightarrow> path \<Rightarrow> string list \<Rightarrow> bool" where
  "far A B ds = (\<forall>d \<in> set ds. \<forall>d' \<in> set ds. apart (A @ [d]) (B @ [d']))"

lemma sibling_spot: "d \<noteq> d' \<Longrightarrow> (B @ [d]) @ q \<notin> spot (B @ [d'])"
  by (auto simp: spot_def under_def ancestors_def)

lemma io_each_trees:
  assumes conf: "\<And>d. d \<in> set ds \<Longrightarrow> confined (spot (B @ [d])) (f d)"
    and step: "\<And>d w u w'. d \<in> set ds \<Longrightarrow> f d w = (Inr u, w') \<Longrightarrow> tree_ok (w_fs w) \<Longrightarrow> (S \<longrightarrow> sees w) \<Longrightarrow>
      P (tree_at (w_fs w) (A @ [d])) (tree_at (w_fs w) (B @ [d])) \<Longrightarrow>
      tree_at (w_fs w') (B @ [d]) = tree_at (w_fs w) (A @ [d])"
  shows "io_each f ds w = (Inr u, w') \<Longrightarrow> tree_ok (w_fs w) \<Longrightarrow> distinct ds \<Longrightarrow> far A B ds \<Longrightarrow>
    (\<And>d. d \<in> set ds \<Longrightarrow> P (tree_at (w_fs w) (A @ [d])) (tree_at (w_fs w) (B @ [d]))) \<Longrightarrow>
    d \<in> set ds \<Longrightarrow> (S \<longrightarrow> sees w) \<Longrightarrow> tree_at (w_fs w') (B @ [d]) = tree_at (w_fs w) (A @ [d])"
  using conf step
proof (induction ds arbitrary: w d)
  case (Cons a ds)
  from Cons.prems(1) obtain v w1 where m1: "f a w = (Inr v, w1)" and m2: "io_each f ds w1 = (Inr u, w')"
    by (auto elim: io_seq_Inr)
  have k1: "keeps (spot (B @ [a])) w w1" using confinedD [OF Cons.prems(8) m1] by simp
  have ok1: "tree_ok (w_fs w1)" using keepsD(2) [OF k1 Cons.prems(2)] .
  have s1: "S \<longrightarrow> sees w1" using keepsD(4) [OF k1] Cons.prems(7) by blast
  have src: "tree_at (w_fs w1) (A @ [b]) = tree_at (w_fs w) (A @ [b])" if "b \<in> set (a # ds)" for b
    using that Cons.prems(4) by (intro tree_at_keeps [OF k1] apart_spot) (auto simp: far_def)
  have sib: "tree_at (w_fs w1) (B @ [b]) = tree_at (w_fs w) (B @ [b])" if "b \<noteq> a" for b
    by (rule tree_at_keeps [OF k1]) (rule sibling_spot [OF that])
  have far: "far A B ds" using Cons.prems(4) by (simp add: far_def)
  have a: "a \<notin> set ds" "distinct ds" using Cons.prems(3) by auto
  have rest: "tree_at (w_fs w') (B @ [b]) = tree_at (w_fs w1) (A @ [b])" if "b \<in> set ds" for b
  proof (rule Cons.IH [OF m2 ok1 a(2) far _ that s1])
    show "P (tree_at (w_fs w1) (A @ [c])) (tree_at (w_fs w1) (B @ [c]))" if "c \<in> set ds" for c
    proof -
      have "c \<noteq> a" using a(1) that by auto
      then show ?thesis using Cons.prems(5) [of c] src [of c] sib [of c] that by simp
    qed
  qed (use Cons.prems(8,9) in auto)
  show ?case
  proof (cases "d = a")
    case True
    have "confined (\<Union>b \<in> set ds. spot (B @ [b])) (io_each f ds)"
      by (intro confined_intros) (use Cons.prems(8) in \<open>auto intro: confined_mono\<close>)
    then have k2: "keeps (\<Union>b \<in> set ds. spot (B @ [b])) w1 w'" using m2 by (rule confinedD)
    have "(B @ [a]) @ q \<notin> (\<Union>b \<in> set ds. spot (B @ [b]))" for q
    proof
      assume "(B @ [a]) @ q \<in> (\<Union>b \<in> set ds. spot (B @ [b]))"
      then obtain b where b: "b \<in> set ds" "(B @ [a]) @ q \<in> spot (B @ [b])" by (rule UN_E)
      then have "a \<noteq> b" using a(1) by auto
      from sibling_spot [OF this] b(2) show False by blast
    qed
    then have "tree_at (w_fs w') (B @ [a]) = tree_at (w_fs w1) (B @ [a])" by (rule tree_at_keeps [OF k2])
    also have "\<dots> = tree_at (w_fs w) (A @ [a])" using Cons.prems(5) [of a] by (intro Cons.prems(9) [OF _ m1 Cons.prems(2,7)]) simp_all
    finally show ?thesis by (simp add: True)
  next
    case False
    then show ?thesis using rest [of d] src [of d] Cons.prems(6) by simp
  qed
qed simp

lemma confined_each_dir:
  assumes "\<And>d. d \<in> set ds \<Longrightarrow> confined (spot (B @ [d])) (f d)"
  shows "confined (\<Union>d \<in> set ds. spot (B @ [d])) (io_each f ds)"
  by (intro confined_intros) (use assms in \<open>auto intro: confined_mono\<close>)

lemma spot_top: "spot [d] = under [d]"
  by (auto simp: spot_def under_def ancestors_def prefix_Cons)

lemma confined_remove_top: "confined (spot [d]) (remove_path [d])"
  using confined_remove_path [of "[d]"] by (simp add: spot_top)

lemma copy_path_tree:
  assumes "copy_path src dst w = (Inr u, w')" "tree_ok (w_fs w)" "apart src dst" "tree_at (w_fs w) dst = (\<lambda>q. None)" "dst \<noteq> []"
  shows "tree_at (w_fs w') dst = tree_at (w_fs w) src"
  using copy_path_Inr [OF assms(1-3) _ assms(5)] assms(4) by (auto simp: tree_at_def fun_eq_iff)

lemma remove_path_tree:
  "remove_path p w = (Inr u, w') \<Longrightarrow> tree_ok (w_fs w) \<Longrightarrow> p \<noteq> [] \<Longrightarrow> tree_at (w_fs w') p = (\<lambda>q. None)"
  by (rule ext) (simp add: tree_at_def map_of_remove_path)

section \<open>Synchronisation\<close>

lemma confined_if_const [confined_intros]: "confined S a \<Longrightarrow> confined S b \<Longrightarrow> confined S (if c then a else b)"
  by simp

lemma confined_sync_dir: "confined (spot [d]) (sync_dir follows remote d)"
  unfolding sync_dir_def
  by (intro confined_seq confined_bind confined_exists confined_remove_top confined_if_const confined_ret confined_copy_path) simp

definition not_a_link :: "entry option \<Rightarrow> bool" where
  "not_a_link e = (case e of Some (ELink t) \<Rightarrow> False | _ \<Rightarrow> True)"

lemma exists_at_not_link: "not_a_link (map_of fs p) \<Longrightarrow> exists_at follows fs p = (map_of fs p \<noteq> None)"
  by (auto simp: not_a_link_def exists_at_def split: option.splits entry.splits)

lemma tree_at_None:
  assumes "tree_ok fs" "map_of fs p = None" "p \<noteq> []"
  shows "tree_at fs p = (\<lambda>q. None)"
proof (rule ext, rule ccontr)
  fix q assume "tree_at fs p q \<noteq> None"
  then obtain e where e: "map_of fs (p @ q) = Some e" by (auto simp: tree_at_def)
  then have "q \<noteq> []" using assms(2) by auto
  from tree_ok_ancestor [OF assms(1) e this] show False using assms(2,3) by (simp add: is_dir_at_def)
qed

lemma sync_dir_tree:
  assumes m: "sync_dir follows remote d w = (Inr u, w')" and ok: "tree_ok (w_fs w)"
    and nl: "not_a_link (tree_at (w_fs w) (remote @ [d]) [])" and a: "apart (remote @ [d]) [d]" and sees: "sees w"
  shows "tree_at (w_fs w') [d] = tree_at (w_fs w) (remote @ [d])"
proof -
  from m obtain v w0 there w1 where m1: "remove_path [d] w = (Inr v, w0)"
    and e: "path_exists follows (remote @ [d]) w0 = (Inr there, w1)"
    and m2': "(if there then copy_path (remote @ [d]) [d] else io_ret ()) w1 = (Inr u, w')"
    by (auto simp: sync_dir_def elim!: io_seq_Inr io_bind_Inr)
  have k0: "keeps (spot [d]) w w0" using confinedD [OF confined_remove_top m1] .
  note ex1 = path_exists_sees [OF e keepsD(4) [OF k0 sees]]
  have fs: "w_fs w1 = w_fs w0" and there: "there = exists_at follows (w_fs w1) (remote @ [d])" using ex1 by simp_all
  have m2: "(if exists_at follows (w_fs w1) (remote @ [d]) then copy_path (remote @ [d]) [d] w1 else io_ret () w1) = (Inr u, w')"
    using m2' there by (simp split: if_splits)
  have src: "tree_at (w_fs w1) (remote @ [d]) = tree_at (w_fs w) (remote @ [d])"
    unfolding fs by (rule tree_at_keeps [OF k0]) (rule apart_spot [OF a])
  have ok1: "tree_ok (w_fs w1)" using keepsD(2) [OF k0 ok] fs by simp
  have free: "tree_at (w_fs w1) [d] = (\<lambda>q. None)" using remove_path_tree [OF m1 ok] fs by simp
  have ex: "exists_at follows (w_fs w1) (remote @ [d]) = (map_of (w_fs w1) (remote @ [d]) \<noteq> None)"
    using nl src by (intro exists_at_not_link) (metis append_Nil2 tree_at_def)
  show ?thesis
  proof (cases "map_of (w_fs w1) (remote @ [d]) = None")
    case True
    then show ?thesis using m2 ex free src tree_at_None [OF ok1 True] by (simp add: io_ret_def)
  next
    case False
    then show ?thesis using m2 ex copy_path_tree [OF _ ok1 a free] src by simp
  qed
qed

theorem sync_managed_dirs_trees:
  assumes m: "sync_managed_dirs follows remote dirs w = (Inr u, w')" and ok: "tree_ok (w_fs w)" and d: "distinct dirs"
    and far: "far remote [] dirs" and nl: "\<And>d. d \<in> set dirs \<Longrightarrow> not_a_link (map_of (w_fs w) (remote @ [d]))"
    and i: "d \<in> set dirs" and sees: "sees w"
  shows "tree_at (w_fs w') [d] = tree_at (w_fs w) (remote @ [d])"
proof -
  have "tree_at (w_fs w') ([] @ [d]) = tree_at (w_fs w) (remote @ [d])"
  proof (rule io_each_trees [where f = "sync_dir follows remote" and ds = dirs and w = w and S = True and P = "\<lambda>src dst. not_a_link (src [])"])
    show "tree_at (w_fs w2) ([] @ [c]) = tree_at (w_fs w1) (remote @ [c])"
      if "c \<in> set dirs" "sync_dir follows remote c w1 = (Inr v, w2)" "tree_ok (w_fs w1)" "True \<longrightarrow> sees w1" "not_a_link (tree_at (w_fs w1) (remote @ [c]) [])"
      for c v and w1 w2 :: "world"
      using sync_dir_tree [OF that(2,3,5)] far that(1,4) by (simp add: far_def)
  qed (use m ok d far nl i sees in \<open>simp_all add: confined_sync_dir sync_managed_dirs_def tree_at_def\<close>)
  then show ?thesis by simp
qed

section \<open>Backup and restore\<close>

definition backup_one :: "(file_system \<Rightarrow> path \<Rightarrow> bool) \<Rightarrow> string \<Rightarrow> (string, unit) io" where
  "backup_one follows d =
     io_bind (path_exists follows [d]) (\<lambda>there. if there then copy_path [d] (backup_path @ [d]) else io_ret ())"

lemma backup_each_one:
  "backup_each follows ds w = (Inr es, w') \<Longrightarrow> io_each (backup_one follows) ds w = (Inr (), w')"
proof (induction ds arbitrary: w es)
  case (Cons d ds)
  obtain there w0 where e: "path_exists follows [d] w = (Inr there, w0)" by (simp add: path_exists_def)
  show ?case
  proof (cases there)
    case True
    then obtain v w1 fs' where "copy_path [d] (backup_path @ [d]) w0 = (Inr v, w1)" "backup_each follows ds w1 = (Inr fs', w')"
      using Cons.prems e by (auto simp: io_ret_def io_bind_def [of "path_exists follows [d]"] elim!: io_seq_Inr io_bind_Inr)
    then show ?thesis using Cons.IH True e by (simp add: io_seq_def io_bind_def backup_one_def)
  next
    case False
    then show ?thesis using Cons e by (simp add: io_seq_def io_bind_def backup_one_def io_ret_def)
  qed
qed (simp add: io_ret_def)

lemma confined_backup_one: "confined (spot (backup_path @ [d])) (backup_one follows d)"
  unfolding backup_one_def by (intro confined_bind confined_exists confined_if_const confined_copy_path confined_ret) simp

lemma backup_each_confined:
  "confined (\<Union>d \<in> set ds. spot (backup_path @ [d])) (backup_each follows ds)"
proof (induction ds)
  case Nil
  then show ?case by (simp add: confined_ret)
next
  case (Cons d ds)
  have "spot (backup_path @ [d]) \<subseteq> (\<Union>d \<in> set (d # ds). spot (backup_path @ [d]))"
    "(\<Union>d \<in> set ds. spot (backup_path @ [d])) \<subseteq> (\<Union>d \<in> set (d # ds). spot (backup_path @ [d]))" by auto
  note c = confined_mono [OF confined_copy_path this(1)] confined_mono [OF Cons this(2)]
  show ?case by (subst backup_each.simps) (intro confined_intros c; simp)
qed

lemma top_not_in_backup: "d \<noteq> ''.run'' \<Longrightarrow> [d] @ q \<notin> spot (backup_path @ r)"
  by (auto simp: spot_def under_def ancestors_def backup_path_def prefix_Cons)

lemma backup_each_names:
  "backup_each follows ds w = (Inr es, w') \<Longrightarrow> ''.run'' \<notin> set ds \<Longrightarrow> (\<And>d. d \<in> set ds \<Longrightarrow> not_a_link (map_of (w_fs w) [d])) \<Longrightarrow>
     sees w \<Longrightarrow> es = filter (\<lambda>d. map_of (w_fs w) [d] \<noteq> None) ds"
proof (induction ds arbitrary: w es)
  case (Cons d ds)
  obtain there w0 where e: "path_exists follows [d] w = (Inr there, w0)" by (simp add: path_exists_def)
  note ex0 = path_exists_sees [OF e Cons.prems(4)]
  have ex: "there = (map_of (w_fs w) [d] \<noteq> None)" and fs: "w_fs w0 = w_fs w" and s0: "sees w0"
    using ex0 exists_at_not_link [of "w_fs w" "[d]" follows] Cons.prems(3) by simp_all
  show ?case
  proof (cases "map_of (w_fs w) [d] = None")
    case True
    have "es = filter (\<lambda>d. map_of (w_fs w0) [d] \<noteq> None) ds"
      using Cons.prems True ex e fs by (intro Cons.IH [OF _ _ _ s0]) (simp_all add: io_bind_def)
    then show ?thesis using True fs by simp
  next
    case False
    then obtain v w1 fs' where m: "copy_path [d] (backup_path @ [d]) w0 = (Inr v, w1)" "backup_each follows ds w1 = (Inr fs', w')"
        "es = d # fs'"
      using Cons.prems(1) ex e by (auto simp: io_ret_def io_bind_def [of "path_exists follows [d]"] elim!: io_seq_Inr io_bind_Inr)
    have k1: "keeps (spot (backup_path @ [d])) w0 w1" by (rule confinedD [OF confined_copy_path m(1)]) simp
    have same: "map_of (w_fs w1) [c] = map_of (w_fs w) [c]" if "c \<in> set ds" for c
      using keepsD(1) [OF k1, of "[c]"] top_not_in_backup [of c "[]"] Cons.prems(2) that fs by auto
    have "fs' = filter (\<lambda>d. map_of (w_fs w1) [d] \<noteq> None) ds"
      using Cons.prems(2,3) same keepsD(4) [OF k1 s0] by (intro Cons.IH [OF m(2)]) auto
    also have "\<dots> = filter (\<lambda>d. map_of (w_fs w) [d] \<noteq> None) ds" by (rule filter_cong) (simp_all add: same)
    finally show ?thesis using m(3) False by simp
  qed
qed (simp add: io_ret_def)

definition backed_up :: "string list codec \<Rightarrow> string list \<Rightarrow> file_system \<Rightarrow> file_system \<Rightarrow> bool" where
  "backed_up J dirs fs0 fs =
     ((\<exists>m. map_of fs backup_manifest_path = Some (EFile (encode J (filter (\<lambda>d. map_of fs0 [d] \<noteq> None) dirs)) m)) \<and>
      (\<forall>d \<in> set dirs. tree_at fs (backup_path @ [d]) = tree_at fs0 [d]))"

definition plain_dirs :: "string list \<Rightarrow> bool" where
  "plain_dirs dirs = (distinct dirs \<and> ''.run'' \<notin> set dirs \<and> ''manifest.json'' \<notin> set dirs)"

lemma plain_managed: "plain_dirs (managed_dirs_for g)"
  by (simp add: plain_dirs_def managed_dirs_for_def split: option.split remote_group.split)

lemma far_backup: "''.run'' \<notin> set ds \<Longrightarrow> far [] backup_path ds" "''.run'' \<notin> set ds \<Longrightarrow> far backup_path [] ds"
  by (auto simp: far_def apart_def backup_path_def)

lemma fs_write_Inr: "fs_write p bs w = (Inr u, w') \<Longrightarrow> \<exists>m. w_fs w' = put p (EFile bs m) (w_fs w)"
  by (auto simp: fs_write_def store_def dest!: sys_Inr split: option.splits entry.splits if_splits intro!: exI dest!: sym [of "put _ _ _"])

lemma backup_spots:
  "under backup_path \<subseteq> spot backup_path" "ancestors backup_path \<subseteq> spot backup_path"
  "spot (backup_path @ [d]) \<subseteq> spot backup_path" "{backup_manifest_path} \<subseteq> spot backup_path"
  using under_spot(1) [of backup_path "[d]"] ancestors_spot(2) [of backup_path "[d]"]
    under_spot(2) [of backup_path "[''manifest.json'']"]
  by (auto simp: spot_def backup_manifest_path_def)

lemma confined_backup: "confined (spot backup_path) (backup_managed_dirs J follows dirs)"
  unfolding backup_managed_dirs_def
  by (intro confined_intros confined_mono [OF confined_remove_path] confined_mono [OF confined_create_dir_all]
      confined_mono [OF backup_each_confined] confined_mono [OF confined_write] backup_spots UN_least)
    (simp add: backup_manifest_path_def)

lemma backup_one_tree:
  assumes m: "backup_one follows d w = (Inr u, w')" and ok: "tree_ok (w_fs w)" and r: "d \<noteq> ''.run''"
    and nl: "not_a_link (tree_at (w_fs w) [d] [])" and free: "tree_at (w_fs w) (backup_path @ [d]) = (\<lambda>q. None)" and sees: "sees w"
  shows "tree_at (w_fs w') (backup_path @ [d]) = tree_at (w_fs w) [d]"
proof -
  obtain there w0 where e: "path_exists follows [d] w = (Inr there, w0)" by (simp add: path_exists_def)
  note ex0 = path_exists_sees [OF e sees]
  have fs: "w_fs w0 = w_fs w" and k: "(if exists_at follows (w_fs w) [d] then copy_path [d] (backup_path @ [d]) else io_ret ()) w0 = (Inr u, w')"
    using ex0 m e by (simp_all add: backup_one_def io_bind_def)
  have ex: "exists_at follows (w_fs w) [d] = (map_of (w_fs w) [d] \<noteq> None)"
    using nl by (intro exists_at_not_link) (simp add: tree_at_def)
  have a: "apart [d] (backup_path @ [d])" using r by (auto simp: apart_def backup_path_def)
  show ?thesis
  proof (cases "map_of (w_fs w) [d] = None")
    case True
    then show ?thesis using k ex free fs tree_at_None [OF ok True] by (simp add: io_ret_def)
  next
    case False
    then have "copy_path [d] (backup_path @ [d]) w0 = (Inr u, w')" using k ex by simp
    from copy_path_tree [OF this _ a] show ?thesis using ok free fs by simp
  qed
qed

lemma backup_Inr:
  assumes m: "backup_managed_dirs J follows dirs w = (Inr u, w')" and ok: "tree_ok (w_fs w)" and pl: "plain_dirs dirs"
    and nl: "\<And>d. d \<in> set dirs \<Longrightarrow> not_a_link (map_of (w_fs w) [d])" and sees: "sees w"
  shows "backed_up J dirs (w_fs w) (w_fs w')"
proof -
  from m obtain u1 a u2 b es c where m1: "remove_path backup_path w = (Inr u1, a)"
    and m2: "create_dir_all backup_path a = (Inr u2, b)" and m3: "backup_each follows dirs b = (Inr es, c)"
    and m4: "fs_write backup_manifest_path (encode J es) c = (Inr u, w')"
    by (auto simp: backup_managed_dirs_def io_map_err_Inr elim!: io_seq_Inr io_bind_Inr)
  have k1: "keeps (spot backup_path) w a" using keeps_mono [OF confinedD [OF confined_remove_path m1] backup_spots(1)] .
  have k2: "keeps (ancestors backup_path) a b" using confinedD [OF confined_create_dir_all m2] .
  have k12: "keeps (spot backup_path) w b" using keeps_trans [OF k1 keeps_mono [OF k2 backup_spots(2)]] .
  have okb: "tree_ok (w_fs b)" using keepsD(2) [OF k12 ok] .
  have sb: "sees b" using keepsD(4) [OF k12 sees] .
  have run: "d \<noteq> ''.run''" "d \<noteq> ''manifest.json''" if "d \<in> set dirs" for d using pl that by (auto simp: plain_dirs_def)
  have top: "tree_at (w_fs b) [d] = tree_at (w_fs w) [d]" if "d \<in> set dirs" for d
    using top_not_in_backup [OF run(1) [OF that], of _ "[]"] by (intro tree_at_keeps [OF k12]) simp
  have top0: "map_of (w_fs b) [d] = map_of (w_fs w) [d]" if "d \<in> set dirs" for d
    using fun_cong [OF top [OF that], of "[]"] by (simp add: tree_at_def)
  have free: "tree_at (w_fs b) (backup_path @ [d]) = (\<lambda>q. None)" for d
  proof -
    have "tree_at (w_fs b) (backup_path @ [d]) = tree_at (w_fs a) (backup_path @ [d])"
      by (rule tree_at_keeps [OF k2]) (simp add: ancestors_def)
    also have "\<dots> = (\<lambda>q. None)"
      using remove_path_tree [OF m1 ok] by (auto simp: tree_at_def backup_path_def fun_eq_iff)
    finally show ?thesis .
  qed
  have nlb: "not_a_link (map_of (w_fs b) [d])" if "d \<in> set dirs" for d using nl that by (simp add: top0)
  have es: "es = filter (\<lambda>d. map_of (w_fs w) [d] \<noteq> None) dirs"
  proof -
    have "es = filter (\<lambda>d. map_of (w_fs b) [d] \<noteq> None) dirs"
      using run nlb sb by (intro backup_each_names [OF m3]) auto
    also have "\<dots> = filter (\<lambda>d. map_of (w_fs w) [d] \<noteq> None) dirs" by (rule filter_cong) (simp_all add: top0)
    finally show ?thesis .
  qed
  have copied: "tree_at (w_fs c) (backup_path @ [d]) = tree_at (w_fs b) ([] @ [d])" if "d \<in> set dirs" for d
  proof (rule io_each_trees [where f = "backup_one follows" and ds = dirs
        and S = True and P = "\<lambda>src dst. not_a_link (src []) \<and> dst = (\<lambda>q. None)"])
    show "io_each (backup_one follows) dirs b = (Inr (), c)" using backup_each_one [OF m3] .
    show "far [] backup_path dirs" using far_backup run by auto
    show "not_a_link (tree_at (w_fs b) ([] @ [d]) []) \<and> tree_at (w_fs b) (backup_path @ [d]) = (\<lambda>q. None)"
      if "d \<in> set dirs" for d using nlb [OF that] free by (simp add: tree_at_def)
    show "tree_at (w_fs w2) (backup_path @ [d]) = tree_at (w_fs w1) ([] @ [d])"
      if "d \<in> set dirs" "backup_one follows d w1 = (Inr v, w2)" "tree_ok (w_fs w1)" "True \<longrightarrow> sees w1"
        "not_a_link (tree_at (w_fs w1) ([] @ [d]) []) \<and> tree_at (w_fs w1) (backup_path @ [d]) = (\<lambda>q. None)"
      for d v and w1 w2 :: "world"
      using backup_one_tree [OF that(2,3) run(1) [OF that(1)]] that(4,5) by simp
  qed (use okb pl that sb in \<open>simp_all add: confined_backup_one plain_dirs_def\<close>)
  obtain k where w': "w_fs w' = put backup_manifest_path (EFile (encode J es) k) (w_fs c)" using fs_write_Inr [OF m4] by blast
  have "tree_at (w_fs w') (backup_path @ [d]) = tree_at (w_fs w) [d]" if "d \<in> set dirs" for d
  proof -
    have "tree_at (w_fs w') (backup_path @ [d]) = tree_at (w_fs c) (backup_path @ [d])"
      using run(2) [OF that] by (auto simp: tree_at_def w' backup_manifest_path_def fun_eq_iff)
    then show ?thesis using copied [OF that] top [OF that] by simp
  qed
  then show ?thesis by (auto simp: backed_up_def w' es)
qed

lemma remove_each_None:
  "io_each (\<lambda>d. remove_path [d]) ds w = (Inr u, w') \<Longrightarrow> tree_ok (w_fs w) \<Longrightarrow> d \<in> set ds \<Longrightarrow>
     tree_at (w_fs w') [d] = (\<lambda>q. None)"
proof (induction ds arbitrary: w)
  case (Cons a ds)
  from Cons.prems(1) obtain v w1 where m1: "remove_path [a] w = (Inr v, w1)"
    and m2: "io_each (\<lambda>d. remove_path [d]) ds w1 = (Inr u, w')" by (auto elim: io_seq_Inr)
  have ok1: "tree_ok (w_fs w1)" using keepsD(2) [OF confinedD [OF confined_remove_path m1] Cons.prems(2)] .
  show ?case
  proof (cases "d \<in> set ds")
    case False
    then have d: "d = a" using Cons.prems(3) by simp
    have c: "keeps (\<Union>b \<in> set ds. spot ([] @ [b])) w1 w'"
      by (rule confinedD [OF confined_each_dir [where B = "[]"] m2]) (simp add: confined_remove_top)
    have "tree_at (w_fs w') [a] = tree_at (w_fs w1) [a]"
      using False d by (intro tree_at_keeps [OF c]) (auto simp: spot_top under_def)
    then show ?thesis using remove_path_tree [OF m1 Cons.prems(2)] d by simp
  qed (use Cons.IH [OF m2 ok1] in simp)
qed simp

lemma restore_Inr:
  assumes m: "restore_managed_dirs J dirs w = (Inr u, w')" and bk: "backed_up J dirs fs0 (w_fs w)"
    and J: "codec_laws J" and pl: "plain_dirs dirs" and ok: "tree_ok (w_fs w)" and ok0: "tree_ok fs0" and i: "d \<in> set dirs"
  shows "tree_at (w_fs w') [d] = tree_at fs0 [d]"
proof -
  define es where "es = filter (\<lambda>d. map_of fs0 [d] \<noteq> None) dirs"
  obtain k where man: "map_of (w_fs w) backup_manifest_path = Some (EFile (encode J es) k)"
    using bk by (auto simp: backed_up_def es_def)
  obtain x w1 where x: "fs_read backup_manifest_path w = (x, w1)" by fastforce
  have "x \<noteq> Inl IoNotFound" using x man sys_Inl_NotFound [of unharmed "\<lambda>fs. (read_file fs backup_manifest_path, fs)" w w1]
    by (auto simp: fs_read_def read_file_def)
  then obtain body where body: "x = Inr body" using m x by (auto simp: restore_managed_dirs_def split: sum.splits io_error.splits)
  have r: "read_file (w_fs w) backup_manifest_path = Inr body" "w_fs w1 = w_fs w"
    using x body by (auto simp: fs_read_def dest!: sys_Inr)
  then have dec: "decode J body = Inr es" using man J by (auto simp: read_file_def codec_laws_def)
  have sub: "set es \<subseteq> set dirs" by (auto simp: es_def)
  then have "find_first (\<lambda>d. d \<notin> set dirs) es = None" by (auto simp: find_first_None)
  then obtain v w2 where m1: "io_each (\<lambda>d. remove_path [d]) dirs w1 = (Inr v, w2)"
    and m2: "io_each (\<lambda>d. copy_path (backup_path @ [d]) [d]) es w2 = (Inr u, w')"
    using m by (auto simp: restore_managed_dirs_def x body dec elim: io_seq_Inr)
  have run: "''.run'' \<notin> set dirs" "distinct dirs" using pl by (auto simp: plain_dirs_def)
  have k1: "keeps (\<Union>b \<in> set dirs. spot ([] @ [b])) w1 w2"
    by (rule confinedD [OF confined_each_dir [where B = "[]"] m1]) (simp add: confined_remove_top)
  have ok1: "tree_ok (w_fs w1)" using ok r(2) by simp
  have ok2: "tree_ok (w_fs w2)" using keepsD(2) [OF k1 ok1] .
  have free: "tree_at (w_fs w2) [c] = (\<lambda>q. None)" if "c \<in> set dirs" for c using remove_each_None [OF m1 ok1 that] .
  have src: "tree_at (w_fs w2) (backup_path @ [c]) = tree_at fs0 [c]" if "c \<in> set dirs" for c
  proof -
    have "tree_at (w_fs w2) (backup_path @ [c]) = tree_at (w_fs w1) (backup_path @ [c])"
      using run by (intro tree_at_keeps [OF k1]) (auto simp: spot_top under_def backup_path_def)
    then show ?thesis using bk that r(2) by (simp add: backed_up_def)
  qed
  have cp: "tree_at (w_fs w') ([] @ [c]) = tree_at (w_fs w2) (backup_path @ [c])" if "c \<in> set es" for c
  proof (rule io_each_trees [OF _ _ m2, where S = False and P = "\<lambda>src dst. dst = (\<lambda>q. None)"])
    show "distinct es" using run(2) by (simp add: es_def)
    show "far backup_path [] es" using far_backup(2) [of es] run(1) sub by blast
    show "tree_at (w_fs w4) ([] @ [c]) = tree_at (w_fs w3) (backup_path @ [c])"
      if "c \<in> set es" "copy_path (backup_path @ [c]) [c] w3 = (Inr v, w4)" "tree_ok (w_fs w3)" "tree_at (w_fs w3) ([] @ [c]) = (\<lambda>q. None)"
      for c v and w3 w4 :: "world"
      using copy_path_tree [OF that(2,3)] far_backup(2) [OF run(1)] that(1,4) sub by (simp add: far_def subset_iff)
  qed (use ok2 that free sub in \<open>auto simp: confined_copy_path\<close>)
  show ?thesis
  proof (cases "d \<in> set es")
    case True
    then show ?thesis using cp [OF True] src [OF i] by simp
  next
    case False
    then have n: "map_of fs0 [d] = None" using i by (simp add: es_def)
    have k2: "keeps (\<Union>b \<in> set es. spot ([] @ [b])) w2 w'"
      by (rule confinedD [OF confined_each_dir [where B = "[]"] m2]) (simp add: confined_copy_path)
    have "tree_at (w_fs w') [d] = tree_at (w_fs w2) [d]"
      using False by (intro tree_at_keeps [OF k2]) (auto simp: spot_top under_def)
    then show ?thesis using free [OF i] tree_at_None [OF ok0 n] by simp
  qed
qed

end
