(* ===== verification/RemoteCompare.thy ===== *)
theory RemoteCompare
  imports RemoteBackup
begin

text \<open>
  When \<open>paths_equal\<close> answers, its answer is whether the two trees have the same content: the same
  names, types, file bytes and link targets, permission bits apart, provided no link dangles and no
  existence query fails.
\<close>

section \<open>Comparing trees\<close>

text \<open>Two trees have the same content when they agree up to the permission bits of their files.\<close>

definition shape :: "entry \<Rightarrow> entry" where
  "shape e = (case e of EFile bs m \<Rightarrow> EFile bs 0 | _ \<Rightarrow> e)"

definition same_content :: "file_system \<Rightarrow> path \<Rightarrow> path \<Rightarrow> bool" where
  "same_content fs l r = (\<forall>q. map_option shape (tree_at fs l q) = map_option shape (tree_at fs r q))"

definition links_alive :: "(file_system \<Rightarrow> path \<Rightarrow> bool) \<Rightarrow> file_system \<Rightarrow> path \<Rightarrow> bool" where
  "links_alive follows fs p = (\<forall>q t. tree_at fs p q = Some (ELink t) \<longrightarrow> follows fs (p @ q))"

lemma links_alive_child: "links_alive follows fs p \<Longrightarrow> links_alive follows fs (p @ [n])"
  unfolding links_alive_def tree_at_def by (metis append_assoc)

lemma exists_at_alive: "links_alive follows fs p \<Longrightarrow> exists_at follows fs p = (map_of fs p \<noteq> None)"
  unfolding links_alive_def tree_at_def exists_at_def
  by (auto split: option.splits entry.splits) (metis append_Nil2)

lemma reads_bind_Inr:
  assumes "reads_bind m f fl = (Inr x, fl')"
  obtains y fl1 where "m fl = (Inr y, fl1)" and "f y fl1 = (Inr x, fl')"
  using assms by (auto simp: reads_bind_def split: prod.splits sum.splits)

lemma same_content_dirs:
  assumes ok: "tree_ok fs" and d: "map_of fs l = Some EDir" "map_of fs r = Some EDir"
  shows "same_content fs l r \<longleftrightarrow> (\<forall>n. same_content fs (l @ [n]) (r @ [n]))"
proof
  assume "same_content fs l r"
  then show "\<forall>n. same_content fs (l @ [n]) (r @ [n])" by (simp add: same_content_def tree_at_def)
next
  assume a: "\<forall>n. same_content fs (l @ [n]) (r @ [n])"
  have "map_option shape (tree_at fs l q) = map_option shape (tree_at fs r q)" for q
    using a d by (cases q) (simp_all add: same_content_def tree_at_def)
  then show "same_content fs l r" by (simp add: same_content_def)
qed

lemma same_content_leaf:
  assumes ok: "tree_ok fs" and d: "map_of fs l = Some a" "map_of fs r = Some b" "a \<noteq> EDir" "b \<noteq> EDir"
  shows "same_content fs l r \<longleftrightarrow> shape a = shape b"
proof
  assume "same_content fs l r"
  then have "map_option shape (tree_at fs l []) = map_option shape (tree_at fs r [])" unfolding same_content_def by blast
  then show "shape a = shape b" using d by (simp add: tree_at_def)
next
  assume s: "shape a = shape b"
  have "map_option shape (tree_at fs l q) = map_option shape (tree_at fs r q)" for q
    using s d file_no_children [OF ok d(1,3), of q] file_no_children [OF ok d(2,4), of q] by (cases "q = []") (simp_all add: tree_at_def)
  then show "same_content fs l r" by (simp add: same_content_def)
qed

lemma same_content_root: "same_content fs l r \<Longrightarrow> map_option shape (map_of fs l) = map_option shape (map_of fs r)"
  unfolding same_content_def tree_at_def by (metis append_Nil2)

lemma same_content_child: "same_content fs l r \<Longrightarrow> same_content fs (l @ [n]) (r @ [n])"
  by (simp add: same_content_def tree_at_def)

lemma stat_at_Inr: "stat_at fs p fl = (Inr e, fl') \<Longrightarrow> map_of fs p = Some e"
  by (auto simp: stat_at_def dest!: reading_Inr split: option.splits)

lemma link_at_Inr: "link_at fs p fl = (Inr t, fl') \<Longrightarrow> map_of fs p = Some (ELink t)"
  by (auto simp: link_at_def dest!: reading_Inr split: option.splits entry.splits)

lemma file_bytes_equal_Inr:
  "file_bytes_equal fs l r fl = (Inr b, fl') \<Longrightarrow> map_of fs l = Some (EFile x m) \<Longrightarrow> map_of fs r = Some (EFile y k) \<Longrightarrow> b = (x = y)"
  by (auto simp: file_bytes_equal_def read_file_def elim!: reads_bind_Inr dest!: reading_Inr)

lemma names_in_map: "n \<in> set (names_in fs p) \<longleftrightarrow> map_of fs (p @ [n]) \<noteq> None"
  by (simp add: names_in_iff map_of_eq_None_iff)

lemma same_shape_type: "\<not> same_type a c \<Longrightarrow> shape a \<noteq> shape c"
  by (auto simp: same_type_def shape_def split: entry.splits)

text \<open>A read uses up failures to come, so when none of the existence queries is to fail none is after it.\<close>

abbreviation all_seen :: "pending \<Rightarrow> bool" where
  "all_seen fl \<equiv> True \<notin> set (snd fl)"

definition reads_keep :: "'a reads \<Rightarrow> bool" where
  "reads_keep m = (\<forall>fl r fl'. m fl = (r, fl') \<longrightarrow> all_seen fl \<longrightarrow> all_seen fl')"

named_theorems reads_keep_intros \<open>reads that use up failures\<close>

lemma reads_keepD: "reads_keep m \<Longrightarrow> m fl = (r, fl') \<Longrightarrow> all_seen fl \<Longrightarrow> all_seen fl'"
  unfolding reads_keep_def by blast

lemma reads_keep_pair [reads_keep_intros]: "reads_keep (Pair r)"
  by (simp add: reads_keep_def)

lemma reads_keep_reading [reads_keep_intros]: "reads_keep (reading what r)"
  by (simp add: reads_keep_def reading_def)

lemma reads_keep_exists [reads_keep_intros]: "reads_keep (exists_read follows fs p)"
  by (simp add: reads_keep_def exists_read_def not_in_tl)

lemma reads_bind_cases:
  assumes "reads_bind m f fl = (r, fl')"
  obtains (err) e where "m fl = (Inl e, fl')" and "r = Inl e"
    | (ok) x fl1 where "m fl = (Inr x, fl1)" and "f x fl1 = (r, fl')"
  using assms by (auto simp: reads_bind_def split: prod.splits sum.splits)

lemma reads_keep_bind [reads_keep_intros]:
  assumes "reads_keep m" "\<And>x. \<exists>fl fl'. m fl = (Inr x, fl') \<Longrightarrow> reads_keep (f x)"
  shows "reads_keep (reads_bind m f)"
  unfolding reads_keep_def
proof (intro allI impI)
  fix fl r fl' assume m: "reads_bind m f fl = (r, fl')" and s: "all_seen fl"
  from m show "all_seen fl'"
  proof (cases rule: reads_bind_cases)
    case (err e)
    then show ?thesis using reads_keepD [OF assms(1)] s by blast
  next
    case (ok x fl1)
    then have "reads_keep (f x)" using assms(2) by blast
    then show ?thesis using ok reads_keepD [OF assms(1) ok(1) s] reads_keepD by blast
  qed
qed

lemma reads_keep_all [reads_keep_intros]: "(\<And>x. x \<in> set xs \<Longrightarrow> reads_keep (f x)) \<Longrightarrow> reads_keep (all_equal f xs)"
proof (induction xs)
  case (Cons x xs)
  have "reads_keep (if b then all_equal f xs else Pair (Inr False))" for b
    using Cons by (cases b) (auto intro: reads_keep_intros)
  then show ?case using Cons.prems by (auto intro!: reads_keep_bind)
qed (simp add: reads_keep_intros)

lemma reads_keep_parts [reads_keep_intros]:
  "reads_keep (stat_at fs p)" "reads_keep (file_bytes_equal fs l r)" "reads_keep (link_at fs p)" "reads_keep (read_dir_names fs p)"
  unfolding stat_at_def file_bytes_equal_def link_at_def read_dir_names_def by (intro reads_keep_intros)+

lemma reads_keep_if [reads_keep_intros]:
  "(c \<Longrightarrow> reads_keep a) \<Longrightarrow> (\<not> c \<Longrightarrow> reads_keep b) \<Longrightarrow> reads_keep (if c then a else b)"
  by simp

lemma paths_equal_keep: "reads_keep (paths_equal follows fs l r)"
proof (induction follows fs l r rule: paths_equal.induct)
  case (1 follows fs l r)
  have dirs: "reads_keep (reads_bind (read_dir_names fs l) (\<lambda>ns. reads_bind (read_dir_names fs r) (\<lambda>ms.
      if ns \<noteq> ms then Pair (Inr False) else all_equal (\<lambda>n. paths_equal follows fs (l @ [n]) (r @ [n])) ns)))"
    if "\<exists>fl fl'. exists_read follows fs l fl = (Inr le, fl')" "\<exists>fl fl'. exists_read follows fs r fl = (Inr re, fl')"
      "\<not> (\<not> le \<and> \<not> re)" "\<not> le \<noteq> re" "\<exists>fl fl'. stat_at fs l fl = (Inr a, fl')" "\<exists>fl fl'. stat_at fs r fl = (Inr c, fl')"
      "\<not> \<not> same_type a c" "a = EDir \<or> a = EOther" for le re a c
  proof (intro reads_keep_intros)
    fix ns ms n
    assume d: "\<exists>fl fl'. read_dir_names fs l fl = (Inr ns, fl')" "\<exists>fl fl'. read_dir_names fs r fl = (Inr ms, fl')"
      "\<not> ns \<noteq> ms" "n \<in> set ns"
    show "reads_keep (paths_equal follows fs (l @ [n]) (r @ [n]))"
      using that(8) "1.IH"(1) [OF that(1-7) _ d] "1.IH"(2) [OF that(1-7) _ d] by blast
  qed
  have kinds: "reads_keep (case a of
          EFile _ _ \<Rightarrow> file_bytes_equal fs l r
        | ELink _ \<Rightarrow> reads_bind (link_at fs l) (\<lambda>s. reads_bind (link_at fs r) (\<lambda>t. Pair (Inr (s = t))))
        | _ \<Rightarrow>
            reads_bind (read_dir_names fs l) (\<lambda>ns. reads_bind (read_dir_names fs r) (\<lambda>ms.
              if ns \<noteq> ms then Pair (Inr False)
              else all_equal (\<lambda>n. paths_equal follows fs (l @ [n]) (r @ [n])) ns)))"
    if "\<exists>fl fl'. exists_read follows fs l fl = (Inr le, fl')" "\<exists>fl fl'. exists_read follows fs r fl = (Inr re, fl')"
      "\<not> (\<not> le \<and> \<not> re)" "\<not> le \<noteq> re" "\<exists>fl fl'. stat_at fs l fl = (Inr a, fl')" "\<exists>fl fl'. stat_at fs r fl = (Inr c, fl')"
      "\<not> \<not> same_type a c" for le re a c
    using dirs [OF that] by (cases a) (simp_all add: reads_keep_intros)
  show ?case
    unfolding paths_equal.simps [of follows fs l r]
    by (intro reads_keep_intros) (rule kinds; assumption)
qed

lemma all_equal_decides:
  assumes "all_equal f xs fl = (Inr b, fl')" and "all_seen fl" and "\<And>x. x \<in> set xs \<Longrightarrow> reads_keep (f x)"
    and "\<And>x fl d fl'. f x fl = (Inr d, fl') \<Longrightarrow> x \<in> set xs \<Longrightarrow> all_seen fl \<Longrightarrow> d = P x"
  shows "b = (\<forall>x \<in> set xs. P x)"
  using assms
proof (induction xs arbitrary: fl)
  case (Cons x xs)
  from Cons.prems(1) obtain c fl1 where x: "f x fl = (Inr c, fl1)"
    and k: "(if c then all_equal f xs else Pair (Inr False)) fl1 = (Inr b, fl')" by (auto elim: reads_bind_Inr)
  have c: "c = P x" using Cons.prems(4) [OF x _ Cons.prems(2)] by simp
  have s: "all_seen fl1" using reads_keepD [OF Cons.prems(3) x Cons.prems(2)] by simp
  show ?case
  proof (cases c)
    case True
    then have "all_equal f xs fl1 = (Inr b, fl')" using k by simp
    from Cons.IH [OF this s] have "b = (\<forall>x \<in> set xs. P x)" using Cons.prems(3,4) by auto
    then show ?thesis using c True by simp
  next
    case False
    then show ?thesis using k c by auto
  qed
qed simp

lemma paths_equal_content:
  "paths_equal follows fs l r fl = (Inr b, fl') \<Longrightarrow> tree_ok fs \<Longrightarrow> l \<noteq> [] \<Longrightarrow> r \<noteq> [] \<Longrightarrow> links_alive follows fs l \<Longrightarrow>
    links_alive follows fs r \<Longrightarrow> all_seen fl \<Longrightarrow> b = same_content fs l r"
proof (induction follows fs l r arbitrary: fl fl' b rule: paths_equal.induct)
  case (1 follows fs l r)
  note ok = "1.prems"(2) and ne = "1.prems"(3,4) and alive = "1.prems"(5,6)
  have ex: "exists_at follows fs l = (map_of fs l \<noteq> None)" "exists_at follows fs r = (map_of fs r \<noteq> None)"
    using exists_at_alive alive by blast+
  note seen = "1.prems"(7)
  obtain el fl01 er fl02 where er: "exists_read follows fs l fl = (Inr el, fl01)" "exists_read follows fs r fl01 = (Inr er, fl02)"
    by (simp add: exists_read_def)
  have s01: "all_seen fl01" and s02: "all_seen fl02"
    using reads_keepD [OF reads_keep_exists er(1) seen] reads_keepD [OF reads_keep_exists er(2)] by blast+
  have el: "el = exists_at follows fs l" "er = exists_at follows fs r"
    using er seen s01 by (auto simp: exists_read_def)
  have er0: "\<exists>fl fl'. exists_read follows fs l fl = (Inr el, fl')" "\<exists>fl fl'. exists_read follows fs r fl = (Inr er, fl')"
    using er by blast+
  have run: "(if \<not> el \<and> \<not> er then Pair (Inr True) else if el \<noteq> er then Pair (Inr False)
      else reads_bind (stat_at fs l) (\<lambda>a. reads_bind (stat_at fs r) (\<lambda>b.
        if \<not> same_type a b then Pair (Inr False)
        else case a of
          EFile _ _ \<Rightarrow> file_bytes_equal fs l r
        | ELink _ \<Rightarrow> reads_bind (link_at fs l) (\<lambda>s. reads_bind (link_at fs r) (\<lambda>t. Pair (Inr (s = t))))
        | _ \<Rightarrow>
            reads_bind (read_dir_names fs l) (\<lambda>ns. reads_bind (read_dir_names fs r) (\<lambda>ms.
              if ns \<noteq> ms then Pair (Inr False)
              else all_equal (\<lambda>n. paths_equal follows fs (l @ [n]) (r @ [n])) ns))))) fl02 = (Inr b, fl')"
    using "1.prems"(1) er by (simp add: paths_equal.simps [of follows fs l r] reads_bind_def [of "exists_read follows fs p" for p])
  show ?case
  proof (cases "map_of fs l = None \<or> map_of fs r = None")
    case True
    have "same_content fs l r = (map_of fs l = None \<and> map_of fs r = None)"
      using True same_content_root [of fs l r] tree_at_None [OF ok _ ne(1)] tree_at_None [OF ok _ ne(2)]
      by (auto simp: same_content_def)
    then show ?thesis using run True ex el by (auto split: if_splits)
  next
    case False
    then have e: "exists_at follows fs l" "exists_at follows fs r" using ex by auto
    obtain a c where ac: "map_of fs l = Some a" "map_of fs r = Some c" using False by auto
    from run e el obtain a' fl1 c' fl2 where st: "stat_at fs l fl02 = (Inr a', fl1)" "stat_at fs r fl1 = (Inr c', fl2)"
      and k: "(if \<not> same_type a' c' then Pair (Inr False)
        else case a' of
          EFile _ _ \<Rightarrow> file_bytes_equal fs l r
        | ELink _ \<Rightarrow> reads_bind (link_at fs l) (\<lambda>s. reads_bind (link_at fs r) (\<lambda>t. Pair (Inr (s = t))))
        | _ \<Rightarrow>
            reads_bind (read_dir_names fs l) (\<lambda>ns. reads_bind (read_dir_names fs r) (\<lambda>ms.
              if ns \<noteq> ms then Pair (Inr False)
              else all_equal (\<lambda>n. paths_equal follows fs (l @ [n]) (r @ [n])) ns))) fl2 = (Inr b, fl')"
      by (auto elim!: reads_bind_Inr)
    have s2: "all_seen fl2"
      using reads_keepD [OF reads_keep_parts(1) st(2) reads_keepD [OF reads_keep_parts(1) st(1) s02]] .
    have a': "a' = a" "c' = c" using stat_at_Inr st ac by fastforce+
    show ?thesis
    proof (cases "same_type a c")
      case False
      then have "b = False" using k by (simp add: a')
      then show ?thesis using same_content_root [of fs l r] same_shape_type [OF False] ac by auto
    next
      case True
      have st0: "\<exists>fl fl'. stat_at fs l fl = (Inr a', fl')" "\<exists>fl fl'. stat_at fs r fl = (Inr c', fl')" using st by blast+
      consider (files) x m y n where "a = EFile x m" and "c = EFile y n" | (links) s t where "a = ELink s" and "c = ELink t"
        | (other) "a = EOther" | (dir) "a = EDir" and "c = EDir"
        using True by (auto simp: same_type_def split: entry.splits)
      then show ?thesis
      proof cases
        case files
        then have "b = (x = y)" using k True file_bytes_equal_Inr ac by (simp add: a')
        then show ?thesis using same_content_leaf [OF ok ac] files by (simp add: shape_def)
      next
        case links
        then have "b = (s = t)" using k True ac by (auto simp: a' elim!: reads_bind_Inr dest!: link_at_Inr)
        then show ?thesis using same_content_leaf [OF ok ac] links by (simp add: shape_def)
      next
        case other
        then have "is_dir_at fs l" using k True by (auto simp: a' elim!: reads_bind_Inr dest!: read_dir_names_Inr)
        then show ?thesis using ac other ne by (simp add: is_dir_at_def)
      next
        case dir
        then obtain ns fl3 ms fl4 where ns: "read_dir_names fs l fl2 = (Inr ns, fl3)" and ms: "read_dir_names fs r fl3 = (Inr ms, fl4)"
          and k2: "(if ns \<noteq> ms then Pair (Inr False)
              else all_equal (\<lambda>n. paths_equal follows fs (l @ [n]) (r @ [n])) ns) fl4 = (Inr b, fl')"
          using k True by (auto simp: a' elim!: reads_bind_Inr)
        have rd: "\<exists>fl fl'. read_dir_names fs l fl = (Inr ns, fl')" "\<exists>fl fl'. read_dir_names fs r fl = (Inr ms, fl')" using ns ms by blast+
        have mem: "n \<in> set ns \<longleftrightarrow> map_of fs (l @ [n]) \<noteq> None" "n \<in> set ms \<longleftrightarrow> map_of fs (r @ [n]) \<noteq> None" for n
          using read_dir_names_Inr [OF ns] read_dir_names_Inr [OF ms] names_in_map by blast+
        have child: "d = same_content fs (l @ [n]) (r @ [n])"
          if "paths_equal follows fs (l @ [n]) (r @ [n]) fl5 = (Inr d, fl6)" "n \<in> set ns" "ns = ms" "all_seen fl5" for n d fl5 fl6
          using "1.IH"(1) [OF er0 _ _ st0 _ _ rd _ that(2) that(1)] that(3,4) e el True dir ok alive
          by (simp add: a' links_alive_child)
        have s4: "all_seen fl4"
          using reads_keepD [OF reads_keep_parts(4) ms reads_keepD [OF reads_keep_parts(4) ns s2]] .
        show ?thesis
        proof (cases "ns = ms")
          case False
          have "set ns \<noteq> set ms"
            using False read_dir_names_Inr [OF ns] read_dir_names_Inr [OF ms] sorted_distinct_set_unique [of ns ms]
            by (auto simp: names_in_def)
          then obtain n where "(map_of fs (l @ [n]) = None) \<noteq> (map_of fs (r @ [n]) = None)" using mem by blast
          then have "\<not> same_content fs (l @ [n]) (r @ [n])" using same_content_root by fastforce
          then show ?thesis using k2 False same_content_child by auto
        next
          case same: True
          have out: "same_content fs (l @ [n]) (r @ [n])" if "n \<notin> set ns" for n
          proof -
            have "map_of fs (l @ [n]) = None" "map_of fs (r @ [n]) = None" using that mem same by blast+
            from this [THEN tree_at_None [OF ok]] show ?thesis by (simp add: same_content_def)
          qed
          have "b = (\<forall>n \<in> set ns. same_content fs (l @ [n]) (r @ [n]))"
          proof (rule all_equal_decides)
            show "all_equal (\<lambda>n. paths_equal follows fs (l @ [n]) (r @ [n])) ns fl4 = (Inr b, fl')" using k2 same by simp
          qed (rule s4, rule paths_equal_keep, rule child [OF _ _ same])
          also have "\<dots> = same_content fs l r" using same_content_dirs [OF ok] ac dir out by blast
          finally show ?thesis .
        qed
      qed
    qed
  qed
qed
end
