(* ===== verification/RemoteRepo.thy ===== *)
theory RemoteRepo
  imports RemoteCompare
begin

text \<open>
  The state file and the lock (\<open>state.rs\<close>), the cached repository and the choice of a version
  (\<open>repo.rs\<close>). The git library and the version parser are parameters: git reads and writes the files
  under the root of a repository, an operation returns its value or the message of the error.
\<close>

section \<open>Libraries\<close>

text \<open>\<open>g_open\<close> fails with \<open>None\<close> where there is no repository.\<close>

record git_ops =
  g_open :: "path \<Rightarrow> file_system \<Rightarrow> string option + unit"
  g_clone :: "string \<Rightarrow> path \<Rightarrow> file_system \<Rightarrow> (string + unit) \<times> file_system"
  g_find_remote :: "path \<Rightarrow> file_system \<Rightarrow> string + string option"
  g_set_url :: "string \<Rightarrow> path \<Rightarrow> file_system \<Rightarrow> (string + unit) \<times> file_system"
  g_add_remote :: "string \<Rightarrow> path \<Rightarrow> file_system \<Rightarrow> (string + unit) \<times> file_system"
  g_tag_refs :: "path \<Rightarrow> file_system \<Rightarrow> string + (string + string option) list"
  g_delete_ref :: "string \<Rightarrow> path \<Rightarrow> file_system \<Rightarrow> (string + unit) \<times> file_system"
  g_fetch :: "path \<Rightarrow> file_system \<Rightarrow> (string + unit) \<times> file_system"
  g_tag_names :: "path \<Rightarrow> file_system \<Rightarrow> string + string option list"
  g_revparse :: "string \<Rightarrow> path \<Rightarrow> file_system \<Rightarrow> string + string"
  g_peel :: "string \<Rightarrow> path \<Rightarrow> file_system \<Rightarrow> string + string"
  g_find_ref :: "string \<Rightarrow> path \<Rightarrow> file_system \<Rightarrow> string + string"
  g_symbolic :: "string \<Rightarrow> path \<Rightarrow> file_system \<Rightarrow> string + string option"
  g_find_commit :: "string \<Rightarrow> path \<Rightarrow> file_system \<Rightarrow> string + unit"
  g_checkout :: "string \<Rightarrow> path \<Rightarrow> file_system \<Rightarrow> (string + unit) \<times> file_system"
  g_set_head :: "string \<Rightarrow> path \<Rightarrow> file_system \<Rightarrow> (string + unit) \<times> file_system"

definition git_step :: "path \<Rightarrow> (path \<Rightarrow> file_system \<Rightarrow> (string + unit) \<times> file_system) \<Rightarrow> bool" where
  "git_step root f = fs_step (spot root) (\<lambda>fs. snd (f root fs))"

definition git_laws :: "git_ops \<Rightarrow> bool" where
  "git_laws G = (\<forall>root s. root \<noteq> [] \<longrightarrow>
     git_step root (g_clone G s) \<and> git_step root (g_set_url G s) \<and> git_step root (g_add_remote G s) \<and>
     git_step root (g_delete_ref G s) \<and> git_step root (g_fetch G) \<and> git_step root (g_checkout G s) \<and>
     git_step root (g_set_head G s))"

text \<open>
  What the documentation of the library says of a checkout: the files of the commit are in place
  afterwards with their content; \<open>T\<close> is the tree of each commit. Detaching HEAD changes the
  repository's own directory only. Files that are not of the commit are not spoken of: a checkout
  leaves those that are untracked.
\<close>

definition checkout_law :: "git_ops \<Rightarrow> (string \<Rightarrow> path \<Rightarrow> entry option) \<Rightarrow> bool" where
  "checkout_law G T =
     ((\<forall>root c fs fs' q e. root \<noteq> [] \<longrightarrow> g_checkout G c root fs = (Inr (), fs') \<longrightarrow> T c q = Some e \<longrightarrow>
         map_option shape (map_of fs' (root @ q)) = Some (shape e)) \<and>
      (\<forall>root c fs q. root \<noteq> [] \<longrightarrow> \<not> prefix [''.git''] q \<longrightarrow>
         map_of (snd (g_set_head G c root fs)) (root @ q) = map_of fs (root @ q)))"

record 'v semver =
  sv_parse :: "string \<Rightarrow> 'v option"
  sv_le :: "'v \<Rightarrow> 'v \<Rightarrow> bool"

definition semver_laws :: "'v semver \<Rightarrow> bool" where
  "semver_laws S = ((\<forall>a b. sv_le S a b \<or> sv_le S b a) \<and> (\<forall>a b c. sv_le S a b \<and> sv_le S b c \<longrightarrow> sv_le S a c))"

definition git_read :: "string \<Rightarrow> (file_system \<Rightarrow> string + 'a) \<Rightarrow> (string, 'a) io" where
  "git_read what f w = (case f (w_fs w) of Inl e \<Rightarrow> (Inl (conf_err_source what (IoOther e)), w) | Inr x \<Rightarrow> (Inr x, w))"

definition git_write :: "string \<Rightarrow> (file_system \<Rightarrow> (string + unit) \<times> file_system) \<Rightarrow> (string, unit) io" where
  "git_write what f w =
     (let (r, fs) = f (w_fs w) in
      (case r of Inl e \<Rightarrow> Inl (conf_err_source what (IoOther e)) | Inr x \<Rightarrow> Inr x, w\<lparr>w_fs := fs\<rparr>))"

section \<open>The state file (\<open>state.rs\<close>)\<close>

record group_state =
  gs_current_version :: string
  gs_resolved_tag :: string
  gs_revision :: string

datatype project_remote_state =
  Single string string string
| Dual "group_state option" "group_state option"

record update_result =
  ur_requested_version :: "string option"
  ur_current_version :: string
  ur_resolved_tag :: string
  ur_from_revision :: "string option"
  ur_to_revision :: string
  ur_changed :: bool
  ur_group :: "string option"

record remote_snapshot =
  rs_state_file :: "bytes option"
  rs_group :: "remote_group option"

definition state_path :: path where
  "state_path = [''.run'', ''project_remote_state.json'']"

text \<open>\<open>with_extension(".tmp")\<close> replaces the extension and adds its own dot.\<close>

definition state_tmp_path :: path where
  "state_tmp_path = [''.run'', ''project_remote_state..tmp'']"

definition lock_path :: path where
  "lock_path = [''.run'', ''project_remote.lock'']"

definition opt_read :: "path \<Rightarrow> (string, bytes option) io" where
  "opt_read p w =
     (case fs_read p w of
        (Inl IoNotFound, w1) \<Rightarrow> (Inr None, w1)
      | (Inl e, w1) \<Rightarrow> (Inl (failed ''read'' p e), w1)
      | (Inr bs, w1) \<Rightarrow> (Inr (Some bs), w1))"

definition load_state :: "project_remote_state codec \<Rightarrow> (string, project_remote_state option) io" where
  "load_state J =
     io_bind (opt_read state_path) (\<lambda>b. case b of
       None \<Rightarrow> io_ret None
     | Some bs \<Rightarrow> (case decode J bs of
         Inl e \<Rightarrow> io_err (failed ''parse'' state_path (IoOther e)) | Inr s \<Rightarrow> io_ret (Some s)))"

text \<open>The file is written beside its place and renamed; a temporary file whose rename failed is removed.\<close>

definition rename_or_clean :: "path \<Rightarrow> path \<Rightarrow> (string, unit) io" where
  "rename_or_clean tmp p w =
     (case rename_file tmp p w of
        (Inl e, w1) \<Rightarrow> (Inl (arrow ''rename'' tmp p e), snd (remove_file tmp w1))
      | (Inr x, w1) \<Rightarrow> (Inr x, w1))"

definition atomic_write_file :: "path \<Rightarrow> path \<Rightarrow> bytes \<Rightarrow> (string, unit) io" where
  "atomic_write_file p tmp bs =
     io_seq (io_map_err (failed ''create'' (butlast p)) (create_dir_all (butlast p)))
    (io_seq (io_map_err (failed ''write'' tmp) (fs_write tmp bs))
            (rename_or_clean tmp p))"

definition remove_if_there :: "path \<Rightarrow> (string, unit) io" where
  "remove_if_there p w =
     (case remove_file p w of
        (Inl IoNotFound, w1) \<Rightarrow> (Inr (), w1)
      | (Inl e, w1) \<Rightarrow> (Inl (failed ''remove'' p e), w1)
      | (Inr x, w1) \<Rightarrow> (Inr x, w1))"

definition restore_state_file_bytes :: "bytes option \<Rightarrow> (string, unit) io" where
  "restore_state_file_bytes b =
     (case b of Some bs \<Rightarrow> atomic_write_file state_path state_tmp_path bs | None \<Rightarrow> remove_if_there state_path)"

definition restore_project_remote_state ::
  "project_remote_state codec \<Rightarrow> project_remote_state option \<Rightarrow> (string, unit) io" where
  "restore_project_remote_state J prev = restore_state_file_bytes (map_option (encode J) prev)"

definition persist_state :: "project_remote_state codec \<Rightarrow> update_result \<Rightarrow> (string, unit) io" where
  "persist_state J r =
     io_bind (load_state J) (\<lambda>s. case s of
       Some (Dual m i) \<Rightarrow> io_err ''cannot persist single-repo state over dual-repo state; use persist_group_state''
     | _ \<Rightarrow> atomic_write_file state_path state_tmp_path
              (encode J (Single (ur_current_version r) (ur_resolved_tag r) (ur_to_revision r))))"

definition new_group_state :: "update_result \<Rightarrow> group_state" where
  "new_group_state r = \<lparr>gs_current_version = ur_current_version r, gs_resolved_tag = ur_resolved_tag r, gs_revision = ur_to_revision r\<rparr>"

definition set_group :: "remote_group \<Rightarrow> group_state \<Rightarrow> project_remote_state option \<Rightarrow> project_remote_state" where
  "set_group g n s =
     (case s of
        Some (Dual m i) \<Rightarrow> (case g of Models \<Rightarrow> Dual (Some n) i | Infra \<Rightarrow> Dual m (Some n))
      | _ \<Rightarrow> (case g of Models \<Rightarrow> Dual (Some n) None | Infra \<Rightarrow> Dual None (Some n)))"

definition persist_group_state :: "project_remote_state codec \<Rightarrow> remote_group \<Rightarrow> update_result \<Rightarrow> (string, unit) io" where
  "persist_group_state J g r =
     io_bind (load_state J) (\<lambda>s. atomic_write_file state_path state_tmp_path (encode J (set_group g (new_group_state r) s)))"

definition capture_project_remote_snapshot_with_group :: "remote_group option \<Rightarrow> (string, remote_snapshot) io" where
  "capture_project_remote_snapshot_with_group g =
     io_bind (opt_read state_path) (\<lambda>b. io_ret \<lparr>rs_state_file = b, rs_group = g\<rparr>)"

definition restore_project_remote_update :: "string list codec \<Rightarrow> remote_snapshot \<Rightarrow> bool \<Rightarrow> (string, unit) io" where
  "restore_project_remote_update M snap changed =
     io_seq (if changed then restore_managed_dirs M (managed_dirs_for (rs_group snap)) else io_ret ())
            (restore_state_file_bytes (rs_state_file snap))"

text \<open>The rule mapping and the authority database of the runtime are kept and put back as bytes.\<close>

record runtime_artifact_snapshot =
  as_rule_mapping :: "bytes option"
  as_authority_db :: "bytes option"

definition rule_mapping_path :: path where
  "rule_mapping_path = [''.run'', ''rule_mapping.dat'']"

definition authority_db_path :: path where
  "authority_db_path = [''.run'', ''authority.sqlite'']"

definition restore_optional_file :: "path \<Rightarrow> path \<Rightarrow> bytes option \<Rightarrow> (string, unit) io" where
  "restore_optional_file p tmp b = (case b of Some bs \<Rightarrow> atomic_write_file p tmp bs | None \<Rightarrow> remove_if_there p)"

definition capture_runtime_artifact_snapshot :: "(string, runtime_artifact_snapshot) io" where
  "capture_runtime_artifact_snapshot =
     io_bind (opt_read rule_mapping_path) (\<lambda>m. io_bind (opt_read authority_db_path) (\<lambda>a.
       io_ret \<lparr>as_rule_mapping = m, as_authority_db = a\<rparr>))"

definition restore_runtime_artifact_snapshot :: "runtime_artifact_snapshot \<Rightarrow> (string, unit) io" where
  "restore_runtime_artifact_snapshot snap =
     io_seq (restore_optional_file rule_mapping_path [''.run'', ''rule_mapping..tmp''] (as_rule_mapping snap))
            (restore_optional_file authority_db_path [''.run'', ''authority..tmp''] (as_authority_db snap))"

text \<open>The versions that the state file records.\<close>

definition single_version :: "project_remote_state \<Rightarrow> string option" where
  "single_version s = (case s of Single v t r \<Rightarrow> Some v | Dual m i \<Rightarrow> None)"

definition current_project_version :: "project_remote_state codec \<Rightarrow> (string, string option) io" where
  "current_project_version J = io_bind (load_state J) (\<lambda>s. io_ret (Option.bind s single_version))"

definition group_entry :: "string \<Rightarrow> group_state option \<Rightarrow> (string \<times> string \<times> string) list" where
  "group_entry key g = (case g of Some s \<Rightarrow> [(key, gs_current_version s, gs_resolved_tag s)] | None \<Rightarrow> [])"

definition current_project_group_versions ::
  "project_remote_state codec \<Rightarrow> (string, (string \<times> string \<times> string) list option) io" where
  "current_project_group_versions J = io_bind (load_state J) (\<lambda>s. io_ret (case s of
       Some (Dual m i) \<Rightarrow> Some (group_entry ''models'' m @ group_entry ''infra'' i) | _ \<Rightarrow> None))"

definition remote_group_from_str :: "string \<Rightarrow> string + remote_group" where
  "remote_group_from_str s =
     (if s = ''models'' then Inr Models else if s = ''infra'' then Inr Infra
      else Inl (''invalid group '' @ quoted s @ '': expected '' @ quoted ''models'' @ '' or '' @ quoted ''infra''))"

text \<open>The lock: the file is opened, created if it is not there, and locked without waiting.\<close>

definition open_create :: "path \<Rightarrow> (io_error, unit) io" where
  "open_create p = sys unharmed
     (\<lambda>fs. if \<not> is_dir_at fs (butlast p) then (Inl IoNotFound, fs)
           else case map_of fs p of
             None \<Rightarrow> (Inr (), put p (EFile [] default_mode) fs) | Some (EFile bs m) \<Rightarrow> (Inr (), fs)
           | Some _ \<Rightarrow> (Inl (IoOther ''not a regular file''), fs))"

definition try_lock_file :: "(string, unit) io" where
  "try_lock_file w =
     (if w_locked w then (Inl (''project remote update already in progress ('' @ show_path lock_path @ '')''), w)
      else (case sys unharmed (\<lambda>fs. (Inr (), fs)) w of
          (Inl e, w1) \<Rightarrow> (Inl (failed ''lock'' lock_path e), w1)
        | (Inr x, w1) \<Rightarrow> (Inr (), w1\<lparr>w_locked := True\<rparr>)))"

definition acquire_project_remote_lock :: "(string, unit) io" where
  "acquire_project_remote_lock =
     io_seq (io_map_err (failed ''create'' (butlast lock_path)) (create_dir_all (butlast lock_path)))
    (io_seq (io_map_err (failed ''open'' lock_path) (open_create lock_path)) try_lock_file)"

definition unlock :: "world \<Rightarrow> world" where
  "unlock w = w\<lparr>w_locked := False\<rparr>"

section \<open>The repository (\<open>repo.rs\<close>)\<close>

record resolved_tag =
  rt_tag :: string
  rt_version :: string
  rt_commit_id :: string

definition strip_v :: "string \<Rightarrow> string" where
  "strip_v s = (case strip_prefix ''v'' s of Some r \<Rightarrow> r | None \<Rightarrow> s)"

definition parse_tag_version :: "'v semver \<Rightarrow> string \<Rightarrow> (string \<times> 'v) option" where
  "parse_tag_version S tag = map_option (Pair (strip_v tag)) (sv_parse S (strip_v tag))"

definition tag_version_label :: "'v semver \<Rightarrow> string \<Rightarrow> string" where
  "tag_version_label S tag = (case parse_tag_version S tag of Some (n, v) \<Rightarrow> n | None \<Rightarrow> tag)"

text \<open>\<open>Iterator::max_by\<close> keeps the later of two equal elements.\<close>

definition max_by :: "('a \<Rightarrow> 'a \<Rightarrow> bool) \<Rightarrow> 'a list \<Rightarrow> 'a option" where
  "max_by le xs = fold (\<lambda>x acc. case acc of None \<Rightarrow> Some x | Some y \<Rightarrow> if le y x then Some x else Some y) xs None"

definition ensure_remote :: "git_ops \<Rightarrow> path \<Rightarrow> string \<Rightarrow> (string, unit) io" where
  "ensure_remote G root url w =
     (case g_find_remote G root (w_fs w) of
        Inr u \<Rightarrow>
          io_seq (if u \<noteq> Some url then git_write ''set origin URL failed'' (g_set_url G url root) else io_ret ())
            (io_bind (git_read ''find origin remote failed'' (g_find_remote G root)) (\<lambda>_. io_ret ())) w
      | Inl e \<Rightarrow> git_write ''create origin remote failed'' (g_add_remote G url root) w)"

definition clone_into :: "git_ops \<Rightarrow> path \<Rightarrow> string \<Rightarrow> (string, unit) io" where
  "clone_into G root url =
     git_write (''clone remote repository '' @ url @ '' into '' @ show_path root @ '' failed'') (g_clone G url root)"

definition prepare_remote_repo :: "git_ops \<Rightarrow> (file_system \<Rightarrow> path \<Rightarrow> bool) \<Rightarrow> path \<Rightarrow> string \<Rightarrow> (string, unit) io" where
  "prepare_remote_repo G follows root url =
     io_bind (path_exists follows root) (\<lambda>there w.
      if \<not> there
      then io_seq (io_map_err (failed ''create'' (butlast root)) (create_dir_all (butlast root))) (clone_into G root url) w
      else case g_open G root (w_fs w) of
        Inr _ \<Rightarrow> ensure_remote G root url w
      | Inl None \<Rightarrow> io_seq (remove_path root) (clone_into G root url) w
      | Inl (Some e) \<Rightarrow> (Inl (conf_err_source (''open remote cache repository '' @ show_path root @ '' failed'') (IoOther e)), w))"

definition clear_tag :: "git_ops \<Rightarrow> 'v semver \<Rightarrow> path \<Rightarrow> string + string option \<Rightarrow> (string, unit) io" where
  "clear_tag G S root ref =
     (case ref of
        Inl e \<Rightarrow> io_err (conf_err_source ''read local tag failed'' (IoOther e))
      | Inr None \<Rightarrow> io_ret ()
      | Inr (Some name) \<Rightarrow>
          (case strip_prefix ''refs/tags/'' name of
             None \<Rightarrow> io_ret ()
           | Some tag \<Rightarrow>
               (if parse_tag_version S tag = None then io_ret ()
                else git_write ''delete local tag failed'' (g_delete_ref G name root))))"

definition clear_local_release_tags :: "git_ops \<Rightarrow> 'v semver \<Rightarrow> path \<Rightarrow> (string, unit) io" where
  "clear_local_release_tags G S root =
     io_bind (git_read ''list local tags failed'' (g_tag_refs G root)) (\<lambda>refs. io_each (clear_tag G S root) refs)"

definition fetch_remote_tags :: "git_ops \<Rightarrow> 'v semver \<Rightarrow> path \<Rightarrow> string \<Rightarrow> (string, unit) io" where
  "fetch_remote_tags G S root url =
     io_seq (clear_local_release_tags G S root)
    (io_seq (ensure_remote G root url)
            (git_write ''fetch remote tags failed'' (g_fetch G root)))"

definition resolve_tag :: "git_ops \<Rightarrow> path \<Rightarrow> string \<Rightarrow> string \<Rightarrow> (string, resolved_tag option) io" where
  "resolve_tag G root tag version =
     io_bind (git_read (''resolve tag '' @ tag @ '' failed'') (g_revparse G (''refs/tags/'' @ tag) root)) (\<lambda>obj.
     io_bind (git_read (''peel tag '' @ tag @ '' to commit failed'') (g_peel G obj root)) (\<lambda>c.
     io_ret (Some \<lparr>rt_tag = tag, rt_version = version, rt_commit_id = c\<rparr>)))"

definition version_matches :: "'v semver \<Rightarrow> string \<Rightarrow> string \<Rightarrow> bool" where
  "version_matches S normalized name = (case parse_tag_version S name of Some (n, v) \<Rightarrow> n = normalized | None \<Rightarrow> False)"

definition choose_tag :: "'v semver \<Rightarrow> string \<Rightarrow> string list \<Rightarrow> (string \<times> string) option" where
  "choose_tag S requested names =
     (case find_first (\<lambda>n. n = requested) names of
        Some n \<Rightarrow> Some (n, tag_version_label S n)
      | None \<Rightarrow> (case find_first (version_matches S (strip_v requested)) names of
            Some n \<Rightarrow> Some (n, strip_v n) | None \<Rightarrow> None))"

definition tag_list :: "string option list \<Rightarrow> string list" where
  "tag_list names = List.map_filter id names"

definition resolve_tag_for_version :: "git_ops \<Rightarrow> 'v semver \<Rightarrow> path \<Rightarrow> string \<Rightarrow> (string, resolved_tag option) io" where
  "resolve_tag_for_version G S root version =
     (let requested = trim version in
      if requested = [] then io_ret None
      else io_bind (git_read ''list tags failed'' (g_tag_names G root)) (\<lambda>names.
        case choose_tag S requested (tag_list names) of
          Some (tag, label) \<Rightarrow> resolve_tag G root tag label | None \<Rightarrow> io_ret None))"

definition latest_version :: "'v semver \<Rightarrow> string list \<Rightarrow> string option" where
  "latest_version S names = map_option fst (max_by (\<lambda>a b. sv_le S (snd a) (snd b)) (List.map_filter (parse_tag_version S) names))"

definition resolve_latest_released_target :: "git_ops \<Rightarrow> 'v semver \<Rightarrow> path \<Rightarrow> (string, resolved_tag option) io" where
  "resolve_latest_released_target G S root =
     io_bind (git_read ''list tags failed'' (g_tag_names G root)) (\<lambda>names.
       case latest_version S (tag_list names) of
         Some v \<Rightarrow> resolve_tag_for_version G S root v | None \<Rightarrow> io_ret None)"

definition resolve_remote_head_target :: "git_ops \<Rightarrow> path \<Rightarrow> (string, resolved_tag) io" where
  "resolve_remote_head_target G root =
     io_bind (git_read ''resolve origin HEAD failed'' (g_find_ref G ''refs/remotes/origin/HEAD'' root)) (\<lambda>head.
     io_bind (git_read ''resolve symbolic target failed'' (g_symbolic G head root)) (\<lambda>target.
       case target of
         None \<Rightarrow> io_err ''origin HEAD is not a symbolic ref''
       | Some name \<Rightarrow>
           (let branch = (case strip_prefix ''refs/remotes/origin/'' name of Some b \<Rightarrow> b | None \<Rightarrow> name);
                what = ''resolve origin HEAD target '' @ name @ '' failed'' in
            io_bind (git_read what (g_find_ref G name root)) (\<lambda>ref.
            io_bind (git_read what (g_peel G ref root)) (\<lambda>c.
            io_ret \<lparr>rt_tag = ''HEAD@'' @ branch, rt_version = branch, rt_commit_id = c\<rparr>)))))"

definition has_group :: "remote_group \<Rightarrow> project_remote_state option \<Rightarrow> bool" where
  "has_group g s = (case s of Some (Dual m i) \<Rightarrow> (case g of Models \<Rightarrow> m \<noteq> None | Infra \<Rightarrow> i \<noteq> None) | _ \<Rightarrow> False)"

definition is_first_initialization ::
  "project_remote_state codec \<Rightarrow> (file_system \<Rightarrow> path \<Rightarrow> bool) \<Rightarrow> remote_group option \<Rightarrow> (string, bool) io" where
  "is_first_initialization J follows g =
     (case g of
        Some g' \<Rightarrow> io_bind (load_state J) (\<lambda>s. io_ret (\<not> has_group g' s))
      | None \<Rightarrow> io_bind (path_exists follows state_path) (\<lambda>there. io_ret (\<not> there)))"

definition requested_version_not_found :: "string \<Rightarrow> string" where
  "requested_version_not_found v = ''requested version '' @ quoted v @ '' was not found''"

definition tag_or_not_found :: "string \<Rightarrow> resolved_tag option \<Rightarrow> (string, resolved_tag) io" where
  "tag_or_not_found v t = (case t of Some r \<Rightarrow> io_ret r | None \<Rightarrow> io_err (requested_version_not_found v))"

definition resolve_default_target ::
  "git_ops \<Rightarrow> 'v semver \<Rightarrow> project_remote_state codec \<Rightarrow> (file_system \<Rightarrow> path \<Rightarrow> bool) \<Rightarrow> path \<Rightarrow>
   string option \<Rightarrow> remote_group option \<Rightarrow> (string, resolved_tag) io" where
  "resolve_default_target G S J follows root init_version g =
     io_bind (is_first_initialization J follows g) (\<lambda>first.
       let newest = io_bind (resolve_latest_released_target G S root) (\<lambda>t.
             case t of Some r \<Rightarrow> io_ret r | None \<Rightarrow> resolve_remote_head_target G root) in
       case init_version of
         Some v \<Rightarrow>
           (if first \<and> trim v \<noteq> []
            then io_bind (resolve_tag_for_version G S root (trim v)) (tag_or_not_found (trim v))
            else newest)
       | None \<Rightarrow> newest)"

definition checkout_commit :: "git_ops \<Rightarrow> path \<Rightarrow> string \<Rightarrow> string \<Rightarrow> (string, unit) io" where
  "checkout_commit G root c tag =
     io_seq (git_read (''load target commit '' @ c @ '' failed'') (g_find_commit G c root))
    (io_seq (git_write (''checkout tag '' @ tag @ '' failed'') (g_checkout G c root))
            (git_write ''set detached HEAD failed'' (g_set_head G c root)))"

end
