(* ===== verification/RemoteSync.thy ===== *)
theory RemoteSync
  imports RemoteRepo
begin

text \<open>
  The synchronisation of a project with its remote (\<open>wf-project-remote/src/lib.rs\<close>): the mode of the
  configuration, one synchronisation with its own rollback, and the locked update that validates
  the configuration afterwards and restores the snapshot when it does not load.
\<close>

section \<open>The mode of the configuration\<close>

record repo_group_conf =
  rg_repo :: string
  rg_init_version :: string

record project_remote_conf =
  pr_enabled :: bool
  pr_repo :: string
  pr_init_version :: string
  pr_models :: "repo_group_conf option"
  pr_infra :: "repo_group_conf option"

datatype remote_mode = SingleMode string string | DualMode repo_group_conf repo_group_conf

definition repo_required_for :: "string \<Rightarrow> string" where
  "repo_required_for g = ''project_remote.'' @ g @ ''.repo must not be empty''"

definition dual_partial :: "string \<Rightarrow> string" where
  "dual_partial missing =
     ''dual-repo mode requires both [project_remote.models] and [project_remote.infra]; missing '' @ quoted missing"

definition ambiguous_mode :: string where
  "ambiguous_mode = ''ambiguous project_remote config: use either '' @ quoted ''repo'' @ '' (single-repo) or both '' @
     quoted ''models'' @ '' + '' @ quoted ''infra'' @ '' (dual-repo), not a mix''"

definition resolve_project_remote_mode :: "project_remote_conf \<Rightarrow> string + remote_mode" where
  "resolve_project_remote_mode conf =
     (case (trim (pr_repo conf) \<noteq> [], pr_models conf, pr_infra conf) of
        (True, None, None) \<Rightarrow> Inr (SingleMode (pr_repo conf) (pr_init_version conf))
      | (False, Some m, Some i) \<Rightarrow>
          (if trim (rg_repo m) = [] then Inl (repo_required_for ''models'')
           else if trim (rg_repo i) = [] then Inl (repo_required_for ''infra'')
           else Inr (DualMode m i))
      | (False, Some m, None) \<Rightarrow> Inl (dual_partial ''infra'')
      | (False, None, Some i) \<Rightarrow> Inl (dual_partial ''models'')
      | _ \<Rightarrow> Inl ambiguous_mode)"

section \<open>One synchronisation\<close>

record 'v remote_env =
  e_git :: git_ops
  e_semver :: "'v semver"
  e_follows :: "file_system \<Rightarrow> path \<Rightarrow> bool"
  e_manifest :: "string list codec"
  e_state :: "project_remote_state codec"
  e_config_error :: "file_system \<Rightarrow> string option"

definition remote_cache_path_for :: "remote_group option \<Rightarrow> path" where
  "remote_cache_path_for g =
     [''.run'', ''project_remote'',
      case g of Some Models \<Rightarrow> ''remote-models'' | Some Infra \<Rightarrow> ''remote-infra'' | None \<Rightarrow> ''remote'']"

definition group_label :: "remote_group \<Rightarrow> string" where
  "group_label g = (case g of Models \<Rightarrow> ''models'' | Infra \<Rightarrow> ''infra'')"

definition from_revision :: "remote_group option \<Rightarrow> project_remote_state option \<Rightarrow> string option" where
  "from_revision g prev =
     (case prev of
        None \<Rightarrow> None
      | Some (Single v t r) \<Rightarrow> Some r
      | Some (Dual m i) \<Rightarrow>
          (case g of Some Models \<Rightarrow> map_option gs_revision m | Some Infra \<Rightarrow> map_option gs_revision i | None \<Rightarrow> None))"

definition resolve_target ::
  "'v remote_env \<Rightarrow> path \<Rightarrow> string option \<Rightarrow> string option \<Rightarrow> remote_group option \<Rightarrow> (string, resolved_tag) io" where
  "resolve_target E root requested init_version g =
     (let newest = resolve_default_target (e_git E) (e_semver E) (e_state E) (e_follows E) root (map_option trim init_version) g in
      case requested of
        Some v \<Rightarrow>
          (if trim v \<noteq> [] then io_bind (resolve_tag_for_version (e_git E) (e_semver E) root (trim v)) (tag_or_not_found (trim v))
           else newest)
      | None \<Rightarrow> newest)"

definition apply_update ::
  "'v remote_env \<Rightarrow> path \<Rightarrow> string list \<Rightarrow> remote_group option \<Rightarrow> update_result \<Rightarrow> (string, unit) io" where
  "apply_update E root dirs g r =
     io_seq (if ur_changed r then sync_managed_dirs (e_follows E) root dirs else io_ret ())
       (case g of Some g' \<Rightarrow> persist_group_state (e_state E) g' r | None \<Rightarrow> persist_state (e_state E) r)"

definition rollback_partial_update ::
  "'v remote_env \<Rightarrow> project_remote_state option \<Rightarrow> bool \<Rightarrow> string list \<Rightarrow> (string, unit) io" where
  "rollback_partial_update E prev changed dirs =
     io_seq (if changed then restore_managed_dirs (e_manifest E) dirs else io_ret ())
            (restore_project_remote_state (e_state E) prev)"

definition rollback_failed :: "string \<Rightarrow> string \<Rightarrow> string" where
  "rollback_failed err rollback_err = err @ ''; rollback failed: '' @ rollback_err"

text \<open>An error of the update is returned after the rollback; an error of the rollback is added to it.\<close>

definition apply_or_rollback ::
  "'v remote_env \<Rightarrow> path \<Rightarrow> string list \<Rightarrow> remote_group option \<Rightarrow> project_remote_state option \<Rightarrow> update_result \<Rightarrow>
   (string, update_result) io" where
  "apply_or_rollback E root dirs g prev r w =
     (case apply_update E root dirs g r w of
        (Inr _, w1) \<Rightarrow> (Inr r, w1)
      | (Inl err, w1) \<Rightarrow>
          (case rollback_partial_update E prev (ur_changed r) dirs w1 of
             (Inl e, w2) \<Rightarrow> (Inl (rollback_failed err e), w2)
           | (Inr _, w2) \<Rightarrow> (Inl err, w2)))"

definition mk_result ::
  "string option \<Rightarrow> remote_group option \<Rightarrow> project_remote_state option \<Rightarrow> resolved_tag \<Rightarrow> bool \<Rightarrow> update_result" where
  "mk_result requested g prev t changed =
     \<lparr>ur_requested_version = requested, ur_current_version = rt_version t, ur_resolved_tag = rt_tag t,
      ur_from_revision = from_revision g prev, ur_to_revision = rt_commit_id t, ur_changed = changed,
      ur_group = map_option group_label g\<rparr>"

definition sync_project_remote_with_repo_inner ::
  "'v remote_env \<Rightarrow> string \<Rightarrow> string option \<Rightarrow> string option \<Rightarrow> remote_group option \<Rightarrow> (string, update_result) io" where
  "sync_project_remote_with_repo_inner E url requested init_version g =
     (let dirs = managed_dirs_for g; root = remote_cache_path_for g in
      io_seq (prepare_remote_repo (e_git E) (e_follows E) root url)
     (io_seq (fetch_remote_tags (e_git E) (e_semver E) root url)
     (io_bind (load_state (e_state E)) (\<lambda>prev.
      io_bind (resolve_target E root requested init_version g) (\<lambda>t.
      io_seq (checkout_commit (e_git E) root (rt_commit_id t) (rt_tag t))
     (io_bind (managed_dirs_differ (e_follows E) root dirs) (\<lambda>changed.
      io_seq (if changed then backup_managed_dirs (e_manifest E) (e_follows E) dirs else io_ret ())
             (apply_or_rollback E root dirs g prev (mk_result requested g prev t changed)))))))))"

definition disabled :: string where
  "disabled = ''project_remote is disabled in conf/wfusion.toml''"

definition sync_project_remote :: "'v remote_env \<Rightarrow> project_remote_conf \<Rightarrow> string option \<Rightarrow> (string, update_result) io" where
  "sync_project_remote E conf requested =
     (if \<not> pr_enabled conf then io_err disabled
      else case resolve_project_remote_mode conf of
        Inl e \<Rightarrow> io_err e
      | Inr (SingleMode repo init_version) \<Rightarrow> sync_project_remote_with_repo_inner E repo requested (Some init_version) None
      | Inr (DualMode m i) \<Rightarrow>
          io_err ''dual-repo mode requires --group (models|infra); use sync_project_remote_group'')"

definition sync_project_remote_group ::
  "'v remote_env \<Rightarrow> remote_group \<Rightarrow> project_remote_conf \<Rightarrow> string option \<Rightarrow> (string, update_result) io" where
  "sync_project_remote_group E g conf requested =
     (if \<not> pr_enabled conf then io_err disabled
      else case resolve_project_remote_mode conf of
        Inl e \<Rightarrow> io_err e
      | Inr (DualMode m i) \<Rightarrow>
          (let c = (case g of Models \<Rightarrow> m | Infra \<Rightarrow> i)
           in sync_project_remote_with_repo_inner E (rg_repo c) requested (Some (rg_init_version c)) (Some g))
      | Inr (SingleMode repo init_version) \<Rightarrow>
          io_err ''single-repo mode does not support --group; use sync_project_remote'')"

definition sync_project_remote_from_repo :: "'v remote_env \<Rightarrow> string \<Rightarrow> string option \<Rightarrow> (string, update_result) io" where
  "sync_project_remote_from_repo E url requested =
     (if trim url = [] then io_err ''project_remote.repo must not be empty''
      else sync_project_remote_with_repo_inner E url requested None None)"

section \<open>The safe update\<close>

definition validate_config_loads :: "'v remote_env \<Rightarrow> (string, unit) io" where
  "validate_config_loads E w =
     (case e_config_error E (w_fs w) of
        None \<Rightarrow> (Inr (), w)
      | Some e \<Rightarrow> (Inl (''validate conf/wfusion.toml failed: '' @ e), w))"

type_synonym sync_fn = "string option \<Rightarrow> remote_group option \<Rightarrow> (string, update_result) io"

definition real_sync :: "'v remote_env \<Rightarrow> string \<Rightarrow> string option \<Rightarrow> sync_fn" where
  "real_sync E url init_version requested g = sync_project_remote_with_repo_inner E url requested init_version g"

definition check_failed :: "string \<Rightarrow> string" where
  "check_failed e = ''project check failed after update: '' @ e"

definition run_remote_update_locked ::
  "'v remote_env \<Rightarrow> string option \<Rightarrow> remote_group option \<Rightarrow> remote_snapshot \<Rightarrow> sync_fn \<Rightarrow> (string, update_result) io" where
  "run_remote_update_locked E requested g snap sync =
     io_bind (sync requested g) (\<lambda>r w.
       case validate_config_loads E w of
         (Inr _, w1) \<Rightarrow> (Inr r, w1)
       | (Inl check_err, w1) \<Rightarrow>
           (case restore_project_remote_update (e_manifest E) snap (ur_changed r) w1 of
              (Inl e, w2) \<Rightarrow> (Inl (rollback_failed (check_failed check_err) e), w2)
            | (Inr _, w2) \<Rightarrow> (Inl (check_failed check_err), w2)))"

text \<open>The guard is dropped on every way out once the lock is held.\<close>

definition run_remote_update ::
  "'v remote_env \<Rightarrow> string option \<Rightarrow> remote_group option \<Rightarrow> sync_fn \<Rightarrow> (string, update_result) io" where
  "run_remote_update E requested g sync w =
     (case acquire_project_remote_lock w of
        (Inl e, w1) \<Rightarrow> (Inl e, w1)
      | (Inr _, w1) \<Rightarrow>
          (let (r, w2) = io_bind (capture_project_remote_snapshot_with_group g)
                 (\<lambda>snap. run_remote_update_locked E requested g snap sync) w1
           in (r, unlock w2)))"

end
