(* ===== verification/RemoteSafety.thy ===== *)
theory RemoteSafety
  imports RemoteSync
begin

text \<open>
  A synchronisation either installs what the remote has or leaves the managed directories and the
  recorded state as they were, unless the rollback itself failed, which the error then says; and the
  locked update gives the lock back on every way out.
\<close>

section \<open>What each phase may touch\<close>

definition state_region :: "path set" where
  "state_region = under state_path \<union> under state_tmp_path \<union> {[''.run'']}"

lemma ancestors_run: "ancestors [''.run''] = {[''.run'']}"
  by (auto simp: ancestors_def prefix_Cons)

lemma confined_git_read [confined_intros]: "confined S (git_read what f)"
  by (simp add: confined_def git_read_def keeps_refl split: sum.split)

lemma confined_git_write: "fs_step S (\<lambda>fs. snd (f fs)) \<Longrightarrow> confined S (git_write what f)"
  by (simp add: confined_def git_write_def fs_step_def keeps_def sees_def case_prod_beta' Let_def)

lemma git_lawsD:
  assumes "git_laws G" "root \<noteq> []"
  shows "confined (spot root) (git_write what (g_clone G s root))" "confined (spot root) (git_write what (g_set_url G s root))"
    "confined (spot root) (git_write what (g_add_remote G s root))" "confined (spot root) (git_write what (g_delete_ref G s root))"
    "confined (spot root) (git_write what (g_fetch G root))" "confined (spot root) (git_write what (g_checkout G s root))"
    "confined (spot root) (git_write what (g_set_head G s root))"
  using assms unfolding git_laws_def git_step_def by (blast intro: confined_git_write)+

lemma confined_ensure_remote:
  assumes "git_laws G" "root \<noteq> []"
  shows "confined (spot root) (ensure_remote G root url)"
proof -
  have u: "confined (spot root) (io_seq (if u \<noteq> Some url then git_write ''set origin URL failed'' (g_set_url G url root) else io_ret ())
      (io_bind (git_read ''find origin remote failed'' (g_find_remote G root)) (\<lambda>_. io_ret ())))" for u
    by (intro confined_intros git_lawsD [OF assms])
  have a: "confined (spot root) (git_write ''create origin remote failed'' (g_add_remote G url root))"
    by (rule git_lawsD [OF assms])
  show ?thesis using u a by (simp add: confined_def ensure_remote_def split: sum.split)
qed

lemma confined_prepare:
  assumes "git_laws G" "root \<noteq> []"
  shows "confined (spot root) (prepare_remote_repo G follows root url)"
proof -
  have a: "confined (spot root) (create_dir_all (butlast root))"
    using confined_mono [OF confined_create_dir_all ancestors_spot(1) [of root "[]"]] by simp
  have r: "confined (spot root) (remove_path root)"
    using confined_mono [OF confined_remove_path under_spot(1) [of root "[]"]] by simp
  have c: "confined (spot root) (clone_into G root url)" unfolding clone_into_def by (rule git_lawsD [OF assms])
  have e: "confined (spot root) (\<lambda>w. case g_open G root (w_fs w) of
        Inr _ \<Rightarrow> ensure_remote G root url w
      | Inl None \<Rightarrow> io_seq (remove_path root) (clone_into G root url) w
      | Inl (Some e) \<Rightarrow> (Inl (conf_err_source (''open remote cache repository '' @ show_path root @ '' failed'') (IoOther e)), w))"
    using confined_ensure_remote [OF assms, of url] confined_seq [OF r c]
    by (auto simp: confined_def keeps_refl split: sum.split option.split)
  show ?thesis
    unfolding prepare_remote_repo_def
    by (intro confined_bind confined_exists confined_if confined_seq confined_io_map_err a c e)
qed

lemma confined_fetch: "git_laws G \<Longrightarrow> root \<noteq> [] \<Longrightarrow> confined (spot root) (fetch_remote_tags G S root url)"
proof -
  assume g: "git_laws G" "root \<noteq> []"
  have "confined (spot root) (clear_tag G S root ref)" for ref
    unfolding clear_tag_def using g by (auto intro!: confined_intros git_lawsD split: sum.split option.split)
  then have "confined (spot root) (clear_local_release_tags G S root)"
    unfolding clear_local_release_tags_def by (intro confined_intros)
  then show ?thesis unfolding fetch_remote_tags_def by (intro confined_intros confined_ensure_remote git_lawsD g)
qed

lemma confined_checkout: "git_laws G \<Longrightarrow> root \<noteq> [] \<Longrightarrow> confined (spot root) (checkout_commit G root c tag)"
  unfolding checkout_commit_def by (intro confined_intros git_lawsD)

text \<open>After a checkout the files of the commit are in place.\<close>

lemma checkout_commit_Inr:
  assumes m: "checkout_commit G root c tag w = (Inr u, w')" and law: "checkout_law G T" and r: "root \<noteq> []"
    and q: "T c q = Some e" "\<not> prefix [''.git''] q"
  shows "map_option shape (map_of (w_fs w') (root @ q)) = Some (shape e)"
proof -
  obtain w1 u2 w2 u3 where a: "git_write (''checkout tag '' @ tag @ '' failed'') (g_checkout G c root) w1 = (Inr u2, w2)"
    and b: "git_write ''set detached HEAD failed'' (g_set_head G c root) w2 = (Inr u3, w')"
    using m by (auto simp: checkout_commit_def elim!: io_seq_Inr)
  have "g_checkout G c root (w_fs w1) = (Inr (), w_fs w2)"
    using a by (auto simp: git_write_def Let_def split: prod.splits sum.splits)
  then have one: "map_option shape (map_of (w_fs w2) (root @ q)) = Some (shape e)"
    using law r q(1) unfolding checkout_law_def by blast
  have "w_fs w' = snd (g_set_head G c root (w_fs w2))"
    using b by (auto simp: git_write_def Let_def split: prod.splits)
  then have "map_of (w_fs w') (root @ q) = map_of (w_fs w2) (root @ q)"
    using law r q(2) unfolding checkout_law_def by simp
  then show ?thesis using one by simp
qed

lemma confined_opt_read [confined_intros]: "confined S (opt_read p)"
proof (rule confinedI)
  fix w r w' assume "opt_read p w = (r, w')"
  moreover obtain x w1 where x: "fs_read p w = (x, w1)" by fastforce
  ultimately have "w' = w1" by (auto simp: opt_read_def split: sum.splits io_error.splits)
  then show "keeps S w w'" using confinedD [OF confined_read x] by simp
qed

lemma confined_load_state [confined_intros]: "confined S (load_state J)"
  unfolding load_state_def by (auto intro!: confined_intros split: option.split sum.split)

lemma confined_resolve_tag_for_version [confined_intros]: "confined S (resolve_tag_for_version G V root v)"
  unfolding resolve_tag_for_version_def Let_def resolve_tag_def
  by (auto intro!: confined_intros split: option.split)

lemma confined_resolve_head [confined_intros]: "confined S (resolve_remote_head_target G root)"
  unfolding resolve_remote_head_target_def Let_def by (auto intro!: confined_intros split: option.split)

lemma confined_resolve_latest [confined_intros]: "confined S (resolve_latest_released_target G V root)"
  unfolding resolve_latest_released_target_def by (auto intro!: confined_intros split: option.split)

lemma confined_first [confined_intros]: "confined S (is_first_initialization J follows g)"
  unfolding is_first_initialization_def
  by (auto intro!: confined_intros split: option.split)

lemma confined_tag_or [confined_intros]: "confined S (tag_or_not_found v t)"
  unfolding tag_or_not_found_def by (auto intro!: confined_intros split: option.split)

lemma confined_resolve_target [confined_intros]: "confined S (resolve_target E root requested init_version g)"
  unfolding resolve_target_def resolve_default_target_def Let_def
  by (auto intro!: confined_intros split: option.split)

lemma confined_with_reads:
  assumes "\<And>fs. reads_keep (m fs)"
  shows "confined S (with_reads m)"
proof (rule confinedI)
  fix w r w' assume r: "with_reads m w = (r, w')"
  obtain x fl where x: "m (w_fs w) (w_faults w, w_unseen w) = (x, fl)" using prod.exhaust by blast
  then have "w' = w\<lparr>w_faults := fst fl, w_unseen := snd fl\<rparr>" using r by (simp add: with_reads_def)
  then show "keeps S w w'" using reads_keepD [OF assms x] by (simp add: keeps_def sees_def)
qed

lemma confined_differ [confined_intros]: "confined S (managed_dirs_differ follows remote dirs)"
  unfolding managed_dirs_differ_def
  by (intro confined_bind confined_ret confined_with_reads reads_keep_all paths_equal_keep)

lemma state_regions:
  "ancestors (butlast state_path) \<subseteq> state_region" "{state_tmp_path} \<subseteq> state_region" "{state_path} \<subseteq> state_region"
  "under state_tmp_path \<subseteq> state_region" "under state_path \<subseteq> state_region"
  by (auto simp: state_region_def state_path_def state_tmp_path_def under_def ancestors_def prefix_Cons)

lemma store_ok: "store dst e fs = (r, fs') \<Longrightarrow> e \<noteq> EDir \<Longrightarrow> dst \<noteq> [] \<Longrightarrow> tree_ok fs \<Longrightarrow> tree_ok fs'"
  by (auto simp: store_def intro!: tree_ok_put split: if_splits option.splits entry.splits)

lemma store_other: "store dst e fs = (r, fs') \<Longrightarrow> q \<noteq> dst \<Longrightarrow> map_of fs' q = map_of fs q"
  by (auto simp: store_def split: if_splits option.splits entry.splits)

lemma confined_rename:
  assumes d: "dst \<noteq> []" and S: "{dst} \<union> under src \<subseteq> S"
  shows "confined S (rename_file src dst)"
  unfolding rename_file_def
proof (rule confined_sys)
  have m: "tree_ok fs \<longrightarrow> tree_ok (drop_tree src fs')" "p \<notin> S \<Longrightarrow> map_of (drop_tree src fs') p = map_of fs p"
    if "store dst e fs = (r, fs')" "e \<noteq> EDir" for fs e r fs' p
    using store_ok [OF that d] store_other [OF that(1), of p] S by (auto simp: under_def intro: tree_ok_drop_tree)
  then show "fs_step S (\<lambda>fs. snd (case map_of fs src of None \<Rightarrow> (Inl IoNotFound, fs)
      | Some EDir \<Rightarrow> (Inl (IoOther ''not a regular file''), fs)
      | Some e \<Rightarrow> (case store dst e fs of (Inl err, fs') \<Rightarrow> (Inl err, fs) | (Inr _, fs') \<Rightarrow> (Inr (), drop_tree src fs'))))"
    unfolding fs_step_def by (fastforce split: option.split entry.split prod.split sum.split)
qed simp

lemma confined_rename_or_clean: "p \<noteq> [] \<Longrightarrow> {p} \<union> under tmp \<subseteq> S \<Longrightarrow> confined S (rename_or_clean tmp p)"
proof (rule confinedI)
  fix w r w' assume p: "p \<noteq> []" "{p} \<union> under tmp \<subseteq> S" and m: "rename_or_clean tmp p w = (r, w')"
  obtain x w1 where x: "rename_file tmp p w = (x, w1)" by fastforce
  have k: "keeps S w w1" using confinedD [OF confined_rename [OF p] x] .
  have "confined S (remove_file tmp)" using confined_mono [OF confined_remove_file] p by blast
  then have "keeps S w1 (snd (remove_file tmp w1))" by (simp add: confined_def)
  then show "keeps S w w'" using m k keeps_trans [OF k] by (auto simp: rename_or_clean_def x split: sum.splits)
qed

lemma confined_atomic_write_state: "confined state_region (atomic_write_file state_path state_tmp_path bs)"
  unfolding atomic_write_file_def
  by (intro confined_intros confined_mono [OF confined_create_dir_all] confined_mono [OF confined_write]
      confined_rename_or_clean state_regions Un_least) (simp_all add: state_path_def state_tmp_path_def)

lemma confined_restore_state_bytes: "confined state_region (restore_state_file_bytes b)"
proof -
  have "confined state_region (remove_if_there state_path)"
  proof (rule confinedI)
    fix w r w' assume m: "remove_if_there state_path w = (r, w')"
    obtain x w1 where x: "remove_file state_path w = (x, w1)" by fastforce
    have "keeps state_region w w1"
      using confinedD [OF confined_mono [OF confined_remove_file state_regions(5)] x] .
    then show "keeps state_region w w'" using m by (auto simp: remove_if_there_def x split: sum.splits io_error.splits)
  qed
  then show ?thesis unfolding restore_state_file_bytes_def using confined_atomic_write_state by (auto split: option.split)
qed

lemma confined_persist: "confined state_region (persist_state J r)" "confined state_region (persist_group_state J g r)"
  unfolding persist_state_def persist_group_state_def
  by (auto intro!: confined_intros confined_atomic_write_state split: option.split project_remote_state.split)

definition top_region :: "string list \<Rightarrow> path set" where
  "top_region dirs = (\<Union>d \<in> set dirs. spot ([] @ [d]))"

lemma confined_sync_dirs: "confined (top_region dirs) (sync_managed_dirs follows remote dirs)"
  unfolding top_region_def sync_managed_dirs_def by (rule confined_each_dir) (simp add: confined_sync_dir)

lemma confined_apply_update: "confined (top_region dirs \<union> state_region) (apply_update E root dirs g r)"
proof -
  have s: "confined (top_region dirs \<union> state_region) (sync_managed_dirs (e_follows E) root dirs)"
    by (rule confined_mono [OF confined_sync_dirs]) simp
  have p: "confined (top_region dirs \<union> state_region) (persist_state J x)"
      "confined (top_region dirs \<union> state_region) (persist_group_state J h x)" for J h x
    by (rule confined_mono [OF confined_persist(1)], simp) (rule confined_mono [OF confined_persist(2)], simp)
  show ?thesis unfolding apply_update_def by (cases g) (auto intro!: confined_intros s p)
qed

lemma confined_restore_dirs: "confined (top_region dirs) (restore_managed_dirs J dirs)"
proof (rule confinedI)
  fix w r w' assume m: "restore_managed_dirs J dirs w = (r, w')"
  obtain x w1 where x: "fs_read backup_manifest_path w = (x, w1)" by fastforce
  have k1: "keeps (top_region dirs) w w1" using confinedD [OF confined_read x] .
  have rm: "confined (top_region dirs) (io_each (\<lambda>d. remove_path [d]) dirs)"
    unfolding top_region_def by (rule confined_each_dir) (simp add: confined_remove_top)
  have cp: "confined (top_region dirs) (io_each (\<lambda>d. copy_path (backup_path @ [d]) [d]) es)" if "set es \<subseteq> set dirs" for es
  proof -
    have "confined (\<Union>d \<in> set es. spot ([] @ [d])) (io_each (\<lambda>d. copy_path (backup_path @ [d]) [d]) es)"
      by (rule confined_each_dir) (simp add: confined_copy_path)
    then show ?thesis by (rule confined_mono) (use that in \<open>auto simp: top_region_def\<close>)
  qed
  have "keeps (top_region dirs) w1 w'"
    if "find_first (\<lambda>d. d \<notin> set dirs) es = None"
      "io_seq (io_each (\<lambda>d. remove_path [d]) dirs) (io_each (\<lambda>d. copy_path (backup_path @ [d]) [d]) es) w1 = (r, w')" for es
    using confinedD [OF confined_seq [OF rm cp] that(2)] that(1) by (auto simp: find_first_None)
  then show "keeps (top_region dirs) w w'"
    using m k1 keeps_trans [OF k1] keeps_refl
    by (auto simp: restore_managed_dirs_def x split: sum.splits io_error.splits option.splits)
qed

section \<open>The regions are disjoint\<close>

lemma managed_not_run: "d \<in> set (managed_dirs_for g) \<Longrightarrow> d \<noteq> ''.run''"
  using plain_managed [of g] by (auto simp: plain_dirs_def)

lemma not_top: "p = ''.run'' # q \<Longrightarrow> p \<notin> top_region (managed_dirs_for g)"
  using managed_not_run [of _ g] by (auto simp: top_region_def spot_top under_def)

lemma top_not_spot: "d \<noteq> ''.run'' \<Longrightarrow> [d] @ q \<notin> spot (''.run'' # r)"
  by (auto simp: spot_def under_def ancestors_def prefix_Cons)

lemma remote_cache_Cons: "remote_cache_path_for g = ''.run'' # tl (remote_cache_path_for g)"
  by (simp add: remote_cache_path_for_def)

lemma backup_Cons: "backup_path = ''.run'' # tl backup_path"
  by (simp add: backup_path_def)

definition early_region :: "remote_group option \<Rightarrow> path set" where
  "early_region g = spot (remote_cache_path_for g) \<union> spot backup_path"

lemma top_early: "d \<in> set (managed_dirs_for g) \<Longrightarrow> [d] @ q \<notin> early_region g"
  using top_not_spot [OF managed_not_run] by (subst early_region_def, subst remote_cache_Cons, subst backup_Cons) blast

lemma state_early: "state_path \<notin> early_region g"
  by (auto simp: early_region_def spot_def under_def ancestors_def state_path_def remote_cache_path_for_def backup_path_def
      split: option.splits remote_group.splits)

lemma top_state: "d \<in> set (managed_dirs_for g) \<Longrightarrow> [d] @ q \<notin> state_region"
  using managed_not_run by (auto simp: state_region_def under_def state_path_def state_tmp_path_def)

lemma state_top: "state_path \<notin> top_region (managed_dirs_for g)"
  by (rule not_top) (simp add: state_path_def)

lemma late_region_backup:
  "backup_path @ q \<notin> top_region (managed_dirs_for g) \<union> state_region"
proof -
  have "backup_path @ q \<notin> top_region (managed_dirs_for g)" by (rule not_top [of _ "tl (backup_path @ q)"]) (simp add: backup_path_def)
  then show ?thesis by (simp add: backup_path_def state_region_def under_def state_path_def state_tmp_path_def)
qed

lemma late_region_remote:
  "remote_cache_path_for g @ q \<notin> top_region (managed_dirs_for g) \<union> state_region"
proof -
  have "remote_cache_path_for g @ q \<notin> top_region (managed_dirs_for g)"
    by (rule not_top [of _ "tl (remote_cache_path_for g @ q)"]) (simp add: remote_cache_path_for_def)
  then show ?thesis by (simp add: remote_cache_path_for_def state_region_def under_def state_path_def state_tmp_path_def)
qed

lemma remote_backup_apart: "(remote_cache_path_for g @ [d]) @ q \<notin> spot backup_path"
  by (auto simp: spot_def under_def ancestors_def remote_cache_path_for_def backup_path_def
      split: option.splits remote_group.splits)

section \<open>The recorded state\<close>

definition state_is :: "'s codec \<Rightarrow> file_system \<Rightarrow> 's option \<Rightarrow> bool" where
  "state_is J fs s =
     (case s of None \<Rightarrow> map_of fs state_path = None
      | Some x \<Rightarrow> (\<exists>bs m. map_of fs state_path = Some (EFile bs m) \<and> decode J bs = Inr x))"

lemma opt_read_Inr:
  "opt_read p w = (Inr b, w') \<Longrightarrow> w_fs w' = w_fs w \<and>
     (case b of None \<Rightarrow> map_of (w_fs w) p = None | Some bs \<Rightarrow> \<exists>m. map_of (w_fs w) p = Some (EFile bs m))"
  by (auto simp: opt_read_def fs_read_def read_file_def dest!: sys_Inr sys_Inl_NotFound
      split: sum.splits io_error.splits option.splits entry.splits prod.splits)

lemma load_state_Inr: "load_state J w = (Inr s, w') \<Longrightarrow> w_fs w' = w_fs w \<and> state_is J (w_fs w) s"
  by (auto simp: load_state_def state_is_def io_ret_def io_err_def elim!: io_bind_Inr dest!: opt_read_Inr
      split: option.splits sum.splits)

lemma store_Inr: "store p e fs = (Inr u, fs') \<Longrightarrow> fs' = put p e fs"
  by (auto simp: store_def split: if_splits option.splits entry.splits)

lemma rename_file_Inr:
  "rename_file src dst w = (Inr u, w') \<Longrightarrow> map_of (w_fs w) src = Some e \<Longrightarrow> \<not> prefix src dst \<Longrightarrow> map_of (w_fs w') dst = Some e"
  by (auto simp: rename_file_def dest!: sys_Inr store_Inr sym [of "drop_tree _ _"] split: option.splits entry.splits prod.splits sum.splits)

lemma atomic_write_state_Inr:
  assumes "atomic_write_file state_path state_tmp_path bs w = (Inr u, w')"
  shows "\<exists>m. map_of (w_fs w') state_path = Some (EFile bs m)"
proof -
  from assms obtain w1 u1 w2 u2 where w: "fs_write state_tmp_path bs w1 = (Inr u1, w2)"
    and r: "rename_or_clean state_tmp_path state_path w2 = (Inr u2, w')"
    by (auto simp: atomic_write_file_def io_map_err_Inr elim!: io_seq_Inr)
  obtain m where "map_of (w_fs w2) state_tmp_path = Some (EFile bs m)" using fs_write_Inr [OF w] by auto
  moreover have "rename_file state_tmp_path state_path w2 = (Inr u2, w')"
    using r by (auto simp: rename_or_clean_def split: prod.splits sum.splits)
  ultimately show ?thesis using rename_file_Inr by (fastforce simp: state_path_def state_tmp_path_def)
qed

lemma restore_bytes_Inr:
  assumes "restore_state_file_bytes b w = (Inr u, w')"
  shows "case b of None \<Rightarrow> map_of (w_fs w') state_path = None | Some bs \<Rightarrow> \<exists>m. map_of (w_fs w') state_path = Some (EFile bs m)"
proof (cases b)
  case None
  obtain x w1 where x: "remove_file state_path w = (x, w1)" by fastforce
  show ?thesis
    using assms None x
    by (auto simp: restore_state_file_bytes_def remove_if_there_def remove_file_def dest!: sys_Inr sys_Inl_NotFound sym [of "drop_tree _ _"]
        split: sum.splits io_error.splits option.splits entry.splits)
next
  case (Some bs)
  then show ?thesis using assms atomic_write_state_Inr by (simp add: restore_state_file_bytes_def)
qed

lemma restore_state_Inr:
  "codec_laws J \<Longrightarrow> restore_project_remote_state J prev w = (Inr u, w') \<Longrightarrow> state_is J (w_fs w') prev"
  unfolding restore_project_remote_state_def
  by (drule restore_bytes_Inr) (auto simp: state_is_def codec_laws_def split: option.splits)

lemma state_is_keeps: "keeps S w w' \<Longrightarrow> state_path \<notin> S \<Longrightarrow> state_is J (w_fs w') s = state_is J (w_fs w) s"
  by (simp add: state_is_def keepsD(1) split: option.split)

lemma state_is_functional: "state_is J fs s \<Longrightarrow> state_is J fs t \<Longrightarrow> s = t"
  by (auto simp: state_is_def split: option.splits)

end
