(* ===== verification/RemoteExample.thy ===== *)
theory RemoteExample
  imports RemoteSafety "HOL-Library.Countable"
begin

text \<open>
  A concrete project: one managed file, a cached repository that holds another version of it, and
  runs of the synchronisation, one of which is cut off while it copies.
\<close>

section \<open>The environment\<close>

definition toy_git :: git_ops where
  "toy_git = \<lparr>g_open = (\<lambda>p fs. Inr ()), g_clone = (\<lambda>u p fs. (Inr (), fs)), g_find_remote = (\<lambda>p fs. Inr (Some ''url'')),
     g_set_url = (\<lambda>u p fs. (Inr (), fs)), g_add_remote = (\<lambda>u p fs. (Inr (), fs)), g_tag_refs = (\<lambda>p fs. Inr []),
     g_delete_ref = (\<lambda>u p fs. (Inr (), fs)), g_fetch = (\<lambda>p fs. (Inr (), fs)),
     g_tag_names = (\<lambda>p fs. Inr [Some ''v2'', None, Some ''x'', Some ''v1'']), g_revparse = (\<lambda>s p fs. Inr s), g_peel = (\<lambda>s p fs. Inr s),
     g_find_ref = (\<lambda>s p fs. Inr s), g_symbolic = (\<lambda>s p fs. Inr None), g_find_commit = (\<lambda>s p fs. Inr ()),
     g_checkout = (\<lambda>s p fs. if map_of fs (p @ [''models'']) = Some EDir \<and> map_of fs (p @ [''models'', ''a'']) \<noteq> Some EDir
        then (Inr (), put (p @ [''models'', ''a'']) (EFile [2] 420) fs) else (Inl ''conflict'', fs)), g_set_head = (\<lambda>s p fs. (Inr (), fs))\<rparr>"

definition toy_semver :: "nat semver" where
  "toy_semver = \<lparr>sv_parse = (\<lambda>s. if s = ''1'' then Some 1 else if s = ''2'' then Some 2 else None), sv_le = (\<le>)\<rparr>"

lemma toy_semver_laws: "semver_laws toy_semver"
  by (auto simp: semver_laws_def toy_semver_def)

definition toy_codec :: "'s::countable codec" where
  "toy_codec = \<lparr>encode = (\<lambda>x. replicate (to_nat x) 0), decode = (\<lambda>bs. Inr (from_nat (length bs)))\<rparr>"

lemma toy_codec_laws: "codec_laws toy_codec"
  by (simp add: codec_laws_def toy_codec_def)

definition state_parts :: "project_remote_state \<Rightarrow> (string \<times> string \<times> string) +
    ((string \<times> string \<times> string) option \<times> (string \<times> string \<times> string) option)" where
  "state_parts s =
     (let f = (\<lambda>g. (gs_current_version g, gs_resolved_tag g, gs_revision g)) in
      case s of Single v t r \<Rightarrow> Inl (v, t, r) | Dual m i \<Rightarrow> Inr (map_option f m, map_option f i))"

lemma state_parts_inj: "inj state_parts"
proof (rule injI)
  have o: "map_option (\<lambda>g. (gs_current_version g, gs_resolved_tag g, gs_revision g)) a =
      map_option (\<lambda>g. (gs_current_version g, gs_resolved_tag g, gs_revision g)) b \<Longrightarrow> a = b" for a b :: "group_state option"
    by (cases a; cases b) (auto intro: group_state.equality)
  fix a b assume "state_parts a = state_parts b"
  then show "a = b" using o by (cases a; cases b) (auto simp: state_parts_def Let_def)
qed

instance project_remote_state :: countable
  by (rule countable_classI [of "\<lambda>s. to_nat (state_parts s)"]) (auto dest: injD [OF state_parts_inj])

definition toy_env :: "nat remote_env" where
  "toy_env = \<lparr>e_git = toy_git, e_semver = toy_semver, e_follows = (\<lambda>fs p. False), e_manifest = toy_codec,
     e_state = toy_codec, e_config_error = (\<lambda>fs. None)\<rparr>"

lemma toy_git_laws: "git_laws toy_git"
proof -
  have "p @ [''models'', ''a''] \<in> spot p" "butlast (p @ [''models'', ''a'']) = p @ [''models'']" for p
    using under_spot(2) [of p "[''models'', ''a'']"] by (simp_all add: butlast_append)
  then show ?thesis
    by (auto simp: git_laws_def git_step_def fs_step_def toy_git_def is_dir_at_def intro!: tree_ok_put)
qed

text \<open>Every commit has the one file.\<close>

definition toy_tree :: "string \<Rightarrow> path \<Rightarrow> entry option" where
  "toy_tree c q = (if q = [''models'', ''a''] then Some (EFile [2] 420) else None)"

lemma toy_checkout_law: "checkout_law toy_git toy_tree"
  by (auto simp: checkout_law_def toy_git_def toy_tree_def split: if_splits)

lemma toy_env_simps [simp]:
  "e_git toy_env = toy_git" "e_semver toy_env = toy_semver" "e_follows toy_env = (\<lambda>fs p. False)"
  "e_manifest toy_env = toy_codec" "e_state toy_env = toy_codec" "e_config_error toy_env = (\<lambda>fs. None)"
  by (simp_all add: toy_env_def)

lemma toy_decode [simp]: "decode toy_codec (encode toy_codec x) = Inr x"
  by (simp add: toy_codec_def)

definition toy_files :: file_system where
  "toy_files =
     [([''.run''], EDir), ([''.run'', ''project_remote''], EDir), ([''.run'', ''project_remote'', ''remote-models''], EDir),
      ([''.run'', ''project_remote'', ''remote-models'', ''models''], EDir),
      ([''.run'', ''project_remote'', ''remote-models'', ''models'', ''a''], EFile [0] 420),
      ([''models''], EDir), ([''models'', ''a''], EFile [1] 384)]"

definition toy_world :: "io_fault option list \<Rightarrow> world" where
  "toy_world fl = \<lparr>w_fs = toy_files, w_locked = False, w_faults = fl, w_unseen = []\<rparr>"

lemma toy_sees [simp]: "sees (toy_world fl)"
  by (simp add: sees_def toy_world_def)

lemma toy_files_ok: "tree_ok toy_files"
  by (auto simp: tree_ok_def toy_files_def is_dir_at_def split: if_splits)

section \<open>Runs\<close>

lemmas io_defs = io_ret_def io_err_def io_bind_def io_seq_def io_map_err_def sys_def unharmed_def
  symlink_metadata_def fs_read_def read_file_def create_dir_all_def put_def drop_tree_def is_dir_at_def store_def fs_write_def
  fs_copy_def set_permissions_def read_link_def symlink_def remove_file_def remove_dir_all_def rename_file_def exists_at_def path_exists_def seen_def
  mode_at_def partial_store_def partly_dropped_def
lemmas managed_defs = remove_path_def copy_symlink_def copy_file_def copy_entry_def copy_dir_def copy_path_def entry_mode_def
  reading_def exists_read_def reads_bind_def stat_at_def file_bytes_equal_def link_at_def read_dir_names_def same_type_def managed_dirs_for_def
  with_reads_def managed_dirs_differ_def backup_managed_dirs_def sync_dir_def sync_managed_dirs_def restore_managed_dirs_def names_in_def
  backup_path_def backup_manifest_path_def

lemmas repo_defs = git_read_def git_write_def opt_read_def load_state_def state_path_def state_tmp_path_def rename_or_clean_def
  atomic_write_file_def remove_if_there_def restore_state_file_bytes_def restore_project_remote_state_def persist_group_state_def
  persist_state_def strip_v_def parse_tag_version_def tag_version_label_def ensure_remote_def clear_tag_def clear_local_release_tags_def
  prepare_remote_repo_def fetch_remote_tags_def resolve_tag_def version_matches_def choose_tag_def tag_list_def resolve_tag_for_version_def
  tag_or_not_found_def checkout_commit_def find_first_def trim_def trim_start_def trim_end_def is_ascii_ws_def
lemmas sync_defs = remote_cache_path_for_def resolve_target_def apply_update_def rollback_partial_update_def apply_or_rollback_def
  mk_result_def sync_project_remote_with_repo_inner_def from_revision_def

lemmas toy_defs = toy_world_def toy_files_def toy_git_def toy_semver_def map_filter_def paths_equal.simps walk.simps Let_def

text \<open>A run to the end.\<close>

lemma sync_toy_run: "\<exists>r w'. sync_project_remote_with_repo_inner toy_env ''url'' (Some ''1'') None (Some Models) (toy_world []) = (Inr r, w')"
  by (simp add: io_defs managed_defs repo_defs sync_defs toy_defs)



definition cut_copy :: "io_fault option list" where
  "cut_copy = [None, None, None, None, None, None, None, None, None, None,
     None, None, None, None, None, None, None, None, None, None, None, None, None, None, None,
     Some \<lparr>if_msg = ''disk full'', if_done = 0, if_keep = (\<lambda>p. False), if_bytes = Some []\<rparr>]"
text \<open>The disk fills up while the new file is copied: the old file is back, with its permission bits.\<close>

lemma toy_cut_run: "\<exists>w'. sync_project_remote_with_repo_inner toy_env ''url'' (Some ''1'') None (Some Models) (toy_world cut_copy)
    = (Inl (arrow ''copy'' (remote_cache_path_for (Some Models) @ [''models'', ''a'']) [''models'', ''a''] (IoOther ''disk full'')), w') \<and>
      map_of (w_fs w') [''models'', ''a''] = Some (EFile [1] 384)"
  by (simp add: io_defs managed_defs repo_defs sync_defs toy_defs cut_copy_def)

definition bad_env :: "nat remote_env" where
  "bad_env = toy_env\<lparr>e_config_error := (\<lambda>fs. Some ''bad'')\<rparr>"

lemma bad_env_simps [simp]:
  "e_git bad_env = toy_git" "e_semver bad_env = toy_semver" "e_follows bad_env = (\<lambda>fs p. False)"
  "e_manifest bad_env = toy_codec" "e_state bad_env = toy_codec" "e_config_error bad_env = (\<lambda>fs. Some ''bad'')"
  by (simp_all add: bad_env_def)

lemmas locked_update_defs = acquire_project_remote_lock_def open_create_def try_lock_file_def run_remote_update_def unlock_def
  capture_project_remote_snapshot_with_group_def run_remote_update_locked_def validate_config_loads_def restore_project_remote_update_def
  lock_path_def

text \<open>The installed configuration does not load.\<close>

lemma toy_bad_run: "\<exists>w'. run_remote_update bad_env (Some ''1'') (Some Models) (real_sync bad_env ''url'' None) (toy_world [])
    = (Inl (check_failed (''validate conf/wfusion.toml failed: bad'')), w') \<and>
      map_of (w_fs w') [''models'', ''a''] = Some (EFile [1] 384)"
  by (simp add: io_defs managed_defs repo_defs sync_defs locked_update_defs real_sync_def toy_defs)

text \<open>
  What the premises of the properties exclude. The existence query of the backup fails: the directory
  is not backed up, the update removes it, and after the failed check it is not put back, although the
  error does not speak of the rollback. The same happens to a managed directory that is a dangling link.
\<close>

lemma hidden_directory_is_lost:
  "\<exists>w'. run_remote_update bad_env (Some ''1'') (Some Models) (real_sync bad_env ''url'' None)
      ((toy_world [])\<lparr>w_unseen := [False, False, False, False, False, True]\<rparr>)
    = (Inl (check_failed (''validate conf/wfusion.toml failed: bad'')), w') \<and> map_of (w_fs w') [''models''] = None"
  by (simp add: io_defs managed_defs repo_defs sync_defs locked_update_defs real_sync_def toy_defs)

lemma dangling_directory_is_lost:
  "\<exists>w'. run_remote_update bad_env (Some ''1'') (Some Models) (real_sync bad_env ''url'' None)
      ((toy_world [])\<lparr>w_fs := take 5 toy_files @ [([''models''], ELink ''gone'')]\<rparr>)
    = (Inl (check_failed (''validate conf/wfusion.toml failed: bad'')), w') \<and> map_of (w_fs w') [''models''] = None"
  by (simp add: io_defs managed_defs repo_defs sync_defs locked_update_defs real_sync_def toy_defs)

end
