(* ===== verification/RemoteVersions.thy ===== *)
theory RemoteVersions
  imports RemoteExample
begin

text \<open>
  Which release a synchronisation chooses (\<open>repo.rs\<close>), when the comparison of two trees answers that
  they are equal (\<open>managed.rs\<close>), and which configurations have a mode (\<open>lib.rs\<close>).
\<close>

section \<open>The latest release\<close>

lemma max_by_snoc: "max_by le (xs @ [x]) =
    (case max_by le xs of None \<Rightarrow> Some x | Some y \<Rightarrow> if le y x then Some x else Some y)"
  by (simp add: max_by_def)

lemma max_by_greatest:
  assumes "\<And>a b. le a b \<or> le b a" "\<And>a b c. le a b \<Longrightarrow> le b c \<Longrightarrow> le a c"
  shows "case max_by le xs of None \<Rightarrow> xs = [] | Some m \<Rightarrow> m \<in> set xs \<and> (\<forall>x \<in> set xs. le x m)"
proof (induction xs rule: rev_induct)
  case (snoc x xs)
  have refl: "le a a" for a using assms(1) [of a a] by blast
  show ?case
  proof (cases "max_by le xs")
    case None
    then show ?thesis using snoc refl by (auto simp: max_by_def)
  next
    case (Some m)
    show ?thesis
    proof (cases "le m x")
      case True
      then show ?thesis using snoc Some refl assms(2) by (auto simp: max_by_snoc)
    next
      case False
      then have "le x m" using assms(1) [of m x] by blast
      then show ?thesis using snoc Some False by (auto simp: max_by_snoc)
    qed
  qed
qed (simp add: max_by_def)

lemma map_filter_member: "y \<in> set (List.map_filter f xs) \<longleftrightarrow> (\<exists>x \<in> set xs. f x = Some y)"
  by (induction xs) (auto simp: List.map_filter_simps split: option.splits)

text \<open>
  C21: The version a synchronisation takes when none is asked for is the version of a release tag that
  no release tag exceeds, and there is none only when no tag is a version; the tag chosen for that
  version carries it, so the tag with the exact name is preferred to one with another prefix.
\<close>

theorem latest_release_is_greatest:
  assumes "semver_laws S"
  shows "case latest_version S names of
      None \<Rightarrow> \<forall>t \<in> set names. parse_tag_version S t = None
    | Some v \<Rightarrow>
        (\<exists>t x. t \<in> set names \<and> parse_tag_version S t = Some (v, x) \<and>
           (\<forall>t' \<in> set names. \<forall>v' x'. parse_tag_version S t' = Some (v', x') \<longrightarrow> sv_le S x' x)) \<and>
        (v \<in> set names \<longrightarrow> choose_tag S v names = Some (v, tag_version_label S v)) \<and>
        (v \<notin> set names \<longrightarrow> strip_v v = v \<longrightarrow> (\<exists>t. t \<in> set names \<and> choose_tag S v names = Some (t, v)))"
proof -
  let ?le = "\<lambda>a b. sv_le S (snd a) (snd b)" and ?vs = "List.map_filter (parse_tag_version S) names"
  have g: "case max_by ?le ?vs of None \<Rightarrow> ?vs = [] | Some m \<Rightarrow> m \<in> set ?vs \<and> (\<forall>x \<in> set ?vs. ?le x m)"
    using assms unfolding semver_laws_def by (intro max_by_greatest) blast+
  show ?thesis
  proof (cases "max_by ?le ?vs")
    case None
    then have "set ?vs = {}" using g by simp
    then have "parse_tag_version S t = None" if "t \<in> set names" for t
      using that map_filter_member [of _ "parse_tag_version S" names] by (cases "parse_tag_version S t") auto
    then show ?thesis using None by (simp add: latest_version_def)
  next
    case (Some m)
    obtain v x where m: "m = (v, x)" by fastforce
    have in_vs: "(v, x) \<in> set ?vs" and top: "\<And>y. y \<in> set ?vs \<Longrightarrow> sv_le S (snd y) x" using g Some m by auto
    obtain t where t: "t \<in> set names" "parse_tag_version S t = Some (v, x)" using in_vs by (auto simp: map_filter_member)
    have ub: "sv_le S x' x" if "t' \<in> set names" "parse_tag_version S t' = Some (v', x')" for t' v' x'
      using top [of "(v', x')"] that by (auto simp: map_filter_member)
    have exact: "choose_tag S v names = Some (v, tag_version_label S v)" if "v \<in> set names"
    proof -
      have "find_first (\<lambda>n. n = v) names \<noteq> None" using that by (auto simp: find_first_None)
      then obtain n where n: "find_first (\<lambda>n. n = v) names = Some n" by blast
      then have "n = v" using find_first_Some [OF n] by simp
      then show ?thesis using n by (simp add: choose_tag_def)
    qed
    have other: "\<exists>t. t \<in> set names \<and> choose_tag S v names = Some (t, v)" if nv: "v \<notin> set names" and sv: "strip_v v = v"
    proof -
      have none: "find_first (\<lambda>n. n = v) names = None" using nv by (auto simp: find_first_None)
      have "version_matches S v t" using t(2) by (simp add: version_matches_def)
      then have "find_first (version_matches S v) names \<noteq> None" using t(1) by (auto simp: find_first_None)
      then obtain n where n: "find_first (version_matches S v) names = Some n" by blast
      have "n \<in> set names" "strip_v n = v"
        using find_first_Some [OF n] by (auto simp: version_matches_def parse_tag_version_def split: option.splits)
      then show ?thesis using none n sv by (simp add: choose_tag_def)
    qed
    have l: "latest_version S names = Some v" using Some m by (simp add: latest_version_def)
    show ?thesis using t ub exact other by (simp add: l) blast
  qed
qed

theorem latest_release_is_greatest_witness:
  "latest_version toy_semver [''v2'', ''x'', ''v1''] = Some ''2'' \<and> choose_tag toy_semver ''2'' [''v2'', ''x'', ''v1''] = Some (''v2'', ''2'')"
proof -
  have l: "latest_version toy_semver [''v2'', ''x'', ''v1''] = Some ''2''"
    by (simp add: latest_version_def max_by_def List.map_filter_simps parse_tag_version_def strip_v_def toy_semver_def)
  have "\<exists>t. t \<in> set [''v2'', ''x'', ''v1''] \<and> choose_tag toy_semver ''2'' [''v2'', ''x'', ''v1''] = Some (t, ''2'')"
    using latest_release_is_greatest [OF toy_semver_laws, of "[''v2'', ''x'', ''v1'']"] by (simp add: l strip_v_def)
  then show ?thesis using l
    by (auto simp: choose_tag_def find_first_def version_matches_def parse_tag_version_def strip_v_def toy_semver_def)
qed

section \<open>The comparison of trees\<close>

text \<open>
  C22: When the comparison of two trees answers, its answer is whether they have the same names,
  types, file contents and link targets throughout (permission bits are not compared), provided no
  link among them dangles and no query of \<open>Path::exists\<close> fails; the recursion ends because every call is on a directory with fewer entries below.
\<close>

theorem comparison_decides_content:
  assumes "paths_equal follows fs l r fl = (Inr b, fl')" "tree_ok fs" "l \<noteq> []" "r \<noteq> []"
    and "links_alive follows fs l" "links_alive follows fs r" and "all_seen fl"
  shows "b = same_content fs l r"
  using paths_equal_content [OF assms] .

lemma toy_comparison:
  "paths_equal (\<lambda>fs p. False) toy_files (remote_cache_path_for (Some Models) @ [''models'']) [''models'']
     ([], []) = (Inr False, [], [])"
  by (simp add: remote_cache_path_for_def toy_defs io_defs managed_defs)

theorem comparison_decides_content_witness:
  "\<not> same_content toy_files (remote_cache_path_for (Some Models) @ [''models'']) [''models'']"
proof -
  have "links_alive (\<lambda>fs p. False) toy_files p" for p
    by (auto simp: links_alive_def tree_at_def toy_files_def split: if_splits)
  from comparison_decides_content [OF toy_comparison toy_files_ok _ _ this this] show ?thesis by simp
qed

text \<open>Two links that dangle compare equal whatever their targets, so such a change is not synchronised.\<close>

lemma dangling_links_compare_equal:
  "paths_equal (\<lambda>fs p. False) [([''l''], ELink ''old''), ([''r''], ELink ''new'')] [''l''] [''r''] ([], []) = (Inr True, [], [])"
  by (simp add: paths_equal.simps reads_bind_def exists_read_def seen_def exists_at_def)

text \<open>So do any two paths when the existence queries on both fail.\<close>

lemma unseen_paths_compare_equal: "paths_equal follows fs l r (fl, [True, True]) = (Inr True, fl, [])"
  by (simp add: paths_equal.simps reads_bind_def exists_read_def seen_def)

text \<open>A release that changes only permission bits compares equal as well.\<close>

lemma permissions_not_compared:
  "paths_equal (\<lambda>fs p. False) [([''l''], EFile [1] 420), ([''r''], EFile [1] 493)] [''l''] [''r''] ([], []) = (Inr True, [], [])"
  by (simp add: paths_equal.simps exists_read_def seen_def exists_at_def stat_at_def reading_def reads_bind_def same_type_def file_bytes_equal_def read_file_def)

section \<open>The mode\<close>

lemma mode_single: "resolve_project_remote_mode conf = Inr (SingleMode r v) \<longleftrightarrow>
    trim (pr_repo conf) \<noteq> [] \<and> pr_models conf = None \<and> pr_infra conf = None \<and> r = pr_repo conf \<and> v = pr_init_version conf"
  by (cases "trim (pr_repo conf) = []"; cases "pr_models conf"; cases "pr_infra conf")
    (auto simp: resolve_project_remote_mode_def)

lemma mode_dual: "resolve_project_remote_mode conf = Inr (DualMode m i) \<longleftrightarrow>
    trim (pr_repo conf) = [] \<and> pr_models conf = Some m \<and> pr_infra conf = Some i \<and> trim (rg_repo m) \<noteq> [] \<and> trim (rg_repo i) \<noteq> []"
  by (cases "trim (pr_repo conf) = []"; cases "pr_models conf"; cases "pr_infra conf")
    (auto simp: resolve_project_remote_mode_def)

text \<open>
  The entry points accept exactly the configurations of their mode: a single repository with
  neither group, or both groups with their repositories; every other request is refused without
  touching the file system.
\<close>

theorem entry_points_respect_mode:
  assumes "sync_project_remote E conf requested w = (out, w')"
    and "sync_project_remote_group E g conf requested w = (out_g, w_g)"
  shows "((pr_enabled conf \<and> trim (pr_repo conf) \<noteq> [] \<and> pr_models conf = None \<and> pr_infra conf = None) \<or> (isl out \<and> w' = w)) \<and>
    ((pr_enabled conf \<and> trim (pr_repo conf) = [] \<and> pr_models conf \<noteq> None \<and> pr_infra conf \<noteq> None) \<or> (isl out_g \<and> w_g = w))"
proof (cases "resolve_project_remote_mode conf")
  case (Inl e)
  then show ?thesis using assms by (auto simp: sync_project_remote_def sync_project_remote_group_def io_err_def split: if_splits)
next
  case (Inr md)
  show ?thesis
  proof (cases md)
    case (SingleMode r v)
    then show ?thesis using Inr mode_single [of conf r v] assms
      by (auto simp: sync_project_remote_def sync_project_remote_group_def io_err_def split: if_splits)
  next
    case (DualMode m i)
    then show ?thesis using Inr mode_dual [of conf m i] assms
      by (auto simp: sync_project_remote_def sync_project_remote_group_def io_err_def split: if_splits)
  qed
qed

text \<open>A configuration that names a group beside the single repository is refused by both.\<close>

definition mixed_conf :: project_remote_conf where
  "mixed_conf = \<lparr>pr_enabled = True, pr_repo = ''url'', pr_init_version = [],
     pr_models = Some \<lparr>rg_repo = ''m'', rg_init_version = []\<rparr>, pr_infra = None\<rparr>"

theorem entry_points_respect_mode_witness:
  "isl (fst (sync_project_remote toy_env mixed_conf None (toy_world []))) \<and>
   snd (sync_project_remote_group toy_env Models mixed_conf None (toy_world [])) = toy_world []"
proof -
  obtain out w' where a: "sync_project_remote toy_env mixed_conf None (toy_world []) = (out, w')" by fastforce
  obtain out_g w_g where b: "sync_project_remote_group toy_env Models mixed_conf None (toy_world []) = (out_g, w_g)" by fastforce
  show ?thesis using entry_points_respect_mode [OF a b] a b by (simp add: mixed_conf_def)
qed

end
