(* ===== verification/AdminApi.thy ===== *)
theory AdminApi
  imports RemoteSync
begin

text \<open>
  The HTTP interface of the running engine (\<open>wfusion/src/admin_api.rs\<close>): who may ask, what a reload
  request may say, the reload with its optional update of the project, and what is put back when
  the engine refuses it. The HTTP library, the JSON codec, the configuration loader and the engine are
  parameters. A header is its name with the value \<open>HeaderValue::to_str\<close> gives, if it gives one.
\<close>

section \<open>Requests and responses\<close>

text \<open>The body as the transport delivers it, or the message of the read error.\<close>

datatype body = Body bytes | BodyFails string

record http_request =
  rq_method :: string
  rq_path :: string
  rq_headers :: "(string \<times> string option) list"
  rq_body :: body
  rq_uuid :: string

record reload_request =
  rl_wait :: bool
  rl_update :: bool
  rl_version :: "string option"
  rl_group :: "string option"
  rl_timeout_ms :: "nat option"
  rl_reason :: "string option"

datatype version_value = VObject "(string \<times> string \<times> string) list" | VText string

record runtime_status =
  st_instance_id :: string
  st_version :: string
  st_project_version :: "version_value option"
  st_accepting :: bool
  st_reloading :: bool
  st_current_request_id :: "string option"
  st_last_request_id :: "string option"
  st_last_result :: "string option"
  st_started_at :: "nat option"
  st_finished_at :: "nat option"

record reload_response =
  rr_request_id :: string
  rr_accepted :: bool
  rr_result :: string
  rr_update :: "bool option"
  rr_requested_version :: "string option"
  rr_current_version :: "string option"
  rr_resolved_tag :: "string option"
  rr_group :: "string option"
  rr_force_replaced :: "bool option"
  rr_warning :: "string option"
  rr_error :: "string option"

text \<open>The request id, the result and the message of an \<open>ErrorResponse\<close>, which never says it was accepted.\<close>

datatype payload = ErrorBody string string string | ReloadBody reload_response | StatusBody runtime_status

type_synonym response = "nat \<times> payload"

section \<open>The state of the server\<close>

record reload_state =
  rs_current :: "string option"
  rs_last_id :: "string option"
  rs_last_result :: "string option"
  rs_started_at :: "nat option"
  rs_finished_at :: "nat option"

record admin_state =
  ad_world :: world
  ad_cancelled :: bool
  ad_reloading :: bool
  ad_reload :: reload_state

text \<open>The configuration source of the boot, with the overrides of the command line.\<close>

record ('c, 'm, 'k) config_source =
  cs_load_raw :: "file_system \<Rightarrow> string + 'c"
  cs_load :: "file_system \<Rightarrow> string + 'c"
  cs_project_remote :: "'c \<Rightarrow> project_remote_conf"
  cs_mode_override :: "'m option"
  cs_metrics_override :: "'k option"
  cs_set_mode :: "'m \<Rightarrow> 'c \<Rightarrow> 'c"
  cs_set_metrics :: "'k \<Rightarrow> 'c \<Rightarrow> 'c"

record ('v, 'c, 'm, 'k) admin_env =
  ae_remote :: "'v remote_env"
  ae_source :: "('c, 'm, 'k) config_source"
  ae_decode :: "bytes \<Rightarrow> string + reload_request"
  ae_token :: string
  ae_instance :: string
  ae_version :: string
  ae_max_body :: nat

definition with_mode_override :: "'m \<Rightarrow> ('c, 'm, 'k) config_source \<Rightarrow> ('c, 'm, 'k) config_source" where
  "with_mode_override m S = S\<lparr>cs_mode_override := Some m\<rparr>"

definition with_metrics_override :: "'k \<Rightarrow> ('c, 'm, 'k) config_source \<Rightarrow> ('c, 'm, 'k) config_source" where
  "with_metrics_override k S = S\<lparr>cs_metrics_override := Some k\<rparr>"

definition apply_overrides :: "('c, 'm, 'k) config_source \<Rightarrow> 'c \<Rightarrow> 'c" where
  "apply_overrides S c =
     (let c1 = (case cs_mode_override S of Some m \<Rightarrow> cs_set_mode S m c | None \<Rightarrow> c) in
      case cs_metrics_override S of Some k \<Rightarrow> cs_set_metrics S k c1 | None \<Rightarrow> c1)"

text \<open>
  Marking a reload stores the atomic flag, then awaits the mutex of the reload state and writes it
  there: two steps, between which other tasks run.
\<close>

definition raise_flag :: "admin_state \<Rightarrow> admin_state" where
  "raise_flag s = s\<lparr>ad_reloading := True\<rparr>"

definition lower_flag :: "admin_state \<Rightarrow> admin_state" where
  "lower_flag s = s\<lparr>ad_reloading := False\<rparr>"

definition note_started :: "string \<Rightarrow> nat \<Rightarrow> admin_state \<Rightarrow> admin_state" where
  "note_started rid now s =
     s\<lparr>ad_reload := (ad_reload s)\<lparr>rs_current := Some rid, rs_last_id := Some rid, rs_started_at := Some now,
         rs_finished_at := None, rs_last_result := None\<rparr>\<rparr>"

definition note_finished :: "string \<Rightarrow> string \<Rightarrow> nat \<Rightarrow> admin_state \<Rightarrow> admin_state" where
  "note_finished rid result now s =
     s\<lparr>ad_reload := (ad_reload s)\<lparr>rs_current := (if rs_current (ad_reload s) = Some rid then None else rs_current (ad_reload s)),
         rs_last_id := Some rid, rs_last_result := Some result, rs_finished_at := Some now\<rparr>\<rparr>"

definition mark_reload_started :: "string \<Rightarrow> nat \<Rightarrow> admin_state \<Rightarrow> admin_state" where
  "mark_reload_started rid now s = note_started rid now (raise_flag s)"

definition mark_reload_finished :: "string \<Rightarrow> string \<Rightarrow> nat \<Rightarrow> admin_state \<Rightarrow> admin_state" where
  "mark_reload_finished rid result now s = note_finished rid result now (lower_flag s)"

lemmas flag_simps = raise_flag_def lower_flag_def note_started_def note_finished_def

text \<open>A monitor that comes to the mutex late overwrites what the status says of the reload after its own.\<close>

lemma late_report_overwrites:
  assumes "old \<noteq> new"
  shows "let r = ad_reload (note_finished old result now' (note_started new now (raise_flag (lower_flag s))))
    in rs_current r = Some new \<and> rs_last_id r = Some old \<and> rs_last_result r = Some result \<and> rs_finished_at r = Some now'"
  using assms by (simp add: note_finished_def note_started_def)

section \<open>Reading a request\<close>

definition request_id :: "http_request \<Rightarrow> string" where
  "request_id rq =
     (case Option.bind (map_of (rq_headers rq) ''x-request-id'') id of
        Some v \<Rightarrow> (if trim v \<noteq> [] then trim v else rq_uuid rq)
      | None \<Rightarrow> rq_uuid rq)"

definition authorized :: "http_request \<Rightarrow> string \<Rightarrow> bool" where
  "authorized rq token =
     (case map_of (rq_headers rq) ''authorization'' of
        None \<Rightarrow> False
      | Some None \<Rightarrow> False
      | Some (Some v) \<Rightarrow> (case strip_prefix ''Bearer '' v of None \<Rightarrow> False | Some part \<Rightarrow> part = token))"

datatype read_body_error = TooLarge nat | InvalidJson string | ReadFailed string

text \<open>\<open>Limited\<close> fails once the body is longer than the limit, with a message the code recognises.\<close>

definition read_json_body :: "(bytes \<Rightarrow> string + 'a) \<Rightarrow> nat \<Rightarrow> body \<Rightarrow> read_body_error + 'a" where
  "read_json_body dec limit b =
     (case b of
        BodyFails e \<Rightarrow>
          Inl (if sublist ''length limit exceeded'' e then TooLarge limit else ReadFailed (''read request body failed: '' @ e))
      | Body bs \<Rightarrow>
          (if length bs > limit then Inl (TooLarge limit)
           else case dec bs of Inl e \<Rightarrow> Inl (InvalidJson (''invalid JSON body: '' @ e)) | Inr x \<Rightarrow> Inr x))"

definition read_project_version :: "project_remote_state codec \<Rightarrow> (string, version_value option) io" where
  "read_project_version J =
     io_bind (current_project_group_versions J) (\<lambda>g. case g of
        Some vs \<Rightarrow> io_ret (Some (VObject vs))
      | None \<Rightarrow> io_bind (current_project_version J) (\<lambda>v. io_ret (map_option VText v)))"

definition status_response :: "('v, 'c, 'm, 'k) admin_env \<Rightarrow> admin_state \<Rightarrow> response \<times> admin_state" where
  "status_response A s =
     (let (v, w) = read_project_version (e_state (ae_remote A)) (ad_world s);
          r = ad_reload s in
      ((200, StatusBody \<lparr>st_instance_id = ae_instance A, st_version = ae_version A,
          st_project_version = (case v of Inr x \<Rightarrow> x | Inl e \<Rightarrow> None), st_accepting = (\<not> ad_cancelled s), st_reloading = ad_reloading s,
          st_current_request_id = rs_current r, st_last_request_id = rs_last_id r, st_last_result = rs_last_result r,
          st_started_at = rs_started_at r, st_finished_at = rs_finished_at r\<rparr>),
       s\<lparr>ad_world := w\<rparr>))"

section \<open>What a reload request may ask\<close>

definition in_progress :: "string \<Rightarrow> response" where
  "in_progress rid =
     (409, ReloadBody \<lparr>rr_request_id = rid, rr_accepted = False, rr_result = ''reload_in_progress'', rr_update = None,
        rr_requested_version = None, rr_current_version = None, rr_resolved_tag = None, rr_group = None,
        rr_force_replaced = None, rr_warning = None, rr_error = None\<rparr>)"

definition check_update_fields :: "reload_request \<Rightarrow> string + remote_group option" where
  "check_update_fields r =
     (if \<not> rl_update r \<and> rl_version r \<noteq> None then Inl ''version requires update=true''
      else if \<not> rl_update r \<and> (case rl_group r of Some g \<Rightarrow> g \<noteq> [] | None \<Rightarrow> False) then Inl ''group requires update=true''
      else case rl_group r of
        None \<Rightarrow> Inr None
      | Some raw \<Rightarrow>
          (if raw = [] then Inr None
           else case remote_group_from_str raw of Inr g \<Rightarrow> Inr (Some g) | Inl e \<Rightarrow> Inl e))"

definition load_remote_conf :: "('c, 'm, 'k) config_source \<Rightarrow> file_system \<Rightarrow> string + project_remote_conf" where
  "load_remote_conf S fs =
     (case cs_load S fs of
        Inl e \<Rightarrow> Inl (''failed to load config for [project_remote]: '' @ e)
      | Inr c \<Rightarrow> Inr (cs_project_remote S c))"

definition check_remote ::
  "('c, 'm, 'k) config_source \<Rightarrow> file_system \<Rightarrow> string \<Rightarrow> reload_request \<Rightarrow> remote_group option \<Rightarrow>
   response + project_remote_conf option" where
  "check_remote S fs rid r g =
     (if \<not> rl_update r then Inr None
      else case load_remote_conf S fs of
        Inl e \<Rightarrow> Inl (500, ErrorBody rid ''update_failed'' e)
      | Inr conf \<Rightarrow>
          (if \<not> pr_enabled conf
           then Inl (500, ErrorBody rid ''update_failed'' ''update requested but [project_remote] is disabled in config'')
           else case resolve_project_remote_mode conf of
             Inr (DualMode m i) \<Rightarrow>
               (if g = None
                then Inl (400, ErrorBody rid ''invalid_request'' ''dual-repo mode requires group (models|infra) with update=true'')
                else Inr (Some conf))
           | Inr (SingleMode repo v) \<Rightarrow> Inr (Some conf)
           | Inl e \<Rightarrow> Inl (400, ErrorBody rid ''invalid_request'' e)))"

record admitted =
  am_rid :: string
  am_request :: reload_request
  am_group :: "remote_group option"
  am_conf :: "project_remote_conf option"

text \<open>The part of \<open>handle_reload\<close> that only looks, under the gate: the response that refuses the request, or what it asks.\<close>

definition admit_reload ::
  "('v, 'c, 'm, 'k) admin_env \<Rightarrow> string \<Rightarrow> body \<Rightarrow> admin_state \<Rightarrow> response + admitted" where
  "admit_reload A rid b s =
     (case read_json_body (ae_decode A) (ae_max_body A) b of
        Inl (TooLarge n) \<Rightarrow> Inl (413, ErrorBody rid ''payload_too_large'' (''request body exceeds '' @ dec_digits n @ '' bytes''))
      | Inl (InvalidJson e) \<Rightarrow> Inl (400, ErrorBody rid ''invalid_request'' e)
      | Inl (ReadFailed e) \<Rightarrow> Inl (400, ErrorBody rid ''invalid_request'' e)
      | Inr r \<Rightarrow>
          (case check_update_fields r of
             Inl e \<Rightarrow> Inl (400, ErrorBody rid ''invalid_request'' e)
           | Inr g \<Rightarrow>
               rbind (check_remote (ae_source A) (w_fs (ad_world s)) rid r g) (\<lambda>conf.
                 if ad_cancelled s then Inl (503, ErrorBody rid ''runtime_not_ready'' ''runtime command receiver not ready'')
                 else if ad_reloading s then Inl (in_progress rid)
                 else Inr \<lparr>am_rid = rid, am_request = r, am_group = g, am_conf = conf\<rparr>)))"

section \<open>The reload\<close>

record reload_context =
  rc_snapshot :: remote_snapshot
  rc_runtime :: runtime_artifact_snapshot
  rc_update :: "update_result option"

definition sync_closure :: "'v remote_env \<Rightarrow> project_remote_conf \<Rightarrow> sync_fn" where
  "sync_closure E conf ver g =
     (case g of Some g' \<Rightarrow> sync_project_remote_group E g' conf ver | None \<Rightarrow> sync_project_remote E conf ver)"

definition run_remote_sync ::
  "'v remote_env \<Rightarrow> project_remote_conf \<Rightarrow> string option \<Rightarrow> remote_group option \<Rightarrow> remote_snapshot \<Rightarrow> (string, update_result) io" where
  "run_remote_sync E conf version g snap = run_remote_update_locked E version g snap (sync_closure E conf)"

definition rollback_updated_project ::
  "'v remote_env \<Rightarrow> reload_context \<Rightarrow> world \<Rightarrow> string option \<times> world" where
  "rollback_updated_project E ctx w =
     (case rc_update ctx of
        None \<Rightarrow> (None, w)
      | Some r \<Rightarrow>
          (let (a, w1) = restore_project_remote_update (e_manifest E) (rc_snapshot ctx) (ur_changed r) w;
               (b, w2) = restore_runtime_artifact_snapshot (rc_runtime ctx) w1;
               warnings = (case a of Inl e \<Rightarrow> [''restore project failed: '' @ e] | Inr _ \<Rightarrow> []) @
                          (case b of Inl e \<Rightarrow> [''restore runtime artifacts failed: '' @ e] | Inr _ \<Rightarrow> [])
           in (if warnings = [] then None else Some (join ''; '' warnings), w2)))"

text \<open>A response with what the update did.\<close>

definition reload_body ::
  "string \<Rightarrow> bool \<Rightarrow> string \<Rightarrow> bool option \<Rightarrow> update_result option \<Rightarrow> bool option \<Rightarrow> string option \<Rightarrow> string option \<Rightarrow> payload" where
  "reload_body rid accepted result update u forced warning err =
     ReloadBody \<lparr>rr_request_id = rid, rr_accepted = accepted, rr_result = result, rr_update = update,
       rr_requested_version = Option.bind u ur_requested_version, rr_current_version = map_option ur_current_version u,
       rr_resolved_tag = map_option ur_resolved_tag u, rr_group = Option.bind u ur_group,
       rr_force_replaced = forced, rr_warning = warning, rr_error = err\<rparr>"

definition running_response :: "string \<Rightarrow> bool \<Rightarrow> update_result option \<Rightarrow> response" where
  "running_response rid update u = (202, reload_body rid True ''running'' (Some update) u None None None)"

text \<open>A reload the engine is working on: its context holds the lock until the job is dropped.\<close>

record 'c job =
  jb_rid :: string
  jb_update :: bool
  jb_wait :: bool
  jb_ctx :: reload_context
  jb_config :: "'c \<times> 'c"

definition capture_snapshots :: "remote_group option \<Rightarrow> (string, remote_snapshot \<times> runtime_artifact_snapshot) io" where
  "capture_snapshots g =
     io_bind (capture_project_remote_snapshot_with_group g) (\<lambda>s.
     io_bind capture_runtime_artifact_snapshot (\<lambda>r. io_ret (s, r)))"

definition sync_if_asked :: "'v remote_env \<Rightarrow> admitted \<Rightarrow> remote_snapshot \<Rightarrow> (string, update_result option) io" where
  "sync_if_asked E a snap =
     (case am_conf a of
        None \<Rightarrow> io_ret None
      | Some conf \<Rightarrow>
          io_bind (run_remote_sync E conf (rl_version (am_request a)) (am_group a) snap) (\<lambda>r. io_ret (Some r)))"

definition load_next :: "('c, 'm, 'k) config_source \<Rightarrow> file_system \<Rightarrow> string + 'c \<times> 'c" where
  "load_next S fs =
     (case (cs_load_raw S fs, cs_load S fs) of
        (Inr raw, Inr c) \<Rightarrow> Inr (raw, apply_overrides S c)
      | (Inl e, _) \<Rightarrow> Inl e
      | (_, Inl e) \<Rightarrow> Inl e)"

text \<open>
  The rest of \<open>handle_reload\<close> up to its next await: why it stops, or the job whose result the handler or
  its monitor awaits. Only a busy lock stops it without the lock.
\<close>

datatype stop = LockBusy string | UpdateFailed string | LoadFailed reload_context string

definition open_reload :: "('v, 'c, 'm, 'k) admin_env \<Rightarrow> admitted \<Rightarrow> (stop, 'c job) io" where
  "open_reload A a w =
     (let E = ae_remote A; rl = am_request a in
      case acquire_project_remote_lock w of
        (Inl e, w1) \<Rightarrow> (Inl (LockBusy e), w1)
      | (Inr _, w1) \<Rightarrow>
          (case capture_snapshots (am_group a) w1 of
             (Inl e, w2) \<Rightarrow> (Inl (UpdateFailed e), w2)
           | (Inr (snap, rt), w2) \<Rightarrow>
               (case sync_if_asked E a snap w2 of
                  (Inl e, w3) \<Rightarrow> (Inl (UpdateFailed e), w3)
                | (Inr u, w3) \<Rightarrow>
                    (let ctx = \<lparr>rc_snapshot = snap, rc_runtime = rt, rc_update = u\<rparr> in
                     case load_next (ae_source A) (w_fs w3) of
                       Inl e \<Rightarrow> (Inl (LoadFailed ctx e), w3)
                     | Inr c \<Rightarrow>
                         (Inr \<lparr>jb_rid = am_rid a, jb_update = rl_update rl, jb_wait = rl_wait rl, jb_ctx = ctx, jb_config = c\<rparr>, w3)))))"

definition stop_result :: "stop \<Rightarrow> string" where
  "stop_result st =
     (case st of LockBusy e \<Rightarrow> ''update_in_progress'' | UpdateFailed e \<Rightarrow> ''update_failed'' | LoadFailed ctx e \<Rightarrow> ''reload_failed'')"

text \<open>What a stopped handler does once it has marked the reload as finished: the guard of the lock is dropped last.\<close>

definition close_stop :: "('v, 'c, 'm, 'k) admin_env \<Rightarrow> admitted \<Rightarrow> stop \<Rightarrow> world \<Rightarrow> response \<times> world" where
  "close_stop A a st w =
     (let rid = am_rid a; rl = am_request a in
      case st of
        LockBusy e \<Rightarrow>
          ((409, ReloadBody \<lparr>rr_request_id = rid, rr_accepted = False, rr_result = ''update_in_progress'',
             rr_update = Some (rl_update rl), rr_requested_version = rl_version rl, rr_current_version = None,
             rr_resolved_tag = None, rr_group = rl_group rl, rr_force_replaced = None, rr_warning = None, rr_error = Some e\<rparr>), w)
      | UpdateFailed e \<Rightarrow> ((500, ErrorBody rid ''update_failed'' e), unlock w)
      | LoadFailed ctx e \<Rightarrow>
          (let (warning, w1) = rollback_updated_project (ae_remote A) ctx w
           in ((500, reload_body rid False ''reload_failed'' (Some (rl_update rl)) (rc_update ctx) None warning
                 (Some (''failed to load config: '' @ e))), unlock w1)))"

text \<open>The same without an interruption, from the lock to the response or to the call of the engine.\<close>

definition start_reload ::
  "('v, 'c, 'm, 'k) admin_env \<Rightarrow> nat \<Rightarrow> admitted \<Rightarrow> admin_state \<Rightarrow> (response + 'c job) \<times> admin_state" where
  "start_reload A now a s =
     (case open_reload A a (ad_world s) of
        (Inl st, w) \<Rightarrow>
          (let (resp, w') = close_stop A a st w
           in (Inl resp, (mark_reload_finished (am_rid a) (stop_result st) now s)\<lparr>ad_world := w'\<rparr>))
      | (Inr j, w) \<Rightarrow> (Inr j, s\<lparr>ad_world := w\<rparr>))"

text \<open>What \<open>apply_reload\<close> answers, or the message of the task that died.\<close>

datatype outcome = Applied | Blocked nat

datatype task_result = TaskDone "string + outcome" | TaskDied string

definition result_name :: "task_result \<Rightarrow> string" where
  "result_name t =
     (case t of
        TaskDone (Inr Applied) \<Rightarrow> ''reload_done'' | TaskDone (Inr (Blocked n)) \<Rightarrow> ''restart_required''
      | TaskDone (Inl e) \<Rightarrow> ''reload_failed'' | TaskDied e \<Rightarrow> ''reload_failed'')"

definition blocked_warning :: "nat \<Rightarrow> string" where
  "blocked_warning n =
     ''reload requires restart because '' @ dec_digits n @ '' restart-required changes were found; synced project content was kept''"

text \<open>\<open>map_reload_result\<close> after the mark: the response and the world, the context not yet dropped.\<close>

definition map_reload_result :: "'v remote_env \<Rightarrow> 'c job \<Rightarrow> string + outcome \<Rightarrow> world \<Rightarrow> response \<times> world" where
  "map_reload_result E j res w =
     (let u = rc_update (jb_ctx j); update = map_option (\<lambda>_. True) u in
      case res of
        Inr Applied \<Rightarrow> ((200, reload_body (jb_rid j) True ''reload_done'' update u (Some False) None None), w)
      | Inr (Blocked n) \<Rightarrow> ((200, reload_body (jb_rid j) True ''restart_required'' update u None (Some (blocked_warning n)) None), w)
      | Inl e \<Rightarrow>
          (let (warning, w1) = rollback_updated_project E (jb_ctx j) w
           in ((500, reload_body (jb_rid j) False ''reload_failed'' update u None warning (Some e)), w1)))"

text \<open>The answer of the waiting handler when the task died.\<close>

definition task_died :: "'v remote_env \<Rightarrow> 'c job \<Rightarrow> world \<Rightarrow> response \<times> world" where
  "task_died E j w =
     (let u = rc_update (jb_ctx j); (warning, w1) = rollback_updated_project E (jb_ctx j) w
      in ((500, reload_body (jb_rid j) True ''reload_failed'' (Some (jb_update j)) u None warning (Some ''runtime reload task failed'')), w1))"

text \<open>The end of a job, in the handler or in \<open>monitor_reload_task\<close> (which drops the response): the context is dropped last.\<close>

definition finish_job :: "'v remote_env \<Rightarrow> 'c job \<Rightarrow> task_result \<Rightarrow> admin_state \<Rightarrow> response \<times> admin_state" where
  "finish_job E j t s =
     (let (resp, w) = (case t of TaskDone res \<Rightarrow> map_reload_result E j res (ad_world s) | TaskDied e \<Rightarrow> task_died E j (ad_world s))
      in (resp, s\<lparr>ad_world := unlock w\<rparr>))"

end
