(* ===== verification/RemoteUpdate.thy ===== *)
theory RemoteUpdate
  imports RemoteExample
begin

text \<open>
  The properties of a synchronisation and of the locked update around it, from the phases of
  \<open>RemoteSafety\<close>.
\<close>

section \<open>Up to the update\<close>

definition same_dirs :: "remote_group option \<Rightarrow> file_system \<Rightarrow> file_system \<Rightarrow> bool" where
  "same_dirs g fs fs' = (\<forall>d \<in> set (managed_dirs_for g). tree_at fs' [d] = tree_at fs [d])"

lemma same_dirs_refl: "same_dirs g fs fs"
  by (simp add: same_dirs_def)

lemma same_dirs_trans: "same_dirs g a b \<Longrightarrow> same_dirs g b c \<Longrightarrow> same_dirs g a c"
  by (simp add: same_dirs_def)

lemma same_dirs_keeps:
  "keeps S w w' \<Longrightarrow> (\<And>d q. d \<in> set (managed_dirs_for g) \<Longrightarrow> [d] @ q \<notin> S) \<Longrightarrow> same_dirs g (w_fs w) (w_fs w')"
  unfolding same_dirs_def by (blast intro: tree_at_keeps)

lemma same_dirs_early: "keeps (early_region g) w w' \<Longrightarrow> same_dirs g (w_fs w) (w_fs w')"
  by (rule same_dirs_keeps) (auto dest: top_early)

lemma same_dirs_state: "keeps state_region w w' \<Longrightarrow> same_dirs g (w_fs w) (w_fs w')"
  by (rule same_dirs_keeps) (auto dest: top_state)

definition no_top_links :: "remote_group option \<Rightarrow> file_system \<Rightarrow> bool" where
  "no_top_links g fs = (\<forall>d \<in> set (managed_dirs_for g). not_a_link (map_of fs [d]))"

lemma no_top_links_same: "same_dirs g fs fs' \<Longrightarrow> no_top_links g fs \<Longrightarrow> no_top_links g fs'"
  unfolding same_dirs_def no_top_links_def tree_at_def by (metis append_Nil2)

lemma backed_up_same:
  assumes "same_dirs g fs fs'"
  shows "backed_up J (managed_dirs_for g) fs' x = backed_up J (managed_dirs_for g) fs x"
proof -
  have t: "tree_at fs' [d] = tree_at fs [d]" if "d \<in> set (managed_dirs_for g)" for d using assms that by (simp add: same_dirs_def)
  have m: "map_of fs' [d] = map_of fs [d]" if "d \<in> set (managed_dirs_for g)" for d
    using fun_cong [OF t [OF that], of "[]"] by (simp add: tree_at_def)
  have "filter (\<lambda>d. map_of fs' [d] \<noteq> None) (managed_dirs_for g) = filter (\<lambda>d. map_of fs [d] \<noteq> None) (managed_dirs_for g)"
    by (rule filter_cong) (simp_all add: m)
  then show ?thesis using t by (auto simp: backed_up_def)
qed

lemma backed_up_late:
  assumes "keeps (top_region (managed_dirs_for g) \<union> state_region) w w'" "backed_up J ds x (w_fs w)"
  shows "backed_up J ds x (w_fs w')"
proof -
  have "tree_at (w_fs w') (backup_path @ [d]) = tree_at (w_fs w) (backup_path @ [d])" for d
    by (rule tree_at_keeps [OF assms(1)]) (use late_region_backup [of "[d] @ _"] in simp)
  moreover have "map_of (w_fs w') backup_manifest_path = map_of (w_fs w) backup_manifest_path"
    unfolding backup_manifest_path_def by (rule keepsD(1) [OF assms(1) late_region_backup])
  ultimately show ?thesis using assms(2) by (simp add: backed_up_def)
qed

text \<open>What is known when the update of the managed directories begins.\<close>

definition at_update ::
  "'v remote_env \<Rightarrow> remote_group option \<Rightarrow> world \<Rightarrow> project_remote_state option \<Rightarrow> bool \<Rightarrow> world \<Rightarrow> bool" where
  "at_update E g w prev changed w1 =
     (keeps (early_region g) w w1 \<and> state_is (e_state E) (w_fs w) prev \<and>
      (changed \<longrightarrow> backed_up (e_manifest E) (managed_dirs_for g) (w_fs w) (w_fs w1)) \<and>
      (\<not> changed \<longrightarrow> (\<forall>d \<in> set (managed_dirs_for g).
         links_alive (e_follows E) (w_fs w1) (remote_cache_path_for g @ [d]) \<and> links_alive (e_follows E) (w_fs w1) [d]) \<longrightarrow>
       (\<forall>d \<in> set (managed_dirs_for g). same_content (w_fs w1) (remote_cache_path_for g @ [d]) [d])))"

text \<open>The files that commit \<open>c\<close> has in the managed directories, at their place below \<open>root\<close>.\<close>

definition holds_version ::
  "(string \<Rightarrow> path \<Rightarrow> entry option) \<Rightarrow> string \<Rightarrow> remote_group option \<Rightarrow> file_system \<Rightarrow> path \<Rightarrow> bool" where
  "holds_version T c g fs root =
     (\<forall>d \<in> set (managed_dirs_for g). \<forall>q e. T c (d # q) = Some e \<longrightarrow>
        map_option shape (tree_at fs (root @ [d]) q) = Some (shape e))"

lemma managed_not_git: "d \<in> set (managed_dirs_for g) \<Longrightarrow> \<not> prefix [''.git''] (d # q)"
  by (auto simp: managed_dirs_for_def split: option.splits remote_group.splits)

lemma managed_dirs_differ_Inr:
  assumes "managed_dirs_differ follows root dirs w = (Inr False, w')" "tree_ok (w_fs w)" "d \<in> set dirs"
    and alive: "\<And>d. d \<in> set dirs \<Longrightarrow> links_alive follows (w_fs w) (root @ [d]) \<and> links_alive follows (w_fs w) [d]"
    and sees: "sees w" and ne: "root \<noteq> []"
  shows "same_content (w_fs w) (root @ [d]) [d]"
proof -
  from assms(1) obtain fl' where
    "all_equal (\<lambda>d. paths_equal follows (w_fs w) (root @ [d]) [d]) dirs (w_faults w, w_unseen w) = (Inr True, fl')"
    by (auto simp: managed_dirs_differ_def with_reads_def io_ret_def Let_def elim!: io_bind_Inr split: prod.splits)
  then have "True = (\<forall>d \<in> set dirs. same_content (w_fs w) (root @ [d]) [d])"
  proof (rule all_equal_decides)
    show "all_seen (w_faults w, w_unseen w)" using sees by (simp add: sees_def)
    show "b = same_content (w_fs w) (root @ [d]) [d]"
      if "paths_equal follows (w_fs w) (root @ [d]) [d] fl = (Inr b, fl2)" "d \<in> set dirs" "all_seen fl" for d fl b fl2
      using paths_equal_content [OF that(1) assms(2) _ _ _ _ that(3)] alive [OF that(2)] ne by simp
  qed (rule paths_equal_keep)
  then show ?thesis using assms(3) by blast
qed

lemma with_reads_fs: "w_fs (snd (managed_dirs_differ follows root dirs w)) = w_fs w"
  by (auto simp: managed_dirs_differ_def with_reads_def io_bind_def io_ret_def Let_def split: prod.split sum.split)

lemma early_spots: "spot (remote_cache_path_for g) \<subseteq> early_region g" "spot backup_path \<subseteq> early_region g"
  by (auto simp: early_region_def)

lemma sync_phases:
  assumes run: "sync_project_remote_with_repo_inner E url requested init_version g w = (res, w')"
    and ok: "tree_ok (w_fs w)" and nl: "no_top_links g (w_fs w)" and G: "git_laws (e_git E)" and sees: "sees w"
  obtains (early) e where "res = Inl e" and "keeps (early_region g) w w'"
    | (update) prev t changed w1 where "at_update E g w prev changed w1" and "sees w1"
      and "\<And>T. checkout_law (e_git E) T \<Longrightarrow> holds_version T (rt_commit_id t) g (w_fs w1) (remote_cache_path_for g)"
      and "apply_or_rollback E (remote_cache_path_for g) (managed_dirs_for g) g prev (mk_result requested g prev t changed) w1 = (res, w')"
proof -
  let ?root = "remote_cache_path_for g" and ?dirs = "managed_dirs_for g" and ?S = "early_region g"
  have rne: "?root \<noteq> []" by (simp add: remote_cache_path_for_def)
  note mono = confined_mono [OF _ early_spots(1)] confined_mono [OF _ early_spots(2)]
  have c1: "confined ?S (prepare_remote_repo (e_git E) (e_follows E) ?root url)" by (rule mono(1) [OF confined_prepare [OF G rne]])
  have c2: "confined ?S (fetch_remote_tags (e_git E) (e_semver E) ?root url)" by (rule mono(1) [OF confined_fetch [OF G rne]])
  have c5: "confined ?S (checkout_commit (e_git E) ?root c tag)" for c tag by (rule mono(1) [OF confined_checkout [OF G rne]])
  have c7: "confined ?S (if changed then backup_managed_dirs (e_manifest E) (e_follows E) ?dirs else io_ret ())" for changed
    by (intro confined_if_const mono(2) [OF confined_backup] confined_ret)
  note c = confinedD [OF c1] confinedD [OF c2] confinedD [OF confined_load_state, where S = ?S]
    confinedD [OF confined_resolve_target, where S = ?S] confinedD [OF c5] confinedD [OF confined_differ, where S = ?S] confinedD [OF c7]
  show thesis
    using run unfolding sync_project_remote_with_repo_inner_def Let_def io_seq_def
  proof (elim io_bind_cases)
    fix u1 a u2 b prev x1 t x2 u3 x3 changed x4 u4 x5
    assume m1: "prepare_remote_repo (e_git E) (e_follows E) ?root url w = (Inr u1, a)"
      and m2: "fetch_remote_tags (e_git E) (e_semver E) ?root url a = (Inr u2, b)"
      and m3: "load_state (e_state E) b = (Inr prev, x1)"
      and m4: "resolve_target E ?root requested init_version g x1 = (Inr t, x2)"
      and m5: "checkout_commit (e_git E) ?root (rt_commit_id t) (rt_tag t) x2 = (Inr u3, x3)"
      and m6: "managed_dirs_differ (e_follows E) ?root ?dirs x3 = (Inr changed, x4)"
      and m7: "(if changed then backup_managed_dirs (e_manifest E) (e_follows E) ?dirs else io_ret ()) x4 = (Inr u4, x5)"
      and m8: "apply_or_rollback E ?root ?dirs g prev (mk_result requested g prev t changed) x5 = (res, w')"
    have kb: "keeps ?S w b" using c(1) [OF m1] c(2) [OF m2] by (blast intro: keeps_trans)
    have k4: "keeps ?S w x4" using kb c(3) [OF m3] c(4) [OF m4] c(5) [OF m5] c(6) [OF m6] by (blast intro: keeps_trans)
    have k3: "keeps ?S w x3" using kb c(3) [OF m3] c(4) [OF m4] c(5) [OF m5] by (blast intro: keeps_trans)
    have k5: "keeps ?S w x5" using k4 c(7) [OF m7] by (rule keeps_trans)
    have st: "state_is (e_state E) (w_fs w) prev" using load_state_Inr [OF m3] state_is_keeps [OF kb state_early] by blast
    have fs4: "w_fs x4 = w_fs x3" using with_reads_fs [of "e_follows E" ?root ?dirs x3] by (simp add: m6)
    have ok3: "tree_ok (w_fs x3)" using keepsD(2) [OF k3 ok] .
    have bk: "backed_up (e_manifest E) ?dirs (w_fs w) (w_fs x5)" if changed
    proof -
      have "same_dirs g (w_fs w) (w_fs x4)" using same_dirs_early [OF k4] .
      moreover have "backed_up (e_manifest E) ?dirs (w_fs x4) (w_fs x5)"
        using m7 that keepsD(2) [OF k4 ok] no_top_links_same [OF calculation nl] keepsD(4) [OF k4 sees]
        by (intro backup_Inr [OF _ _ plain_managed]) (auto simp: no_top_links_def)
      ultimately show ?thesis using backed_up_same by blast
    qed
    have eq: "same_content (w_fs x5) (?root @ [d]) [d]"
      if nc: "\<not> changed" and d: "d \<in> set ?dirs"
        and l: "\<forall>d \<in> set ?dirs. links_alive (e_follows E) (w_fs x5) (?root @ [d]) \<and> links_alive (e_follows E) (w_fs x5) [d]" for d
    proof -
      have "w_fs x5 = w_fs x3" using m7 nc fs4 by (simp add: io_ret_def)
      then show ?thesis
        using managed_dirs_differ_Inr [of "e_follows E" ?root ?dirs x3 x4 d] m6 nc ok3 d l keepsD(4) [OF k3 sees] rne by simp
    qed
    have at: "at_update E g w prev changed x5" using k5 st bk eq by (auto simp: at_update_def)
    have ver: "holds_version T (rt_commit_id t) g (w_fs x5) ?root" if law: "checkout_law (e_git E) T" for T
      unfolding holds_version_def
    proof (intro ballI allI impI)
      fix d q e assume d: "d \<in> set ?dirs" and e: "T (rt_commit_id t) (d # q) = Some e"
      have "map_option shape (map_of (w_fs x3) (?root @ d # q)) = Some (shape e)"
        by (rule checkout_commit_Inr [OF m5 law rne e managed_not_git [OF d]])
      moreover have "keeps (spot backup_path) x4 x5"
        using m7 confinedD [OF confined_backup] by (auto simp: io_ret_def keeps_refl split: if_splits)
      then have "tree_at (w_fs x5) (?root @ [d]) = tree_at (w_fs x4) (?root @ [d])"
        by (rule tree_at_keeps) (rule remote_backup_apart)
      ultimately show "map_option shape (tree_at (w_fs x5) (?root @ [d]) q) = Some (shape e)"
        by (simp add: tree_at_def fs4)
    qed
    from at keepsD(4) [OF k5 sees] ver m8 show thesis by (rule update)
  qed ((drule c)+, rule early, assumption, ((erule keeps_trans)+)?, (assumption | rule keeps_refl))+
qed

section \<open>The update and its rollback\<close>

definition next_state :: "remote_group option \<Rightarrow> project_remote_state option \<Rightarrow> update_result \<Rightarrow> project_remote_state" where
  "next_state g prev r =
     (case g of None \<Rightarrow> Single (ur_current_version r) (ur_resolved_tag r) (ur_to_revision r)
      | Some g' \<Rightarrow> set_group g' (new_group_state r) prev)"

lemma persist_Inr:
  assumes J: "codec_laws J" and st: "state_is J (w_fs w) prev"
    and run: "(case g of Some g' \<Rightarrow> persist_group_state J g' r | None \<Rightarrow> persist_state J r) w = (Inr u, w')"
  shows "keeps state_region w w' \<and> state_is J (w_fs w') (Some (next_state g prev r))"
proof
  show "keeps state_region w w'"
    using run confinedD [OF confined_persist(1)] confinedD [OF confined_persist(2)] by (auto split: option.splits)
  from run have "\<exists>s a v. load_state J w = (Inr s, a) \<and>
      atomic_write_file state_path state_tmp_path (encode J (next_state g s r)) a = (Inr v, w')"
    by (cases g) (auto simp: persist_state_def persist_group_state_def next_state_def io_err_def
        elim!: io_bind_Inr split: option.splits project_remote_state.splits)
  then obtain s a v where l: "load_state J w = (Inr s, a)"
    and wr: "atomic_write_file state_path state_tmp_path (encode J (next_state g s r)) a = (Inr v, w')" by blast
  have "s = prev" using load_state_Inr [OF l] st state_is_functional by blast
  then show "state_is J (w_fs w') (Some (next_state g prev r))"
    using atomic_write_state_Inr [OF wr] J by (auto simp: state_is_def codec_laws_def)
qed

lemma apply_update_Inr:
  assumes run: "apply_update E root (managed_dirs_for g) g r w = (Inr u, w')" and J: "codec_laws (e_state E)"
    and st: "state_is (e_state E) (w_fs w) prev"
  obtains w1 where "if ur_changed r then sync_managed_dirs (e_follows E) root (managed_dirs_for g) w = (Inr (), w1) else w1 = w"
    and "keeps state_region w1 w'" and "state_is (e_state E) (w_fs w') (Some (next_state g prev r))"
proof -
  from run obtain v w1 where a: "(if ur_changed r then sync_managed_dirs (e_follows E) root (managed_dirs_for g) else io_ret ()) w = (Inr v, w1)"
    and p: "(case g of Some g' \<Rightarrow> persist_group_state (e_state E) g' r | None \<Rightarrow> persist_state (e_state E) r) w1 = (Inr u, w')"
    by (auto simp: apply_update_def elim: io_seq_Inr)
  have "keeps (top_region (managed_dirs_for g)) w w1"
    using a confinedD [OF confined_sync_dirs] by (auto simp: io_ret_def keeps_refl split: if_splits)
  then have "state_is (e_state E) (w_fs w1) prev" using st state_is_keeps state_top by blast
  from persist_Inr [OF J this p] that [of w1] a show thesis by (auto simp: io_ret_def split: if_splits)
qed

lemma rollback_Inr:
  assumes run: "rollback_partial_update E prev changed (managed_dirs_for g) w = (Inr u, w')"
    and J: "codec_laws (e_state E)" "codec_laws (e_manifest E)" and ok: "tree_ok (w_fs w)" and ok0: "tree_ok fs0"
    and bk: "changed \<Longrightarrow> backed_up (e_manifest E) (managed_dirs_for g) fs0 (w_fs w)"
    and same: "\<not> changed \<Longrightarrow> same_dirs g fs0 (w_fs w)"
  shows "same_dirs g fs0 (w_fs w') \<and> state_is (e_state E) (w_fs w') prev"
proof -
  from run obtain v w1 where a: "(if changed then restore_managed_dirs (e_manifest E) (managed_dirs_for g) else io_ret ()) w = (Inr v, w1)"
    and p: "restore_project_remote_state (e_state E) prev w1 = (Inr u, w')"
    by (auto simp: rollback_partial_update_def elim: io_seq_Inr)
  have "same_dirs g fs0 (w_fs w1)"
  proof (cases changed)
    case True
    then show ?thesis using a restore_Inr [OF _ bk J(2) plain_managed ok ok0] by (simp add: same_dirs_def)
  next
    case False
    then show ?thesis using a same by (simp add: io_ret_def)
  qed
  moreover have "keeps state_region w1 w'"
    using confinedD [OF confined_restore_state_bytes] p by (simp add: restore_project_remote_state_def)
  ultimately show ?thesis using same_dirs_state same_dirs_trans restore_state_Inr [OF J(1) p] by blast
qed

lemma apply_or_rollback_Inl:
  assumes run: "apply_or_rollback E (remote_cache_path_for g) (managed_dirs_for g) g prev r w1 = (Inl e, w')"
    and at: "at_update E g w prev (ur_changed r) w1" and ok: "tree_ok (w_fs w)"
    and J: "codec_laws (e_state E)" "codec_laws (e_manifest E)"
  shows "same_dirs g (w_fs w) (w_fs w') \<and> state_is (e_state E) (w_fs w') prev \<or> (\<exists>a b. e = rollback_failed a b)"
proof -
  obtain x w2 where x: "apply_update E (remote_cache_path_for g) (managed_dirs_for g) g r w1 = (x, w2)" by fastforce
  obtain y w3 where y: "rollback_partial_update E prev (ur_changed r) (managed_dirs_for g) w2 = (y, w3)" by fastforce
  obtain err where xe: "x = Inl err" using run x by (auto simp: apply_or_rollback_def split: sum.splits)
  have k01: "keeps (early_region g) w w1" using at by (simp add: at_update_def)
  have k12: "keeps (top_region (managed_dirs_for g) \<union> state_region) w1 w2" using confinedD [OF confined_apply_update x] .
  have ok2: "tree_ok (w_fs w2)" using keepsD(2) [OF k12] keepsD(2) [OF k01 ok] by blast
  show ?thesis
  proof (cases y)
    case (Inl e')
    then have "e = rollback_failed err e'" using run by (simp add: apply_or_rollback_def x xe y)
    then show ?thesis by blast
  next
    case (Inr u)
    then have w': "w' = w3" using run by (simp add: apply_or_rollback_def x xe y)
    have "same_dirs g (w_fs w) (w_fs w2)" if nc: "\<not> ur_changed r"
    proof -
      have "keeps state_region w1 w2"
        using x nc confinedD [OF confined_persist(1)] confinedD [OF confined_persist(2)]
        by (auto simp: apply_update_def io_seq_def io_bind_def io_ret_def split: option.splits)
      then show ?thesis using same_dirs_early [OF k01] same_dirs_state same_dirs_trans by blast
    qed
    moreover have "backed_up (e_manifest E) (managed_dirs_for g) (w_fs w) (w_fs w2)" if "ur_changed r"
      using at that backed_up_late [OF k12] by (simp add: at_update_def)
    ultimately show ?thesis using rollback_Inr [OF y [unfolded Inr] J ok2 ok] w' by blast
  qed
qed

lemma ur_changed_mk_result [simp]: "ur_changed (mk_result requested g prev t changed) = changed"
  by (simp add: mk_result_def)

lemma sync_Inl:
  assumes run: "sync_project_remote_with_repo_inner E url requested init_version g w = (Inl e, w')"
    and ok: "tree_ok (w_fs w)" and nl: "no_top_links g (w_fs w)" and G: "git_laws (e_git E)"
    and J: "codec_laws (e_state E)" "codec_laws (e_manifest E)"
    and sees: "sees w"
  shows "same_dirs g (w_fs w) (w_fs w') \<and> (\<forall>s. state_is (e_state E) (w_fs w) s \<longrightarrow> state_is (e_state E) (w_fs w') s) \<or>
    (\<exists>a b. e = rollback_failed a b)"
  using run ok nl G sees
proof (cases rule: sync_phases)
  case (early e')
  then show ?thesis using same_dirs_early state_is_keeps [OF early(2) state_early] by blast
next
  case (update prev t changed w1)
  from apply_or_rollback_Inl [OF update(4) _ ok J] update(1)
  have "same_dirs g (w_fs w) (w_fs w') \<and> state_is (e_state E) (w_fs w') prev \<or> (\<exists>a b. e = rollback_failed a b)" by simp
  moreover have "state_is (e_state E) (w_fs w) prev" using update(1) by (simp add: at_update_def)
  ultimately show ?thesis using state_is_functional by blast
qed

section \<open>A successful synchronisation\<close>

definition no_links :: "remote_group option \<Rightarrow> file_system \<Rightarrow> bool" where
  "no_links g fs = (\<forall>d \<in> set (managed_dirs_for g). \<forall>q.
     not_a_link (tree_at fs (remote_cache_path_for g @ [d]) q) \<and> not_a_link (tree_at fs [d] q))"

lemma links_alive_plain: "(\<And>q. not_a_link (tree_at fs p q)) \<Longrightarrow> links_alive follows fs p"
  unfolding links_alive_def
proof (intro allI impI)
  fix q t assume "\<And>q. not_a_link (tree_at fs p q)" "tree_at fs p q = Some (ELink t)"
  then have "not_a_link (Some (ELink t))" by metis
  then show "follows fs (p @ q)" by (simp add: not_a_link_def)
qed

lemma same_content_trees:
  "tree_at fs' l = tree_at fs l \<Longrightarrow> tree_at fs' r = tree_at fs r \<Longrightarrow> same_content fs' l r = same_content fs l r"
  by (simp add: same_content_def)

lemma far_remote: "far (remote_cache_path_for g) [] (managed_dirs_for g)"
  using managed_not_run [of _ g] by (auto simp: far_def apart_def remote_cache_path_for_def)

definition installed :: "'v remote_env \<Rightarrow> remote_group option \<Rightarrow> update_result \<Rightarrow> world \<Rightarrow> world \<Rightarrow> bool" where
  "installed E g r w w' =
     ((no_links g (w_fs w') \<longrightarrow> (\<forall>d \<in> set (managed_dirs_for g). same_content (w_fs w') (remote_cache_path_for g @ [d]) [d])) \<and>
      (\<exists>prev. state_is (e_state E) (w_fs w) prev \<and> state_is (e_state E) (w_fs w') (Some (next_state g prev r))) \<and>
      (\<not> ur_changed r \<longrightarrow> same_dirs g (w_fs w) (w_fs w')))"

lemma apply_or_rollback_Inr:
  assumes run: "apply_or_rollback E (remote_cache_path_for g) (managed_dirs_for g) g prev r w1 = (Inr r', w')"
    and at: "at_update E g w prev (ur_changed r) w1" and ok: "tree_ok (w_fs w)" and J: "codec_laws (e_state E)" and sees: "sees w1"
  shows "r' = r \<and> installed E g r w w' \<and> keeps (top_region (managed_dirs_for g) \<union> state_region) w1 w'"
proof -
  let ?root = "remote_cache_path_for g" and ?dirs = "managed_dirs_for g"
  have r': "r' = r" and au: "\<exists>u. apply_update E ?root ?dirs g r w1 = (Inr u, w')"
    using run by (auto simp: apply_or_rollback_def split: prod.splits sum.splits)
  then obtain u where x: "apply_update E ?root ?dirs g r w1 = (Inr u, w')" by blast
  have k01: "keeps (early_region g) w w1" and st0: "state_is (e_state E) (w_fs w) prev" using at by (simp_all add: at_update_def)
  have st1: "state_is (e_state E) (w_fs w1) prev" using state_is_keeps [OF k01 state_early] st0 by blast
  have k12: "keeps (top_region ?dirs \<union> state_region) w1 w'" using confinedD [OF confined_apply_update x] .
  have ok1: "tree_ok (w_fs w1)" using keepsD(2) [OF k01 ok] .
  obtain w2 where sy: "if ur_changed r then sync_managed_dirs (e_follows E) ?root ?dirs w1 = (Inr (), w2) else w2 = w1"
    and k2: "keeps state_region w2 w'" and st: "state_is (e_state E) (w_fs w') (Some (next_state g prev r))"
    by (rule apply_update_Inr [OF x J st1])
  have root: "tree_at (w_fs w') (?root @ [d]) = tree_at (w_fs w1) (?root @ [d])" for d
    by (rule tree_at_keeps [OF k12]) (use late_region_remote [of g "[d] @ _"] in simp)
  have "same_content (w_fs w') (?root @ [d]) [d]" if nl: "no_links g (w_fs w')" and d: "d \<in> set ?dirs" for d
  proof (cases "ur_changed r")
    case True
    have "not_a_link (map_of (w_fs w1) (?root @ [c]))" if "c \<in> set ?dirs" for c
    proof -
      have "not_a_link (tree_at (w_fs w') (?root @ [c]) [])" using nl that unfolding no_links_def by blast
      then show ?thesis by (simp add: root) (simp add: tree_at_def)
    qed
    then have "tree_at (w_fs w2) [d] = tree_at (w_fs w1) (?root @ [d])"
      using sy True plain_managed [of g]
      by (intro sync_managed_dirs_trees [OF _ ok1 _ far_remote _ d sees]) (auto simp: plain_dirs_def)
    moreover have "tree_at (w_fs w') [d] = tree_at (w_fs w2) [d]"
      using same_dirs_state [OF k2, of g] d by (simp add: same_dirs_def)
    ultimately show ?thesis by (simp add: same_content_def root)
  next
    case False
    then have k: "keeps state_region w1 w'" using sy k2 by simp
    have t: "tree_at (w_fs w') [d] = tree_at (w_fs w1) [d]" using same_dirs_state [OF k, of g] d by (simp add: same_dirs_def)
    have tc: "tree_at (w_fs w') [c] = tree_at (w_fs w1) [c]" if "c \<in> set ?dirs" for c
      using same_dirs_state [OF k, of g] that by (simp add: same_dirs_def)
    have "\<forall>c \<in> set ?dirs. links_alive (e_follows E) (w_fs w1) (?root @ [c]) \<and> links_alive (e_follows E) (w_fs w1) [c]"
      using nl by (auto simp: no_links_def root tc intro!: links_alive_plain)
    then have "same_content (w_fs w1) (?root @ [d]) [d]" using at False d by (simp add: at_update_def)
    then show ?thesis using same_content_trees [OF root t] by simp
  qed
  moreover have "same_dirs g (w_fs w) (w_fs w')" if "\<not> ur_changed r"
    using same_dirs_early [OF k01] same_dirs_state [OF k2, of g] sy that by (simp add: same_dirs_def)
  ultimately show ?thesis using st0 st r' k12 by (auto simp: installed_def)
qed

lemma sync_Inr:
  assumes run: "sync_project_remote_with_repo_inner E url requested init_version g w = (Inr r, w')"
    and ok: "tree_ok (w_fs w)" and nl: "no_top_links g (w_fs w)" and G: "git_laws (e_git E)" and J: "codec_laws (e_state E)"
    and sees: "sees w"
  shows "installed E g r w w' \<and> tree_ok (w_fs w') \<and> w_locked w' = w_locked w \<and>
    (ur_changed r \<longrightarrow> backed_up (e_manifest E) (managed_dirs_for g) (w_fs w) (w_fs w')) \<and>
    (\<forall>T. checkout_law (e_git E) T \<longrightarrow> no_links g (w_fs w') \<longrightarrow> holds_version T (ur_to_revision r) g (w_fs w') [])"
  using run ok nl G sees
proof (cases rule: sync_phases)
  case (early e)
  then show ?thesis by simp
next
  case (update prev t changed w1)
  have at: "at_update E g w prev (ur_changed (mk_result requested g prev t changed)) w1" using update(1) by simp
  note a = apply_or_rollback_Inr [OF update(4) at ok J update(2)]
  have k01: "keeps (early_region g) w w1" using update(1) by (simp add: at_update_def)
  have k12: "keeps (top_region (managed_dirs_for g) \<union> state_region) w1 w'" using a by blast
  have "backed_up (e_manifest E) (managed_dirs_for g) (w_fs w) (w_fs w')" if "ur_changed r"
    using a that update(1) backed_up_late [OF k12] by (simp add: at_update_def)
  moreover have "holds_version T (ur_to_revision r) g (w_fs w') []"
    if law: "checkout_law (e_git E) T" and nl': "no_links g (w_fs w')" for T
    unfolding holds_version_def
  proof (intro ballI allI impI)
    fix d q e assume d: "d \<in> set (managed_dirs_for g)" and e: "T (ur_to_revision r) (d # q) = Some e"
    have rev: "ur_to_revision r = rt_commit_id t" using a by (simp add: mk_result_def)
    have "tree_at (w_fs w') (remote_cache_path_for g @ [d]) = tree_at (w_fs w1) (remote_cache_path_for g @ [d])"
      by (rule tree_at_keeps [OF k12]) (use late_region_remote [of g "[d] @ _"] in simp)
    then have "map_option shape (tree_at (w_fs w') (remote_cache_path_for g @ [d]) q) = Some (shape e)"
      using update(3) [OF law] d e rev by (simp add: holds_version_def)
    moreover have "same_content (w_fs w') (remote_cache_path_for g @ [d]) [d]"
      using a nl' d by (simp add: installed_def)
    ultimately show "map_option shape (tree_at (w_fs w') ([] @ [d]) q) = Some (shape e)"
      unfolding same_content_def append_Nil by metis
  qed
  ultimately show ?thesis using a keepsD(2,3) [OF k01] keepsD(2,3) [OF k12] ok by simp
qed

section \<open>The locked update\<close>

definition lock_region :: "path set" where
  "lock_region = {[''.run''], lock_path}"

lemma lock_region_disjoint:
  "state_path \<notin> lock_region" "d \<in> set (managed_dirs_for g) \<Longrightarrow> [d] @ q \<notin> lock_region"
  using managed_not_run [of d g] by (auto simp: lock_region_def lock_path_def state_path_def)

lemma acquire_cases:
  assumes run: "acquire_project_remote_lock w = (r, w')"
  shows "(\<forall>p. p \<notin> lock_region \<longrightarrow> map_of (w_fs w') p = map_of (w_fs w) p) \<and> (tree_ok (w_fs w) \<longrightarrow> tree_ok (w_fs w')) \<and>
    (case r of Inl e \<Rightarrow> w_locked w' = w_locked w | Inr u \<Rightarrow> \<not> w_locked w \<and> w_locked w') \<and> (sees w \<longrightarrow> sees w')"
proof -
  have o: "confined lock_region (io_map_err (failed ''open'' lock_path) (open_create lock_path))"
    unfolding open_create_def
    by (intro confined_io_map_err confined_sys)
      (auto simp: fs_step_def lock_region_def lock_path_def intro!: tree_ok_put split: option.split entry.split)
  have c: "confined lock_region (io_map_err (failed ''create'' (butlast lock_path)) (create_dir_all (butlast lock_path)))"
    by (intro confined_io_map_err confined_mono [OF confined_create_dir_all])
      (auto simp: lock_region_def lock_path_def ancestors_def prefix_Cons)
  obtain x1 w1 where x1: "io_map_err (failed ''create'' (butlast lock_path)) (create_dir_all (butlast lock_path)) w = (x1, w1)" by fastforce
  obtain x2 w2 where x2: "io_map_err (failed ''open'' lock_path) (open_create lock_path) w1 = (x2, w2)" by fastforce
  obtain x3 w3 where x3: "try_lock_file w2 = (x3, w3)" by fastforce
  have k1: "keeps lock_region w w1" and k2: "keeps lock_region w1 w2" using confinedD [OF c x1] confinedD [OF o x2] .
  have l: "w_fs w3 = w_fs w2 \<and> (sees w2 \<longrightarrow> sees w3) \<and> (case x3 of Inl e \<Rightarrow> w_locked w3 = w_locked w2 | Inr u \<Rightarrow> \<not> w_locked w2 \<and> w_locked w3)"
    using x3 by (auto simp: try_lock_file_def sees_def sys_def unharmed_def Let_def split: if_splits list.splits option.splits)
  consider (one) "w' = w1" "\<exists>e. r = Inl e" | (two) "w' = w2" "\<exists>e. r = Inl e" | (three) "w' = w3" "r = x3"
    using run by (cases x1; cases x2) (auto simp: acquire_project_remote_lock_def io_seq_def io_bind_def x1 x2 x3 split: sum.splits)
  then show ?thesis
    by cases (use k1 keeps_trans [OF k1 k2] l in \<open>auto simp: keeps_def split: sum.splits\<close>)
qed

definition undone :: "'v remote_env \<Rightarrow> remote_group option \<Rightarrow> world \<Rightarrow> world \<Rightarrow> bool" where
  "undone E g w w' =
     (same_dirs g (w_fs w) (w_fs w') \<and> (\<forall>s. state_is (e_state E) (w_fs w) s \<longrightarrow> state_is (e_state E) (w_fs w') s))"

lemma undone_trans: "undone E g a b \<Longrightarrow> undone E g b c \<Longrightarrow> undone E g a c"
  by (auto simp: undone_def dest: same_dirs_trans)

lemma undone_keeps:
  "keeps S w w' \<Longrightarrow> state_path \<notin> S \<Longrightarrow> (\<And>d q. d \<in> set (managed_dirs_for g) \<Longrightarrow> [d] @ q \<notin> S) \<Longrightarrow> undone E g w w'"
  unfolding undone_def using same_dirs_keeps state_is_keeps by blast

lemma confined_capture: "confined S (capture_project_remote_snapshot_with_group g)"
  unfolding capture_project_remote_snapshot_with_group_def by (intro confined_intros)

lemma run_locked_Inl:
  assumes run: "run_remote_update_locked E requested g \<lparr>rs_state_file = b, rs_group = g\<rparr> (real_sync E url init_version) w = (Inl e, w')"
    and snap: "case b of None \<Rightarrow> map_of (w_fs w) state_path = None | Some bs \<Rightarrow> \<exists>m. map_of (w_fs w) state_path = Some (EFile bs m)"
    and ok: "tree_ok (w_fs w)" and nl: "no_top_links g (w_fs w)" and G: "git_laws (e_git E)"
    and J: "codec_laws (e_state E)" "codec_laws (e_manifest E)" and sees: "sees w"
  shows "undone E g w w' \<or> (\<exists>a b. e = rollback_failed a b)"
proof -
  obtain x w1 where x: "sync_project_remote_with_repo_inner E url requested init_version g w = (x, w1)" by fastforce
  show ?thesis
  proof (cases x)
    case (Inl e')
    then have "e = e'" "w' = w1" using run x by (simp_all add: run_remote_update_locked_def real_sync_def io_bind_def)
    then show ?thesis using sync_Inl [OF x [unfolded Inl] ok nl G J sees] by (auto simp: undone_def)
  next
    case (Inr r)
    from sync_Inr [OF x [unfolded Inr] ok nl G J(1) sees] have ins: "installed E g r w w1" and ok1: "tree_ok (w_fs w1)"
      and bk: "ur_changed r \<Longrightarrow> backed_up (e_manifest E) (managed_dirs_for g) (w_fs w) (w_fs w1)" by blast+
    obtain check where c: "e_config_error E (w_fs w1) = Some check"
      using run x Inr by (auto simp: run_remote_update_locked_def real_sync_def io_bind_def validate_config_loads_def split: option.splits)
    obtain y w2 where y: "restore_project_remote_update (e_manifest E) \<lparr>rs_state_file = b, rs_group = g\<rparr> (ur_changed r) w1 = (y, w2)"
      by fastforce
    have out: "(y = Inl e2 \<longrightarrow> e = rollback_failed (check_failed (''validate conf/wfusion.toml failed: '' @ check)) e2)" "w' = w2" for e2
      using run x Inr c y
      by (auto simp: run_remote_update_locked_def real_sync_def io_bind_def validate_config_loads_def split: sum.splits)
    show ?thesis
    proof (cases y)
      case (Inl e2)
      then show ?thesis using out by blast
    next
      case (Inr u)
      then obtain v w3 where a: "(if ur_changed r then restore_managed_dirs (e_manifest E) (managed_dirs_for g) else io_ret ()) w1 = (Inr v, w3)"
        and p: "restore_state_file_bytes b w3 = (Inr u, w2)"
        using y by (auto simp: restore_project_remote_update_def cong: if_cong elim!: io_seq_Inr)
      have "same_dirs g (w_fs w) (w_fs w3)"
      proof (cases "ur_changed r")
        case True
        then show ?thesis using a restore_Inr [OF _ bk J(2) plain_managed ok1 ok] by (simp add: same_dirs_def)
      next
        case False
        then show ?thesis using a ins by (simp add: io_ret_def installed_def)
      qed
      then have "same_dirs g (w_fs w) (w_fs w2)"
        using same_dirs_state [OF confinedD [OF confined_restore_state_bytes p], of g] same_dirs_trans by blast
      moreover have "state_is (e_state E) (w_fs w2) s" if "state_is (e_state E) (w_fs w) s" for s
        using restore_bytes_Inr [OF p] snap that by (auto simp: state_is_def split: option.splits)
      ultimately show ?thesis using out by (simp add: undone_def)
    qed
  qed
qed

text \<open>
  C18: A synchronisation that succeeds installs the remote version, when no query of
  \<open>Path::exists\<close> fails and no managed directory of the project was a symbolic link before. When no
  symbolic link is among the managed directories afterwards, each has the content of its directory in
  the cached repository, and every file of the commit the result names is in its place in the project
  with the content that the commit gives it (a file the cache holds beside those of the commit, which
  a checkout leaves, is installed as well). The state file records that commit for the repository or
  the group (keeping the other group), and a result that says nothing changed means that nothing did.
  The file system stays well-formed and the lock as it was.
\<close>

theorem sync_installs_remote:
  assumes "sync_project_remote_with_repo_inner E url requested init_version g w = (Inr r, w')"
    and "tree_ok (w_fs w)" and "no_top_links g (w_fs w)" and "sees w"
    and "git_laws (e_git E)" and "checkout_law (e_git E) T" and "codec_laws (e_state E)"
  shows "installed E g r w w' \<and> (no_links g (w_fs w') \<longrightarrow> holds_version T (ur_to_revision r) g (w_fs w') []) \<and>
    tree_ok (w_fs w') \<and> w_locked w' = w_locked w"
  using sync_Inr [OF assms(1,2,3,5,7,4)] assms(6) by blast

lemma toy_models_plain: "no_top_links (Some Models) (w_fs (toy_world fl))"
  by (simp add: no_top_links_def managed_dirs_for_def toy_world_def toy_files_def not_a_link_def)

lemma toy_world_ok: "tree_ok (w_fs (toy_world fl))"
  by (simp add: toy_world_def toy_files_ok)

theorem sync_installs_remote_witness:
  "\<exists>r w'. sync_project_remote_with_repo_inner toy_env ''url'' (Some ''1'') None (Some Models) (toy_world []) = (Inr r, w') \<and>
     installed toy_env (Some Models) r (toy_world []) w' \<and>
     (no_links (Some Models) (w_fs w') \<longrightarrow> holds_version toy_tree (ur_to_revision r) (Some Models) (w_fs w') [])"
proof -
  obtain r w' where run: "sync_project_remote_with_repo_inner toy_env ''url'' (Some ''1'') None (Some Models) (toy_world []) = (Inr r, w')"
    using sync_toy_run by blast
  have "checkout_law (e_git toy_env) toy_tree" by (simp add: toy_checkout_law)
  from sync_installs_remote [OF run toy_world_ok toy_models_plain toy_sees _ this] show ?thesis
    using run by (auto simp: toy_git_laws toy_codec_laws)
qed





end
