(* ===== verification/AdminServer.thy ===== *)
theory AdminServer
  imports AdminApi RemoteUpdate
begin

text \<open>
  The admin server as a step relation: requests come and go, the handler that holds the gate moves
  from one await to the next and may be dropped at any of them, monitors await the engine, other
  processes take the lock, and the engine works on. What holds of every reachable state, and where a
  reload can stay.
\<close>

section \<open>Routes\<close>

datatype route = Answer response | AskStatus | AskReload string

definition handle_request :: "('v, 'c, 'm, 'k) admin_env \<Rightarrow> http_request \<Rightarrow> route" where
  "handle_request A rq =
     (let rid = request_id rq in
      if \<not> authorized rq (ae_token A) then Answer (401, ErrorBody rid ''unauthorized'' ''invalid bearer token'')
      else if rq_method rq = ''GET'' \<and> rq_path rq = ''/admin/v1/runtime/status'' then AskStatus
      else if rq_method rq = ''POST'' \<and> rq_path rq = ''/admin/v1/reloads/model'' then AskReload rid
      else Answer (404, ErrorBody rid ''not_found'' (''unsupported route '' @ rq_path rq)))"

section \<open>Steps\<close>

text \<open>
  A job whose engine task runs, has ended, or has ended and had the flag lowered for it. A job is a
  handler's or a monitor's, which runs the same code but is a task of its own and is never dropped.
\<close>

datatype phase = Running | Answered task_result | Closing task_result

text \<open>
  Where the handler that holds the gate is: it awaits the body, has raised the flag and awaits the
  mutex, has the mutex and goes for the lock, stops and awaits the mutex with the flag lowered, or
  awaits the engine.
\<close>

datatype 'c front = Reading http_request | Raised admitted | Marked admitted | Stopping admitted stop | Waiting "'c job" phase

text \<open>\<open>sv_lost\<close> records that a handler was dropped between raising the flag and lowering it.\<close>

record 'c server =
  sv_admin :: admin_state
  sv_front :: "'c front option"
  sv_back :: "('c job \<times> phase) list"
  sv_other :: bool
  sv_lost :: bool

text \<open>The last mark of a job, with what follows it up to the drop of its context.\<close>

definition close_job :: "'v remote_env \<Rightarrow> 'c job \<Rightarrow> task_result \<Rightarrow> nat \<Rightarrow> admin_state \<Rightarrow> admin_state" where
  "close_job E j t now s = snd (finish_job E j t (note_finished (jb_rid j) (result_name t) now s))"

text \<open>
  The steps of the server's own tasks once a request is checked. The mutex of the reload state is never
  held across an await, so a step that awaits it can always be taken.
\<close>

inductive progress :: "('v, 'c, 'm, 'k) admin_env \<Rightarrow> 'c server \<Rightarrow> 'c server \<Rightarrow> bool" for A where
  marked: "sv_front v = Some (Raised a) \<Longrightarrow>
    progress A v (v\<lparr>sv_admin := note_started (am_rid a) now (sv_admin v), sv_front := Some (Marked a)\<rparr>)"
| stopping: "sv_front v = Some (Marked a) \<Longrightarrow> open_reload A a (ad_world (sv_admin v)) = (Inl st, w) \<Longrightarrow>
    progress A v (v\<lparr>sv_admin := lower_flag ((sv_admin v)\<lparr>ad_world := w\<rparr>), sv_front := Some (Stopping a st)\<rparr>)"
| waiting: "sv_front v = Some (Marked a) \<Longrightarrow> open_reload A a (ad_world (sv_admin v)) = (Inr j, w) \<Longrightarrow> jb_wait j \<Longrightarrow>
    progress A v (v\<lparr>sv_admin := (sv_admin v)\<lparr>ad_world := w\<rparr>, sv_front := Some (Waiting j Running)\<rparr>)"
| detached: "sv_front v = Some (Marked a) \<Longrightarrow> open_reload A a (ad_world (sv_admin v)) = (Inr j, w) \<Longrightarrow> \<not> jb_wait j \<Longrightarrow>
    progress A v (v\<lparr>sv_admin := (sv_admin v)\<lparr>ad_world := w\<rparr>, sv_front := None, sv_back := sv_back v @ [(j, Running)]\<rparr>)"
| stopped: "sv_front v = Some (Stopping a st) \<Longrightarrow> close_stop A a st (ad_world (sv_admin v)) = (resp, w) \<Longrightarrow>
    progress A v (v\<lparr>sv_admin := (note_finished (am_rid a) (stop_result st) now (sv_admin v))\<lparr>ad_world := w\<rparr>, sv_front := None\<rparr>)"
| settled: "sv_front v = Some (Waiting j (Answered t)) \<Longrightarrow>
    progress A v (v\<lparr>sv_admin := lower_flag (sv_admin v), sv_front := Some (Waiting j (Closing t))\<rparr>)"
| finished: "sv_front v = Some (Waiting j (Closing t)) \<Longrightarrow>
    progress A v (v\<lparr>sv_admin := close_job (ae_remote A) j t now (sv_admin v), sv_front := None\<rparr>)"
| settled_back: "sv_back v = xs @ (j, Answered t) # ys \<Longrightarrow>
    progress A v (v\<lparr>sv_admin := lower_flag (sv_admin v), sv_back := xs @ (j, Closing t) # ys\<rparr>)"
| finished_back: "sv_back v = xs @ (j, Closing t) # ys \<Longrightarrow>
    progress A v (v\<lparr>sv_admin := close_job (ae_remote A) j t now (sv_admin v), sv_back := xs @ ys\<rparr>)"

text \<open>Whether a handler has raised the flag and not lowered it, and whether it has the guard of the lock.\<close>

definition phase_raised :: "phase \<Rightarrow> bool" where
  "phase_raised p = (case p of Closing t \<Rightarrow> False | _ \<Rightarrow> True)"

definition front_raised :: "'c front \<Rightarrow> bool" where
  "front_raised f =
     (case f of Reading rq \<Rightarrow> False | Raised a \<Rightarrow> True | Marked a \<Rightarrow> True | Stopping a st \<Rightarrow> False | Waiting j p \<Rightarrow> phase_raised p)"

definition front_locks :: "'c front \<Rightarrow> bool" where
  "front_locks f =
     (case f of Stopping a (LockBusy e) \<Rightarrow> False | Stopping a st \<Rightarrow> True | Waiting j p \<Rightarrow> True | _ \<Rightarrow> False)"

text \<open>
  A handler whose connection closes is dropped where it awaits: its guards go, nothing else of it runs,
  and the task of the engine goes on without it. At \<open>Marked\<close> it does not await.
\<close>

definition drop_front :: "'c front \<Rightarrow> 'c server \<Rightarrow> 'c server" where
  "drop_front f v =
     v\<lparr>sv_admin := (if front_locks f then (sv_admin v)\<lparr>ad_world := unlock (ad_world (sv_admin v))\<rparr> else sv_admin v),
       sv_front := None, sv_lost := (sv_lost v \<or> front_raised f)\<rparr>"

text \<open>The files that a reload manages; the engine and the rest of the system may write any other.\<close>

definition managed_region :: "path set" where
  "managed_region = (\<Union>d \<in> set (managed_dirs_for None). under [d]) \<union> under [''.run'', ''project_remote''] \<union> {state_path}"

inductive outside :: "('v, 'c, 'm, 'k) admin_env \<Rightarrow> 'c server \<Rightarrow> 'c server \<Rightarrow> bool" for A where
  status: "handle_request A rq = AskStatus \<Longrightarrow> outside A v (v\<lparr>sv_admin := snd (status_response A (sv_admin v))\<rparr>)"
| entered: "handle_request A rq = AskReload rid \<Longrightarrow> sv_front v = None \<Longrightarrow> outside A v (v\<lparr>sv_front := Some (Reading rq)\<rparr>)"
| refused: "sv_front v = Some (Reading rq) \<Longrightarrow> admit_reload A (request_id rq) (rq_body rq) (sv_admin v) = Inl resp \<Longrightarrow>
    outside A v (v\<lparr>sv_front := None\<rparr>)"
| admitted: "sv_front v = Some (Reading rq) \<Longrightarrow> admit_reload A (request_id rq) (rq_body rq) (sv_admin v) = Inr a \<Longrightarrow>
    outside A v (v\<lparr>sv_admin := raise_flag (sv_admin v), sv_front := Some (Raised a)\<rparr>)"
| dropped: "sv_front v = Some f \<Longrightarrow> (\<And>a. f \<noteq> Marked a) \<Longrightarrow> outside A v (drop_front f v)"
| answered: "sv_front v = Some (Waiting j Running) \<Longrightarrow> outside A v (v\<lparr>sv_front := Some (Waiting j (Answered t))\<rparr>)"
| answered_back: "sv_back v = xs @ (j, Running) # ys \<Longrightarrow> outside A v (v\<lparr>sv_back := xs @ (j, Answered t) # ys\<rparr>)"
| timed_out: "sv_front v = Some (Waiting j Running) \<Longrightarrow> outside A v (v\<lparr>sv_front := None, sv_back := sv_back v @ [(j, Running)]\<rparr>)"
| engine: "keeps (- managed_region) (ad_world (sv_admin v)) w \<Longrightarrow> outside A v (v\<lparr>sv_admin := (sv_admin v)\<lparr>ad_world := w\<rparr>\<rparr>)"
| taken: "\<not> w_locked (ad_world (sv_admin v)) \<Longrightarrow>
    outside A v (v\<lparr>sv_admin := (sv_admin v)\<lparr>ad_world := (ad_world (sv_admin v))\<lparr>w_locked := True\<rparr>\<rparr>, sv_other := True\<rparr>)"
| other: "sv_other v \<Longrightarrow> keeps UNIV (ad_world (sv_admin v)) w \<Longrightarrow> outside A v (v\<lparr>sv_admin := (sv_admin v)\<lparr>ad_world := w\<rparr>\<rparr>)"
| given_back: "sv_other v \<Longrightarrow>
    outside A v (v\<lparr>sv_admin := (sv_admin v)\<lparr>ad_world := unlock (ad_world (sv_admin v))\<rparr>, sv_other := False\<rparr>)"
| cancelled: "outside A v (v\<lparr>sv_admin := (sv_admin v)\<lparr>ad_cancelled := True\<rparr>\<rparr>)"

definition booted :: "'c server \<Rightarrow> bool" where
  "booted v = (\<not> w_locked (ad_world (sv_admin v)) \<and> tree_ok (w_fs (ad_world (sv_admin v))) \<and> \<not> ad_reloading (sv_admin v) \<and>
     ad_reload (sv_admin v) = \<lparr>rs_current = None, rs_last_id = None, rs_last_result = None, rs_started_at = None, rs_finished_at = None\<rparr> \<and>
     sv_front v = None \<and> sv_back v = [] \<and> \<not> sv_other v \<and> \<not> sv_lost v)"

inductive served :: "('v, 'c, 'm, 'k) admin_env \<Rightarrow> 'c server \<Rightarrow> bool" for A where
  boot: "booted v \<Longrightarrow> served A v"
| progress: "served A v \<Longrightarrow> progress A v v' \<Longrightarrow> served A v'"
| outside: "served A v \<Longrightarrow> outside A v v' \<Longrightarrow> served A v'"

inductive_cases progressE: "progress A v v'"
inductive_cases outsideE: "outside A v v'"

section \<open>The lock\<close>

text \<open>Everything a reload does to the files keeps the lock and the tree as they are, ill or well.\<close>

lemma keeps_UNIV: "keeps S w w' \<Longrightarrow> keeps UNIV w w'"
  by (rule keeps_mono) simp_all

lemma confined_UNIV: "confined S m \<Longrightarrow> confined UNIV m"
  by (rule confined_mono) simp_all

lemma confined_atomic_write: "p \<noteq> [] \<Longrightarrow> tmp \<noteq> [] \<Longrightarrow> confined UNIV (atomic_write_file p tmp bs)"
  unfolding atomic_write_file_def
  by (intro confined_intros confined_UNIV [OF confined_create_dir_all] confined_UNIV [OF confined_write] confined_rename_or_clean)
    simp_all

lemma confined_remove_if_there: "p \<noteq> [] \<Longrightarrow> confined UNIV (remove_if_there p)"
proof (rule confinedI)
  fix w r w' assume m: "remove_if_there p w = (r, w')"
  obtain x w1 where x: "remove_file p w = (x, w1)" by fastforce
  have "keeps UNIV w w1" using confinedD [OF confined_UNIV [OF confined_remove_file] x] .
  then show "keeps UNIV w w'" using m by (auto simp: remove_if_there_def x split: sum.splits io_error.splits)
qed

lemma confined_restore_optional: "p \<noteq> [] \<Longrightarrow> tmp \<noteq> [] \<Longrightarrow> confined UNIV (restore_optional_file p tmp b)"
  unfolding restore_optional_file_def by (auto intro: confined_atomic_write confined_remove_if_there split: option.split)

lemma confined_restore_artifacts: "confined UNIV (restore_runtime_artifact_snapshot snap)"
  unfolding restore_runtime_artifact_snapshot_def
  by (intro confined_intros confined_restore_optional) (simp_all add: rule_mapping_path_def authority_db_path_def)

lemma confined_restore_update: "confined UNIV (restore_project_remote_update M snap changed)"
  unfolding restore_project_remote_update_def
  by (intro confined_intros confined_UNIV [OF confined_restore_dirs] confined_UNIV [OF confined_restore_state_bytes])

lemma confined_capture_snapshots: "confined S (capture_snapshots g)"
  unfolding capture_snapshots_def capture_project_remote_snapshot_with_group_def capture_runtime_artifact_snapshot_def
  by (intro confined_intros)

lemma rollback_keeps: "keeps UNIV w (snd (rollback_updated_project E ctx w))"
proof (cases "rc_update ctx")
  case None
  then show ?thesis by (simp add: rollback_updated_project_def keeps_refl)
next
  case (Some r)
  obtain a w1 where a: "restore_project_remote_update (e_manifest E) (rc_snapshot ctx) (ur_changed r) w = (a, w1)" by fastforce
  obtain b w2 where b: "restore_runtime_artifact_snapshot (rc_runtime ctx) w1 = (b, w2)" by fastforce
  have "keeps UNIV w w2"
    using confinedD [OF confined_restore_update a] confinedD [OF confined_restore_artifacts b] by (rule keeps_trans)
  then show ?thesis by (simp add: rollback_updated_project_def Some a b Let_def)
qed

lemma confined_apply_or_rollback: "confined UNIV (apply_or_rollback E root (managed_dirs_for g) g prev r)"
proof (rule confinedI)
  fix w res w' assume m: "apply_or_rollback E root (managed_dirs_for g) g prev r w = (res, w')"
  obtain x w1 where x: "apply_update E root (managed_dirs_for g) g r w = (x, w1)" by fastforce
  obtain y w2 where y: "rollback_partial_update E prev (ur_changed r) (managed_dirs_for g) w1 = (y, w2)" by fastforce
  have k1: "keeps UNIV w w1" using confinedD [OF confined_UNIV [OF confined_apply_update] x] .
  have "confined UNIV (rollback_partial_update E prev (ur_changed r) (managed_dirs_for g))"
    unfolding rollback_partial_update_def restore_project_remote_state_def
    by (intro confined_intros confined_UNIV [OF confined_restore_dirs] confined_UNIV [OF confined_restore_state_bytes])
  then have "keeps UNIV w w2" using keeps_trans [OF k1] confinedD y by blast
  then show "keeps UNIV w w'" using m k1 by (auto simp: apply_or_rollback_def x y split: sum.splits)
qed

lemma confined_sync_inner:
  assumes G: "git_laws (e_git E)"
  shows "confined UNIV (sync_project_remote_with_repo_inner E url requested init_version g)"
proof -
  have ne: "remote_cache_path_for g \<noteq> []" by (simp add: remote_cache_path_for_def)
  show ?thesis unfolding sync_project_remote_with_repo_inner_def Let_def
    by (intro confined_intros confined_apply_or_rollback confined_UNIV [OF confined_prepare [OF G ne]]
        confined_UNIV [OF confined_fetch [OF G ne]] confined_UNIV [OF confined_checkout [OF G ne]] confined_UNIV [OF confined_backup])
qed

lemma confined_sync_closure: "git_laws (e_git E) \<Longrightarrow> confined UNIV (sync_closure E conf ver g)"
  unfolding sync_closure_def sync_project_remote_group_def sync_project_remote_def Let_def
  by (auto intro!: confined_err confined_sync_inner split: option.split sum.split remote_mode.split)

lemma confined_update_locked:
  assumes "\<And>v g. confined UNIV (sync v g)"
  shows "confined UNIV (run_remote_update_locked E requested g snap sync)"
  unfolding run_remote_update_locked_def
proof (rule confined_bind [OF assms], rule confinedI)
  fix r w res w'
  assume m: "(case validate_config_loads E w of (Inl e, w1) \<Rightarrow>
        (case restore_project_remote_update (e_manifest E) snap (ur_changed r) w1 of
           (Inl e', w2) \<Rightarrow> (Inl (rollback_failed (check_failed e) e'), w2) | (Inr _, w2) \<Rightarrow> (Inl (check_failed e), w2))
      | (Inr _, w1) \<Rightarrow> (Inr r, w1)) = (res, w')"
  obtain y w2 where y: "restore_project_remote_update (e_manifest E) snap (ur_changed r) w = (y, w2)" by fastforce
  have "keeps UNIV w w2" using confinedD [OF confined_restore_update y] .
  then show "keeps UNIV w w'" using m y keeps_refl by (auto simp: validate_config_loads_def split: option.splits sum.splits)
qed

lemma confined_sync_if_asked: "git_laws (e_git E) \<Longrightarrow> confined UNIV (sync_if_asked E a snap)"
  unfolding sync_if_asked_def run_remote_sync_def
  by (auto intro!: confined_intros confined_update_locked confined_sync_closure split: option.split)

section \<open>The pieces of a handler\<close>

lemma admit_reload_Inr:
  "admit_reload A rid b s = Inr a \<Longrightarrow> am_rid a = rid \<and> \<not> ad_reloading s \<and> \<not> ad_cancelled s"
  by (auto simp: admit_reload_def rbind_Inr_iff split: sum.splits read_body_error.splits if_splits)

definition stop_locks :: "stop \<Rightarrow> bool" where
  "stop_locks st = (case st of LockBusy e \<Rightarrow> False | _ \<Rightarrow> True)"

lemma open_reload_cases:
  assumes run: "open_reload A a w = (out, w')" and G: "git_laws (e_git (ae_remote A))"
  shows "(tree_ok (w_fs w) \<longrightarrow> tree_ok (w_fs w')) \<and>
    (case out of
       Inl st \<Rightarrow> (if stop_locks st then \<not> w_locked w \<and> w_locked w' else w_locked w' = w_locked w)
     | Inr j \<Rightarrow> \<not> w_locked w \<and> w_locked w' \<and> jb_rid j = am_rid a)"
proof -
  let ?E = "ae_remote A"
  obtain x w1 where x: "acquire_project_remote_lock w = (x, w1)" by fastforce
  note acq = acquire_cases [OF x]
  show ?thesis
  proof (cases x)
    case (Inl e)
    then show ?thesis using run x acq by (auto simp: open_reload_def stop_locks_def Let_def)
  next
    case (Inr u)
    obtain y w2 where y: "capture_snapshots (am_group a) w1 = (y, w2)" by fastforce
    have k2: "keeps UNIV w1 w2" using confinedD [OF confined_capture_snapshots y] .
    show ?thesis
    proof (cases y)
      case (Inl e)
      then show ?thesis using run x y Inr acq k2 by (auto simp: open_reload_def stop_locks_def Let_def keeps_def)
    next
      case snap: (Inr p)
      obtain sn rt where p: "p = (sn, rt)" by fastforce
      obtain z w3 where z: "sync_if_asked ?E a sn w2 = (z, w3)" by fastforce
      have k3: "keeps UNIV w1 w3" using k2 confinedD [OF confined_sync_if_asked [OF G] z] by (rule keeps_trans)
      show ?thesis
      proof (cases z)
        case (Inl e)
        then show ?thesis using run x y z Inr snap p acq k3 by (auto simp: open_reload_def stop_locks_def Let_def keeps_def)
      next
        case upd: (Inr r)
        show ?thesis
          using run x y z Inr snap p upd acq k3
          by (cases "load_next (ae_source A) (w_fs w3)") (auto simp: open_reload_def stop_locks_def Let_def keeps_def)
      qed
    qed
  qed
qed

lemma close_stop_world:
  assumes "close_stop A a st w = (resp, w')"
  shows "(tree_ok (w_fs w) \<longrightarrow> tree_ok (w_fs w')) \<and> (if stop_locks st then \<not> w_locked w' else w' = w)"
proof (cases st)
  case (LoadFailed ctx e)
  obtain wn w1 where b: "rollback_updated_project (ae_remote A) ctx w = (wn, w1)" by fastforce
  have "keeps UNIV w w1" using rollback_keeps [of w "ae_remote A" ctx] b by simp
  then show ?thesis using assms b LoadFailed by (auto simp: close_stop_def stop_locks_def Let_def unlock_def keeps_def)
qed (use assms in \<open>auto simp: close_stop_def stop_locks_def Let_def unlock_def\<close>)

lemma close_job_world:
  "(tree_ok (w_fs (ad_world s)) \<longrightarrow> tree_ok (w_fs (ad_world (close_job E j t now s)))) \<and>
    \<not> w_locked (ad_world (close_job E j t now s)) \<and> ad_reloading (close_job E j t now s) = ad_reloading s"
proof -
  obtain wn w1 where b: "rollback_updated_project E (jb_ctx j) (ad_world s) = (wn, w1)" by fastforce
  have "keeps UNIV (ad_world s) w1" using rollback_keeps [of "ad_world s" E "jb_ctx j"] b by simp
  then show ?thesis using b
    by (auto simp: close_job_def note_finished_def finish_job_def map_reload_result_def task_died_def Let_def unlock_def keeps_def
        split: task_result.splits sum.splits outcome.splits)
qed

section \<open>The invariant\<close>

text \<open>Who has the lock: reloads, counted, and the requests in flight, from the flag raised to the flag lowered.\<close>

definition lock_holders :: "'c server \<Rightarrow> nat" where
  "lock_holders v = (case sv_front v of Some f \<Rightarrow> of_bool (front_locks f) | None \<Rightarrow> 0) + length (sv_back v)"

definition front_id :: "'c front \<Rightarrow> string list" where
  "front_id f =
     (case f of Raised a \<Rightarrow> [am_rid a] | Marked a \<Rightarrow> [am_rid a] | Waiting j p \<Rightarrow> (if phase_raised p then [jb_rid j] else []) | _ \<Rightarrow> [])"

definition in_flight :: "'c server \<Rightarrow> string list" where
  "in_flight v =
     (case sv_front v of Some f \<Rightarrow> front_id f | None \<Rightarrow> []) @ map (jb_rid \<circ> fst) (filter (\<lambda>(j, p). phase_raised p) (sv_back v))"

definition sound :: "'c server \<Rightarrow> bool" where
  "sound v =
     (tree_ok (w_fs (ad_world (sv_admin v))) \<and>
      lock_holders v + of_bool (sv_other v) = of_bool (w_locked (ad_world (sv_admin v))) \<and>
      length (in_flight v) + of_bool (sv_lost v) = of_bool (ad_reloading (sv_admin v)))"

lemmas view_defs = lock_holders_def front_id_def in_flight_def front_raised_def phase_raised_def front_locks_def stop_locks_def

lemma sound_booted: "booted v \<Longrightarrow> sound v"
  by (simp add: booted_def sound_def view_defs)

lemma front_locks_Stopping [simp]: "front_locks (Stopping a st) = stop_locks st"
  by (simp add: front_locks_def stop_locks_def split: stop.split)

lemma front_locks_simps [simp]:
  "\<not> front_locks (Reading rq)" "\<not> front_locks (Raised a)" "\<not> front_locks (Marked a)" "front_locks (Waiting j p)"
  by (simp_all add: front_locks_def)

lemma front_id_simps [simp]:
  "front_id (Reading rq) = []" "front_id (Raised a) = [am_rid a]" "front_id (Marked a) = [am_rid a]" "front_id (Stopping a st) = []"
  "front_id (Waiting j Running) = [jb_rid j]" "front_id (Waiting j (Answered t)) = [jb_rid j]" "front_id (Waiting j (Closing t)) = []"
  by (simp_all add: front_id_def phase_raised_def)

lemma front_raised_id: "length (front_id f) = of_bool (front_raised f)"
  by (simp add: front_id_def front_raised_def split: front.split)

lemma phase_raised_simps [simp]: "phase_raised Running" "phase_raised (Answered t)" "\<not> phase_raised (Closing t)"
  by (simp_all add: phase_raised_def)

lemmas count_defs = sound_def lock_holders_def in_flight_def

lemma sound_progress:
  assumes "sound v" "progress A v v'" "git_laws (e_git (ae_remote A))"
  shows "sound v'"
  using assms(2)
proof cases
  case (marked a now)
  then show ?thesis using assms(1) by (simp add: count_defs note_started_def)
next
  case (stopping a st w)
  from open_reload_cases [OF stopping(3) assms(3)] assms(1) show ?thesis unfolding stopping(1)
    by (auto simp: count_defs stopping(2) lower_flag_def of_bool_def split: if_splits)
next
  case (waiting a j w)
  from open_reload_cases [OF waiting(3) assms(3)] assms(1) show ?thesis unfolding waiting(1)
    by (auto simp: count_defs waiting(2) of_bool_def split: if_splits)
next
  case (detached a j w)
  from open_reload_cases [OF detached(3) assms(3)] assms(1) show ?thesis unfolding detached(1)
    by (auto simp: count_defs detached(2) of_bool_def split: if_splits)
next
  case (stopped a st resp w now)
  from close_stop_world [OF stopped(3)] assms(1) show ?thesis unfolding stopped(1)
    by (auto simp: count_defs stopped(2) note_finished_def of_bool_def split: if_splits)
next
  case (settled j t)
  then show ?thesis using assms(1) by (auto simp: count_defs lower_flag_def of_bool_def split: if_splits)
next
  case (finished j t now)
  from close_job_world [of "sv_admin v" "ae_remote A" j t now] assms(1) show ?thesis unfolding finished(1)
    by (auto simp: count_defs finished(2) of_bool_def split: if_splits)
next
  case (settled_back xs j t ys)
  then show ?thesis using assms(1) by (auto simp: count_defs lower_flag_def of_bool_def split: if_splits)
next
  case (finished_back xs j t ys now)
  from close_job_world [of "sv_admin v" "ae_remote A" j t now] assms(1) show ?thesis unfolding finished_back(1)
    by (auto simp: count_defs finished_back(2) of_bool_def split: if_splits)
qed

lemma sound_world:
  assumes "sound v" "keeps S (ad_world (sv_admin v)) w"
  shows "sound (v\<lparr>sv_admin := (sv_admin v)\<lparr>ad_world := w\<rparr>\<rparr>)"
  using assms(1) keepsD(2,3) [OF assms(2)] by (simp add: count_defs)

lemma sound_dropped:
  assumes "sound v" "sv_front v = Some f"
  shows "sound (drop_front f v)"
  using assms front_raised_id [of f] by (auto simp: count_defs drop_front_def unlock_def of_bool_def split: if_splits)

lemma sound_outside:
  assumes "sound v" "outside A v v'"
  shows "sound v'"
  using assms(2)
proof cases
  case (status rq)
  have c: "confined UNIV (read_project_version J)" for J
    unfolding read_project_version_def current_project_group_versions_def current_project_version_def
    by (auto intro!: confined_intros split: option.split)
  obtain x w where r: "read_project_version (e_state (ae_remote A)) (ad_world (sv_admin v)) = (x, w)" by fastforce
  have "snd (status_response A (sv_admin v)) = (sv_admin v)\<lparr>ad_world := w\<rparr>" by (simp add: status_response_def r Let_def)
  then show ?thesis unfolding status(1) using sound_world [OF assms(1) confinedD [OF c r]] by simp
next
  case (admitted rq a)
  with admit_reload_Inr [OF admitted(3)] assms(1) show ?thesis by (auto simp: count_defs raise_flag_def)
next
  case (dropped f)
  show ?thesis unfolding dropped(1) by (rule sound_dropped [OF assms(1) dropped(2)])
next
  case (engine w)
  show ?thesis unfolding engine(1) by (rule sound_world [OF assms(1) engine(2)])
next
  case (other w)
  show ?thesis unfolding other(1) by (rule sound_world [OF assms(1) other(3)])
next
  case given_back
  then show ?thesis using assms(1) by (auto simp: count_defs unlock_def of_bool_def split: if_splits)
qed (use assms(1) in \<open>auto simp: count_defs of_bool_def split: if_splits\<close>)

lemma served_sound:
  assumes "served A v" "git_laws (e_git (ae_remote A))"
  shows "sound v"
  using assms(1) by induction (blast intro: sound_booted sound_progress [OF _ _ assms(2)] sound_outside)+

section \<open>One reload at a time\<close>

text \<open>
  C23: However requests, timeouts, monitors, dropped handlers and other processes interleave, the
  project lock is held exactly while one reload has it or another process does, at most one request is
  in flight, and the flag that the status shows and that refuses further reloads is up exactly while one
  is in flight or one was dropped in flight. In flight is from the raising of the flag to the lowering of it;
  what the status says of ids and results is not claimed, since the mutex behind it is taken later.
\<close>

theorem one_reload_at_a_time:
  assumes "served A v" and "git_laws (e_git (ae_remote A))"
  shows "lock_holders v + of_bool (sv_other v) = of_bool (w_locked (ad_world (sv_admin v))) \<and>
    length (in_flight v) \<le> 1 \<and>
    ad_reloading (sv_admin v) = (in_flight v \<noteq> [] \<or> sv_lost v) \<and> (in_flight v = [] \<or> \<not> sv_lost v)"
  using served_sound [OF assms] by (auto simp: sound_def of_bool_def split: if_splits)

text \<open>How far the reloads of the server are from their end.\<close>

definition stages :: "phase \<Rightarrow> nat" where
  "stages p = (case p of Closing t \<Rightarrow> 1 | _ \<Rightarrow> 2)"

definition front_stages :: "'c front \<Rightarrow> nat" where
  "front_stages f = (case f of Reading rq \<Rightarrow> 5 | Raised a \<Rightarrow> 4 | Marked a \<Rightarrow> 3 | Stopping a st \<Rightarrow> 1 | Waiting j p \<Rightarrow> stages p)"

definition remaining :: "'c server \<Rightarrow> nat" where
  "remaining v = (case sv_front v of None \<Rightarrow> 0 | Some f \<Rightarrow> front_stages f) + (\<Sum>(j, p)\<leftarrow>sv_back v. stages p)"

definition idle :: "'c server \<Rightarrow> bool" where
  "idle v = (sv_front v = None \<and> sv_back v = [])"

text \<open>Nothing left to do for the server's own tasks: they await the body of a request or the engine.\<close>

definition awaiting :: "'c server \<Rightarrow> bool" where
  "awaiting v =
     ((case sv_front v of None \<Rightarrow> True | Some (Reading rq) \<Rightarrow> True | Some (Waiting j p) \<Rightarrow> p = Running | Some f \<Rightarrow> False) \<and>
      list_all (\<lambda>(j, p). p = Running) (sv_back v))"

lemmas stage_defs = remaining_def front_stages_def stages_def

lemma progress_decreases: "progress A v v' \<Longrightarrow> remaining v' < remaining v"
  by (cases rule: progress.cases) (auto simp: stage_defs)

lemma outside_keeps: "outside A v v' \<Longrightarrow> remaining v' \<le> remaining v \<or> sv_front v = None \<and> sv_front v' \<noteq> None"
  by (cases rule: outside.cases) (auto simp: stage_defs drop_front_def)

lemma stuck_or_awaiting: "(\<nexists>v'. progress A v v') \<longleftrightarrow> awaiting v"
proof
  assume stuck: "\<nexists>v'. progress A v v'"
  have "p = Running" if jp: "(j, p) \<in> set (sv_back v)" for j p
  proof -
    obtain xs ys where "sv_back v = xs @ (j, p) # ys" using split_list [OF jp] by blast
    then show ?thesis using stuck by (cases p) (auto dest: progress.settled_back progress.finished_back)
  qed
  moreover have "sv_front v \<noteq> Some (Raised a)" for a using stuck progress.marked by blast
  moreover have "sv_front v \<noteq> Some (Marked a)" for a
  proof
    assume front: "sv_front v = Some (Marked a)"
    obtain out w where run: "open_reload A a (ad_world (sv_admin v)) = (out, w)" by fastforce
    show False
    proof (cases out)
      case (Inl st)
      then show ?thesis using stuck progress.stopping [OF front run [unfolded Inl]] by blast
    next
      case (Inr j)
      then show ?thesis
        using stuck progress.waiting [OF front run [unfolded Inr]] progress.detached [OF front run [unfolded Inr]] by blast
    qed
  qed
  moreover have "sv_front v \<noteq> Some (Stopping a st)" for a st
    using stuck progress.stopped by (cases "close_stop A a st (ad_world (sv_admin v))") blast
  moreover have "sv_front v = Some (Waiting j p) \<Longrightarrow> p = Running" for j p
    using stuck by (cases p) (auto dest: progress.settled progress.finished)
  ultimately show "awaiting v" by (auto simp: awaiting_def list_all_iff split: option.split front.split)
next
  assume "awaiting v"
  then show "\<nexists>v'. progress A v v'" by (auto simp: awaiting_def elim!: progress.cases)
qed

lemma remaining_bound: "sound v \<Longrightarrow> remaining v \<le> 7"
proof -
  assume s: "sound v"
  have "length (sv_back v) \<le> 1" using s by (auto simp: count_defs of_bool_def split: if_splits)
  then have "(\<Sum>(j, p)\<leftarrow>sv_back v. stages p) \<le> 2" by (cases "sv_back v") (auto simp: stages_def split: phase.split)
  moreover have "front_stages f \<le> 5" for f :: "'a front" by (simp add: front_stages_def stages_def split: front.split phase.split)
  ultimately show ?thesis by (auto simp: remaining_def split: option.split intro: add_mono [of _ 5 _ 2, simplified])
qed

lemma flag_refuses: "ad_reloading s \<Longrightarrow> \<exists>resp. admit_reload A rid b s = Inl resp"
  using admit_reload_Inr [of A rid b s] by (cases "admit_reload A rid b s") auto

lemma lost_stays: "sv_lost v \<Longrightarrow> progress A v v' \<or> outside A v v' \<Longrightarrow> sv_lost v'"
  by (auto elim!: progress.cases outside.cases simp: drop_front_def)

text \<open>
  C25: The own steps of the server lower a count that is seven at most and that only the entry of a new
  request raises, and when none is possible its tasks await the body of a request or the engine (the
  model says nothing of when these come). When no handler and no monitor is left the lock is free
  unless another process has it, and the flag is down unless a handler was dropped in flight; if one
  was, that stays so, and every reload request from then on is refused.
\<close>

theorem reloads_settle:
  assumes "served A v" and "git_laws (e_git (ae_remote A))"
  shows "remaining v \<le> 7 \<and> (\<forall>v'. progress A v v' \<longrightarrow> remaining v' < remaining v) \<and>
    (\<forall>v'. outside A v v' \<longrightarrow> remaining v' \<le> remaining v \<or> sv_front v = None \<and> sv_front v' \<noteq> None) \<and>
    ((\<nexists>v'. progress A v v') \<longrightarrow> awaiting v) \<and>
    (idle v \<longrightarrow> w_locked (ad_world (sv_admin v)) = sv_other v \<and> ad_reloading (sv_admin v) = sv_lost v) \<and>
    (sv_lost v \<longrightarrow> (\<forall>v'. progress A v v' \<or> outside A v v' \<longrightarrow> sv_lost v') \<and>
       (\<forall>rid b. \<exists>resp. admit_reload A rid b (sv_admin v) = Inl resp))"
proof -
  have s: "sound v" using served_sound [OF assms] .
  have "w_locked (ad_world (sv_admin v)) = sv_other v \<and> ad_reloading (sv_admin v) = sv_lost v" if "idle v"
    using s that by (auto simp: count_defs idle_def of_bool_def split: if_splits)
  moreover have "ad_reloading (sv_admin v)" if "sv_lost v"
    using s that by (auto simp: sound_def of_bool_def split: if_splits)
  ultimately show ?thesis
    using remaining_bound [OF s] progress_decreases outside_keeps stuck_or_awaiting [of A v] lost_stays flag_refuses
    by (intro conjI impI allI; blast)
qed

end
