(* ===== verification/AdminSafety.thy ===== *)
theory AdminSafety
  imports AdminServer
begin

text \<open>
  What a failed reload leaves behind: the files that the update had replaced are back, from the
  snapshot and the backup taken before it, whatever the engine did in between. And which requests are
  refused.
\<close>

section \<open>What the rollback needs\<close>

definition file_is :: "file_system \<Rightarrow> path \<Rightarrow> bytes option \<Rightarrow> bool" where
  "file_is fs p b =
     (case b of None \<Rightarrow> map_of fs p = None | Some bs \<Rightarrow> \<exists>m. map_of fs p = Some (EFile bs m))"

definition artifacts_are :: "file_system \<Rightarrow> runtime_artifact_snapshot \<Rightarrow> bool" where
  "artifacts_are fs snap =
     (file_is fs rule_mapping_path (as_rule_mapping snap) \<and> file_is fs authority_db_path (as_authority_db snap))"

text \<open>From the files of \<open>w\<close> and the context of a job, the files of \<open>w0\<close> can be put back.\<close>

definition covers :: "'v remote_env \<Rightarrow> remote_group option \<Rightarrow> world \<Rightarrow> reload_context \<Rightarrow> world \<Rightarrow> bool" where
  "covers E g w0 ctx w =
     (rs_group (rc_snapshot ctx) = g \<and> file_is (w_fs w0) state_path (rs_state_file (rc_snapshot ctx)) \<and>
      artifacts_are (w_fs w0) (rc_runtime ctx) \<and> tree_ok (w_fs w0) \<and> tree_ok (w_fs w) \<and>
      (case rc_update ctx of
         None \<Rightarrow> undone E g w0 w
       | Some r \<Rightarrow>
           (ur_changed r \<longrightarrow> backed_up (e_manifest E) (managed_dirs_for g) (w_fs w0) (w_fs w)) \<and>
           (\<not> ur_changed r \<longrightarrow> same_dirs g (w_fs w0) (w_fs w))))"

lemma file_is_eq: "map_of fs' p = map_of fs p \<Longrightarrow> file_is fs' p = file_is fs p"
  by (rule ext) (simp add: file_is_def split: option.split)

lemma managed_region_dirs: "d \<in> set (managed_dirs_for g) \<Longrightarrow> [d] @ q \<in> managed_region"
  by (auto simp: managed_region_def under_def managed_dirs_for_def split: option.splits remote_group.splits)

lemma managed_region_backup: "backup_path @ q \<in> managed_region"
  by (simp add: managed_region_def under_def backup_path_def)

lemma managed_region_state: "state_path \<in> managed_region"
  by (simp add: managed_region_def)

lemma backed_up_keeps:
  assumes k: "keeps S w w'" and b: "\<And>q. backup_path @ q \<notin> S" "backed_up J ds x (w_fs w)"
  shows "backed_up J ds x (w_fs w')"
proof -
  have "tree_at (w_fs w') (backup_path @ [d]) = tree_at (w_fs w) (backup_path @ [d])" for d
    using tree_at_keeps [OF k, of "backup_path @ [d]"] b(1) by simp
  moreover have "map_of (w_fs w') backup_manifest_path = map_of (w_fs w) backup_manifest_path"
    unfolding backup_manifest_path_def by (rule keepsD(1) [OF k b(1)])
  ultimately show ?thesis using b(2) by (simp add: backed_up_def)
qed

lemma covers_keeps:
  assumes c: "covers E g w0 ctx w" and k: "keeps (- managed_region) w w'"
  shows "covers E g w0 ctx w'"
proof -
  have "backed_up J ds x (w_fs w')" if "backed_up J ds x (w_fs w)" for J ds x
    using backed_up_keeps [OF k _ that] managed_region_backup by blast
  moreover have "same_dirs g (w_fs w) (w_fs w')" using same_dirs_keeps [OF k] managed_region_dirs by blast
  moreover have "undone E g w w'" using undone_keeps [OF k] managed_region_dirs managed_region_state by blast
  ultimately show ?thesis using c keepsD(2) [OF k]
    by (auto simp: covers_def dest: same_dirs_trans undone_trans split: option.splits)
qed

section \<open>Putting the runtime artifacts back\<close>

definition write_region :: "path \<Rightarrow> path \<Rightarrow> path set" where
  "write_region p tmp = ancestors (butlast p) \<union> under p \<union> under tmp"

lemma confined_restore_optional_at:
  assumes "p \<noteq> []" "tmp \<noteq> []"
  shows "confined (write_region p tmp) (restore_optional_file p tmp b)"
proof -
  have "confined (write_region p tmp) (atomic_write_file p tmp bs)" for bs
    unfolding atomic_write_file_def using assms
    by (intro confined_intros confined_mono [OF confined_create_dir_all] confined_mono [OF confined_write] confined_rename_or_clean)
      (auto simp: write_region_def under_def)
  moreover have "confined (write_region p tmp) (remove_if_there p)"
  proof (rule confinedI)
    fix w r w' assume m: "remove_if_there p w = (r, w')"
    obtain x w1 where x: "remove_file p w = (x, w1)" by fastforce
    have "confined (write_region p tmp) (remove_file p)"
      by (rule confined_mono [OF confined_remove_file]) (auto simp: write_region_def under_def)
    then have "keeps (write_region p tmp) w w1" using x by (rule confinedD)
    then show "keeps (write_region p tmp) w w'" using m by (auto simp: remove_if_there_def x split: sum.splits io_error.splits)
  qed
  ultimately show ?thesis by (simp add: restore_optional_file_def split: option.split)
qed

lemma restore_optional_Inr:
  assumes run: "restore_optional_file p tmp b w = (Inr u, w')" and "\<not> prefix tmp p"
  shows "file_is (w_fs w') p b"
proof (cases b)
  case None
  obtain x w1 where x: "remove_file p w = (x, w1)" by fastforce
  show ?thesis using run None x
    by (auto simp: file_is_def restore_optional_file_def remove_if_there_def remove_file_def
        dest!: sys_Inr sys_Inl_NotFound sym [of "drop_tree _ _"] split: sum.splits io_error.splits option.splits entry.splits)
next
  case (Some bs)
  from run Some obtain w1 u1 w2 u2 where w: "fs_write tmp bs w1 = (Inr u1, w2)"
    and r: "rename_or_clean tmp p w2 = (Inr u2, w')"
    by (auto simp: restore_optional_file_def atomic_write_file_def io_map_err_Inr elim!: io_seq_Inr)
  obtain m where "map_of (w_fs w2) tmp = Some (EFile bs m)" using fs_write_Inr [OF w] by auto
  moreover have "rename_file tmp p w2 = (Inr u2, w')"
    using r by (auto simp: rename_or_clean_def split: prod.splits sum.splits)
  ultimately have "map_of (w_fs w') p = Some (EFile bs m)" using rename_file_Inr assms(2) by blast
  then show ?thesis using Some by (simp add: file_is_def)
qed

abbreviation "mapping_tmp \<equiv> [''.run'', ''rule_mapping..tmp'']"
abbreviation "authority_tmp \<equiv> [''.run'', ''authority..tmp'']"

definition artifact_region :: "path set" where
  "artifact_region = write_region rule_mapping_path mapping_tmp \<union> write_region authority_db_path authority_tmp"

lemma artifact_region_disjoint:
  "state_path \<notin> artifact_region" "d \<in> set (managed_dirs_for g) \<Longrightarrow> [d] @ q \<notin> artifact_region"
  using managed_not_run [of d g]
  by (auto simp: artifact_region_def write_region_def under_def ancestors_def prefix_Cons rule_mapping_path_def authority_db_path_def state_path_def)

lemma restore_artifacts_Inr:
  assumes run: "restore_runtime_artifact_snapshot snap w = (res, w')"
  shows "keeps artifact_region w w' \<and> (\<forall>u. res = Inr u \<longrightarrow> artifacts_are (w_fs w') snap)"
proof -
  have c1: "confined artifact_region (restore_optional_file rule_mapping_path mapping_tmp b)"
    and c2: "confined artifact_region (restore_optional_file authority_db_path authority_tmp b)" for b
    by (rule confined_mono [OF confined_restore_optional_at], auto simp: artifact_region_def rule_mapping_path_def authority_db_path_def)+
  have k: "keeps artifact_region w w'"
    using run unfolding restore_runtime_artifact_snapshot_def by (rule confinedD [OF confined_seq [OF c1 c2]])
  have "artifacts_are (w_fs w') snap" if "res = Inr u" for u
  proof -
    from run that obtain v w1 where a: "restore_optional_file rule_mapping_path mapping_tmp (as_rule_mapping snap) w = (Inr v, w1)"
      and b: "restore_optional_file authority_db_path authority_tmp (as_authority_db snap) w1 = (Inr u, w')"
      by (auto simp: restore_runtime_artifact_snapshot_def elim!: io_seq_Inr)
    have "file_is (w_fs w1) rule_mapping_path (as_rule_mapping snap)"
      by (rule restore_optional_Inr [OF a]) (simp add: rule_mapping_path_def)
    moreover have "map_of (w_fs w') rule_mapping_path = map_of (w_fs w1) rule_mapping_path"
      by (rule keepsD(1) [OF confinedD [OF confined_restore_optional_at b]])
        (auto simp: authority_db_path_def rule_mapping_path_def write_region_def under_def ancestors_def prefix_Cons)
    ultimately have "file_is (w_fs w') rule_mapping_path (as_rule_mapping snap)" using file_is_eq by metis
    moreover have "file_is (w_fs w') authority_db_path (as_authority_db snap)"
      by (rule restore_optional_Inr [OF b]) (simp add: authority_db_path_def)
    ultimately show ?thesis by (simp add: artifacts_are_def)
  qed
  then show ?thesis using k by blast
qed

section \<open>The rollback\<close>

lemma rollback_covers:
  assumes c: "covers E g w0 ctx w" and run: "rollback_updated_project E ctx w = (None, w')"
    and J: "codec_laws (e_manifest E)"
  shows "undone E g w0 w' \<and> (rc_update ctx \<noteq> None \<longrightarrow> artifacts_are (w_fs w') (rc_runtime ctx))"
proof (cases "rc_update ctx")
  case None
  then show ?thesis using c run by (simp add: covers_def rollback_updated_project_def)
next
  case (Some r)
  obtain a w1 where a: "restore_project_remote_update (e_manifest E) (rc_snapshot ctx) (ur_changed r) w = (a, w1)" by fastforce
  obtain b w2 where b: "restore_runtime_artifact_snapshot (rc_runtime ctx) w1 = (b, w2)" by fastforce
  have ok: "\<exists>u. a = Inr u" "\<exists>u. b = Inr u" "w' = w2"
    using run by (auto simp: rollback_updated_project_def Some a b Let_def split: sum.splits if_splits)
  then obtain ua ub where ab: "a = Inr ua" "b = Inr ub" by blast
  have g: "rs_group (rc_snapshot ctx) = g" using c by (simp add: covers_def)
  obtain v w3 where d: "(if ur_changed r then restore_managed_dirs (e_manifest E) (managed_dirs_for g) else io_ret ()) w = (Inr v, w3)"
    and p: "restore_state_file_bytes (rs_state_file (rc_snapshot ctx)) w3 = (Inr ua, w1)"
    using a ab g by (auto simp: restore_project_remote_update_def cong: if_cong elim!: io_seq_Inr)
  have "same_dirs g (w_fs w0) (w_fs w3)"
  proof (cases "ur_changed r")
    case True
    then show ?thesis using d c Some restore_Inr [OF _ _ J plain_managed, of g w v w3 "w_fs w0"] by (auto simp: covers_def same_dirs_def)
  next
    case False
    then show ?thesis using d c Some by (simp add: io_ret_def covers_def)
  qed
  then have "same_dirs g (w_fs w0) (w_fs w1)"
    using same_dirs_state [OF confinedD [OF confined_restore_state_bytes p], of g] same_dirs_trans by blast
  moreover have "file_is (w_fs w1) state_path (rs_state_file (rc_snapshot ctx))"
    using restore_bytes_Inr [OF p] by (simp add: file_is_def)
  then have "state_is (e_state E) (w_fs w1) s" if "state_is (e_state E) (w_fs w0) s" for s
    using that c by (auto simp: covers_def file_is_def state_is_def split: option.splits)
  ultimately have "undone E g w0 w1" by (simp add: undone_def)
  moreover have "undone E g w1 w2"
    using restore_artifacts_Inr [OF b] artifact_region_disjoint by (intro undone_keeps [of artifact_region]) blast+
  ultimately show ?thesis using undone_trans restore_artifacts_Inr [OF b] ab ok(3) by blast
qed

section \<open>The start of a reload\<close>

lemma sync_closure_cases:
  assumes "sync_closure E conf ver g w = (res, w')"
  obtains (refused) e where "res = Inl e" and "w' = w"
    | (inner) url init_version where "sync_project_remote_with_repo_inner E url ver init_version g w = (res, w')"
  using assms
  by (auto simp: sync_closure_def sync_project_remote_group_def sync_project_remote_def io_err_def Let_def
      split: option.splits if_splits sum.splits remote_mode.splits remote_group.splits)

lemma update_locked_cong:
  "sync requested g w = sync' requested g w \<Longrightarrow>
    run_remote_update_locked E requested g snap sync w = run_remote_update_locked E requested g snap sync' w"
  by (simp add: run_remote_update_locked_def io_bind_def)

lemma update_locked_Inr:
  "run_remote_update_locked E requested g snap sync w = (Inr r, w') \<Longrightarrow> sync requested g w = (Inr r, w')"
  by (auto simp: run_remote_update_locked_def validate_config_loads_def elim!: io_bind_cases split: prod.splits sum.splits option.splits)

lemma run_remote_sync_cases:
  assumes run: "run_remote_sync E conf version g \<lparr>rs_state_file = b, rs_group = g\<rparr> w = (res, w')"
    and snap: "file_is (w_fs w) state_path b" and ok: "tree_ok (w_fs w)" and nl: "no_top_links g (w_fs w)"
    and G: "git_laws (e_git E)" and J: "codec_laws (e_state E)" "codec_laws (e_manifest E)" and sees: "sees w"
  shows "case res of
      Inl e \<Rightarrow> undone E g w w' \<or> (\<exists>a c. e = rollback_failed a c)
    | Inr r \<Rightarrow> tree_ok (w_fs w') \<and> (ur_changed r \<longrightarrow> backed_up (e_manifest E) (managed_dirs_for g) (w_fs w) (w_fs w')) \<and>
        (\<not> ur_changed r \<longrightarrow> same_dirs g (w_fs w) (w_fs w'))"
proof -
  obtain x w1 where x: "sync_closure E conf version g w = (x, w1)" by fastforce
  from x show ?thesis
  proof (cases rule: sync_closure_cases)
    case (refused e)
    then have "res = Inl e" "w' = w" using run x by (simp_all add: run_remote_sync_def run_remote_update_locked_def io_bind_def)
    then show ?thesis by (simp add: undone_def same_dirs_refl)
  next
    case (inner url init_version)
    have m: "run_remote_update_locked E version g \<lparr>rs_state_file = b, rs_group = g\<rparr> (real_sync E url init_version) w = (res, w')"
    proof -
      have "sync_closure E conf version g w = real_sync E url init_version version g w" using x inner by (simp add: real_sync_def)
      from update_locked_cong [of "sync_closure E conf" version g w "real_sync E url init_version" E, OF this] show ?thesis
        using run by (simp add: run_remote_sync_def)
    qed
    show ?thesis
    proof (cases res)
      case (Inl e)
      then show ?thesis using run_locked_Inl [OF m [unfolded Inl] _ ok nl G J sees] snap by (simp add: file_is_def)
    next
      case (Inr r)
      have "sync_project_remote_with_repo_inner E url version init_version g w = (Inr r, w')"
        using update_locked_Inr [OF m [unfolded Inr]] by (simp add: real_sync_def)
      from sync_Inr [OF this ok nl G J(1) sees] show ?thesis by (simp add: Inr installed_def)
    qed
  qed
qed

lemma opt_read_file_is: "opt_read p w = (Inr b, w') \<Longrightarrow> w_fs w' = w_fs w \<and> file_is (w_fs w) p b"
  using opt_read_Inr by (fastforce simp: file_is_def)

lemma capture_snapshots_Inr:
  assumes "capture_snapshots g w = (Inr (snap, rt), w')"
  shows "w_fs w' = w_fs w \<and> (\<exists>b. snap = \<lparr>rs_state_file = b, rs_group = g\<rparr> \<and> file_is (w_fs w) state_path b) \<and> artifacts_are (w_fs w) rt"
  using assms
  by (auto simp: capture_snapshots_def capture_project_remote_snapshot_with_group_def capture_runtime_artifact_snapshot_def
      io_ret_def artifacts_are_def elim!: io_bind_Inr dest!: opt_read_file_is)

lemma covers_before_lock:
  assumes same: "\<And>p. p \<notin> lock_region \<Longrightarrow> map_of (w_fs w1) p = map_of (w_fs w0) p" and ok: "tree_ok (w_fs w0)"
    and c: "covers E g w1 ctx w"
  shows "covers E g w0 ctx w"
proof -
  have p: "state_path \<notin> lock_region" "rule_mapping_path \<notin> lock_region" "authority_db_path \<notin> lock_region"
    by (auto simp: lock_region_def lock_path_def state_path_def rule_mapping_path_def authority_db_path_def)
  have d: "same_dirs g (w_fs w0) (w_fs w1)"
    using same lock_region_disjoint(2) by (simp add: same_dirs_def tree_at_def fun_eq_iff)
  have u: "undone E g w0 w1" using d same [OF p(1)] by (simp add: undone_def state_is_def split: option.split)
  show ?thesis
    using c ok undone_trans [OF u] same_dirs_trans [OF d] backed_up_same [OF d] p
    by (auto simp: covers_def artifacts_are_def file_is_eq [OF same] split: option.splits)
qed

text \<open>A response that does not own up to a failed rollback.\<close>

definition rolled_back :: "response \<Rightarrow> bool" where
  "rolled_back resp =
     (case snd resp of
        ErrorBody rid result e \<Rightarrow> \<not> (\<exists>a b. e = rollback_failed a b)
      | ReloadBody r \<Rightarrow> rr_warning r = None
      | StatusBody s \<Rightarrow> True)"

lemmas handler_defs = start_reload_def open_reload_def close_stop_def mark_reload_finished_def note_finished_def lower_flag_def Let_def

lemma start_reload_covers:
  assumes run: "start_reload A now a s = (out, s')"
    and ok: "tree_ok (w_fs (ad_world s))" and nl: "no_top_links (am_group a) (w_fs (ad_world s))"
    and G: "git_laws (e_git (ae_remote A))"
    and J: "codec_laws (e_state (ae_remote A))" "codec_laws (e_manifest (ae_remote A))" and sees: "sees (ad_world s)"
  shows "case out of
      Inl resp \<Rightarrow> rolled_back resp \<longrightarrow> undone (ae_remote A) (am_group a) (ad_world s) (ad_world s')
    | Inr j \<Rightarrow> covers (ae_remote A) (am_group a) (ad_world s) (jb_ctx j) (ad_world s')"
proof -
  let ?E = "ae_remote A" and ?g = "am_group a" and ?w = "ad_world s"
  obtain x w1 where x: "acquire_project_remote_lock ?w = (x, w1)" by fastforce
  note acq = acquire_cases [OF x]
  have u1: "undone ?E ?g ?w w1"
    using acq lock_region_disjoint by (auto simp: undone_def same_dirs_def tree_at_def state_is_def fun_eq_iff split: option.splits)
  have ok1: "tree_ok (w_fs w1)" and sees1: "sees w1" using acq ok sees by blast+
  have nl1: "no_top_links ?g (w_fs w1)" using u1 nl no_top_links_same by (auto simp: undone_def)
  have out: "undone ?E ?g v (unlock v')" if "undone ?E ?g v v'" for v v' using that by (simp add: undone_def unlock_def)
  show ?thesis
  proof (cases x)
    case (Inl e)
    then show ?thesis using run x u1 by (auto simp: handler_defs)
  next
    case (Inr u)
    obtain y w2 where y: "capture_snapshots ?g w1 = (y, w2)" by fastforce
    have k2: "keeps {} w1 w2" by (rule confinedD [OF confined_capture_snapshots y])
    have u2: "undone ?E ?g w1 w2" by (rule undone_keeps [OF k2]) simp_all
    have sees2: "sees w2" using k2 sees1 by (simp add: keeps_def)
    show ?thesis
    proof (cases y)
      case (Inl e)
      then show ?thesis using run x y Inr out [OF undone_trans [OF u1 u2]] by (auto simp: handler_defs)
    next
      case snap: (Inr p)
      obtain sn rt where p: "p = (sn, rt)" by fastforce
      from capture_snapshots_Inr [OF y [unfolded snap p]] obtain b where
        fs2: "w_fs w2 = w_fs w1" and sn: "sn = \<lparr>rs_state_file = b, rs_group = ?g\<rparr>"
        and st: "file_is (w_fs w1) state_path b" and rt: "artifacts_are (w_fs w1) rt" by blast
      obtain z w3 where z: "sync_if_asked ?E a sn w2 = (z, w3)" by fastforce
      have synced: "case z of
          Inl e \<Rightarrow> undone ?E ?g w2 w3 \<or> (\<exists>a c. e = rollback_failed a c)
        | Inr v \<Rightarrow> covers ?E ?g w1 \<lparr>rc_snapshot = sn, rc_runtime = rt, rc_update = v\<rparr> w3"
      proof (cases "am_conf a")
        case None
        then show ?thesis using z u2 ok1 fs2 sn st rt by (auto simp: sync_if_asked_def io_ret_def covers_def)
      next
        case (Some conf)
        obtain q w4 where q: "run_remote_sync ?E conf (rl_version (am_request a)) ?g sn w2 = (q, w4)" by fastforce
        have "z = (case q of Inl e \<Rightarrow> Inl e | Inr r \<Rightarrow> Inr (Some r)) \<and> w3 = w4"
          using z q Some by (auto simp: sync_if_asked_def io_bind_def io_ret_def split: sum.splits)
        then show ?thesis
          using run_remote_sync_cases [OF q [unfolded sn] _ _ _ G J sees2] st ok1 nl1 fs2 sn rt
          by (auto simp: covers_def split: sum.splits)
      qed
      have early: "covers ?E ?g ?w ctx v" if "covers ?E ?g w1 ctx v" for ctx v
        by (rule covers_before_lock [OF _ ok that]) (use acq in blast)
      show ?thesis
      proof (cases z)
        case (Inl e)
        then have "out = Inl (500, ErrorBody (am_rid a) ''update_failed'' e)" "ad_world s' = unlock w3"
          using run x y z Inr snap p by (auto simp: handler_defs)
        then show ?thesis using Inl synced out [OF undone_trans [OF undone_trans [OF u1 u2]]] by (auto simp: rolled_back_def)
      next
        case upd: (Inr v)
        let ?ctx = "\<lparr>rc_snapshot = sn, rc_runtime = rt, rc_update = v\<rparr>"
        have cov: "covers ?E ?g ?w ?ctx w3" using early synced upd by simp
        obtain wn w4 where b: "rollback_updated_project ?E ?ctx w3 = (wn, w4)" by fastforce
        show ?thesis
        proof (cases "load_next (ae_source A) (w_fs w3)")
          case (Inl e)
          then have "out = Inl (500, reload_body (am_rid a) False ''reload_failed'' (Some (rl_update (am_request a))) v None wn
              (Some (''failed to load config: '' @ e)))" "ad_world s' = unlock w4"
            using run x y z Inr snap p upd b by (auto simp: handler_defs)
          then show ?thesis using out rollback_covers [OF cov _ J(2)] b by (auto simp: rolled_back_def reload_body_def)
        next
          case (Inr c)
          then show ?thesis using run x y z \<open>x = Inr u\<close> snap p upd cov by (auto simp: handler_defs)
        qed
      qed
    qed
  qed
qed

section \<open>A failed reload\<close>


section \<open>Which requests are admitted\<close>

definition may_update :: "('c, 'm, 'k) config_source \<Rightarrow> file_system \<Rightarrow> remote_group option \<Rightarrow> project_remote_conf \<Rightarrow> bool" where
  "may_update S fs g conf =
     (load_remote_conf S fs = Inr conf \<and> pr_enabled conf \<and>
      (case resolve_project_remote_mode conf of
         Inl e \<Rightarrow> False | Inr (SingleMode r v) \<Rightarrow> True | Inr (DualMode m i) \<Rightarrow> g \<noteq> None))"

definition group_named :: "reload_request \<Rightarrow> remote_group option \<Rightarrow> bool" where
  "group_named r g =
     (case g of
        None \<Rightarrow> rl_group r = None \<or> rl_group r = Some []
      | Some Models \<Rightarrow> rl_group r = Some ''models'' | Some Infra \<Rightarrow> rl_group r = Some ''infra'')"

lemma check_remote_Inr:
  "check_remote S fs rid r g = Inr conf \<longleftrightarrow>
     (case conf of None \<Rightarrow> \<not> rl_update r | Some c \<Rightarrow> rl_update r \<and> may_update S fs g c)"
  by (cases conf)
    (auto simp: check_remote_def may_update_def split: sum.splits remote_mode.splits if_splits)

lemma check_update_fields_Inr:
  "check_update_fields r = Inr g \<longleftrightarrow> (rl_update r \<or> rl_version r = None \<and> g = None) \<and> group_named r g"
  by (cases g; cases "rl_group r")
    (auto simp: check_update_fields_def group_named_def remote_group_from_str_def split: if_splits remote_group.splits)

definition refusal :: "response \<Rightarrow> bool" where
  "refusal resp =
     (fst resp \<in> {400, 409, 413, 500, 503} \<and>
      (case snd resp of ErrorBody rid result e \<Rightarrow> True | ReloadBody r \<Rightarrow> \<not> rr_accepted r | StatusBody s \<Rightarrow> False))"

text \<open>What the server acts on: the request, its group and the configuration of its update.\<close>

definition admissible :: "('v, 'c, 'm, 'k) admin_env \<Rightarrow> body \<Rightarrow> admin_state \<Rightarrow> admitted \<Rightarrow> bool" where
  "admissible A b s a =
     (\<not> ad_cancelled s \<and> \<not> ad_reloading s \<and>
      (case b of BodyFails e \<Rightarrow> False | Body bs \<Rightarrow> length bs \<le> ae_max_body A \<and> ae_decode A bs = Inr (am_request a)) \<and>
      group_named (am_request a) (am_group a) \<and>
      (case am_conf a of
         Some conf \<Rightarrow> rl_update (am_request a) \<and> may_update (ae_source A) (w_fs (ad_world s)) (am_group a) conf
       | None \<Rightarrow> \<not> rl_update (am_request a) \<and> am_group a = None \<and> rl_version (am_request a) = None))"

text \<open>
  C26: A reload is admitted exactly when the body is within the limit and decodes, a version or a group
  comes only with an update and names a group there is, the configuration of an update loads, is
  enabled and has a mode (with a group when there are two repositories), the engine accepts commands
  and no reload is in flight; a refusal has a status of an error and says it was not accepted.
\<close>

theorem admitted_requests:
  "(admit_reload A rid b s = Inr a) = (am_rid a = rid \<and> admissible A b s a) \<and>
   (case admit_reload A rid b s of Inl resp \<Rightarrow> refusal resp | Inr a' \<Rightarrow> True)"
proof
  show "(admit_reload A rid b s = Inr a) = (am_rid a = rid \<and> admissible A b s a)"
  proof
    assume "admit_reload A rid b s = Inr a"
    then show "am_rid a = rid \<and> admissible A b s a"
      by (auto simp: admit_reload_def read_json_body_def rbind_Inr_iff check_remote_Inr check_update_fields_Inr admissible_def
          split: body.splits sum.splits read_body_error.splits if_splits option.splits)
  next
    assume m: "am_rid a = rid \<and> admissible A b s a"
    obtain bs where bs: "b = Body bs" using m by (cases b) (auto simp: admissible_def)
    have g: "check_update_fields (am_request a) = Inr (am_group a)"
      using m by (auto simp: admissible_def check_update_fields_Inr split: option.splits)
    have c: "check_remote (ae_source A) (w_fs (ad_world s)) rid (am_request a) (am_group a) = Inr (am_conf a)"
      using m by (auto simp: admissible_def check_remote_Inr split: option.splits)
    show "admit_reload A rid b s = Inr a"
      using m g c by (auto simp: admit_reload_def read_json_body_def admissible_def bs intro: admitted.equality)
  qed
  show "case admit_reload A rid b s of Inl resp \<Rightarrow> refusal resp | Inr a' \<Rightarrow> True"
    by (auto simp: admit_reload_def rbind_def refusal_def in_progress_def check_remote_def
        split: sum.split read_body_error.split remote_mode.split)
qed

section \<open>A run\<close>

text \<open>The project of \<open>RemoteExample\<close> under a server; the engine refuses the updated configuration.\<close>

definition toy_conf :: project_remote_conf where
  "toy_conf = \<lparr>pr_enabled = True, pr_repo = [], pr_init_version = [],
     pr_models = Some \<lparr>rg_repo = ''url'', rg_init_version = []\<rparr>, pr_infra = Some \<lparr>rg_repo = ''url'', rg_init_version = []\<rparr>\<rparr>"

definition toy_admin :: "(nat, project_remote_conf, unit, unit) admin_env" where
  "toy_admin =
     \<lparr>ae_remote = toy_env,
      ae_source = \<lparr>cs_load_raw = (\<lambda>fs. Inr toy_conf), cs_load = (\<lambda>fs. Inr toy_conf), cs_project_remote = id, cs_mode_override = None,
        cs_metrics_override = None, cs_set_mode = (\<lambda>m c. c), cs_set_metrics = (\<lambda>k c. c)\<rparr>,
      ae_decode = (\<lambda>bs. Inr \<lparr>rl_wait = True, rl_update = True, rl_version = Some ''1'', rl_group = Some ''models'',
        rl_timeout_ms = None, rl_reason = None\<rparr>), ae_token = ''t'', ae_instance = ''fusion:1'', ae_version = ''1'', ae_max_body = 10\<rparr>"

definition toy_admitted :: admitted where
  "toy_admitted =
     \<lparr>am_rid = ''r'', am_request = \<lparr>rl_wait = True, rl_update = True, rl_version = Some ''1'', rl_group = Some ''models'',
        rl_timeout_ms = None, rl_reason = None\<rparr>,
      am_group = Some Models, am_conf = Some toy_conf\<rparr>"

definition toy_request :: http_request where
  "toy_request =
     \<lparr>rq_method = ''POST'', rq_path = ''/admin/v1/reloads/model'', rq_headers = [(''authorization'', Some ''Bearer t'')],
      rq_body = Body [], rq_uuid = ''r''\<rparr>"

definition toy_server :: "project_remote_conf server" where
  "toy_server =
     \<lparr>sv_admin = \<lparr>ad_world = toy_world [], ad_cancelled = False, ad_reloading = False,
        ad_reload = \<lparr>rs_current = None, rs_last_id = None, rs_last_result = None, rs_started_at = None, rs_finished_at = None\<rparr>\<rparr>,
      sv_front = None, sv_back = [], sv_other = False, sv_lost = False\<rparr>"

lemma toy_admin_simps [simp]:
  "ae_remote toy_admin = toy_env" "cs_load (ae_source toy_admin) = (\<lambda>fs. Inr toy_conf)"
  "cs_load_raw (ae_source toy_admin) = (\<lambda>fs. Inr toy_conf)" "apply_overrides (ae_source toy_admin) c = c"
  "ae_token toy_admin = ''t''" "ae_max_body toy_admin = 10" "cs_project_remote (ae_source toy_admin) = id"
  by (simp_all add: toy_admin_def apply_overrides_def)

text \<open>After the request is checked, after its start is noted, and with the reload at the engine.\<close>

definition toy_raised :: "project_remote_conf server" where
  "toy_raised = toy_server\<lparr>sv_admin := raise_flag (sv_admin toy_server), sv_front := Some (Raised toy_admitted)\<rparr>"

definition toy_marked :: "project_remote_conf server" where
  "toy_marked = toy_raised\<lparr>sv_admin := note_started ''r'' 0 (sv_admin toy_raised), sv_front := Some (Marked toy_admitted)\<rparr>"

lemma toy_served: "served toy_admin toy_raised"
proof -
  let ?reading = "toy_server\<lparr>sv_front := Some (Reading toy_request)\<rparr>"
  have rid: "request_id toy_request = ''r''" by (simp add: toy_request_def request_id_def)
  have "handle_request toy_admin toy_request = AskReload ''r''" unfolding handle_request_def Let_def rid
    by (simp add: toy_request_def authorized_def)
  then have "outside toy_admin toy_server ?reading" by (rule outside.entered) (simp add: toy_server_def)
  moreover have "booted toy_server" by (simp add: booted_def toy_server_def toy_world_def toy_files_ok)
  ultimately have "served toy_admin ?reading" by (blast intro: served.intros)
  moreover have "admit_reload toy_admin (request_id toy_request) (rq_body toy_request) (sv_admin ?reading) = Inr toy_admitted"
    unfolding rid
    by (simp add: admit_reload_def read_json_body_def toy_request_def toy_admin_def toy_admitted_def check_update_fields_def
        check_remote_def load_remote_conf_def remote_group_from_str_def toy_conf_def resolve_project_remote_mode_def toy_server_def
        trim_def trim_start_def trim_end_def is_ascii_ws_def)
  then have "outside toy_admin ?reading (?reading\<lparr>sv_admin := raise_flag (sv_admin ?reading), sv_front := Some (Raised toy_admitted)\<rparr>)"
    by (intro outside.admitted) simp_all
  ultimately have "served toy_admin (?reading\<lparr>sv_admin := raise_flag (sv_admin ?reading), sv_front := Some (Raised toy_admitted)\<rparr>)"
    by (rule served.outside)
  then show ?thesis by (simp add: toy_raised_def)
qed

lemmas admin_defs = start_reload_def open_reload_def close_stop_def capture_snapshots_def capture_runtime_artifact_snapshot_def sync_if_asked_def run_remote_sync_def
  sync_closure_def sync_project_remote_group_def resolve_project_remote_mode_def load_next_def
  finish_job_def map_reload_result_def rollback_updated_project_def restore_runtime_artifact_snapshot_def restore_optional_file_def
  rule_mapping_path_def authority_db_path_def reload_body_def toy_conf_def toy_admitted_def

lemma toy_update_run:
  "\<exists>j s1 w2 r. start_reload toy_admin 0 (toy_admitted) (sv_admin toy_server) = (Inr j, s1) \<and>
     rc_update (jb_ctx j) = Some r \<and> map_of (w_fs (ad_world s1)) [''models'', ''a''] = Some (EFile [2] 420) \<and>
     rollback_updated_project toy_env (jb_ctx j) (ad_world s1) = (None, w2)"
  by (simp add: io_defs managed_defs repo_defs sync_defs locked_update_defs toy_defs admin_defs toy_server_def)

text \<open>The reload reaches the engine; then the client goes away.\<close>

lemma toy_waiting:
  obtains j w where "open_reload toy_admin toy_admitted (ad_world (sv_admin toy_marked)) = (Inr j, w)" and "jb_wait j"
proof -
  have "ad_world (sv_admin toy_marked) = ad_world (sv_admin toy_server)"
    by (simp add: toy_marked_def toy_raised_def note_started_def raise_flag_def)
  moreover obtain j s1 where run: "start_reload toy_admin 0 toy_admitted (sv_admin toy_server) = (Inr j, s1)" using toy_update_run by blast
  moreover obtain out w where o: "open_reload toy_admin toy_admitted (ad_world (sv_admin toy_server)) = (out, w)" by fastforce
  moreover have "out = Inr j" using run o by (auto simp: start_reload_def split: sum.splits prod.splits)
  moreover have "jb_wait j"
    using o \<open>out = Inr j\<close> by (auto simp: open_reload_def toy_admitted_def Let_def split: prod.splits sum.splits)
  ultimately show thesis using that by simp
qed

lemma toy_dropped: "\<exists>v. served toy_admin v \<and> sv_lost v \<and> idle v"
proof -
  obtain j w where run: "open_reload toy_admin toy_admitted (ad_world (sv_admin toy_marked)) = (Inr j, w)" and j: "jb_wait j"
    by (rule toy_waiting)
  have "am_rid toy_admitted = ''r''" by (simp add: toy_admitted_def)
  then have "progress toy_admin toy_raised toy_marked"
    using progress.marked [of toy_raised toy_admitted toy_admin 0] by (simp add: toy_marked_def toy_raised_def)
  then have s: "served toy_admin toy_marked" by (rule served.progress [OF toy_served])
  let ?v = "toy_marked\<lparr>sv_admin := (sv_admin toy_marked)\<lparr>ad_world := w\<rparr>, sv_front := Some (Waiting j Running)\<rparr>"
  have "served toy_admin ?v" by (rule served.progress [OF s progress.waiting [OF _ run j]]) (simp add: toy_marked_def)
  then have "served toy_admin (drop_front (Waiting j Running) ?v)" by (rule served.outside) (rule outside.dropped; simp)
  moreover have "sv_lost (drop_front (Waiting j Running) ?v) \<and> idle (drop_front (Waiting j Running) ?v)"
    by (simp add: drop_front_def front_raised_def idle_def toy_marked_def toy_raised_def toy_server_def)
  ultimately show ?thesis by blast
qed

theorem one_reload_at_a_time_witness:
  "in_flight toy_raised = [''r''] \<and> ad_reloading (sv_admin toy_raised) \<and> lock_holders toy_raised = 0"
proof -
  have f: "in_flight toy_raised = [''r'']" by (simp add: in_flight_def toy_raised_def toy_server_def toy_admitted_def)
  have "git_laws (e_git (ae_remote toy_admin))" by (simp add: toy_git_laws)
  from one_reload_at_a_time [OF toy_served this] f show ?thesis
    by (simp add: toy_raised_def toy_server_def raise_flag_def toy_world_def)
qed

text \<open>Nothing runs any more, and every reload is refused for good.\<close>

theorem reloads_settle_witness:
  "\<exists>v. served toy_admin v \<and> idle v \<and> ad_reloading (sv_admin v) \<and> (\<forall>rid b. \<exists>resp. admit_reload toy_admin rid b (sv_admin v) = Inl resp)"
proof -
  obtain v where v: "served toy_admin v" "sv_lost v" "idle v" using toy_dropped by blast
  have "git_laws (e_git (ae_remote toy_admin))" by (simp add: toy_git_laws)
  from reloads_settle [OF v(1) this] v show ?thesis by blast
qed


end
