(* ===== verification/AdminStart.thy ===== *)
theory AdminStart
  imports AdminApi
begin

text \<open>
  The start of the admin server (\<open>start_if_enabled\<close> of \<open>admin_api.rs\<close>): what the configuration,
  the token file and the certificates must be before anything is served; and the escaping of text
  in a JSON literal. The network, the files, the certificate parser and the TLS library are parameters.
\<close>

section \<open>The start\<close>

record admin_api_conf =
  ac_enabled :: bool
  ac_bind :: string
  ac_max_body_bytes :: nat
  ac_timeout_ms :: nat
  ac_auth_mode :: string
  ac_token_file :: string
  ac_tls_enabled :: bool
  ac_cert_file :: string
  ac_key_file :: string

text \<open>An address is its printed form and whether it is a loopback address; \<open>se_meta\<close> says whether the file is regular and its mode.\<close>

record ('cert, 'key) start_env =
  se_parse_addr :: "string \<Rightarrow> string + string \<times> bool"
  se_bind :: "string \<Rightarrow> string + unit"
  se_local_addr :: "string + string"
  se_meta :: "string \<Rightarrow> string + bool \<times> nat"
  se_read_text :: "string \<Rightarrow> string + string"
  se_read :: "string \<Rightarrow> string + bytes"
  se_crypto :: bool
  se_certs :: "bytes \<Rightarrow> string + 'cert list"
  se_key :: "bytes \<Rightarrow> string + 'key"
  se_single_cert :: "'cert list \<Rightarrow> 'key \<Rightarrow> string + unit"

record ('cert, 'key) started =
  sa_local_addr :: string
  sa_token :: string
  sa_tls :: "('cert list \<times> 'key) option"
  sa_timeout_ms :: nat
  sa_max_body :: nat

definition at_err :: "string \<Rightarrow> string + 'a \<Rightarrow> string + 'a" where
  "at_err what r = (case r of Inl e \<Rightarrow> Inl (what @ '': '' @ e) | Inr x \<Rightarrow> Inr x)"

text \<open>\<open>PathBuf::join\<close>: an absolute path replaces, a separator is put where there is none.\<close>

definition path_join :: "string \<Rightarrow> string \<Rightarrow> string" where
  "path_join root p =
     (if take 1 p = ''/'' then p
      else if root = [] \<or> last root = CHR ''/'' then root @ p
      else root @ ''/'' @ p)"

definition resolve_path :: "string \<Rightarrow> string \<Rightarrow> string" where
  "resolve_path root p = (if take 1 p = ''/'' then p else path_join root p)"

definition install_tls_crypto_provider :: "('cert, 'key) start_env \<Rightarrow> string + unit" where
  "install_tls_crypto_provider E = (if se_crypto E then Inr () else Inl ''install rustls ring crypto provider'')"

definition load_tls_config :: "('cert, 'key) start_env \<Rightarrow> string \<Rightarrow> string \<Rightarrow> string + 'cert list \<times> 'key" where
  "load_tls_config E cert_path key_path =
     rbind (install_tls_crypto_provider E) (\<lambda>_.
     if cert_path = [] \<or> key_path = []
     then Inl ''admin_api.tls.cert_file and admin_api.tls.key_file must be set when TLS is enabled''
     else rbind (at_err (''read cert file '' @ cert_path) (se_read E cert_path)) (\<lambda>cert_pem.
          rbind (at_err (''read key file '' @ key_path) (se_read E key_path)) (\<lambda>key_pem.
          rbind (at_err (''parse PEM certs from '' @ cert_path) (se_certs E cert_pem)) (\<lambda>certs.
          if certs = [] then Inl (''no certificates found in '' @ cert_path)
          else rbind (at_err (''parse PEM key from '' @ key_path) (se_key E key_pem)) (\<lambda>key.
               rbind (at_err ''build TLS server config'' (se_single_cert E certs key)) (\<lambda>_. Inr (certs, key)))))))"

fun octal_digits :: "nat \<Rightarrow> string" where
  "octal_digits n = (if n < 8 then [digit_char n] else octal_digits (n div 8) @ [digit_char (n mod 8)])"

declare octal_digits.simps [simp del]

definition validate_token_file :: "('cert, 'key) start_env \<Rightarrow> string \<Rightarrow> string + unit" where
  "validate_token_file E p =
     rbind (at_err (''stat token file '' @ p) (se_meta E p)) (\<lambda>(is_file, perms).
     if \<not> is_file then Inl (''token file '' @ p @ '' is not a regular file'')
     else (let mode = perms AND 511 in
           if mode AND 63 \<noteq> 0
           then Inl (''token file '' @ p @ '' permissions '' @ octal_digits mode @ '' are too permissive; require owner-only access'')
           else Inr ()))"

definition default_auth_mode :: string where
  "default_auth_mode = ''bearer_token''"

definition start_if_enabled ::
  "('cert, 'key) start_env \<Rightarrow> string \<Rightarrow> admin_api_conf \<Rightarrow> string + ('cert, 'key) started option" where
  "start_if_enabled E root c =
     (if \<not> ac_enabled c then Inr None
      else rbind (at_err (''invalid admin_api.bind '' @ dquoted (ac_bind c)) (se_parse_addr E (ac_bind c))) (\<lambda>(addr, loopback).
        if ac_max_body_bytes c = 0 then Inl ''admin_api.max_body_bytes must be > 0''
        else if ascii_lower (trim (ac_auth_mode c)) \<noteq> default_auth_mode
        then Inl (''unsupported admin_api.auth.mode '' @ quoted (ac_auth_mode c) @ '', expected '' @ quoted default_auth_mode)
        else rbind (if ac_tls_enabled c
                    then rbind (load_tls_config E (resolve_path root (ac_cert_file c)) (resolve_path root (ac_key_file c))) (\<lambda>t. Inr (Some t))
                    else Inr None) (\<lambda>tls.
             rbind (at_err (''bind admin api on '' @ addr) (se_bind E addr)) (\<lambda>_.
             rbind (at_err ''read admin api local addr'' (se_local_addr E)) (\<lambda>local.
             let token_path = path_join root (ac_token_file c) in
             rbind (validate_token_file E token_path) (\<lambda>_.
             rbind (at_err (''read token file '' @ token_path) (se_read_text E token_path)) (\<lambda>text.
             if trim text = [] then Inl ''admin_api token file is empty''
             else if \<not> loopback \<and> tls = None
             then Inl (''non-loopback admin_api.bind '' @ quoted addr @ '' requires admin_api.tls.enabled=true'')
             else Inr (Some \<lparr>sa_local_addr = local, sa_token = trim text, sa_tls = tls, sa_timeout_ms = ac_timeout_ms c,
                    sa_max_body = ac_max_body_bytes c\<rparr>)))))))) "

lemma at_err_Inr [simp]: "at_err what r = Inr x \<longleftrightarrow> r = Inr x"
  by (cases r) (simp_all add: at_err_def)

lemma load_tls_config_Inr: "load_tls_config E cert key = Inr (certs, k) \<Longrightarrow> certs \<noteq> []"
  by (auto simp: load_tls_config_def rbind_Inr_iff split: if_splits)

lemma owner_bits: "(perms AND 511) AND 63 = (perms AND 63 :: nat)"
  by (simp add: and.assoc)

lemma validate_token_file_Inr:
  "validate_token_file E p = Inr u \<Longrightarrow> \<exists>perms. se_meta E p = Inr (True, perms) \<and> perms AND 63 = 0"
  by (auto simp: validate_token_file_def rbind_Inr_iff Let_def owner_bits split: if_splits prod.splits)

text \<open>
  C27: The server is not started exactly when it is disabled; when it is started the body limit is
  positive, the token is not empty and comes from a regular file that only its owner can access, and
  the address is a loopback address or the server presents at least one certificate.
\<close>

theorem started_only_when_safe:
  assumes "start_if_enabled E root c = Inr res"
  shows "(res = None) = (\<not> ac_enabled c) \<and>
    (case res of None \<Rightarrow> True
     | Some st \<Rightarrow>
         0 < sa_max_body st \<and> sa_token st \<noteq> [] \<and>
         (\<exists>perms content. se_meta E (path_join root (ac_token_file c)) = Inr (True, perms) \<and> perms AND 63 = 0 \<and>
            se_read_text E (path_join root (ac_token_file c)) = Inr content \<and> sa_token st = trim content) \<and>
         (\<exists>addr loopback. se_parse_addr E (ac_bind c) = Inr (addr, loopback) \<and>
            (loopback \<or> (case sa_tls st of None \<Rightarrow> False | Some (certs, key) \<Rightarrow> certs \<noteq> []))))"
proof (cases "ac_enabled c")
  case False
  then show ?thesis using assms by (simp add: start_if_enabled_def)
next
  case True
  from assms True obtain addr loopback tls laddr content u where
    addr: "se_parse_addr E (ac_bind c) = Inr (addr, loopback)" and max: "ac_max_body_bytes c \<noteq> 0"
    and tls: "(if ac_tls_enabled c
        then rbind (load_tls_config E (resolve_path root (ac_cert_file c)) (resolve_path root (ac_key_file c))) (\<lambda>t. Inr (Some t))
        else Inr None) = Inr tls"
    and tok: "validate_token_file E (path_join root (ac_token_file c)) = Inr u"
    and content: "se_read_text E (path_join root (ac_token_file c)) = Inr content" "trim content \<noteq> []"
    and safe: "loopback \<or> tls \<noteq> None"
    and res: "res = Some \<lparr>sa_local_addr = laddr, sa_token = trim content, sa_tls = tls, sa_timeout_ms = ac_timeout_ms c,
        sa_max_body = ac_max_body_bytes c\<rparr>"
    unfolding start_if_enabled_def by (auto simp: rbind_Inr_iff Let_def split: if_splits prod.splits)
  have "case tls of None \<Rightarrow> True | Some (certs, key) \<Rightarrow> certs \<noteq> []"
    using tls load_tls_config_Inr by (fastforce simp: rbind_Inr_iff split: if_splits option.splits)
  then show ?thesis using True addr max content safe res validate_token_file_Inr [OF tok]
    by (auto split: option.splits)
qed

definition toy_start :: "(unit, unit) start_env" where
  "toy_start =
     \<lparr>se_parse_addr = (\<lambda>s. Inr (s, False)), se_bind = (\<lambda>a. Inr ()), se_local_addr = Inr ''10.0.0.1:80'',
      se_meta = (\<lambda>p. Inr (True, 33152)), se_read_text = (\<lambda>p. Inr '' secret ''), se_read = (\<lambda>p. Inr []), se_crypto = True,
      se_certs = (\<lambda>b. Inr [()]), se_key = (\<lambda>b. Inr ()), se_single_cert = (\<lambda>c k. Inr ())\<rparr>"

definition toy_start_conf :: "bool \<Rightarrow> admin_api_conf" where
  "toy_start_conf tls =
     \<lparr>ac_enabled = True, ac_bind = ''10.0.0.1:80'', ac_max_body_bytes = 9, ac_timeout_ms = 5, ac_auth_mode = ''bearer_token'',
      ac_token_file = ''t'', ac_tls_enabled = tls, ac_cert_file = ''c'', ac_key_file = ''k''\<rparr>"

lemmas start_defs = start_if_enabled_def load_tls_config_def install_tls_crypto_provider_def validate_token_file_def at_err_def
  toy_start_def toy_start_conf_def default_auth_mode_def ascii_lower_def trim_def trim_start_def trim_end_def is_ascii_ws_def
  resolve_path_def path_join_def

lemma toy_started: "\<exists>st. start_if_enabled toy_start ''/w'' (toy_start_conf True) = Inr (Some st)"
  by (simp add: start_defs)

theorem started_only_when_safe_witness:
  "\<exists>st. start_if_enabled toy_start ''/w'' (toy_start_conf True) = Inr (Some st) \<and> sa_token st \<noteq> [] \<and>
     (case sa_tls st of None \<Rightarrow> False | Some (certs, key) \<Rightarrow> certs \<noteq> [])"
proof -
  obtain st where st: "start_if_enabled toy_start ''/w'' (toy_start_conf True) = Inr (Some st)" using toy_started by blast
  from started_only_when_safe [OF st]
  have "sa_token st \<noteq> [] \<and> (case sa_tls st of None \<Rightarrow> False | Some (certs, key) \<Rightarrow> certs \<noteq> [])"
    by (auto simp add: toy_start_def)
  then show ?thesis using st by blast
qed

text \<open>The test for a missing certificate file follows the join with the work root, so it never succeeds.\<close>

lemma tls_paths_never_empty: "root \<noteq> [] \<Longrightarrow> resolve_path root p \<noteq> []"
  by (auto simp: resolve_path_def path_join_def)

section \<open>JSON literals\<close>

definition hex_digit :: "nat \<Rightarrow> char" where
  "hex_digit d = (if d < 10 then char_of (48 + d) else char_of (87 + d))"

text \<open>\<open>{:04x}\<close> of a number below 65536.\<close>

definition hex4 :: "nat \<Rightarrow> string" where
  "hex4 n = [hex_digit (n div 4096), hex_digit (n div 256 mod 16), hex_digit (n div 16 mod 16), hex_digit (n mod 16)]"

definition json_escape_char :: "char \<Rightarrow> string" where
  "json_escape_char c =
     (let n = (of_char c :: nat) in
      if n = 92 then [CHR 0x5C, CHR 0x5C]
      else if n = 34 then [CHR 0x5C, CHR 0x22]
      else if n = 10 then [CHR 0x5C, CHR ''n'']
      else if n = 13 then [CHR 0x5C, CHR ''r'']
      else if n = 9 then [CHR 0x5C, CHR ''t'']
      else if n = 8 then [CHR 0x5C, CHR ''b'']
      else if n = 12 then [CHR 0x5C, CHR ''f'']
      else if n \<le> 31 then [CHR 0x5C, CHR ''u''] @ hex4 n
      else [c])"

definition json_escape :: "string \<Rightarrow> string" where
  "json_escape s = concat (map json_escape_char s)"

definition internal_error_body :: "string \<Rightarrow> string" where
  "internal_error_body e =
     ''{'' @ dquoted ''accepted'' @ '':false,'' @ dquoted ''result'' @ '':'' @ dquoted ''internal_error'' @ '','' @
     dquoted ''error'' @ '':'' @ dquoted (json_escape e) @ ''}''"

text \<open>How RFC 8259 reads the inside of a literal (the escapes the code produces, below code 256): an unescaped quote or control character ends it.\<close>

definition hex_value :: "char \<Rightarrow> nat option" where
  "hex_value c =
     (let n = (of_char c :: nat) in
      if 48 \<le> n \<and> n \<le> 57 then Some (n - 48) else if 97 \<le> n \<and> n \<le> 102 then Some (n - 87) else None)"

definition simple_escape :: "char \<Rightarrow> char option" where
  "simple_escape c =
     (if c \<in> {CHR 0x5C, CHR 0x22, CHR ''/''} then Some c
      else if c = CHR ''n'' then Some (CHR 0x0A) else if c = CHR ''r'' then Some (CHR 0x0D)
      else if c = CHR ''t'' then Some (CHR 0x09) else if c = CHR ''b'' then Some (CHR 0x08)
      else if c = CHR ''f'' then Some (CHR 0x0C) else None)"

function json_literal :: "string \<Rightarrow> string option" where
  "json_literal s =
     (case s of
        [] \<Rightarrow> Some []
      | c # r \<Rightarrow>
          (if c = CHR 0x5C then
             (case r of
                [] \<Rightarrow> None
              | e # r1 \<Rightarrow>
                  (if e = CHR ''u'' then
                     (case map_option rev (those (map hex_value (rev (take 4 r1)))) of
                        Some [a, b, x, y] \<Rightarrow> map_option (Cons (char_of (4096 * a + 256 * b + 16 * x + y))) (json_literal (drop 4 r1))
                      | _ \<Rightarrow> None)
                   else case simple_escape e of Some ch \<Rightarrow> map_option (Cons ch) (json_literal r1) | None \<Rightarrow> None))
           else if c = CHR 0x22 \<or> (of_char c :: nat) < 32 then None
           else map_option (Cons c) (json_literal r)))"
  by pat_completeness auto
termination by (relation "measure length") auto

declare json_literal.simps [simp del]

lemma hex_value_digit: "d < 16 \<Longrightarrow> hex_value (hex_digit d) = Some d"
  by (simp add: hex_value_def hex_digit_def Let_def)

lemma json_literal_char: "json_literal (json_escape_char c @ s) = map_option (Cons c) (json_literal s)"
proof -
  let ?n = "of_char c :: nat"
  have c: "c = char_of ?n" by simp
  have lt: "?n < 256" by simp
  have top: "?n div 4096 = 0" by (rule div_less) (use lt in linarith)
  consider (simple) "?n \<in> {92, 34, 10, 13, 9, 8, 12}" | (control) "?n \<notin> {92, 34, 10, 13, 9, 8, 12}" "?n \<le> 31"
    | (plain) "?n \<notin> {92, 34}" "31 < ?n" by force
  then show ?thesis
  proof cases
    case control
    have "those (map hex_value (rev (hex4 ?n))) = Some [?n mod 16, ?n div 16 mod 16, ?n div 256 mod 16, ?n div 4096]"
      using hex_value_digit [of 0] by (simp add: hex4_def hex_value_digit top)
    moreover have "4096 * (?n div 4096) + 256 * (?n div 256 mod 16) + 16 * (?n div 16 mod 16) + ?n mod 16 = ?n"
      using control(2) by simp
    moreover have "length (hex4 ?n) = 4" by (simp add: hex4_def)
    ultimately show ?thesis using control
      by (subst json_literal.simps) (simp add: json_escape_char_def Let_def)
  next
    case plain
    then have "c \<noteq> CHR 0x5C" "c \<noteq> CHR 0x22" by auto
    then show ?thesis using plain by (subst json_literal.simps) (auto simp: json_escape_char_def Let_def)
  next
    case simple
    have eq: "?n = of_char d \<Longrightarrow> c = d" for d :: char by simp
    have "c \<in> {CHR 0x5C, CHR 0x22, CHR 0x0A, CHR 0x0D, CHR 0x09, CHR 0x08, CHR 0x0C}"
      using simple eq [of "CHR 0x5C"] eq [of "CHR 0x22"] eq [of "CHR 0x0A"] eq [of "CHR 0x0D"] eq [of "CHR 0x09"]
        eq [of "CHR 0x08"] eq [of "CHR 0x0C"] by auto
    then show ?thesis
      by (elim insertE emptyE; hypsubst; subst json_literal.simps) (simp_all add: json_escape_char_def Let_def simple_escape_def)
  qed
qed

text \<open>
  C28: Escaped text put between the quotes of a literal is one literal and reads back as the text:
  no character of it ends the literal early or is refused by a JSON parser.
\<close>

theorem json_escape_reads_back: "json_literal (json_escape s) = Some s"
proof (induction s)
  case Nil
  show ?case by (simp add: json_escape_def json_literal.simps)
next
  case (Cons c s)
  then show ?case by (simp add: json_escape_def json_literal_char)
qed

end
