(* ===== verification/ProjectCheck.thy ===== *)
theory ProjectCheck
  imports Prelude
begin

text \<open>
  The check of a project (\<open>wfadm/src/check.rs\<close>): which components are selected, the check of each,
  the stop at the first failure, and the counts and entries that the report shows.

  The files are a tree as the code sees it through links (so a finite one): a file with its text, or
  nothing where it cannot be read as text; a directory with its entries, or nothing where it cannot
  be listed. The TOML parser and the parsers of the language crate are parameters. Files are counted
  in natural numbers, the code has 32 bits. Text printed for single files is left out.
\<close>

section \<open>Files\<close>

datatype node = NFile "string option" | NDir "(string \<times> node) list option"

definition is_dir_node :: "node option \<Rightarrow> bool" where
  "is_dir_node n = (case n of Some (NDir es) \<Rightarrow> True | _ \<Rightarrow> False)"

fun node_at :: "node \<Rightarrow> string list \<Rightarrow> node option" where
  "node_at n [] = Some n"
| "node_at (NDir (Some es)) (p # ps) = (case map_of es p of None \<Rightarrow> None | Some m \<Rightarrow> node_at m ps)"
| "node_at (NDir None) (p # ps) = None"
| "node_at (NFile t) (p # ps) = None"

text \<open>\<open>Path::extension\<close> of a file name: what follows the last dot, unless that dot begins the name.\<close>

definition extension :: "string \<Rightarrow> string option" where
  "extension name =
     (let r = rev name; e = takeWhile (\<lambda>c. c \<noteq> CHR ''.'') r in
      if length e + 1 < length name then Some (rev e) else None)"

text \<open>Recursion over the entries of a directory, as \<open>list_files\<close> and \<open>validate_toml_dir\<close> do it.\<close>

fun list_files :: "string \<Rightarrow> node \<Rightarrow> (string list \<times> string option) list"
and list_entries :: "string \<Rightarrow> (string \<times> node) list \<Rightarrow> (string list \<times> string option) list" where
  "list_files ext (NDir (Some es)) = list_entries ext es"
| "list_files ext (NDir None) = []"
| "list_files ext (NFile t) = []"
| "list_entries ext [] = []"
| "list_entries ext ((name, NDir d) # es) = map (\<lambda>(p, t). (name # p, t)) (list_files ext (NDir d)) @ list_entries ext es"
| "list_entries ext ((name, NFile t) # es) = (if extension name = Some ext then [([name], t)] else []) @ list_entries ext es"

definition list_at :: "string \<Rightarrow> node option \<Rightarrow> (string list \<times> string option) list" where
  "list_at ext n = (case n of Some d \<Rightarrow> list_files ext d | None \<Rightarrow> [])"

datatype toml_value = TomlTable "(string \<times> toml_value) list" | TomlString string | TomlOther

definition toml_get :: "string \<Rightarrow> toml_value \<Rightarrow> toml_value option" where
  "toml_get k v = (case v of TomlTable kvs \<Rightarrow> map_of kvs k | _ \<Rightarrow> None)"

definition toml_str :: "toml_value \<Rightarrow> string option" where
  "toml_str v = (case v of TomlString s \<Rightarrow> Some s | _ \<Rightarrow> None)"

record 'ast check_env =
  ck_root :: node
  ck_parents :: "node list"
  ck_resolve :: "string \<Rightarrow> node option"
  ck_conf_display :: string
  ck_root_display :: string
  ck_toml :: "string \<Rightarrow> string + toml_value"
  ck_wfl :: "string \<Rightarrow> string + 'ast"
  ck_lint :: "'ast \<Rightarrow> string list"
  ck_wfs :: "string \<Rightarrow> string + unit"
  ck_wfg :: "string \<Rightarrow> string + unit"

section \<open>Selection\<close>

datatype check_component = Conf | Sources | Connectors | Sinks | Rules | Schemas | Scenarios

record check_components =
  cc_conf :: bool
  cc_sources :: bool
  cc_connectors :: bool
  cc_sinks :: bool
  cc_rules :: bool
  cc_schemas :: bool
  cc_scenarios :: bool

record check_options =
  co_console :: bool
  co_fail_fast :: bool
  co_json :: bool
  co_only_fail :: bool

definition default_components :: check_components where
  "default_components =
     \<lparr>cc_conf = True, cc_sources = True, cc_connectors = True, cc_sinks = True, cc_rules = True, cc_schemas = True, cc_scenarios = True\<rparr>"

definition disable_all :: "check_components \<Rightarrow> check_components" where
  "disable_all c =
     c\<lparr>cc_conf := False, cc_sources := False, cc_connectors := False, cc_sinks := False, cc_rules := False,
       cc_schemas := False, cc_scenarios := False\<rparr>"

definition set_component :: "check_component \<Rightarrow> bool \<Rightarrow> check_components \<Rightarrow> check_components" where
  "set_component c v s =
     (case c of
        Conf \<Rightarrow> s\<lparr>cc_conf := v\<rparr> | Sources \<Rightarrow> s\<lparr>cc_sources := v\<rparr> | Connectors \<Rightarrow> s\<lparr>cc_connectors := v\<rparr>
      | Sinks \<Rightarrow> s\<lparr>cc_sinks := v\<rparr> | Rules \<Rightarrow> s\<lparr>cc_rules := v\<rparr> | Schemas \<Rightarrow> s\<lparr>cc_schemas := v\<rparr>
      | Scenarios \<Rightarrow> s\<lparr>cc_scenarios := v\<rparr>)"

definition with_only :: "check_component list \<Rightarrow> check_components \<Rightarrow> check_components" where
  "with_only cs s = fold (\<lambda>c. set_component c True) cs (disable_all s)"

definition parse_component :: "string \<Rightarrow> check_component option" where
  "parse_component token =
     (let t = ascii_lower token in
      if t \<in> {''conf'', ''config'', ''engine''} then Some Conf
      else if t \<in> {''sources'', ''source''} then Some Sources
      else if t \<in> {''connectors'', ''connector'', ''conn''} then Some Connectors
      else if t \<in> {''sinks'', ''sink''} then Some Sinks
      else if t \<in> {''rules'', ''wpl'', ''rule''} then Some Rules
      else if t \<in> {''schemas'', ''schema''} then Some Schemas
      else if t \<in> {''scenarios'', ''scenario''} then Some Scenarios
      else None)"

definition build_components :: "string \<Rightarrow> string + check_components" where
  "build_components arg =
     (let what = trim arg in
      if what = [] \<or> ascii_lower what = ''all'' then Inr default_components
      else let sel = List.map_filter (parse_component \<circ> trim) (split_on (CHR '','') what) in
        if sel = [] then Inl (''unknown check target: '' @ quoted arg) else Inr (with_only sel default_components))"

section \<open>Cells\<close>

record cell =
  ce_ok :: bool
  ce_msg :: "string option"
  ce_warnings :: "string list"

definition failure :: "string \<Rightarrow> cell" where
  "failure m = \<lparr>ce_ok = False, ce_msg = Some m, ce_warnings = []\<rparr>"

definition success_with_message :: "string \<Rightarrow> cell" where
  "success_with_message m = \<lparr>ce_ok = True, ce_msg = Some m, ce_warnings = []\<rparr>"

definition success_with_warnings :: "string \<Rightarrow> string list \<Rightarrow> cell" where
  "success_with_warnings m ws = \<lparr>ce_ok = True, ce_msg = Some m, ce_warnings = ws\<rparr>"

definition skipped :: cell where
  "skipped = success_with_message ''skipped''"

record row =
  ro_path :: string
  ro_conf_detail :: "string option"
  ro_conf :: cell
  ro_sources :: cell
  ro_connectors :: cell
  ro_sinks :: cell
  ro_rules :: cell
  ro_schemas :: cell
  ro_scenarios :: cell

definition count_failures :: "row \<Rightarrow> nat" where
  "count_failures r =
     length (filter id [\<not> ce_ok (ro_conf r), \<not> ce_ok (ro_sources r), \<not> ce_ok (ro_connectors r), \<not> ce_ok (ro_sinks r),
       \<not> ce_ok (ro_rules r), \<not> ce_ok (ro_schemas r), \<not> ce_ok (ro_scenarios r)])"

text \<open>The characters of the messages beyond ASCII.\<close>

definition em_dash :: string where
  "em_dash = [CHR 0xE2, CHR 0x80, CHR 0x94]"

definition right_arrow :: string where
  "right_arrow = [CHR 0xE2, CHR 0x86, CHR 0x92]"

definition dir_note :: "string \<Rightarrow> string \<Rightarrow> string" where
  "dir_note label m = label @ ''/ '' @ em_dash @ '' '' @ m"

definition counted :: "string \<Rightarrow> nat \<Rightarrow> string \<Rightarrow> string" where
  "counted label n m = label @ ''/ ('' @ dec_digits n @ '' '' @ m @ '')''"

section \<open>The component checks\<close>

definition validate_toml_text :: "'ast check_env \<Rightarrow> string option \<Rightarrow> string + unit" where
  "validate_toml_text E t =
     (case t of
        None \<Rightarrow> Inl ''read error''
      | Some s \<Rightarrow> (case ck_toml E s of Inl e \<Rightarrow> Inl (''invalid TOML: '' @ e) | Inr v \<Rightarrow> Inr ()))"

definition validate_toml_file :: "'ast check_env \<Rightarrow> node \<Rightarrow> string + unit" where
  "validate_toml_file E n = (case n of NFile t \<Rightarrow> validate_toml_text E t | NDir es \<Rightarrow> Inl ''read error'')"

text \<open>The numbers of TOML files below a directory and of the invalid ones among them.\<close>

fun validate_toml_dir :: "'ast check_env \<Rightarrow> node \<Rightarrow> nat \<times> nat"
and validate_toml_entries :: "'ast check_env \<Rightarrow> (string \<times> node) list \<Rightarrow> nat \<times> nat \<Rightarrow> nat \<times> nat" where
  "validate_toml_dir E (NDir (Some es)) = validate_toml_entries E es (0, 0)"
| "validate_toml_dir E (NDir None) = (0, 0)"
| "validate_toml_dir E (NFile t) = (0, 0)"
| "validate_toml_entries E [] acc = acc"
| "validate_toml_entries E ((name, NDir d) # es) (files, errors) =
     (let (n, e) = validate_toml_dir E (NDir d) in validate_toml_entries E es (files + n, errors + e))"
| "validate_toml_entries E ((name, NFile t) # es) (files, errors) =
     (if extension name = Some ''toml''
      then validate_toml_entries E es (files + 1, errors + (case validate_toml_text E t of Inl e \<Rightarrow> 1 | Inr u \<Rightarrow> 0))
      else validate_toml_entries E es (files, errors))"

definition conf_node :: "'ast check_env \<Rightarrow> node option" where
  "conf_node E = node_at (ck_root E) [''conf'', ''wfusion.toml'']"

definition read_conf_value :: "'ast check_env \<Rightarrow> toml_value option" where
  "read_conf_value E =
     (case conf_node E of
        Some (NFile (Some s)) \<Rightarrow> (case ck_toml E s of Inr v \<Rightarrow> Some v | Inl e \<Rightarrow> None)
      | _ \<Rightarrow> None)"

definition extract_runtime_paths :: "toml_value \<Rightarrow> string option \<times> string option" where
  "extract_runtime_paths v =
     (case toml_get ''runtime'' v of
        None \<Rightarrow> (None, None)
      | Some r \<Rightarrow> (Option.bind (toml_get ''rules'' r) toml_str, Option.bind (toml_get ''schemas'' r) toml_str))"

definition check_conf :: "'ast check_env \<Rightarrow> toml_value option \<Rightarrow> cell \<times> string option" where
  "check_conf E v =
     (if conf_node E = None then (failure (''wfusion.toml '' @ em_dash @ '' not found''), None)
      else case v of
        Some t \<Rightarrow> (success_with_message ''wfusion.toml'', Some (ck_conf_display E))
      | None \<Rightarrow> (failure (''wfusion.toml '' @ em_dash @ '' invalid TOML''), None))"

definition toml_cell :: "string \<Rightarrow> nat \<Rightarrow> nat \<Rightarrow> cell" where
  "toml_cell label n errs =
     (if errs > 0 then failure (dir_note label (dec_digits errs @ '' invalid .toml file(s)''))
      else success_with_message (counted label n ''.toml''))"

definition check_sources :: "'ast check_env \<Rightarrow> cell" where
  "check_sources E =
     (case node_at (ck_root E) [''topology'', ''sources''] of
        Some (NDir es) \<Rightarrow> (let (n, e) = validate_toml_dir E (NDir es) in toml_cell ''sources'' n e)
      | _ \<Rightarrow> success_with_message (dir_note ''sources'' ''(missing)''))"

text \<open>The nearest directory of that name in the project or a directory above it, and how far above.\<close>

fun find_upward_from :: "nat \<Rightarrow> node list \<Rightarrow> string list \<Rightarrow> (node \<times> nat) option" where
  "find_upward_from depth [] p = None"
| "find_upward_from depth (n # ns) p =
     (case node_at n p of Some (NDir es) \<Rightarrow> Some (NDir es, depth) | _ \<Rightarrow> find_upward_from (depth + 1) ns p)"

definition find_upward :: "'ast check_env \<Rightarrow> string list \<Rightarrow> (node \<times> nat) option" where
  "find_upward E p = find_upward_from 0 (ck_root E # ck_parents E) p"

definition locate :: "'ast check_env \<Rightarrow> string \<Rightarrow> node option" where
  "locate E part =
     (case node_at (ck_root E) [''connectors'', part] of
        Some (NDir es) \<Rightarrow> Some (NDir es) | _ \<Rightarrow> map_option fst (find_upward E [''connectors'', part]))"

definition toml_totals :: "'ast check_env \<Rightarrow> node option \<Rightarrow> nat \<times> nat" where
  "toml_totals E d = (case d of Some n \<Rightarrow> validate_toml_dir E n | None \<Rightarrow> (0, 0))"

definition check_connectors :: "'ast check_env \<Rightarrow> cell" where
  "check_connectors E =
     (let sink = locate E ''sink.d''; source = locate E ''source.d'' in
      if sink = None \<and> source = None then success_with_message (dir_note ''connectors'' ''(missing)'')
      else let (n1, e1) = toml_totals E sink; (n2, e2) = toml_totals E source in toml_cell ''connectors'' (n1 + n2) (e1 + e2))"

definition dir_of :: "node option \<Rightarrow> node option" where
  "dir_of n = (case n of Some (NDir es) \<Rightarrow> Some (NDir es) | _ \<Rightarrow> None)"

definition check_sinks :: "'ast check_env \<Rightarrow> cell" where
  "check_sinks E =
     (case node_at (ck_root E) [''topology'', ''sinks''] of
        Some (NDir es) \<Rightarrow>
          (let d = NDir es;
               parts = [''business.d'', ''infra.d''];
               totals = map (\<lambda>p. toml_totals E (dir_of (node_at d [p]))) parts;
               missing = filter (\<lambda>p. dir_of (node_at d [p]) = None) parts;
               defaults = (case node_at d [''defaults.toml''] of
                  None \<Rightarrow> (0, 0) | Some f \<Rightarrow> (1, case validate_toml_file E f of Inl e \<Rightarrow> 1 | Inr u \<Rightarrow> 0));
               conn = toml_totals E (dir_of (node_at d [''connectors'', ''sink.d'']));
               total = (\<Sum>p\<leftarrow>totals. fst p) + fst defaults + fst conn;
               errs = (\<Sum>p\<leftarrow>totals. snd p) + snd defaults + snd conn in
           if errs > 0 then failure (dir_note ''sinks'' (dec_digits errs @ '' invalid .toml file(s)''))
           else if missing \<noteq> []
           then success_with_warnings (counted ''sinks'' total ''.toml'') [''missing subdirs: '' @ join '', '' missing]
           else success_with_message (counted ''sinks'' total ''.toml''))
      | _ \<Rightarrow> success_with_message (dir_note ''sinks'' ''(missing)''))"

text \<open>The files of a model group: those of the project, or of the directory its configuration names.\<close>

record resolved_files =
  rf_files :: "(string list \<times> string option) list"
  rf_external :: bool
  rf_display :: "string option"

definition strip_glob :: "string \<Rightarrow> string" where
  "strip_glob p =
     (if CHR ''/'' \<in> set p then rev (tl (dropWhile (\<lambda>c. c \<noteq> CHR ''/'') (rev p))) else p)"

definition resolve_config_dir :: "'ast check_env \<Rightarrow> string \<Rightarrow> node option" where
  "resolve_config_dir E glob = dir_of (ck_resolve E (strip_glob glob))"

definition resolve_model_dir :: "'ast check_env \<Rightarrow> string \<Rightarrow> node option \<Rightarrow> string option \<Rightarrow> resolved_files option" where
  "resolve_model_dir E ext local_dir cfg =
     (let files = list_at ext local_dir in
      if files \<noteq> [] then Some \<lparr>rf_files = files, rf_external = False, rf_display = None\<rparr>
      else case cfg of
        None \<Rightarrow> None
      | Some p \<Rightarrow>
          (case resolve_config_dir E p of
             None \<Rightarrow> None
           | Some d \<Rightarrow>
               (if list_files ext d = [] then None
                else Some \<lparr>rf_files = list_files ext d, rf_external = True, rf_display = Some (strip_glob p)\<rparr>)))"

definition missing_note :: "string \<Rightarrow> string option \<Rightarrow> string" where
  "missing_note label cfg =
     dir_note label (case cfg of Some p \<Rightarrow> ''(missing, config: '' @ p @ '')'' | None \<Rightarrow> ''(missing)'')"

definition model_label :: "resolved_files \<Rightarrow> string" where
  "model_label r =
     (if rf_external r then '' '' @ right_arrow @ '' '' @ (case rf_display r of Some p \<Rightarrow> p | None \<Rightarrow> ''?'') else [])"

definition parse_fails :: "(string \<Rightarrow> string + 'a) \<Rightarrow> string option \<Rightarrow> bool" where
  "parse_fails f t = (case t of None \<Rightarrow> True | Some s \<Rightarrow> isl (f s))"

definition parse_errors :: "(string \<Rightarrow> string + 'a) \<Rightarrow> (string list \<times> string option) list \<Rightarrow> nat" where
  "parse_errors f files = length (filter (\<lambda>pt. parse_fails f (snd pt)) files)"

definition lint_count :: "'ast check_env \<Rightarrow> (string list \<times> string option) list \<Rightarrow> nat" where
  "lint_count E files =
     (\<Sum>pt\<leftarrow>files. case snd pt of None \<Rightarrow> 0 | Some s \<Rightarrow> (case ck_wfl E s of Inl e \<Rightarrow> 0 | Inr ast \<Rightarrow> length (ck_lint E ast)))"

definition check_rules :: "'ast check_env \<Rightarrow> string option \<Rightarrow> cell" where
  "check_rules E cfg =
     (case resolve_model_dir E ''wfl'' (node_at (ck_root E) [''models'', ''rules'']) cfg of
        None \<Rightarrow> success_with_message (missing_note ''rules'' cfg)
      | Some r \<Rightarrow>
          (let errs = parse_errors (ck_wfl E) (rf_files r) in
           if errs > 0 then failure (dir_note ''rules'' (dec_digits errs @ '' parse error(s)''))
           else success_with_message (''rules/'' @ model_label r @ '' ('' @ dec_digits (length (rf_files r)) @ '' .wfl, '' @
                  dec_digits (lint_count E (rf_files r)) @ '' lint warning(s))'')))"

definition check_schemas :: "'ast check_env \<Rightarrow> string option \<Rightarrow> cell" where
  "check_schemas E cfg =
     (let d = node_at (ck_root E) [''models'', ''schemas''] in
      case resolve_model_dir E ''wfs'' d cfg of
        None \<Rightarrow> success_with_message (missing_note ''schemas'' cfg)
      | Some r \<Rightarrow>
          (let errs = parse_errors (ck_wfs E) (rf_files r);
               windows_err = (case node_at (ck_root E) [''models'', ''schemas'', ''windows.toml''] of
                 None \<Rightarrow> False | Some f \<Rightarrow> isl (validate_toml_file E f)) in
           if errs > 0 \<or> windows_err then failure (dir_note ''schemas'' (dec_digits errs @ '' parse error(s)''))
           else success_with_message (''schemas/'' @ model_label r @ '' ('' @ dec_digits (length (rf_files r)) @ '' .wfs)'')))"

definition check_scenarios :: "'ast check_env \<Rightarrow> cell" where
  "check_scenarios E =
     (let files = list_at ''wfg'' (node_at (ck_root E) [''models'', ''scenarios'']) in
      if files = [] then success_with_message (dir_note ''scenarios'' ''(none)'')
      else let errs = parse_errors (ck_wfg E) files in
        if errs > 0 then failure (dir_note ''scenarios'' (dec_digits errs @ '' parse error(s)''))
        else success_with_message (counted ''scenarios'' (length files) ''.wfg''))"

section \<open>The evaluation\<close>

definition new_row :: "string \<Rightarrow> row" where
  "new_row p =
     \<lparr>ro_path = p, ro_conf_detail = None, ro_conf = skipped, ro_sources = skipped, ro_connectors = skipped, ro_sinks = skipped,
      ro_rules = skipped, ro_schemas = skipped, ro_scenarios = skipped\<rparr>"

text \<open>One component: its cell is set when it is selected, and the rest runs unless it failed and the first failure stops.\<close>

definition eval_component :: "bool \<Rightarrow> bool \<Rightarrow> (row \<Rightarrow> row) \<Rightarrow> (row \<Rightarrow> cell) \<Rightarrow> (row \<Rightarrow> row) \<Rightarrow> row \<Rightarrow> row" where
  "eval_component selected fail_fast upd look rest r =
     (if selected then (let r1 = upd r in if \<not> ce_ok (look r1) \<and> fail_fast then r1 else rest r1) else rest r)"

definition evaluate_target :: "'ast check_env \<Rightarrow> check_options \<Rightarrow> check_components \<Rightarrow> row" where
  "evaluate_target E opts comps =
     (let conf = read_conf_value E;
          (rules_path, schemas_path) = (case conf of Some v \<Rightarrow> extract_runtime_paths v | None \<Rightarrow> (None, None));
          ff = co_fail_fast opts in
      eval_component (cc_conf comps) ff
        (\<lambda>r. let (c, d) = check_conf E conf in r\<lparr>ro_conf := c, ro_conf_detail := d\<rparr>) ro_conf
     (eval_component (cc_sources comps) ff (\<lambda>r. r\<lparr>ro_sources := check_sources E\<rparr>) ro_sources
     (eval_component (cc_connectors comps) ff (\<lambda>r. r\<lparr>ro_connectors := check_connectors E\<rparr>) ro_connectors
     (eval_component (cc_sinks comps) ff (\<lambda>r. r\<lparr>ro_sinks := check_sinks E\<rparr>) ro_sinks
     (eval_component (cc_rules comps) ff (\<lambda>r. r\<lparr>ro_rules := check_rules E rules_path\<rparr>) ro_rules
     (eval_component (cc_schemas comps) ff (\<lambda>r. r\<lparr>ro_schemas := check_schemas E schemas_path\<rparr>) ro_schemas
     (eval_component (cc_scenarios comps) ff (\<lambda>r. r\<lparr>ro_scenarios := check_scenarios E\<rparr>) ro_scenarios id))))))
       (new_row (ck_root_display E)))"

section \<open>The report\<close>

record component_count =
  cn_ok :: nat
  cn_total :: nat

record summary_counts =
  sc_conf :: component_count
  sc_sources :: component_count
  sc_connectors :: component_count
  sc_sinks :: component_count
  sc_rules :: component_count
  sc_schemas :: component_count
  sc_scenarios :: component_count

definition no_count :: component_count where
  "no_count = \<lparr>cn_ok = 0, cn_total = 0\<rparr>"

definition no_counts :: summary_counts where
  "no_counts = \<lparr>sc_conf = no_count, sc_sources = no_count, sc_connectors = no_count, sc_sinks = no_count, sc_rules = no_count,
     sc_schemas = no_count, sc_scenarios = no_count\<rparr>"

definition record_count :: "bool \<Rightarrow> component_count \<Rightarrow> component_count" where
  "record_count passed c = \<lparr>cn_ok = cn_ok c + (if passed then 1 else 0), cn_total = cn_total c + 1\<rparr>"

definition is_skipped :: "cell \<Rightarrow> bool" where
  "is_skipped c = (ce_msg c = Some ''skipped'')"

definition record_cell :: "bool \<Rightarrow> cell \<Rightarrow> component_count \<Rightarrow> component_count" where
  "record_cell selected c n = (if selected \<and> \<not> is_skipped c then record_count (ce_ok c) n else n)"

definition record_component :: "check_components \<Rightarrow> row \<Rightarrow> summary_counts \<Rightarrow> summary_counts" where
  "record_component comps r s =
     \<lparr>sc_conf = record_cell (cc_conf comps) (ro_conf r) (sc_conf s),
      sc_sources = record_cell (cc_sources comps) (ro_sources r) (sc_sources s),
      sc_connectors = record_cell (cc_connectors comps) (ro_connectors r) (sc_connectors s),
      sc_sinks = record_cell (cc_sinks comps) (ro_sinks r) (sc_sinks s),
      sc_rules = record_cell (cc_rules comps) (ro_rules r) (sc_rules s),
      sc_schemas = record_cell (cc_schemas comps) (ro_schemas r) (sc_schemas s),
      sc_scenarios = record_cell (cc_scenarios comps) (ro_scenarios r) (sc_scenarios s)\<rparr>"

definition component_cells :: "row \<Rightarrow> check_components \<Rightarrow> (string \<times> cell) list" where
  "component_cells r comps =
     (if cc_conf comps then [(''Config'', ro_conf r)] else []) @
     (if cc_sources comps then [(''Sources'', ro_sources r)] else []) @
     (if cc_connectors comps then [(''Connectors'', ro_connectors r)] else []) @
     (if cc_sinks comps then [(''Sinks'', ro_sinks r)] else []) @
     (if cc_rules comps then [(''Rules'', ro_rules r)] else []) @
     (if cc_schemas comps then [(''Schemas'', ro_schemas r)] else []) @
     (if cc_scenarios comps then [(''Scenarios'', ro_scenarios r)] else [])"

definition has_failures :: "row \<Rightarrow> check_components \<Rightarrow> bool" where
  "has_failures r comps =
     (cc_conf comps \<and> \<not> ce_ok (ro_conf r) \<or> cc_sources comps \<and> \<not> ce_ok (ro_sources r) \<or>
      cc_connectors comps \<and> \<not> ce_ok (ro_connectors r) \<or> cc_sinks comps \<and> \<not> ce_ok (ro_sinks r) \<or>
      cc_rules comps \<and> \<not> ce_ok (ro_rules r) \<or> cc_schemas comps \<and> \<not> ce_ok (ro_schemas r) \<or>
      cc_scenarios comps \<and> \<not> ce_ok (ro_scenarios r))"

text \<open>A component of the JSON report is null unless it ran.\<close>

definition component_stat_value :: "bool \<Rightarrow> component_count \<Rightarrow> (nat \<times> nat) option" where
  "component_stat_value enabled c = (if enabled \<and> cn_total c > 0 then Some (cn_ok c, cn_total c) else None)"

record json_output =
  jo_total :: nat
  jo_stat :: "(string \<times> (nat \<times> nat) option) list"
  jo_detail :: "row list"

definition build_json_output :: "row \<Rightarrow> summary_counts \<Rightarrow> check_components \<Rightarrow> json_output" where
  "build_json_output r s comps =
     \<lparr>jo_total = 1,
      jo_stat =
        [(''conf'', component_stat_value (cc_conf comps) (sc_conf s)),
         (''sources'', component_stat_value (cc_sources comps) (sc_sources s)),
         (''connectors'', component_stat_value (cc_connectors comps) (sc_connectors s)),
         (''sinks'', component_stat_value (cc_sinks comps) (sc_sinks s)),
         (''rules'', component_stat_value (cc_rules comps) (sc_rules s)),
         (''schemas'', component_stat_value (cc_schemas comps) (sc_schemas s)),
         (''scenarios'', component_stat_value (cc_scenarios comps) (sc_scenarios s))],
      jo_detail = [r]\<rparr>"

definition status_mark :: "cell \<Rightarrow> string" where
  "status_mark c = (if ce_ok c then [CHR 0xE2, CHR 0x9C, CHR 0x93] else [CHR 0xE2, CHR 0x9C, CHR 0x97])"

definition esc :: "string \<Rightarrow> string" where
  "esc code = [CHR 0x1B] @ ''['' @ code @ ''m''"

definition red :: "string \<Rightarrow> string" where
  "red s = esc ''31'' @ s @ esc ''0''"

definition green :: "string \<Rightarrow> string" where
  "green s = esc ''32'' @ s @ esc ''0''"

definition print_summary_line :: "string \<Rightarrow> bool \<Rightarrow> component_count \<Rightarrow> cell \<Rightarrow> check_options \<Rightarrow> string list" where
  "print_summary_line label enabled n c opts =
     (if \<not> enabled \<or> is_skipped c then (if \<not> co_only_fail opts then [label @ '': skipped''] else [])
      else if co_only_fail opts \<and> ce_ok c then []
      else [label @ '': '' @ (if ce_ok c then green (status_mark c) else red (status_mark c)) @ '' '' @ dec_digits (cn_ok n) @ ''/'' @
            dec_digits (cn_total n) @ '' passed''])"

definition print_text_summary :: "row \<Rightarrow> summary_counts \<Rightarrow> check_components \<Rightarrow> check_options \<Rightarrow> string list" where
  "print_text_summary r s comps opts =
     [''Project check completed''] @
     print_summary_line ''Config'' (cc_conf comps) (sc_conf s) (ro_conf r) opts @
     print_summary_line ''Sources'' (cc_sources comps) (sc_sources s) (ro_sources r) opts @
     print_summary_line ''Connectors'' (cc_connectors comps) (sc_connectors s) (ro_connectors r) opts @
     print_summary_line ''Sinks'' (cc_sinks comps) (sc_sinks s) (ro_sinks r) opts @
     print_summary_line ''Rules'' (cc_rules comps) (sc_rules s) (ro_rules r) opts @
     print_summary_line ''Schemas'' (cc_schemas comps) (sc_schemas s) (ro_schemas r) opts @
     print_summary_line ''Scenarios'' (cc_scenarios comps) (sc_scenarios s) (ro_scenarios r) opts"

record detail_entry =
  de_category :: string
  de_item :: string
  de_data :: string
  de_result :: string

definition cell_data :: "cell \<Rightarrow> string" where
  "cell_data c = (case ce_msg c of Some m \<Rightarrow> m | None \<Rightarrow> ''ok'')"

text \<open>\<open>Path::components\<close> of a Unix path, as text.\<close>

definition path_components :: "string \<Rightarrow> string list" where
  "path_components p =
     (let parts = split_on (CHR ''/'') p in
      (if take 1 p = ''/'' then [''/''] else if hd parts = ''.'' then [''.''] else []) @ filter (\<lambda>c. c \<noteq> [] \<and> c \<noteq> ''.'') parts)"

definition truncate_path :: "string \<Rightarrow> nat \<Rightarrow> string" where
  "truncate_path p levels =
     (let cs = path_components p in
      if length cs \<le> levels then p else ''.../'' @ join ''/'' (drop (length cs - levels) cs))"

definition entry_of :: "(string \<Rightarrow> string) \<Rightarrow> check_options \<Rightarrow> bool \<Rightarrow> string \<Rightarrow> string \<Rightarrow> string \<Rightarrow> cell \<Rightarrow> detail_entry list" where
  "entry_of cat opts selected section item data c =
     (if selected \<and> \<not> (co_only_fail opts \<and> ce_ok c)
      then [\<lparr>de_category = cat section, de_item = item, de_data = data, de_result = status_mark c\<rparr>] else [])"

definition detail_entries_for :: "row \<Rightarrow> check_components \<Rightarrow> (string \<Rightarrow> string) \<Rightarrow> check_options \<Rightarrow> detail_entry list" where
  "detail_entries_for r comps cat opts =
     entry_of cat opts (cc_conf comps) ''Config'' ''Engine config''
       (case ro_conf_detail r of Some p \<Rightarrow> truncate_path p 3 | None \<Rightarrow> cell_data (ro_conf r)) (ro_conf r) @
     entry_of cat opts (cc_sources comps) ''Sources'' ''Topology'' (cell_data (ro_sources r)) (ro_sources r) @
     entry_of cat opts (cc_connectors comps) ''Connectors'' ''Definitions'' (cell_data (ro_connectors r)) (ro_connectors r) @
     entry_of cat opts (cc_sinks comps) ''Sinks'' ''Targets'' (cell_data (ro_sinks r)) (ro_sinks r) @
     entry_of cat opts (cc_rules comps) ''Rules'' ''Models (wfl)'' (cell_data (ro_rules r)) (ro_rules r) @
     entry_of cat opts (cc_schemas comps) ''Schemas'' ''Models (wfs)'' (cell_data (ro_schemas r)) (ro_schemas r) @
     entry_of cat opts (cc_scenarios comps) ''Scenarios'' ''Models (wfg)'' (cell_data (ro_scenarios r)) (ro_scenarios r) @
     concat (map (\<lambda>(label, c). map (\<lambda>w. \<lparr>de_category = cat label, de_item = ''Warning'', de_data = w, de_result = ''!''\<rparr>) (ce_warnings c))
       (component_cells r comps))"

definition output_failure_details :: "row \<Rightarrow> check_components \<Rightarrow> check_options \<Rightarrow> string list" where
  "output_failure_details r comps opts =
     (if co_only_fail opts then []
      else let failed = filter (\<lambda>(l, c). \<not> ce_ok c) (component_cells r comps) in
        if failed = [] then []
        else ''Failure details:'' # map (\<lambda>(l, c). ''  - '' @ ro_path r @ '' -> '' @ l @ '': '' @
               (case ce_msg c of Some m \<Rightarrow> m | None \<Rightarrow> ''no error message'')) failed)"

definition check_project :: "'ast check_env \<Rightarrow> check_options \<Rightarrow> check_components \<Rightarrow> string + unit" where
  "check_project E opts comps =
     (let r = evaluate_target E opts comps in
      if has_failures r comps
      then Inl (''project check failed: '' @ dec_digits (count_failures r) @ '' component(s) reported validation errors'')
      else Inr ())"

definition check_run :: "'ast check_env \<Rightarrow> check_options \<Rightarrow> string \<Rightarrow> string + unit" where
  "check_run E opts what = rbind (build_components what) (check_project E opts)"

end
