(* ===== verification/ProjectCheckProps.thy ===== *)
theory ProjectCheckProps
  imports ProjectCheck
begin

text \<open>
  The verdict of a project check is that of its selected components, with or without the stop at
  the first failure; the counts of the report are those of the components that ran; and the files a
  component looks at are exactly those below its directory.
\<close>

section \<open>Components by name\<close>

definition all_components :: "check_component list" where
  "all_components = [Conf, Sources, Connectors, Sinks, Rules, Schemas, Scenarios]"

definition selected :: "check_components \<Rightarrow> check_component \<Rightarrow> bool" where
  "selected s c =
     (case c of Conf \<Rightarrow> cc_conf s | Sources \<Rightarrow> cc_sources s | Connectors \<Rightarrow> cc_connectors s | Sinks \<Rightarrow> cc_sinks s
      | Rules \<Rightarrow> cc_rules s | Schemas \<Rightarrow> cc_schemas s | Scenarios \<Rightarrow> cc_scenarios s)"

definition row_cell :: "row \<Rightarrow> check_component \<Rightarrow> cell" where
  "row_cell r c =
     (case c of Conf \<Rightarrow> ro_conf r | Sources \<Rightarrow> ro_sources r | Connectors \<Rightarrow> ro_connectors r | Sinks \<Rightarrow> ro_sinks r
      | Rules \<Rightarrow> ro_rules r | Schemas \<Rightarrow> ro_schemas r | Scenarios \<Rightarrow> ro_scenarios r)"

definition count_cell :: "summary_counts \<Rightarrow> check_component \<Rightarrow> component_count" where
  "count_cell s c =
     (case c of Conf \<Rightarrow> sc_conf s | Sources \<Rightarrow> sc_sources s | Connectors \<Rightarrow> sc_connectors s | Sinks \<Rightarrow> sc_sinks s
      | Rules \<Rightarrow> sc_rules s | Schemas \<Rightarrow> sc_schemas s | Scenarios \<Rightarrow> sc_scenarios s)"

text \<open>What the check of one component says, whatever else is selected.\<close>

definition verdict :: "'ast check_env \<Rightarrow> check_component \<Rightarrow> cell" where
  "verdict E c =
     (let conf = read_conf_value E;
          paths = (case conf of Some v \<Rightarrow> extract_runtime_paths v | None \<Rightarrow> (None, None)) in
      case c of Conf \<Rightarrow> fst (check_conf E conf) | Sources \<Rightarrow> check_sources E | Connectors \<Rightarrow> check_connectors E
      | Sinks \<Rightarrow> check_sinks E | Rules \<Rightarrow> check_rules E (fst paths) | Schemas \<Rightarrow> check_schemas E (snd paths)
      | Scenarios \<Rightarrow> check_scenarios E)"

definition passes :: "'ast check_env \<Rightarrow> check_component \<Rightarrow> bool" where
  "passes E c = ce_ok (verdict E c)"

definition until_failure :: "('a \<Rightarrow> bool) \<Rightarrow> 'a list \<Rightarrow> 'a list" where
  "until_failure P xs = takeWhile P xs @ take 1 (dropWhile P xs)"

lemma until_failure_prefix: "xs = until_failure P xs @ drop 1 (dropWhile P xs)"
  unfolding until_failure_def append_assoc append_take_drop_id takeWhile_dropWhile_id ..

lemma until_failure_filter: "filter (\<lambda>c. \<not> P c) (until_failure P xs) = take 1 (filter (\<lambda>c. \<not> P c) xs)"
  unfolding until_failure_def by (induction xs) auto

lemma until_failure_subset: "set (until_failure P xs) \<subseteq> set xs"
  using arg_cong [OF until_failure_prefix [of xs P], of set] by auto

lemma until_failure_distinct: "distinct xs \<Longrightarrow> distinct (until_failure P xs)"
  using until_failure_prefix [of xs P] distinct_append by metis

text \<open>The selected components that run: all of them, or those up to the first failure.\<close>

definition evaluated :: "'ast check_env \<Rightarrow> check_options \<Rightarrow> check_components \<Rightarrow> check_component list" where
  "evaluated E opts comps =
     (let sel = filter (selected comps) all_components in
      if co_fail_fast opts then until_failure (passes E) sel else sel)"

definition failing :: "'ast check_env \<Rightarrow> check_components \<Rightarrow> check_component list" where
  "failing E comps = filter (\<lambda>c. \<not> passes E c) (filter (selected comps) all_components)"

lemma skipped_simps [simp]: "ce_ok skipped" "is_skipped skipped"
  by (simp_all add: skipped_def success_with_message_def is_skipped_def)

lemma toml_cell_not_skipped: "label \<in> {''sources'', ''connectors''} \<Longrightarrow> \<not> is_skipped (toml_cell label n e)"
  by (auto simp: toml_cell_def is_skipped_def failure_def success_with_message_def dir_note_def counted_def)

lemma verdict_not_skipped: "\<not> is_skipped (verdict E c)"
proof (cases c)
  case Conf
  then show ?thesis
    by (auto simp: verdict_def check_conf_def is_skipped_def failure_def success_with_message_def split: option.split)
next
  case Sources
  then show ?thesis using toml_cell_not_skipped [of "''sources''"]
    by (auto simp: verdict_def check_sources_def is_skipped_def success_with_message_def dir_note_def split: option.split node.split prod.split)
next
  case Connectors
  then show ?thesis using toml_cell_not_skipped [of "''connectors''"]
    by (auto simp: verdict_def check_connectors_def is_skipped_def success_with_message_def dir_note_def Let_def split: prod.split)
next
  case Sinks
  then show ?thesis
    by (auto simp: verdict_def check_sinks_def is_skipped_def failure_def success_with_message_def success_with_warnings_def
        dir_note_def counted_def Let_def split: option.split node.split)
next
  case Rules
  then show ?thesis
    by (auto simp: verdict_def check_rules_def is_skipped_def failure_def success_with_message_def dir_note_def missing_note_def
        Let_def split: option.split)
next
  case Schemas
  then show ?thesis
    by (auto simp: verdict_def check_schemas_def is_skipped_def failure_def success_with_message_def dir_note_def missing_note_def
        Let_def split: option.split)
next
  case Scenarios
  then show ?thesis
    by (auto simp: verdict_def check_scenarios_def is_skipped_def failure_def success_with_message_def dir_note_def counted_def Let_def)
qed

section \<open>The evaluation\<close>

text \<open>The nested early returns as a walk over a list of components.\<close>

fun walk_components :: "'ast check_env \<Rightarrow> bool \<Rightarrow> check_component list \<Rightarrow> row \<Rightarrow> row" where
  "walk_components E ff [] r = r"
| "walk_components E ff (c # cs) r =
     (let r1 = (case c of
          Conf \<Rightarrow> r\<lparr>ro_conf := verdict E Conf, ro_conf_detail := snd (check_conf E (read_conf_value E))\<rparr>
        | Sources \<Rightarrow> r\<lparr>ro_sources := verdict E Sources\<rparr> | Connectors \<Rightarrow> r\<lparr>ro_connectors := verdict E Connectors\<rparr>
        | Sinks \<Rightarrow> r\<lparr>ro_sinks := verdict E Sinks\<rparr> | Rules \<Rightarrow> r\<lparr>ro_rules := verdict E Rules\<rparr>
        | Schemas \<Rightarrow> r\<lparr>ro_schemas := verdict E Schemas\<rparr> | Scenarios \<Rightarrow> r\<lparr>ro_scenarios := verdict E Scenarios\<rparr>)
      in if ff \<and> \<not> passes E c then r1 else walk_components E ff cs r1)"

lemma evaluate_walk:
  "evaluate_target E opts comps =
     walk_components E (co_fail_fast opts) (filter (selected comps) all_components) (new_row (ck_root_display E))"
proof -
  obtain c d where cd: "check_conf E (read_conf_value E) = (c, d)" by fastforce
  obtain p q where pq: "(case read_conf_value E of Some v \<Rightarrow> extract_runtime_paths v | None \<Rightarrow> (None, None)) = (p, q)" by fastforce
  have v: "verdict E Conf = c" "verdict E Sources = check_sources E" "verdict E Connectors = check_connectors E"
    "verdict E Sinks = check_sinks E" "verdict E Rules = check_rules E p" "verdict E Schemas = check_schemas E q"
    "verdict E Scenarios = check_scenarios E"
    by (simp_all add: verdict_def cd pq)
  have step: "walk_components E ff (filter (selected comps) (k # ks)) r =
      eval_component (selected comps k) ff (\<lambda>r. walk_components E False [k] r) (\<lambda>r. row_cell r k)
        (walk_components E ff (filter (selected comps) ks)) r" for ff k ks r
    by (cases k) (auto simp: eval_component_def row_cell_def passes_def Let_def)
  have one: "walk_components E False [Conf] = (\<lambda>r. r\<lparr>ro_conf := c, ro_conf_detail := d\<rparr>)"
    "walk_components E False [Sources] = (\<lambda>r. r\<lparr>ro_sources := check_sources E\<rparr>)"
    "walk_components E False [Connectors] = (\<lambda>r. r\<lparr>ro_connectors := check_connectors E\<rparr>)"
    "walk_components E False [Sinks] = (\<lambda>r. r\<lparr>ro_sinks := check_sinks E\<rparr>)"
    "walk_components E False [Rules] = (\<lambda>r. r\<lparr>ro_rules := check_rules E p\<rparr>)"
    "walk_components E False [Schemas] = (\<lambda>r. r\<lparr>ro_schemas := check_schemas E q\<rparr>)"
    "walk_components E False [Scenarios] = (\<lambda>r. r\<lparr>ro_scenarios := check_scenarios E\<rparr>)"
    by (rule ext, simp add: v cd)+
  have last: "walk_components E ff (filter (selected comps) []) = id" for ff by (rule ext) simp
  show ?thesis
    unfolding evaluate_target_def Let_def all_components_def step last pq case_prod_conv
    by (simp add: selected_def row_cell_def one cd)
qed

lemma walk_cell:
  "row_cell (walk_components E ff cs r) c =
     (if c \<in> set (if ff then until_failure (passes E) cs else cs) then verdict E c else row_cell r c)"
proof (induction E ff cs r rule: walk_components.induct)
  case (2 E ff k ks r)
  have "row_cell (walk_components E False [k] r) c = (if c = k then verdict E k else row_cell r c)"
    by (cases k; cases c) (simp_all add: row_cell_def)
  then show ?case using 2 by (auto simp: Let_def until_failure_def)
qed (simp add: until_failure_def)

lemma evaluate_cell:
  "row_cell (evaluate_target E opts comps) c = (if c \<in> set (evaluated E opts comps) then verdict E c else skipped)"
proof -
  have "row_cell (new_row p) c = skipped" for p by (cases c) (simp_all add: row_cell_def new_row_def)
  then show ?thesis by (simp add: evaluate_walk walk_cell evaluated_def Let_def)
qed

section \<open>The verdict\<close>

lemma component_exhaust: "c \<in> set all_components"
  by (cases c) (simp_all add: all_components_def)

lemma evaluated_failing:
  "filter (\<lambda>c. \<not> passes E c) (evaluated E opts comps) = (if co_fail_fast opts then take 1 (failing E comps) else failing E comps)"
  unfolding evaluated_def failing_def Let_def by (simp only: until_failure_filter split: if_split) simp

lemma evaluated_subset: "set (evaluated E opts comps) \<subseteq> {c. selected comps c}"
  using until_failure_subset [of "passes E" "filter (selected comps) all_components"] by (auto simp: evaluated_def Let_def)

lemma evaluated_distinct: "distinct (evaluated E opts comps)"
  by (auto simp: evaluated_def Let_def all_components_def intro!: until_failure_distinct)

lemma cell_ok: "ce_ok (row_cell (evaluate_target E opts comps) c) = (c \<in> set (evaluated E opts comps) \<longrightarrow> passes E c)"
  by (simp add: evaluate_cell passes_def)

lemma failing_cells:
  "set (filter (\<lambda>c. \<not> ce_ok (row_cell (evaluate_target E opts comps) c)) all_components) =
   set (filter (\<lambda>c. \<not> passes E c) (evaluated E opts comps))"
  using component_exhaust by (auto simp: cell_ok)

lemma count_failures_cells: "count_failures r = length (filter (\<lambda>c. \<not> ce_ok (row_cell r c)) all_components)"
  by (simp add: count_failures_def all_components_def row_cell_def)

lemma has_failures_cells: "has_failures r comps = (\<exists>c. selected comps c \<and> \<not> ce_ok (row_cell r c))"
proof -
  have "(\<exists>c. P c) = (P Conf \<or> P Sources \<or> P Connectors \<or> P Sinks \<or> P Rules \<or> P Schemas \<or> P Scenarios)" for P
    using check_component.exhaust by metis
  then show ?thesis by (simp add: has_failures_def selected_def row_cell_def)
qed

text \<open>
  C29: A project passes its check exactly when every selected component passes its own, whether or not
  the check stops at the first failure; the error counts the failing components, which is one when it stops.
\<close>

theorem check_verdict:
  "check_project E opts comps =
     (let bad = (if co_fail_fast opts then take 1 (failing E comps) else failing E comps) in
      if bad = [] then Inr ()
      else Inl (''project check failed: '' @ dec_digits (length bad) @ '' component(s) reported validation errors''))"
proof -
  let ?r = "evaluate_target E opts comps"
  let ?bad = "filter (\<lambda>c. \<not> passes E c) (evaluated E opts comps)"
  have "distinct (filter (\<lambda>c. \<not> ce_ok (row_cell ?r c)) all_components)" by (simp add: all_components_def)
  then have n: "count_failures ?r = length ?bad"
    using failing_cells [of E opts comps] evaluated_distinct [of E opts comps]
    unfolding count_failures_cells by (metis distinct_card distinct_filter)
  have "has_failures ?r comps = (?bad \<noteq> [])"
    using evaluated_subset [of E opts comps] by (auto simp: has_failures_cells cell_ok filter_empty_conv)
  then show ?thesis by (simp add: check_project_def n evaluated_failing Let_def)
qed

text \<open>
  The report counts exactly the components that ran: one check each, passed or not, and a null
  entry for every other, so that a component never looked at is not reported as passed.
\<close>

theorem report_counts_evaluated:
  "component_stat_value (selected comps c) (count_cell (record_component comps (evaluate_target E opts comps) no_counts) c) =
     (if c \<in> set (evaluated E opts comps) then Some (of_bool (passes E c), 1) else None) \<and>
   row_cell (evaluate_target E opts comps) c = (if c \<in> set (evaluated E opts comps) then verdict E c else skipped)"
proof -
  let ?r = "evaluate_target E opts comps"
  have "count_cell (record_component comps ?r no_counts) c = record_cell (selected comps c) (row_cell ?r c) no_count"
    by (cases c) (simp_all add: record_component_def count_cell_def selected_def row_cell_def no_counts_def)
  also have "\<dots> = (if c \<in> set (evaluated E opts comps) then \<lparr>cn_ok = of_bool (passes E c), cn_total = 1\<rparr> else no_count)"
    using evaluated_subset [of E opts comps] verdict_not_skipped [of E c]
    by (auto simp: record_cell_def evaluate_cell record_count_def no_count_def passes_def)
  finally show ?thesis
    using evaluated_subset [of E opts comps] by (auto simp: component_stat_value_def no_count_def evaluate_cell)
qed

section \<open>The files\<close>

text \<open>No directory has two entries of one name.\<close>

fun names_distinct :: "node \<Rightarrow> bool" where
  "names_distinct (NFile t) = True"
| "names_distinct (NDir None) = True"
| "names_distinct (NDir (Some es)) = (distinct (map fst es) \<and> list_all names_distinct (map snd es))"

definition toml_invalid :: "'ast check_env \<Rightarrow> string list \<times> string option \<Rightarrow> bool" where
  "toml_invalid E pt = isl (validate_toml_text E (snd pt))"

lemma validate_toml_enumerates:
  "validate_toml_dir E n = (length (list_files ''toml'' n), length (filter (toml_invalid E) (list_files ''toml'' n)))"
  "validate_toml_entries E es acc =
     (fst acc + length (list_entries ''toml'' es), snd acc + length (filter (toml_invalid E) (list_entries ''toml'' es)))"
proof (induction E n and E es acc rule: validate_toml_dir_validate_toml_entries.induct)
  case (5 E name d es files errors)
  have "filter (toml_invalid E) (map (\<lambda>(p, t). (name # p, t)) xs) = map (\<lambda>(p, t). (name # p, t)) (filter (toml_invalid E) xs)" for xs
    by (induction xs) (auto simp: toml_invalid_def)
  then show ?case using 5 by (simp add: Let_def)
next
  case (6 E name t es files errors)
  then show ?case by (auto simp: toml_invalid_def split: sum.split)
qed simp_all

lemma list_files_at:
  "names_distinct n \<Longrightarrow> (p, t) \<in> set (list_files ext n) \<longleftrightarrow>
     p \<noteq> [] \<and> node_at n p = Some (NFile t) \<and> extension (last p) = Some ext"
  "distinct (map fst es) \<Longrightarrow> list_all names_distinct (map snd es) \<Longrightarrow> (p, t) \<in> set (list_entries ext es) \<longleftrightarrow>
     p \<noteq> [] \<and> node_at (NDir (Some es)) p = Some (NFile t) \<and> extension (last p) = Some ext"
proof (induction ext n and ext es arbitrary: p and p rule: list_files_list_entries.induct)
  case (2 ext)
  then show ?case by (cases p) auto
next
  case (3 ext u)
  then show ?case by (cases p) auto
next
  case (4 ext)
  then show ?case by (cases p) auto
next
  case (5 ext name d es)
  have no: "map_of es name = None" using 5(3) by (simp add: map_of_eq_None_iff)
  show ?case
  proof (cases p)
    case (Cons a q)
    have a: "(a # q, t) \<in> set (list_entries ext es) \<longleftrightarrow>
        node_at (NDir (Some es)) (a # q) = Some (NFile t) \<and> extension (last (a # q)) = Some ext"
      using 5(2) [of "a # q"] 5(3,4) by simp
    have b: "(q, t) \<in> set (list_files ext (NDir d)) \<longleftrightarrow> q \<noteq> [] \<and> node_at (NDir d) q = Some (NFile t) \<and> extension (last q) = Some ext"
      using 5(1) [of q] 5(4) by simp
    have "q = [] \<Longrightarrow> node_at (NDir d) q \<noteq> Some (NFile t)" by simp
    then show ?thesis using a b no Cons by auto
  qed (use 5(2) [of "[]"] 5(3,4) in auto)
next
  case (6 ext name u es)
  have no: "map_of es name = None" using 6(2) by (simp add: map_of_eq_None_iff)
  show ?case
  proof (cases p)
    case (Cons a q)
    have a: "(a # q, t) \<in> set (list_entries ext es) \<longleftrightarrow>
        node_at (NDir (Some es)) (a # q) = Some (NFile t) \<and> extension (last (a # q)) = Some ext"
      using 6(1) [of "a # q"] 6(2,3) by simp
    have "node_at (NFile u) q = Some (NFile t) \<longleftrightarrow> q = [] \<and> u = t" by (cases q) auto
    then show ?thesis using a no Cons by auto
  qed (use 6 in auto)
qed auto

text \<open>
  C30: A component looks at exactly the files of its extension below its directory, at any depth, and
  the check of a directory of TOML files counts exactly those and the ones among them that do not parse.
\<close>

theorem files_below_counted:
  assumes "names_distinct n"
  shows "((p, t) \<in> set (list_files ext n)) = (p \<noteq> [] \<and> node_at n p = Some (NFile t) \<and> extension (last p) = Some ext) \<and>
    validate_toml_dir E n = (length (list_files ''toml'' n), length (filter (toml_invalid E) (list_files ''toml'' n)))"
  using list_files_at(1) [OF assms] validate_toml_enumerates(1) by blast

definition toy_node :: node where
  "toy_node = NDir (Some [(''a.toml'', NFile (Some ''x'')), (''d'', NDir (Some [(''b.toml'', NFile None), (''c.txt'', NFile None)]))])"

definition toy_check :: "unit check_env" where
  "toy_check =
     \<lparr>ck_root = toy_node, ck_parents = [], ck_resolve = (\<lambda>p. None), ck_conf_display = [], ck_root_display = [],
      ck_toml = (\<lambda>s. if s = ''bad'' then Inl ''no'' else Inr TomlOther), ck_wfl = (\<lambda>s. Inr ()), ck_lint = (\<lambda>a. []),
      ck_wfs = (\<lambda>s. Inr ()), ck_wfg = (\<lambda>s. Inr ())\<rparr>"

theorem files_below_counted_witness:
  "([''d'', ''b.toml''], None) \<in> set (list_files ''toml'' toy_node) \<and> validate_toml_dir toy_check toy_node = (2, 1)"
proof -
  have d: "names_distinct toy_node" by (simp add: toy_node_def)
  from files_below_counted [OF d, of "[''d'', ''b.toml'']" None "''toml''" toy_check] show ?thesis
    by (simp add: toy_node_def toy_check_def extension_def Let_def toml_invalid_def validate_toml_text_def)
qed

section \<open>Where the check says less than it seems\<close>

text \<open>\<open>all\<close> among other names is dropped: only the others are checked.\<close>

lemma all_in_a_list_is_dropped:
  "build_components ''rules,all'' = Inr (with_only [Rules] default_components)"
  by (simp add: build_components_def parse_component_def ascii_lower_def List.map_filter_simps trim_def trim_start_def trim_end_def
      is_ascii_ws_def Let_def)

text \<open>A glob over subdirectories does not name a directory once its last part is cut off.\<close>

lemma glob_keeps_star: "strip_glob ''models/rules/*/*.wfl'' = ''models/rules/*''"
  by (simp add: strip_glob_def)

text \<open>An invalid \<open>windows.toml\<close> fails the schemas with a message that counts no error.\<close>

lemma windows_error_not_counted:
  "check_schemas (toy_check\<lparr>ck_root := NDir (Some [(''models'', NDir (Some [(''schemas'', NDir (Some
       [(''a.wfs'', NFile (Some [])), (''windows.toml'', NFile (Some ''bad''))]))]))])\<rparr>) None =
     failure (dir_note ''schemas'' (dec_digits 0 @ '' parse error(s)''))"
  by (simp add: check_schemas_def resolve_model_dir_def list_at_def extension_def Let_def parse_errors_def parse_fails_def
      toy_check_def validate_toml_file_def validate_toml_text_def)

text \<open>Entries of warnings are listed even when only failures are asked for.\<close>

lemma warnings_despite_only_fail:
  "detail_entries_for ((new_row [])\<lparr>ro_sinks := success_with_warnings ''m'' [''w'']\<rparr>)
     (with_only [Sinks] default_components) id \<lparr>co_console = False, co_fail_fast = False, co_json = False, co_only_fail = True\<rparr> =
   [\<lparr>de_category = ''Sinks'', de_item = ''Warning'', de_data = ''w'', de_result = ''!''\<rparr>]"
  by (simp add: detail_entries_for_def entry_of_def component_cells_def with_only_def disable_all_def set_component_def
      default_components_def success_with_warnings_def)

end
