(* ===== verification/PerfGate.thy ===== *)
theory PerfGate
  imports RustText
begin

text \<open>
  The performance gate (\<open>wfgen/src/cmd_perf_diag/gate.rs\<close>): wall tables and their text form, the
  check of a gate configuration, the assertions it stands for and the verdict. The file system
  is a function from paths to texts or to the message of an error, the TOML parser is a
  parameter. Error values carry what the messages of the code show. The explanatory text of a
  check and the printed summary are left out; the functional properties follow.
\<close>

section \<open>Wall tables\<close>

record wall_row =
  wr_stage :: string
  wr_eps :: f64
  wr_n :: nat
  wr_rounds :: nat

definition render_wall_row :: "wall_row \<Rightarrow> string" where
  "render_wall_row r =
     wr_stage r @ ''  eps='' @ fmt_fixed0 (wr_eps r) @ '' n='' @ dec_digits (wr_n r) @ '' rounds='' @ dec_digits (wr_rounds r)"

type_synonym row_fields = "f64 option \<times> nat option \<times> nat option"

fun read_token :: "string \<Rightarrow> row_fields \<Rightarrow> row_fields" where
  "read_token t (eps, n, rounds) =
     (case strip_prefix ''eps='' t of Some v \<Rightarrow> (parse_f64 v, n, rounds)
      | None \<Rightarrow>
        (case strip_prefix ''n='' t of Some v \<Rightarrow> (eps, parse_u64 v, rounds)
         | None \<Rightarrow>
           (case strip_prefix ''rounds='' t of Some v \<Rightarrow> (eps, n, parse_u64 v)
            | None \<Rightarrow> (eps, n, rounds))))"

definition parse_wall_row :: "string \<Rightarrow> wall_row option" where
  "parse_wall_row line =
     (case split_whitespace (trim line) of
        [] \<Rightarrow> None
      | stage # toks \<Rightarrow>
          (case fold read_token toks (None, None, None) of
             (Some eps, Some n, rounds) \<Rightarrow>
               Some \<lparr>wr_stage = stage, wr_eps = eps, wr_n = n, wr_rounds = (case rounds of None \<Rightarrow> 1 | Some k \<Rightarrow> k)\<rparr>
           | _ \<Rightarrow> None))"

definition parse_wall_table :: "string \<Rightarrow> wall_row list" where
  "parse_wall_table s = List.map_filter parse_wall_row (str_lines s)"

definition baseline_text :: "wall_row list \<Rightarrow> string" where
  "baseline_text wall = join [CHR 0x0A] (map render_wall_row wall) @ [CHR 0x0A]"

definition eps_at :: "wall_row list \<Rightarrow> string \<Rightarrow> nat \<Rightarrow> f64 option" where
  "eps_at wall stage n = map_option wr_eps (find_first (\<lambda>r. wr_stage r = stage \<and> wr_n r = n) wall)"

definition max_n :: "wall_row list \<Rightarrow> nat" where
  "max_n wall = fold max (map wr_n wall) 0"

section \<open>Configuration\<close>

record absolute_caps =
  rules_eps_min :: "f64 option"
  per_rule_ns_max :: "f64 option"

record relative_caps =
  rel_baseline :: "string option"
  rel_stages :: "string list"
  max_regression_pct :: "f64 option"

record gate_config =
  rule_count :: nat
  gc_absolute :: absolute_caps
  gc_relative :: relative_caps

definition default_relative :: relative_caps where
  "default_relative = \<lparr>rel_baseline = None, rel_stages = [''rules''], max_regression_pct = None\<rparr>"

datatype gate_error =
    NoAssertion | NeedsRuleCount | NoStages | NeedsRegressionPct | NeedsBaseline
  | PctOutOfRange f64 | NotPositive string f64
  | ConfigIo string string | ConfigToml string string
  | WallIo string string | NoWallRows string | EmptyWall
  | MissingMeasurement string nat "wall_row list" | BaselineMissing string string nat
  | BaselineIo string string | GateWithRecord

fun gate_reason :: "gate_error \<Rightarrow> wfgen_reason" where
  "gate_reason (ConfigIo p e) = RIo"
| "gate_reason (WallIo p e) = RIo"
| "gate_reason (BaselineIo p e) = RIo"
| "gate_reason _ = RValidation"

definition pct_in_range :: "f64 \<Rightarrow> bool" where
  "pct_in_range p = (fle f64_zero p \<and> fle p (f64_of_nat 100))"

definition positive_value :: "f64 \<Rightarrow> bool" where
  "positive_value v = (\<not> (v = NaN \<or> fle v f64_zero))"

fun check_positive :: "string \<times> f64 option \<Rightarrow> unit \<Rightarrow> gate_error + unit" where
  "check_positive (name, val) _ =
     (case val of Some v \<Rightarrow> if positive_value v then Inr () else Inl (NotPositive name v) | None \<Rightarrow> Inr ())"

definition gate_validate :: "gate_config \<Rightarrow> gate_error + unit" where
  "gate_validate c =
     (let ab = gc_absolute c; rel = gc_relative c;
          has_abs = (rules_eps_min ab \<noteq> None \<or> per_rule_ns_max ab \<noteq> None);
          has_rel = (rel_baseline rel \<noteq> None \<or> max_regression_pct rel \<noteq> None)
      in if \<not> has_abs \<and> \<not> has_rel then Inl NoAssertion
         else if per_rule_ns_max ab \<noteq> None \<and> rule_count c = 0 then Inl NeedsRuleCount
         else if rel_baseline rel \<noteq> None \<and> rel_stages rel = [] then Inl NoStages
         else if rel_baseline rel \<noteq> None \<and> max_regression_pct rel = None then Inl NeedsRegressionPct
         else if rel_baseline rel = None \<and> max_regression_pct rel \<noteq> None then Inl NeedsBaseline
         else rbind (case max_regression_pct rel of
                       Some p \<Rightarrow> if pct_in_range p then Inr () else Inl (PctOutOfRange p)
                     | None \<Rightarrow> Inr ())
              (\<lambda>_. rfold check_positive
                      [(''rules_eps_min'', rules_eps_min ab), (''per_rule_ns_max'', per_rule_ns_max ab)] ()))"

type_synonym read_file = "string \<Rightarrow> string + string"

definition read_wall_file :: "read_file \<Rightarrow> string \<Rightarrow> gate_error + wall_row list" where
  "read_wall_file rd path =
     (case rd path of Inl e \<Rightarrow> Inl (WallIo path e)
      | Inr content \<Rightarrow>
          let rows = parse_wall_table content in if rows = [] then Inl (NoWallRows path) else Inr rows)"

definition gate_load :: "read_file \<Rightarrow> (string \<Rightarrow> string + gate_config) \<Rightarrow> string \<Rightarrow> gate_error + gate_config" where
  "gate_load rd from_toml path =
     (case rd path of Inl e \<Rightarrow> Inl (ConfigIo path e)
      | Inr content \<Rightarrow>
          (case from_toml content of Inl e \<Rightarrow> Inl (ConfigToml path e)
           | Inr cfg \<Rightarrow> rbind (gate_validate cfg) (\<lambda>_. Inr cfg)))"

section \<open>Evaluation\<close>

record gate_check =
  chk_metric :: string
  chk_stage :: string
  chk_measured :: f64
  chk_threshold :: f64
  chk_unit :: string
  chk_relation :: string
  chk_passed :: bool

definition measured_at :: "wall_row list \<Rightarrow> string \<Rightarrow> gate_error + f64" where
  "measured_at wall stage =
     ok_or (MissingMeasurement stage (max_n wall) wall) (eps_at wall stage (max_n wall))"

definition per_rule_cost :: "nat \<Rightarrow> f64 \<Rightarrow> f64 \<Rightarrow> f64" where
  "per_rule_cost rules eps_rules eps_floor =
     (let e9 = f64_of_nat 1000000000
      in fmax (fdiv (fsub (fdiv e9 eps_rules) (fdiv e9 eps_floor)) (f64_of_nat rules)) f64_zero)"

definition allowed_eps :: "f64 \<Rightarrow> f64 \<Rightarrow> f64" where
  "allowed_eps base pct = fmul base (fsub (f64_of_nat 1) (fdiv pct (f64_of_nat 100)))"

definition check_rules_eps :: "wall_row list \<Rightarrow> f64 \<Rightarrow> gate_error + gate_check" where
  "check_rules_eps wall mn =
     rbind (measured_at wall ''rules'') (\<lambda>eps.
       Inr \<lparr>chk_metric = ''rules_set_eps'', chk_stage = ''rules'', chk_measured = eps, chk_threshold = mn,
            chk_unit = ''eps'', chk_relation = ''>='', chk_passed = fle mn eps\<rparr>)"

definition check_per_rule :: "nat \<Rightarrow> wall_row list \<Rightarrow> f64 \<Rightarrow> gate_error + gate_check" where
  "check_per_rule rules wall cap =
     rbind (measured_at wall ''floor'') (\<lambda>eps_floor.
     rbind (measured_at wall ''rules'') (\<lambda>eps_rules.
       let cost = per_rule_cost rules eps_rules eps_floor
       in Inr \<lparr>chk_metric = ''per_rule_ns'', chk_stage = ''rules-floor'', chk_measured = cost, chk_threshold = cap,
               chk_unit = ''ns/evt/rule'', chk_relation = ''<='', chk_passed = fle cost cap\<rparr>))"

definition check_regression :: "string \<Rightarrow> wall_row list \<Rightarrow> f64 \<Rightarrow> wall_row list \<Rightarrow> string \<Rightarrow> gate_error + gate_check" where
  "check_regression base_path base pct wall stage =
     rbind (measured_at wall stage) (\<lambda>now.
     rbind (ok_or (BaselineMissing base_path stage (max_n wall)) (eps_at base stage (max_n wall))) (\<lambda>base_eps.
       let allowed = allowed_eps base_eps pct
       in Inr \<lparr>chk_metric = ''eps_regression'', chk_stage = stage, chk_measured = now, chk_threshold = allowed,
               chk_unit = ''eps'', chk_relation = ''>='', chk_passed = fle allowed now\<rparr>))"

definition opt_check :: "('a \<Rightarrow> gate_error + gate_check) \<Rightarrow> 'a option \<Rightarrow> gate_error + gate_check list" where
  "opt_check f x = (case x of None \<Rightarrow> Inr [] | Some v \<Rightarrow> rbind (f v) (\<lambda>c. Inr [c]))"

definition relative_checks :: "read_file \<Rightarrow> relative_caps \<Rightarrow> wall_row list \<Rightarrow> gate_error + gate_check list" where
  "relative_checks rd rel wall =
     (case rel_baseline rel of None \<Rightarrow> Inr []
      | Some path \<Rightarrow>
          rbind (read_wall_file rd path) (\<lambda>base.
            rmap (check_regression path base
                    (case max_regression_pct rel of None \<Rightarrow> f64_zero | Some p \<Rightarrow> p) wall) (rel_stages rel)))"

definition evaluate_gate :: "read_file \<Rightarrow> gate_config \<Rightarrow> wall_row list \<Rightarrow> gate_error + gate_check list" where
  "evaluate_gate rd cfg wall =
     (if wall = [] then Inl EmptyWall
      else rbind (opt_check (check_rules_eps wall) (rules_eps_min (gc_absolute cfg))) (\<lambda>a.
           rbind (opt_check (check_per_rule (rule_count cfg) wall) (per_rule_ns_max (gc_absolute cfg))) (\<lambda>b.
           rbind (relative_checks rd (gc_relative cfg) wall) (\<lambda>c. Inr (a @ b @ c)))))"

definition summarize_checks :: "gate_check list \<Rightarrow> bool" where
  "summarize_checks cs = list_all chk_passed cs"

section \<open>The end of a diagnosis\<close>

datatype gate_verdict = NotApplied | Passed | Failed

definition is_failure :: "gate_verdict \<Rightarrow> bool" where
  "is_failure v = (v = Failed)"

definition both_given :: "string option \<Rightarrow> string option \<Rightarrow> gate_error + unit" where
  "both_given gate_path record_path =
     (if gate_path \<noteq> None \<and> record_path \<noteq> None then Inl GateWithRecord else Inr ())"

text \<open>What \<open>run_perf_diag\<close> does once the wall table is measured: record it, or judge it. The
  result is the verdict and the file written, if any (\<open>write_baseline\<close>, whose error is \<open>io\<close>).\<close>

definition finish_diag ::
  "read_file \<Rightarrow> (string \<Rightarrow> string + gate_config) \<Rightarrow> (string \<Rightarrow> string option) \<Rightarrow>
   string option \<Rightarrow> string option \<Rightarrow> wall_row list \<Rightarrow> gate_error + (gate_verdict \<times> (string \<times> string) option)" where
  "finish_diag rd from_toml io gate_path record_path wall =
     (case record_path of
        Some base \<Rightarrow>
          (case io base of Some e \<Rightarrow> Inl (BaselineIo base e)
           | None \<Rightarrow> Inr (NotApplied, Some (base, baseline_text wall)))
      | None \<Rightarrow>
          (case gate_path of None \<Rightarrow> Inr (NotApplied, None)
           | Some path \<Rightarrow>
               rbind (gate_load rd from_toml path) (\<lambda>cfg.
               rbind (evaluate_gate rd cfg wall) (\<lambda>cs.
                 Inr (if summarize_checks cs then Passed else Failed, None)))))"

text \<open>A gate and a baseline to record are refused together, before anything is measured.\<close>

definition diagnose ::
  "read_file \<Rightarrow> (string \<Rightarrow> string + gate_config) \<Rightarrow> (string \<Rightarrow> string option) \<Rightarrow>
   string option \<Rightarrow> string option \<Rightarrow> wall_row list \<Rightarrow> gate_error + (gate_verdict \<times> (string \<times> string) option)" where
  "diagnose rd from_toml io gate_path record_path wall =
     rbind (both_given gate_path record_path) (\<lambda>_. finish_diag rd from_toml io gate_path record_path wall)"

section \<open>A recorded baseline is read back\<close>

lemma trim_id: "s \<noteq> [] \<Longrightarrow> \<not> is_ascii_ws (hd s) \<Longrightarrow> \<not> is_ascii_ws (last s) \<Longrightarrow> trim s = s"
  by (simp add: trim_def trim_start_def trim_end_def dropWhile_eq_self_iff [THEN iffD2] hd_rev)

lemma ws_space [simp]: "is_ascii_ws (CHR '' '')"
  by (simp add: is_ascii_ws_def)

lemma prefixed_plain:
  "plain_word (''eps='' @ fmt_fixed0 x)" "plain_word (''n='' @ dec_digits k)" "plain_word (''rounds='' @ dec_digits k)"
  using fmt_fixed0_plain [of x] dec_digits_plain [of k]
  by (auto simp: plain_word_def is_ascii_ws_def)

lemma render_tokens:
  assumes "plain_word (wr_stage r)"
  shows "split_whitespace (render_wall_row r) =
         [wr_stage r, ''eps='' @ fmt_fixed0 (wr_eps r), ''n='' @ dec_digits (wr_n r), ''rounds='' @ dec_digits (wr_rounds r)]"
proof -
  have "render_wall_row r =
        wr_stage r @ CHR '' '' # CHR '' '' # (''eps='' @ fmt_fixed0 (wr_eps r)) @ CHR '' '' #
        (''n='' @ dec_digits (wr_n r)) @ CHR '' '' # (''rounds='' @ dec_digits (wr_rounds r))"
    by (simp add: render_wall_row_def)
  then show ?thesis
    by (simp only: split_whitespace_cons [OF assms ws_space] split_whitespace_skip [OF ws_space]
          split_whitespace_cons [OF prefixed_plain(1) ws_space] split_whitespace_cons [OF prefixed_plain(2) ws_space]
          split_whitespace_word [OF prefixed_plain(3)])
qed

lemma read_tokens:
  "read_token (''eps='' @ v) (a, b, c) = (parse_f64 v, b, c)"
  "read_token (''n='' @ v) (a, b, c) = (a, parse_u64 v, c)"
  "read_token (''rounds='' @ v) (a, b, c) = (a, b, parse_u64 v)"
  by simp_all

lemma parse_rendered_row:
  assumes "plain_word (wr_stage r)" "wr_n r \<le> u64_max" "wr_rounds r \<le> u64_max"
  shows "parse_wall_row (render_wall_row r) = Some (r\<lparr>wr_eps := integral (wr_eps r)\<rparr>)"
proof -
  have h: "hd (render_wall_row r) = hd (wr_stage r)" "render_wall_row r \<noteq> []" "\<not> is_ascii_ws (hd (wr_stage r))"
    using assms(1) by (cases "wr_stage r"; simp add: render_wall_row_def plain_word_def)+
  have "last (render_wall_row r) = last (dec_digits (wr_rounds r))" by (simp add: render_wall_row_def)
  moreover have "\<not> is_ascii_ws (last (dec_digits (wr_rounds r)))"
    using dec_digits_plain [of "wr_rounds r"] by (auto simp: plain_word_def list_all_iff)
  ultimately have "trim (render_wall_row r) = render_wall_row r" using h by (simp add: trim_id)
  then have "split_whitespace (trim (render_wall_row r)) =
        [wr_stage r, ''eps='' @ fmt_fixed0 (wr_eps r), ''n='' @ dec_digits (wr_n r), ''rounds='' @ dec_digits (wr_rounds r)]"
    using render_tokens [OF assms(1)] by simp
  note toks = this
  have "fold read_token [''eps='' @ fmt_fixed0 (wr_eps r), ''n='' @ dec_digits (wr_n r), ''rounds='' @ dec_digits (wr_rounds r)]
          (None, None, None) = (Some (integral (wr_eps r)), Some (wr_n r), Some (wr_rounds r))"
    unfolding fold_simps read_tokens parse_fmt_fixed0 parse_u64_dec [OF assms(2)] parse_u64_dec [OF assms(3)] ..
  then show ?thesis by (simp only: parse_wall_row_def toks list.case prod.case option.case) simp
qed

lemma ws_chars: "is_ascii_ws (CHR 0x0A)" "is_ascii_ws (CHR 0x0D)"
  by (simp_all add: is_ascii_ws_def)

lemma rendered_clean: "plain_word (wr_stage r) \<Longrightarrow> clean_line (render_wall_row r)"
proof -
  assume p: "plain_word (wr_stage r)"
  have n: "CHR 0x0A \<notin> set w" if "plain_word w" for w
    using that ws_chars by (auto simp: plain_word_def list_all_iff)
  have "last (render_wall_row r) = last (dec_digits (wr_rounds r))" by (simp add: render_wall_row_def)
  moreover have "last (dec_digits (wr_rounds r)) \<noteq> CHR 0x0D"
    using dec_digits_plain [of "wr_rounds r"] ws_chars last_in_set by (metis plain_word_def list_all_iff)
  moreover have "CHR 0x0A \<notin> set (render_wall_row r)"
    using n [OF p] n [OF fmt_fixed0_plain] n [OF dec_digits_plain] by (simp add: render_wall_row_def)
  ultimately show ?thesis by (simp add: clean_line_def drop_cr_def)
qed

definition stage_word :: "string \<Rightarrow> bool" where
  "stage_word w = (plain_word w \<and> list_all (\<lambda>c. (of_char c :: nat) < 128) w)"

text \<open>
  C32: a recorded baseline whose stage names are single words is read back row by row: the table parsed
  from the text that \<open>--record-baseline\<close> writes is the measured table, except that every EPS is the
  nearest integer. Premises: every stage name is a nonempty ASCII word without white space (\<open>stage_word\<close>; a
  name with a space is cut, see \<open>spaced_stage_is_cut\<close>), and the counts are 64-bit numbers.
\<close>

theorem baseline_round_trip:
  assumes "list_all (\<lambda>r. stage_word (wr_stage r) \<and> wr_n r \<le> u64_max \<and> wr_rounds r \<le> u64_max) wall"
  shows "parse_wall_table (baseline_text wall) = map (\<lambda>r. r\<lparr>wr_eps := integral (wr_eps r)\<rparr>) wall"
proof -
  have rows: "map parse_wall_row (map render_wall_row wall) = map (\<lambda>r. Some (r\<lparr>wr_eps := integral (wr_eps r)\<rparr>)) wall"
    using assms parse_rendered_row by (auto simp: list_all_iff stage_word_def)
  have "list_all clean_line (map render_wall_row wall)"
    using assms rendered_clean by (auto simp: list_all_iff stage_word_def)
  from str_lines_joined [OF this]
  have "parse_wall_table (baseline_text wall) = List.map_filter parse_wall_row (map render_wall_row wall)"
    by (simp add: parse_wall_table_def baseline_text_def map_filter_def parse_wall_row_def trim_def trim_start_def
          trim_end_def split_whitespace_def)
  also have "\<dots> = List.map_filter id (map parse_wall_row (map render_wall_row wall))"
    by (simp add: map_filter_def filter_map o_def)
  finally show ?thesis unfolding rows by (simp add: map_filter_def filter_map o_def)
qed

lemma three_halves: "integral (Fin False 3 (- 1)) = f64_of_nat 2"
proof -
  have "div_half_even 3 1 1 = 2" by (simp add: div_half_even_def)
  then show ?thesis by (simp add: f64_of_nat_def)
qed

lemma integral_Inf: "integral (Inf s) = Inf s"
  by simp

lemma baseline_round_trip_witness:
  "parse_wall_table (baseline_text [\<lparr>wr_stage = ''floor'', wr_eps = Fin False 3 (- 1), wr_n = 1000, wr_rounds = 3\<rparr>,
      \<lparr>wr_stage = ''rules'', wr_eps = Inf False, wr_n = 1000, wr_rounds = 3\<rparr>]) =
   [\<lparr>wr_stage = ''floor'', wr_eps = f64_of_nat 2, wr_n = 1000, wr_rounds = 3\<rparr>,
    \<lparr>wr_stage = ''rules'', wr_eps = Inf False, wr_n = 1000, wr_rounds = 3\<rparr>]"
proof -
  have "stage_word ''floor''" "stage_word ''rules''" by (simp_all add: stage_word_def plain_word_def is_ascii_ws_def)
  then show ?thesis
    using baseline_round_trip [of "[\<lparr>wr_stage = ''floor'', wr_eps = Fin False 3 (- 1), wr_n = 1000, wr_rounds = 3\<rparr>,
      \<lparr>wr_stage = ''rules'', wr_eps = Inf False, wr_n = 1000, wr_rounds = 3\<rparr>]"]
    by (simp add: three_halves integral_Inf del: integral.simps(3))
qed

text \<open>Stage names are free text of the configuration: the reader takes the first word of one with a space.\<close>

lemma spaced_stage_is_cut:
  assumes "n \<le> u64_max" "rounds \<le> u64_max"
  shows "map_option wr_stage (parse_wall_row (render_wall_row \<lparr>wr_stage = ''all rules'', wr_eps = x, wr_n = n, wr_rounds = rounds\<rparr>)) =
    Some ''all''"
proof -
  have p: "plain_word ''all''" "plain_word ''rules''" by (simp_all add: plain_word_def is_ascii_ws_def)
  let ?tail = "[''eps='' @ fmt_fixed0 x, ''n='' @ dec_digits n, ''rounds='' @ dec_digits rounds]"
  let ?row = "render_wall_row \<lparr>wr_stage = ''all rules'', wr_eps = x, wr_n = n, wr_rounds = rounds\<rparr>"
  have row: "?row = ''all'' @ CHR '' '' # render_wall_row \<lparr>wr_stage = ''rules'', wr_eps = x, wr_n = n, wr_rounds = rounds\<rparr>"
    by (simp add: render_wall_row_def)
  have "last ?row = last (dec_digits rounds)" by (simp add: render_wall_row_def)
  moreover have "\<not> is_ascii_ws (last (dec_digits rounds))" using dec_digits_plain [of rounds] by (auto simp: plain_word_def list_all_iff)
  ultimately have "trim ?row = ?row" by (intro trim_id) (simp_all add: row is_ascii_ws_def)
  then have toks: "split_whitespace (trim ?row) = ''all'' # ''rules'' # ?tail"
    unfolding row by (simp only: split_whitespace_cons [OF p(1) ws_space] render_tokens wall_row.select_convs p(2))
  have "read_token ''rules'' (None, None, None) = (None, None, None)" by simp
  then have "fold read_token (''rules'' # ?tail) (None, None, None) = (Some (integral x), Some n, Some rounds)"
    by (simp add: parse_fmt_fixed0 parse_u64_dec [OF assms(1)] parse_u64_dec [OF assms(2)])
  then show ?thesis by (simp only: parse_wall_row_def toks list.case prod.case option.case) simp
qed

section \<open>Verdicts\<close>

text \<open>A configuration the gate takes: at least one assertion, each with what it needs.\<close>

definition gate_accepted :: "gate_config \<Rightarrow> bool" where
  "gate_accepted c =
     (let ab = gc_absolute c; rel = gc_relative c
      in (rules_eps_min ab \<noteq> None \<or> per_rule_ns_max ab \<noteq> None \<or> rel_baseline rel \<noteq> None) \<and>
         (per_rule_ns_max ab \<noteq> None \<longrightarrow> 0 < rule_count c) \<and>
         (rel_baseline rel \<noteq> None \<longleftrightarrow> max_regression_pct rel \<noteq> None) \<and>
         (rel_baseline rel \<noteq> None \<longrightarrow> rel_stages rel \<noteq> []) \<and>
         pred_option pct_in_range (max_regression_pct rel) \<and>
         pred_option positive_value (rules_eps_min ab) \<and> pred_option positive_value (per_rule_ns_max ab))"

text \<open>The assertions of a configuration hold of a wall table: all of them, measured at the largest N.\<close>

definition largest_n :: "wall_row list \<Rightarrow> nat" where
  "largest_n wall = Max (wr_n ` set wall)"

definition gate_met :: "read_file \<Rightarrow> gate_config \<Rightarrow> wall_row list \<Rightarrow> bool" where
  "gate_met rd c wall =
     (wall \<noteq> [] \<and>
      pred_option (\<lambda>mn. \<exists>r. eps_at wall ''rules'' (largest_n wall) = Some r \<and> fle mn r)
        (rules_eps_min (gc_absolute c)) \<and>
      pred_option (\<lambda>cap. \<exists>f r. eps_at wall ''floor'' (largest_n wall) = Some f \<and>
                             eps_at wall ''rules'' (largest_n wall) = Some r \<and> fle (per_rule_cost (rule_count c) r f) cap)
        (per_rule_ns_max (gc_absolute c)) \<and>
      pred_option (\<lambda>path. \<exists>content. rd path = Inr content \<and>
          (\<forall>s \<in> set (rel_stages (gc_relative c)). \<exists>now b.
             eps_at wall s (largest_n wall) = Some now \<and>
             eps_at (parse_wall_table content) s (largest_n wall) = Some b \<and>
             fle (allowed_eps b (case max_regression_pct (gc_relative c) of None \<Rightarrow> f64_zero | Some p \<Rightarrow> p)) now))
        (rel_baseline (gc_relative c)))"

lemma max_n_largest: "wall \<noteq> [] \<Longrightarrow> max_n wall = largest_n wall"
proof -
  assume w: "wall \<noteq> []"
  have "fold max (map wr_n wall) 0 = Max (set (0 # map wr_n wall))" unfolding Max.set_eq_fold ..
  also have "\<dots> = max 0 (Max (set (map wr_n wall)))" using w by (simp add: Max_insert)
  finally show ?thesis by (simp add: max_n_def largest_n_def)
qed

lemma check_positive_Inr:
  "rfold check_positive [(a, x), (b, y)] () = Inr () \<longleftrightarrow> pred_option positive_value x \<and> pred_option positive_value y"
  by (auto split: option.splits)

lemma gate_validate_iff: "gate_validate c = Inr () \<longleftrightarrow> gate_accepted c"
  unfolding gate_validate_def gate_accepted_def Let_def rbind_Inr_iff check_positive_Inr
  by (auto split: option.splits simp del: rfold.simps simp: check_positive_Inr)

lemma opt_check_passes:
  "(\<exists>a. opt_check f x = Inr a \<and> list_all chk_passed a) \<longleftrightarrow> pred_option (\<lambda>v. \<exists>k. f v = Inr k \<and> chk_passed k) x"
  by (cases x) (auto simp: opt_check_def rbind_Inr_iff)

lemma rmap_passes:
  "(\<exists>ys. rmap f xs = Inr ys \<and> list_all P ys) \<longleftrightarrow> (\<forall>x \<in> set xs. \<exists>y. f x = Inr y \<and> P y)"
  by (induction xs) (auto simp: rbind_Inr_iff)

lemma ok_or_Inr: "ok_or e x = Inr y \<longleftrightarrow> x = Some y"
  by (cases x) auto

lemmas check_defs = check_rules_eps_def check_per_rule_def check_regression_def measured_at_def

lemma relative_passes:
  assumes "gate_accepted c"
  shows "(\<exists>a. relative_checks rd (gc_relative c) wall = Inr a \<and> list_all chk_passed a) \<longleftrightarrow>
         pred_option (\<lambda>path. \<exists>content. rd path = Inr content \<and>
          (\<forall>s \<in> set (rel_stages (gc_relative c)). \<exists>now b.
             eps_at wall s (max_n wall) = Some now \<and>
             eps_at (parse_wall_table content) s (max_n wall) = Some b \<and>
             fle (allowed_eps b (case max_regression_pct (gc_relative c) of None \<Rightarrow> f64_zero | Some p \<Rightarrow> p)) now))
        (rel_baseline (gc_relative c))"
proof (cases "rel_baseline (gc_relative c)")
  case None
  then show ?thesis by (simp add: relative_checks_def)
next
  case (Some path)
  then obtain s0 ss where s0: "rel_stages (gc_relative c) = s0 # ss"
    using assms by (cases "rel_stages (gc_relative c)") (auto simp: gate_accepted_def Let_def)
  have none: "eps_at [] s n = None" for s n by (simp add: eps_at_def find_first_def)
  have wall: "read_wall_file rd path = Inr base \<longleftrightarrow> (\<exists>content. rd path = Inr content \<and> base = parse_wall_table content \<and> base \<noteq> [])" for base
    by (auto simp: read_wall_file_def Let_def split: sum.splits)
  define pct where "pct = (case max_regression_pct (gc_relative c) of None \<Rightarrow> f64_zero | Some p \<Rightarrow> p)"
  define stages where "stages = rel_stages (gc_relative c)"
  have one: "(\<exists>k. check_regression path base pct wall s = Inr k \<and> chk_passed k) \<longleftrightarrow>
      (\<exists>now b. eps_at wall s (max_n wall) = Some now \<and> eps_at base s (max_n wall) = Some b \<and> fle (allowed_eps b pct) now)"
    for base s by (auto simp: check_defs rbind_Inr_iff ok_or_Inr Let_def)
  have "(\<exists>a. relative_checks rd (gc_relative c) wall = Inr a \<and> list_all chk_passed a) \<longleftrightarrow>
      (\<exists>base. read_wall_file rd path = Inr base \<and> (\<exists>a. rmap (check_regression path base pct wall) stages = Inr a \<and> list_all chk_passed a))"
    unfolding relative_checks_def Some option.case rbind_Inr_iff pct_def stages_def by blast
  also have "\<dots> \<longleftrightarrow> (\<exists>content. rd path = Inr content \<and> parse_wall_table content \<noteq> [] \<and>
      (\<forall>s \<in> set stages. \<exists>now b. eps_at wall s (max_n wall) = Some now \<and>
         eps_at (parse_wall_table content) s (max_n wall) = Some b \<and> fle (allowed_eps b pct) now))"
    unfolding rmap_passes one wall by blast
  also have "\<dots> \<longleftrightarrow> (\<exists>content. rd path = Inr content \<and>
      (\<forall>s \<in> set stages. \<exists>now b. eps_at wall s (max_n wall) = Some now \<and>
         eps_at (parse_wall_table content) s (max_n wall) = Some b \<and> fle (allowed_eps b pct) now))"
    using s0 none by (metis list.set_intros(1) option.distinct(1) stages_def)
  finally show ?thesis unfolding Some option.pred_inject pct_def stages_def .
qed

lemma evaluate_passes:
  assumes "gate_accepted c"
  shows "(\<exists>cs. evaluate_gate rd c wall = Inr cs \<and> summarize_checks cs) \<longleftrightarrow> gate_met rd c wall"
proof (cases "wall = []")
  case True
  then show ?thesis by (simp add: evaluate_gate_def gate_met_def)
next
  case False
  then have "(\<exists>cs. evaluate_gate rd c wall = Inr cs \<and> summarize_checks cs) \<longleftrightarrow>
      (\<exists>a. opt_check (check_rules_eps wall) (rules_eps_min (gc_absolute c)) = Inr a \<and> list_all chk_passed a) \<and>
      (\<exists>b. opt_check (check_per_rule (rule_count c) wall) (per_rule_ns_max (gc_absolute c)) = Inr b \<and> list_all chk_passed b) \<and>
      (\<exists>d. relative_checks rd (gc_relative c) wall = Inr d \<and> list_all chk_passed d)"
    by (auto simp: evaluate_gate_def rbind_Inr_iff summarize_checks_def)
  also have "\<dots> \<longleftrightarrow> gate_met rd c wall"
    unfolding opt_check_passes relative_passes [OF assms]
    by (simp add: check_defs gate_met_def False max_n_largest rbind_Inr_iff ok_or_Inr Let_def ex_simps [symmetric] del: ex_simps)
  finally show ?thesis .
qed

text \<open>
  C31: a diagnosis passes exactly when a gate was asked for, no baseline was to be recorded, the
  configuration was read and states at least one well-formed assertion, and every assertion of it
  holds of the measured table: a missing file, stage, N or baseline row never passes.
\<close>

theorem gate_passes_iff:
  "diagnose rd from_toml io gate_path record_path wall = Inr (Passed, out) \<longleftrightarrow>
   record_path = None \<and> out = None \<and>
   (\<exists>path content c. gate_path = Some path \<and> rd path = Inr content \<and> from_toml content = Inr c \<and>
      gate_accepted c \<and> gate_met rd c wall)"
proof -
  have load: "gate_load rd from_toml path = Inr c \<longleftrightarrow>
      (\<exists>content. rd path = Inr content \<and> from_toml content = Inr c \<and> gate_accepted c)" for path c
    by (auto simp: gate_load_def rbind_Inr_iff gate_validate_iff [symmetric] split: sum.splits)
  show ?thesis
    by (auto simp: diagnose_def both_given_def finish_diag_def rbind_Inr_iff load evaluate_passes [symmetric] split: option.splits if_splits; blast)
qed

lemma isl_rbind: "isl (rbind m f) \<longleftrightarrow> isl m \<or> (\<exists>x. m = Inr x \<and> isl (f x))"
  by (cases m) auto

lemma isl_ok_or: "isl (ok_or e x) \<longleftrightarrow> x = None"
  by (cases x) auto

lemma not_isl_iff: "\<not> isl m \<longleftrightarrow> (\<exists>x. m = Inr x)"
  by (cases m) auto

lemma isl_rmap: "isl (rmap f xs) \<longleftrightarrow> (\<exists>x \<in> set xs. isl (f x))"
  by (induction xs) (auto simp: isl_rbind not_isl_iff)

lemma isl_opt_check: "isl (opt_check f x) \<longleftrightarrow> (\<exists>v. x = Some v \<and> isl (f v))"
  by (cases x) (auto simp: opt_check_def isl_rbind)

text \<open>
  Evaluating a gate is an error exactly when the measured table is empty, a stage an
  assertion reads has no row at the largest N, or the baseline cannot be read, holds no row, or
  lacks a compared stage there; nothing is skipped.
\<close>

lemma gate_errors_iff:
  "isl (evaluate_gate rd c wall) \<longleftrightarrow>
   wall = [] \<or>
   (rules_eps_min (gc_absolute c) \<noteq> None \<and> eps_at wall ''rules'' (largest_n wall) = None) \<or>
   (per_rule_ns_max (gc_absolute c) \<noteq> None \<and>
      (eps_at wall ''floor'' (largest_n wall) = None \<or> eps_at wall ''rules'' (largest_n wall) = None)) \<or>
   (\<exists>path. rel_baseline (gc_relative c) = Some path \<and>
      (case rd path of Inl e \<Rightarrow> True
       | Inr content \<Rightarrow> parse_wall_table content = [] \<or>
           (\<exists>s \<in> set (rel_stages (gc_relative c)). eps_at wall s (largest_n wall) = None \<or>
              eps_at (parse_wall_table content) s (largest_n wall) = None)))"
proof (cases "wall = []")
  case True
  then show ?thesis by (simp add: evaluate_gate_def)
next
  case False
  have per_rule: "isl (check_per_rule k wall cap) \<longleftrightarrow>
      eps_at wall ''floor'' (largest_n wall) = None \<or> eps_at wall ''rules'' (largest_n wall) = None" for k cap
    by (auto simp: check_per_rule_def isl_rbind measured_at_def isl_ok_or ok_or_Inr Let_def max_n_largest [OF False])
  have rules: "isl (check_rules_eps wall mn) \<longleftrightarrow> eps_at wall ''rules'' (largest_n wall) = None" for mn
    by (simp add: check_rules_eps_def isl_rbind measured_at_def isl_ok_or max_n_largest [OF False])
  have regr: "isl (check_regression path base pct wall s) \<longleftrightarrow>
      eps_at wall s (largest_n wall) = None \<or> eps_at base s (largest_n wall) = None" for path base pct s
    by (auto simp: check_regression_def isl_rbind measured_at_def isl_ok_or ok_or_Inr Let_def max_n_largest [OF False])
  have "isl (evaluate_gate rd c wall) \<longleftrightarrow>
      isl (opt_check (check_rules_eps wall) (rules_eps_min (gc_absolute c))) \<or>
      isl (opt_check (check_per_rule (rule_count c) wall) (per_rule_ns_max (gc_absolute c))) \<or>
      isl (relative_checks rd (gc_relative c) wall)"
    using False by (auto simp: evaluate_gate_def isl_rbind not_isl_iff)
  also have "isl (relative_checks rd (gc_relative c) wall) \<longleftrightarrow>
      (\<exists>path. rel_baseline (gc_relative c) = Some path \<and>
      (case rd path of Inl e \<Rightarrow> True
       | Inr content \<Rightarrow> parse_wall_table content = [] \<or>
           (\<exists>s \<in> set (rel_stages (gc_relative c)). eps_at wall s (largest_n wall) = None \<or>
              eps_at (parse_wall_table content) s (largest_n wall) = None)))"
    by (auto simp: relative_checks_def read_wall_file_def isl_rbind isl_rmap regr Let_def split: option.splits sum.splits if_splits)
  finally show ?thesis using False by (auto simp: isl_opt_check rules per_rule)
qed

section \<open>What the gate lets through\<close>

text \<open>
  A baseline is recorded with its EPS rounded to an integer, so a run judged against the baseline
  it has just recorded, with no regression allowed, fails when the rounding went up.
\<close>

lemma own_baseline_fails:
  "evaluate_gate (\<lambda>_. Inr (baseline_text [\<lparr>wr_stage = ''rules'', wr_eps = Fin False 3 (- 1), wr_n = 10, wr_rounds = 1\<rparr>]))
     \<lparr>rule_count = 0, gc_absolute = \<lparr>rules_eps_min = None, per_rule_ns_max = None\<rparr>,
      gc_relative = \<lparr>rel_baseline = Some ''b'', rel_stages = [''rules''], max_regression_pct = Some f64_zero\<rparr>\<rparr>
     [\<lparr>wr_stage = ''rules'', wr_eps = Fin False 3 (- 1), wr_n = 10, wr_rounds = 1\<rparr>] =
   Inr [\<lparr>chk_metric = ''eps_regression'', chk_stage = ''rules'', chk_measured = Fin False 3 (- 1),
         chk_threshold = f64_of_nat 2, chk_unit = ''eps'', chk_relation = ''>='', chk_passed = False\<rparr>]"
  (is "evaluate_gate _ ?c [?r] = _")
proof -
  have "plain_word ''rules''" by (simp add: plain_word_def is_ascii_ws_def)
  then have "parse_wall_row (render_wall_row ?r) = Some (?r\<lparr>wr_eps := f64_of_nat 2\<rparr>)" "clean_line (render_wall_row ?r)"
    using parse_rendered_row [of ?r] rendered_clean [of ?r] by (simp_all add: three_halves del: integral.simps(3))
  then have "parse_wall_table (baseline_text [?r]) = [?r\<lparr>wr_eps := f64_of_nat 2\<rparr>]"
    using str_lines_joined [of "[render_wall_row ?r]"]
    by (simp add: parse_wall_table_def baseline_text_def map_filter_def three_halves del: integral.simps(3))
  then show ?thesis
    by (simp add: evaluate_gate_def opt_check_def relative_checks_def read_wall_file_def check_regression_def
          measured_at_def eps_at_def find_first_def max_n_def allowed_eps_def f64_eval)
qed

text \<open>
  A cost that is not a number counts as zero: a table whose stages measured 0 EPS (a frame file
  without rows) meets any cap on the cost of a rule. An infinite cap is accepted as positive.
\<close>

lemma nothing_measured_meets_cap:
  "per_rule_cost rules f64_zero f64_zero = f64_zero"
  by (simp add: per_rule_cost_def f64_eval)

lemma infinite_cap_accepted:
  "gate_validate \<lparr>rule_count = 1, gc_absolute = \<lparr>rules_eps_min = None, per_rule_ns_max = Some (Inf False)\<rparr>,
      gc_relative = default_relative\<rparr> = Inr ()"
  "c \<noteq> NaN \<Longrightarrow> fle c (Inf False)"
  by (simp_all add: gate_validate_def default_relative_def positive_value_def fle_def f64_zero_def) (cases c; simp)

end
