(* ===== verification/PerfDiag.thy ===== *)
theory PerfDiag
  imports RustText FrameShards InjectPlan
begin

text \<open>
  The measuring side of the performance diagnosis: the list of row counts, the scan of a frame file,
  the byte range that is sent for a row count, the sentinel records the engine leaves in a file,
  the wait for one and the throughput computed from it (\<open>wfgen/src/cmd_perf_diag/frames.rs\<close>,
  \<open>sentinel.rs\<close> and the round loop of \<open>mod.rs\<close>). The decoder of a frame payload and the JSON
  parser are parameters; a wait polls a list of contents of the sentinel file, whose last element
  is the poll at which the deadline is over. Row totals are natural numbers.
\<close>

section \<open>Row counts\<close>

definition n_list_error :: "string \<Rightarrow> wfgen_error" where
  "n_list_error part =
     WfgenError RValidation (''invalid --n-list entry '' @ dquoted part @ '': expected count like 100k/1m/3m'')"

definition count_suffix :: "string \<Rightarrow> string \<times> nat" where
  "count_suffix part =
     (if last part \<in> {CHR ''k'', CHR ''K''} then (butlast part, 1000)
      else if last part \<in> {CHR ''m'', CHR ''M''} then (butlast part, 1000000)
      else if last part \<in> {CHR ''g'', CHR ''G''} then (butlast part, 1000000000)
      else (part, 1))"

definition parse_count :: "string \<Rightarrow> wfgen_error + nat" where
  "parse_count part =
     (case count_suffix part of (num, unit_value) \<Rightarrow>
        rbind (ok_or (n_list_error part) (parse_u64 num)) (\<lambda>v. Inr (min (v * unit_value) u64_max)))"

definition parse_n_list :: "string \<Rightarrow> wfgen_error + nat list" where
  "parse_n_list spec =
     (if trim spec = [] then Inr []
      else rbind (rmap parse_count (filter (\<lambda>p. p \<noteq> []) (map trim (split_on (CHR '','') (trim spec))))) (\<lambda>out.
             if out = [] then Inl (WfgenError RValidation ''--n-list must contain at least one count'') else Inr out))"

section \<open>Frames of a file\<close>

record frame_info =
  fi_offset :: nat
  fi_len :: nat
  fi_rows :: nat

definition ser_err :: "string \<Rightarrow> wfgen_error" where
  "ser_err m = WfgenError RSerialization m"

text \<open>\<open>read_until(b' ')\<close>: up to and with the first space, or all that is left.\<close>

definition read_until_space :: "bytes \<Rightarrow> bytes" where
  "read_until_space s = (let w = takeWhile (\<lambda>b. b \<noteq> 32) s in if length w < length s then w @ [32] else w)"

function scan_from :: "(bytes \<Rightarrow> string + nat) \<Rightarrow> bytes \<Rightarrow> nat \<Rightarrow> wfgen_error + frame_info list" where
  "scan_from decode s offset =
     (if s = [] then Inr []
      else let buf = read_until_space s;
               rest = drop (length buf) s;
               len_str = text_of (butlast buf)
           in if \<not> utf8_valid (butlast buf) then Inl (ser_err ''frame length prefix is not ascii'')
              else (case parse_u64 (trim len_str) of
                      None \<Rightarrow> Inl (ser_err (''invalid frame length prefix '' @ dquoted len_str))
                    | Some len \<Rightarrow>
                        if length rest < len then Inl (WfgenError RIo ''truncated frame payload'')
                        else (case decode (take len rest) of
                                Inl e \<Rightarrow> Inl (ser_err (''decode frame at offset '' @ dec_digits offset @ '': '' @ e))
                              | Inr rows \<Rightarrow>
                                  rbind (scan_from decode (drop len rest) (offset + len + length buf)) (\<lambda>fs.
                                    Inr (\<lparr>fi_offset = offset, fi_len = len + length buf, fi_rows = rows\<rparr> # fs)))))"
  by pat_completeness auto
termination
proof (relation "measure (\<lambda>(d, s, off). length s)", goal_cases)
  case (2 decode s offset buf rest len_str len rows)
  then have "length buf \<noteq> 0" by (cases s) (auto simp: read_until_space_def Let_def split: if_splits)
  then show ?case using 2 by (cases s) auto
qed simp

declare scan_from.simps [simp del]

definition scan_frames :: "(bytes \<Rightarrow> string + nat) \<Rightarrow> bytes \<Rightarrow> wfgen_error + frame_info list" where
  "scan_frames decode s = scan_from decode s 0"

text \<open>The prefix of the file that is sent for \<open>n\<close> rows: its end and the rows in it.\<close>

fun prefix_loop :: "frame_info list \<Rightarrow> nat \<Rightarrow> nat \<Rightarrow> nat \<Rightarrow> nat \<times> nat" where
  "prefix_loop [] n end_at rows = (end_at, rows)"
| "prefix_loop (f # fs) n end_at rows =
     (if n \<le> rows + fi_rows f then (fi_offset f + fi_len f, rows + fi_rows f)
      else prefix_loop fs n (fi_offset f + fi_len f) (rows + fi_rows f))"

definition prefix_range_for_n :: "frame_info list \<Rightarrow> nat \<Rightarrow> nat \<times> nat" where
  "prefix_range_for_n fs n =
     (case prefix_loop fs n 0 0 of (end_at, rows) \<Rightarrow>
        if rows < n \<and> fs \<noteq> [] then (fi_offset (last fs) + fi_len (last fs), rows) else (end_at, rows))"

section \<open>Sentinel records\<close>

record sentinel_rec =
  sr_type :: string
  sr_current :: "int option"
  sr_round :: "int option"
  sr_n :: "int option"
  sr_start_ns :: "int option"
  sr_emit_ns :: "int option"

definition in_i64 :: "int \<Rightarrow> bool" where
  "in_i64 i = (- (2 ^ 63) \<le> i \<and> i < 2 ^ 63)"

definition parse_i64 :: "string \<Rightarrow> int option" where
  "parse_i64 s =
     (case split_sign s of (neg, ds) \<Rightarrow>
        let v = (if neg then - int (digits_value ds) else int (digits_value ds))
        in if ds \<noteq> [] \<and> list_all is_digit ds \<and> in_i64 v then Some v else None)"

definition num_field :: "jmap \<Rightarrow> string \<Rightarrow> int option" where
  "num_field m k =
     (case map_of m k of
        Some (JInt i) \<Rightarrow> if in_i64 i then Some i else None
      | Some (JString s) \<Rightarrow> parse_i64 s
      | _ \<Rightarrow> None)"

definition sentinel_line :: "(string \<Rightarrow> json option) \<Rightarrow> string \<Rightarrow> sentinel_rec option" where
  "sentinel_line from_json line =
     (if trim line = [] then None
      else (case from_json (trim line) of
              Some (JObject m) \<Rightarrow>
                (case map_of m ''record_type'' of
                   Some (JString t) \<Rightarrow>
                     Some \<lparr>sr_type = t, sr_current = num_field m ''current'', sr_round = num_field m ''round'',
                           sr_n = num_field m ''n'', sr_start_ns = num_field m ''start_ns'', sr_emit_ns = num_field m ''emit_ns''\<rparr>
                 | _ \<Rightarrow> None)
            | _ \<Rightarrow> None))"

datatype content = NoFile | Unreadable string | Content string

definition read_sentinel_file :: "(string \<Rightarrow> json option) \<Rightarrow> content \<Rightarrow> string + sentinel_rec list" where
  "read_sentinel_file from_json c =
     (case c of NoFile \<Rightarrow> Inr [] | Unreadable e \<Rightarrow> Inl e
      | Content s \<Rightarrow> Inr (List.map_filter (sentinel_line from_json) (str_lines s)))"

definition is_stage :: "int \<Rightarrow> sentinel_rec \<Rightarrow> bool" where
  "is_stage k r = (sr_type r = ''stage'' \<and> sr_current r = Some k)"

definition is_sentinel :: "int \<Rightarrow> int \<Rightarrow> sentinel_rec \<Rightarrow> bool" where
  "is_sentinel rnd n r = (sr_type r = ''sentinel'' \<and> sr_round r = Some rnd \<and> sr_n r = Some n)"

datatype wait_error = Timeout | ReadError string | TimeOrder

fun poll :: "(string \<Rightarrow> json option) \<Rightarrow> (sentinel_rec list \<Rightarrow> 'a option) \<Rightarrow> content list \<Rightarrow> wait_error + 'a" where
  "poll from_json hit [] = Inl Timeout"
| "poll from_json hit (c # cs) =
     (case read_sentinel_file from_json c of Inl e \<Rightarrow> Inl (ReadError e)
      | Inr rs \<Rightarrow> (case hit rs of Some x \<Rightarrow> Inr x | None \<Rightarrow> poll from_json hit cs))"

definition wait_for_stage :: "(string \<Rightarrow> json option) \<Rightarrow> int \<Rightarrow> content list \<Rightarrow> wait_error + unit" where
  "wait_for_stage from_json k = poll from_json (\<lambda>rs. if list_ex (is_stage k) rs then Some () else None)"

definition nth_sentinel :: "int \<Rightarrow> int \<Rightarrow> nat \<Rightarrow> sentinel_rec list \<Rightarrow> sentinel_rec option" where
  "nth_sentinel rnd n occurrence rs =
     (let matching = filter (is_sentinel rnd n) rs
      in if occurrence < length matching \<and> sr_start_ns (matching ! occurrence) \<noteq> None \<and> sr_emit_ns (matching ! occurrence) \<noteq> None
         then Some (matching ! occurrence) else None)"

definition wait_for_sentinel ::
  "(string \<Rightarrow> json option) \<Rightarrow> int \<Rightarrow> int \<Rightarrow> nat \<Rightarrow> content list \<Rightarrow> wait_error + sentinel_rec" where
  "wait_for_sentinel from_json rnd n occurrence = poll from_json (nth_sentinel rnd n occurrence)"

section \<open>Throughput\<close>

definition saturate_i64 :: "int \<Rightarrow> int" where
  "saturate_i64 i = (if i < - (2 ^ 63) then - (2 ^ 63) else if 2 ^ 63 \<le> i then 2 ^ 63 - 1 else i)"

definition compute_eps :: "int \<Rightarrow> int \<Rightarrow> int \<Rightarrow> f64 option" where
  "compute_eps n start_ns emit_ns =
     (let dt = saturate_i64 (emit_ns - start_ns)
      in if dt \<le> 0 then None
         else Some (fdiv (fmul (f64_of_int n) (f64_of_nat 1000000000)) (f64_of_int dt)))"

text \<open>The rounds of one stage \<open>k\<close> and row count: \<open>polls ! r\<close> are the contents of the sentinel file
  that round \<open>r\<close> sees while it waits. The best throughput of the rounds counts.\<close>

fun measure_rounds ::
  "(string \<Rightarrow> json option) \<Rightarrow> int \<Rightarrow> int \<Rightarrow> nat \<Rightarrow> content list list \<Rightarrow> f64 \<Rightarrow> wait_error + f64" where
  "measure_rounds from_json k sent_n r [] best = Inr best"
| "measure_rounds from_json k sent_n r (cs # css) best =
     rbind (wait_for_sentinel from_json k sent_n r cs) (\<lambda>rec.
       case compute_eps (case sr_n rec of None \<Rightarrow> sent_n | Some n \<Rightarrow> n) (the (sr_start_ns rec)) (the (sr_emit_ns rec)) of
         None \<Rightarrow> Inl TimeOrder
       | Some eps \<Rightarrow> measure_rounds from_json k sent_n (Suc r) css (fmax best eps))"

section \<open>The scan sees the frames that were written\<close>

lemma text_of_dec_bytes: "text_of (dec_bytes n) = dec_digits n"
proof (induction n rule: dec_bytes.induct)
  case (1 n)
  have d: "char_of (unat (of_nat (48 + k) :: u8)) = digit_char k" if "k < 10" for k
    unfolding unat_digit [OF that] by (simp add: digit_char_def)
  show ?case
  proof (cases "n < 10")
    case True
    then show ?thesis using d [of n] by (simp add: dec_bytes.simps [of n] dec_digits.simps [of n] text_of_def)
  next
    case False
    then show ?thesis
      using 1 d [of "n mod 10"] by (simp add: dec_bytes.simps [of n] dec_digits.simps [of n] text_of_def)
  qed
qed

lemma ascii_utf8: "list_all (\<lambda>b. unat b < 0x80) bs \<Longrightarrow> length bs \<le> k \<Longrightarrow> utf8_valid_fuel k bs"
proof (induction k arbitrary: bs)
  case (Suc k)
  then show ?case by (cases bs) (simp_all add: utf8_step_def)
qed simp

lemma dec_bytes_ascii: "list_all is_digit_byte ds \<Longrightarrow> utf8_valid ds \<and> takeWhile (\<lambda>b. b \<noteq> 32) (ds @ 32 # r) = ds"
proof -
  assume d: "list_all is_digit_byte ds"
  have "is_digit_byte b \<Longrightarrow> b \<noteq> 32 \<and> unat b < 0x80" for b by (auto simp: is_digit_byte_def)
  then have "list_all (\<lambda>b. unat b < 0x80) ds" "\<forall>b \<in> set ds. b \<noteq> 32" using d by (auto simp: list_all_iff)
  then show ?thesis using ascii_utf8 [of ds "length ds"] by (simp add: utf8_valid_def takeWhile_append)
qed

lemma trim_digits: "trim (dec_digits n) = dec_digits n"
proof -
  have "\<not> is_ascii_ws c" if "c \<in> set (dec_digits n)" for c
    using that dec_digits_plain [of n] by (auto simp: plain_word_def list_all_iff)
  then show ?thesis
    by (simp add: trim_def trim_start_def trim_end_def dropWhile_eq_self_iff [THEN iffD2] hd_rev)
qed

definition payload_rows :: "(bytes \<Rightarrow> string + nat) \<Rightarrow> bytes \<Rightarrow> nat" where
  "payload_rows decode p = (case decode p of Inl e \<Rightarrow> 0 | Inr rows \<Rightarrow> rows)"

definition decodable :: "(bytes \<Rightarrow> string + nat) \<Rightarrow> bytes \<Rightarrow> bool" where
  "decodable decode p = (frame_ok p \<and> \<not> isl (decode p))"

fun infos_from :: "(bytes \<Rightarrow> string + nat) \<Rightarrow> nat \<Rightarrow> bytes list \<Rightarrow> frame_info list" where
  "infos_from decode off [] = []"
| "infos_from decode off (p # ps) =
     \<lparr>fi_offset = off, fi_len = length (write_frame p), fi_rows = payload_rows decode p\<rparr> #
     infos_from decode (off + length (write_frame p)) ps"

lemma write_frame_length: "length (write_frame p) = Suc (length p + length (dec_bytes (length p)))"
  by (simp add: write_frame_def)

lemma scan_written:
  "list_all (decodable decode) ps \<Longrightarrow> scan_from decode (concat (map write_frame ps)) off = Inr (infos_from decode off ps)"
proof (induction ps arbitrary: off)
  case Nil
  then show ?case by (simp add: scan_from.simps)
next
  case (Cons p ps)
  obtain rows where rows: "decode p = Inr rows" "frame_ok p"
    using Cons.prems by (cases "decode p") (auto simp: decodable_def)
  let ?s = "concat (map write_frame (p # ps))"
  have s: "?s = dec_bytes (length p) @ 32 # p @ concat (map write_frame ps)" by (simp add: write_frame_def)
  have tw: "takeWhile (\<lambda>b. b \<noteq> 32) ?s = dec_bytes (length p)" "utf8_valid (dec_bytes (length p))"
    using dec_bytes_ascii [of "dec_bytes (length p)"] dec_bytes_digits unfolding s by (auto simp: list_all_iff)
  have len: "parse_u64 (trim (text_of (dec_bytes (length p)))) = Some (length p)"
    using parse_u64_dec [of "length p"] rows(2) by (simp add: text_of_dec_bytes trim_digits frame_ok_def del: parse_u64_dec)
  have buf: "read_until_space ?s = dec_bytes (length p) @ [32]"
    unfolding read_until_space_def Let_def tw(1) by (simp add: write_frame_def)
  have rest: "drop (length (dec_bytes (length p) @ [32])) ?s = p @ concat (map write_frame ps)"
    by (simp only: s) simp
  have ne: "?s \<noteq> []" by (simp add: write_frame_def)
  show ?case
    unfolding scan_from.simps [of decode ?s] buf Let_def rest butlast_snoc len
    using Cons.IH [of "off + length p + length (dec_bytes (length p) @ [32])"] Cons.prems ne rows tw(2)
    by (simp add: payload_rows_def write_frame_length add.assoc del: concat.simps)
qed

section \<open>The prefix that is sent\<close>

abbreviation rows_of :: "(bytes \<Rightarrow> string + nat) \<Rightarrow> bytes list \<Rightarrow> nat" where
  "rows_of decode ps \<equiv> sum_list (map (payload_rows decode) ps)"

lemma prefix_loop_spec:
  "prefix_loop (infos_from decode off ps) n off rows0 = (e, r) \<Longrightarrow>
   \<exists>k \<le> length ps. e = off + length (concat (map write_frame (take k ps))) \<and>
     r = rows0 + rows_of decode (take k ps) \<and> (n \<le> r \<or> k = length ps) \<and>
     (\<forall>j < k. j = 0 \<or> rows0 + rows_of decode (take j ps) < n)"
proof (induction ps arbitrary: off rows0)
  case Nil
  then show ?case by simp
next
  case (Cons p ps)
  let ?rows = "rows0 + payload_rows decode p"
  show ?case
  proof (cases "n \<le> ?rows")
    case True
    then show ?thesis using Cons.prems by (intro exI [of _ 1]) simp
  next
    case False
    then have "prefix_loop (infos_from decode (off + length (write_frame p)) ps) n (off + length (write_frame p)) ?rows = (e, r)"
      using Cons.prems by simp
    from Cons.IH [OF this] obtain k where k: "k \<le> length ps"
      "e = off + length (write_frame p) + length (concat (map write_frame (take k ps)))"
      "r = ?rows + rows_of decode (take k ps)" "n \<le> r \<or> k = length ps"
      "\<forall>j < k. j = 0 \<or> ?rows + rows_of decode (take j ps) < n" by blast
    have "j = 0 \<or> rows0 + rows_of decode (take j (p # ps)) < n" if "j < Suc k" for j
    proof (cases j)
      case (Suc i)
      then have "i = 0 \<or> ?rows + rows_of decode (take i ps) < n" using k(5) that by simp
      then show ?thesis using False Suc by (cases i) (simp_all add: add.assoc)
    qed simp
    then show ?thesis using k(1-4) by (intro exI [of _ "Suc k"]) (simp add: add.assoc)
  qed
qed

lemma infos_last:
  "ps \<noteq> [] \<Longrightarrow> infos_from decode off ps \<noteq> [] \<and>
     fi_offset (last (infos_from decode off ps)) + fi_len (last (infos_from decode off ps)) =
     off + length (concat (map write_frame ps))"
proof (induction ps arbitrary: off)
  case (Cons p ps)
  show ?case
  proof (cases "ps = []")
    case False
    then have "infos_from decode (off + length (write_frame p)) ps \<noteq> []" by (cases ps) simp_all
    then show ?thesis using Cons.IH [OF False, of "off + length (write_frame p)"] by (simp add: add.assoc)
  qed simp
qed simp

lemma take_concat_prefix: "take (length (concat (map f (take k xs)))) (concat (map f xs)) = concat (map f (take k xs))"
  by (metis append_eq_conv_conj append_take_drop_id concat_append map_append)

text \<open>
  C33: the bytes sent for a row count are the shortest non-empty run of whole frames from the head
  of the file that holds that many rows, or the whole file when it holds fewer: the engine reads
  exactly those payloads, and the row count reported with them is the number of their rows.
\<close>

theorem sent_prefix_is_shortest:
  assumes "list_all (decodable decode) ps"
    and "scan_frames decode (concat (map write_frame ps)) = Inr fs"
    and "prefix_range_for_n fs n = (end_at, rows)"
  shows "\<exists>k \<le> length ps.
     read_all (take end_at (concat (map write_frame ps))) = Inr (take k ps) \<and>
     rows = rows_of decode (take k ps) \<and> (n \<le> rows \<or> k = length ps) \<and>
     (\<forall>j < k. j = 0 \<or> rows_of decode (take j ps) < n)"
proof -
  have fs: "fs = infos_from decode 0 ps" using assms(2) scan_written [OF assms(1)] by (simp add: scan_frames_def)
  obtain e r where loop: "prefix_loop fs n 0 0 = (e, r)" by fastforce
  then obtain k where k: "k \<le> length ps" "e = length (concat (map write_frame (take k ps)))"
    "r = rows_of decode (take k ps)" "n \<le> r \<or> k = length ps" "\<forall>j < k. j = 0 \<or> rows_of decode (take j ps) < n"
    using prefix_loop_spec [of decode 0 ps n 0 e r] fs by auto
  have "end_at = e \<and> rows = r"
    using assms(3) loop k(2,4) infos_last [of ps decode 0] fs
    by (cases "ps = []") (auto simp: prefix_range_for_n_def split: if_splits)
  moreover have "list_all frame_ok (take k ps)"
    using assms(1) by (auto simp: list_all_iff decodable_def dest: in_set_takeD)
  then have "read_all (concat (map write_frame (take k ps))) = Inr (take k ps)" by (rule fr.dec_all_concat)
  ultimately show ?thesis using k by (intro exI [of _ k]) (simp add: take_concat_prefix)
qed

lemma sent_prefix_is_shortest_witness:
  "\<exists>k \<le> 3.
     read_all (take 7 (concat (map write_frame [[1], [2, 2], [3]]))) = Inr (take k [[1], [2, 2], [3]]) \<and>
     (3::nat) = rows_of (\<lambda>p. Inr (length p)) (take k [[1], [2, 2], [3]]) \<and> (2 \<le> (3::nat) \<or> k = 3) \<and>
     (\<forall>j < k. j = 0 \<or> rows_of (\<lambda>p. Inr (length p)) (take j [[1], [2, 2], [3]]) < 2)"
proof -
  let ?ps = "[[1], [2, 2], [3]] :: bytes list" and ?d = "\<lambda>p :: bytes. Inr (length p)"
  have dec: "list_all (decodable ?d) ?ps" by (simp add: decodable_def frame_ok_def)
  have s1: "scan_frames ?d (concat (map write_frame ?ps)) = Inr (infos_from ?d 0 ?ps)"
    unfolding scan_frames_def by (rule scan_written [OF dec])
  have s2: "prefix_range_for_n (infos_from ?d 0 ?ps) 2 = (7, 3)"
    by (simp add: prefix_range_for_n_def payload_rows_def write_frame_def dec_bytes.simps)
  have "length ?ps = 3" by simp
  then show ?thesis using sent_prefix_is_shortest [OF dec s1 s2] by (simp only:)
qed

section \<open>A record that was there before\<close>

text \<open>
  The wait takes the record at a position among all records of its stage and row count. Once the
  file holds that many, what the engine appends later is not looked at: two row counts of one list
  that are reached within the same frame send the same number of rows, and the second is given
  the measurements of the first.
\<close>

lemma nth_sentinel_append: "nth_sentinel k n r rs = Some x \<Longrightarrow> nth_sentinel k n r (rs @ added) = Some x"
  by (auto simp: nth_sentinel_def Let_def nth_append split: if_splits)

lemma earlier_record_is_taken:
  assumes "read_sentinel_file from_json c = Inr rs" "nth_sentinel k n r rs = Some x"
    and "read_sentinel_file from_json later = Inr (rs @ added)"
  shows "wait_for_sentinel from_json k n r (later # polls) = Inr x"
  using assms nth_sentinel_append by (simp add: wait_for_sentinel_def)

lemma same_frame_same_prefix:
  "\<lbrakk>0 < n; n \<le> m; m \<le> fi_rows f\<rbrakk> \<Longrightarrow> prefix_range_for_n (f # fs) n = prefix_range_for_n (f # fs) m"
  by (simp add: prefix_range_for_n_def)

end
