(* ===== verification/OracleWindow.thy ===== *)
theory OracleWindow
  imports F64
begin

text \<open>
  The window state that the reference evaluator keeps for joins (\<open>wfgen/src/oracle/window.rs\<close>): rows
  by key, an index of the keys by time, the removal of rows a new row makes too old, and the
  lookups. Times are 64-bit integers whose subtraction wraps around. Events and their fields belong
  to the engine: reading a field is a parameter \<open>field_value\<close>. The last sections prove that this
  state is a list of rows with a retention rule: for times in order the rule of the source's comment,
  for other orders one that looks at the row that arrives.
\<close>

section \<open>Values and keys\<close>

text \<open>The engine's values as far as a key looks at them.\<close>

datatype lookup_value = VNumber f64 | VStr string | VBool bool | VOther

text \<open>\<open>f64::to_bits\<close> (the standard NaN).\<close>

fun to_bits :: "f64 \<Rightarrow> nat" where
  "to_bits NaN = 0x7FF8000000000000"
| "to_bits (Inf s) = (if s then 2 ^ 63 else 0) + 0x7FF0000000000000"
| "to_bits (Fin s m e) =
     (if s then 2 ^ 63 else 0) + (if m < 2 ^ 52 then m else nat (e + 1075) * 2 ^ 52 + (m - 2 ^ 52))"

fun value_key_repr :: "lookup_value \<Rightarrow> string option" where
  "value_key_repr (VNumber n) = Some (''n:'' @ dec_digits (to_bits n))"
| "value_key_repr (VStr s) = Some (''s:'' @ s)"
| "value_key_repr (VBool b) = Some (''b:'' @ (if b then ''true'' else ''false''))"
| "value_key_repr VOther = None"

definition wrap_i64 :: "int \<Rightarrow> int" where
  "wrap_i64 i = (i + 2 ^ 63) mod 2 ^ 64 - 2 ^ 63"

section \<open>One window\<close>

record 'e oracle_window =
  key_field :: string
  win_rows :: "string \<rightharpoonup> (int \<times> 'e) list"
  by_ts :: "(int \<times> string list) list"
  over_nanos :: int

text \<open>The ordered map \<open>by_ts\<close> is the list of its entries in order; the loop pops the first entry
  while it is not above the cutoff.\<close>

fun pop_expired :: "int \<Rightarrow> (int \<times> string list) list \<Rightarrow> string list \<times> (int \<times> string list) list" where
  "pop_expired cutoff [] = ([], [])"
| "pop_expired cutoff ((t, ks) # r) =
     (if cutoff < t then ([], (t, ks) # r)
      else (case pop_expired cutoff r of (ex, rest) \<Rightarrow> (ks @ ex, rest)))"

definition retain_after :: "int \<Rightarrow> string \<Rightarrow> (string \<rightharpoonup> (int \<times> 'e) list) \<Rightarrow> (string \<rightharpoonup> (int \<times> 'e) list)" where
  "retain_after cutoff k m =
     (case m k of None \<Rightarrow> m
      | Some rs \<Rightarrow>
          (case filter (\<lambda>(t, e). cutoff < t) rs of [] \<Rightarrow> m(k := None) | rs' \<Rightarrow> m(k \<mapsto> rs')))"

definition expire_before :: "int \<Rightarrow> 'e oracle_window \<Rightarrow> 'e oracle_window" where
  "expire_before watermark w =
     (if over_nanos w \<le> 0 then w
      else let cutoff = wrap_i64 (watermark - over_nanos w)
           in case pop_expired cutoff (by_ts w) of (ex, rest) \<Rightarrow>
                w\<lparr>win_rows := fold (retain_after cutoff) ex (win_rows w), by_ts := rest\<rparr>)"

definition event_key :: "('e \<Rightarrow> string \<Rightarrow> lookup_value option) \<Rightarrow> string \<Rightarrow> 'e \<Rightarrow> string option" where
  "event_key field_value f e = Option.bind (field_value e f) value_key_repr"

definition feed_one :: "('e \<Rightarrow> string \<Rightarrow> lookup_value option) \<Rightarrow> 'e \<Rightarrow> int \<Rightarrow> 'e oracle_window \<Rightarrow> 'e oracle_window" where
  "feed_one field_value e t w0 =
     (let w = expire_before t w0
      in case event_key field_value (key_field w) e of None \<Rightarrow> w
         | Some k \<Rightarrow> w\<lparr>win_rows := push_at k (t, e) (win_rows w), by_ts := bt_push t k (by_ts w)\<rparr>)"

section \<open>The windows of a rule\<close>

record join_plan =
  right_window :: string
  cond_fields :: "string option list"

type_synonym 'e oracle_lookup = "string \<rightharpoonup> 'e oracle_window"

definition new_window :: "string \<Rightarrow> nat \<Rightarrow> 'e oracle_window" where
  "new_window f over = \<lparr>key_field = f, win_rows = Map.empty, by_ts = [], over_nanos = wrap_i64 (int over)\<rparr>"

text \<open>Schemas are names with their retention in nanoseconds; a condition is the name of its right
  field, if it has one.\<close>

definition add_join :: "(string \<times> nat) list \<Rightarrow> join_plan \<Rightarrow> 'e oracle_lookup \<Rightarrow> 'e oracle_lookup" where
  "add_join schemas j ws =
     (case map_of schemas (right_window j) of None \<Rightarrow> ws
      | Some over \<Rightarrow>
          (case cond_fields j of [] \<Rightarrow> ws
           | c # _ \<Rightarrow> (case c of None \<Rightarrow> ws | Some f \<Rightarrow> ws(right_window j \<mapsto> new_window f over))))"

definition build :: "join_plan list \<Rightarrow> (string \<times> nat) list \<Rightarrow> 'e oracle_lookup option" where
  "build joins schemas =
     (if joins = [] then None
      else let ws = fold (add_join schemas) joins Map.empty
           in if \<forall>j \<in> set joins. ws (right_window j) = None then None else Some ws)"

definition feed_window ::
  "('e \<Rightarrow> string \<Rightarrow> lookup_value option) \<Rightarrow> string \<Rightarrow> 'e \<Rightarrow> int \<Rightarrow> 'e oracle_lookup \<Rightarrow> 'e oracle_lookup" where
  "feed_window field_value name e t ws =
     (case ws name of None \<Rightarrow> ws | Some w \<Rightarrow> ws(name \<mapsto> feed_one field_value e t w))"

definition asof_candidates :: "'e oracle_lookup \<Rightarrow> string \<Rightarrow> string \<Rightarrow> lookup_value \<Rightarrow> (int \<times> 'e) list option" where
  "asof_candidates ws name f v =
     (case ws name of None \<Rightarrow> None
      | Some w \<Rightarrow>
          if key_field w \<noteq> f then None
          else (case value_key_repr v of None \<Rightarrow> None | Some k \<Rightarrow> win_rows w k))"

definition join_lookup :: "'e oracle_lookup \<Rightarrow> string \<Rightarrow> string \<Rightarrow> lookup_value \<Rightarrow> 'e list option" where
  "join_lookup ws name f v =
     (case ws name of None \<Rightarrow> None
      | Some w \<Rightarrow>
          if key_field w \<noteq> f then None
          else (case value_key_repr v of None \<Rightarrow> None
                | Some k \<Rightarrow> map_option (map snd) (win_rows w k)))"

text \<open>The snapshots go through the keys in the order \<open>ks\<close> in which the hash map yields them.\<close>

definition snapshot_with_timestamps :: "string list \<Rightarrow> 'e oracle_lookup \<Rightarrow> string \<Rightarrow> (int \<times> 'e) list option" where
  "snapshot_with_timestamps ks ws name =
     map_option (\<lambda>w. concat (map (\<lambda>k. case win_rows w k of None \<Rightarrow> [] | Some rs \<Rightarrow> rs) ks)) (ws name)"

definition snapshot :: "string list \<Rightarrow> 'e oracle_lookup \<Rightarrow> string \<Rightarrow> 'e list option" where
  "snapshot ks ws name = map_option (map snd) (snapshot_with_timestamps ks ws name)"

section \<open>Retention as an interface\<close>

text \<open>The rows of a feed that no later row made too old, in order.\<close>

fun survivors :: "(int \<Rightarrow> int \<Rightarrow> bool) \<Rightarrow> ('e \<times> int) list \<Rightarrow> ('e \<times> int) list" where
  "survivors too_old [] = []"
| "survivors too_old ((e, t) # fs) =
     (if list_ex (\<lambda>(d, u). too_old u t) fs then survivors too_old fs else (e, t) # survivors too_old fs)"

lemma survivors_snoc:
  "survivors too_old (fs @ [(e, t)]) = filter (\<lambda>(d, u). \<not> too_old t u) (survivors too_old fs) @ [(e, t)]"
  by (induction too_old fs rule: survivors.induct) auto

text \<open>
  What a window promises: a row that is fed first removes what it makes too old, then is found
  under its key after the rows that were there. Whatever keeps these two laws holds exactly the rows
  that no later row made too old.
\<close>

locale retention =
  fixes rows_at :: "'w \<Rightarrow> 'k \<Rightarrow> (int \<times> 'e) list"
    and feed :: "'e \<times> int \<Rightarrow> 'w \<Rightarrow> 'w"
    and inv :: "'w \<Rightarrow> bool"
    and key :: "'e \<Rightarrow> 'k option"
    and too_old :: "int \<Rightarrow> int \<Rightarrow> bool"
  assumes inv_feed: "inv w \<Longrightarrow> inv (feed (e, t) w)"
    and rows_feed: "inv w \<Longrightarrow> rows_at (feed (e, t) w) k =
      filter (\<lambda>(u, d). \<not> too_old t u) (rows_at w k) @ (if key e = Some k then [(t, e)] else [])"
begin

lemma inv_feeds: "inv w \<Longrightarrow> inv (fold feed fs w)"
  by (induction fs arbitrary: w) (auto simp: inv_feed)

theorem kept_rows:
  assumes "inv w" "\<And>k. rows_at w k = []"
  shows "rows_at (fold feed fs w) k =
    map (\<lambda>(e, t). (t, e)) (filter (\<lambda>(e, t). key e = Some k) (survivors too_old fs))"
proof (induction fs rule: rev_induct)
  case Nil
  then show ?case using assms(2) by simp
next
  case (snoc x fs)
  obtain e t where x: "x = (e, t)" by (cases x)
  have "filter (\<lambda>(u, d). \<not> too_old t u) (map (\<lambda>(e, t). (t, e)) ys) =
        map (\<lambda>(e, t). (t, e)) (filter (\<lambda>(d, u). \<not> too_old t u) ys)" for ys :: "('e \<times> int) list"
    by (induction ys) auto
  then show ?case
    using rows_feed [OF inv_feeds [OF assms(1)], of e t fs k] snoc
    by (simp add: x survivors_snoc filter_filter conj_commute split_def)
qed

end

section \<open>The window keeps the laws\<close>

definition rows_at :: "'e oracle_window \<Rightarrow> string \<Rightarrow> (int \<times> 'e) list" where
  "rows_at w k = (case win_rows w k of None \<Rightarrow> [] | Some rs \<Rightarrow> rs)"

definition indexed :: "'e oracle_window \<Rightarrow> bool" where
  "indexed w \<longleftrightarrow> sorted_wrt (<) (map fst (by_ts w)) \<and>
     (\<forall>k t. t \<in> fst ` set (rows_at w k) \<longleftrightarrow> (\<exists>ks. (t, ks) \<in> set (by_ts w) \<and> k \<in> set ks)) \<and>
     (\<forall>k. win_rows w k \<noteq> Some [])"

lemma wrap_id: "- (2 ^ 63) \<le> i \<Longrightarrow> i < 2 ^ 63 \<Longrightarrow> wrap_i64 i = i"
  by (simp add: wrap_i64_def)

text \<open>A row at \<open>u\<close> is too old for a window with retention \<open>over\<close> when one at \<open>t\<close> arrives.\<close>

definition too_old :: "int \<Rightarrow> int \<Rightarrow> int \<Rightarrow> bool" where
  "too_old over t u = (0 < over \<and> u \<le> wrap_i64 (t - over))"

lemma pop_expired_spec:
  assumes "sorted_wrt (<) (map fst bt)" "pop_expired c bt = (ex, rest)"
  shows "rest = filter (\<lambda>(t, ks). c < t) bt \<and> set ex = \<Union> (set ` snd ` {x \<in> set bt. fst x \<le> c})"
  using assms
proof (induction c bt arbitrary: ex rest rule: pop_expired.induct)
  case (2 c t ks r)
  show ?case
  proof (cases "c < t")
    case True
    then have "\<forall>x \<in> set r. c < fst x" using 2(2) by auto
    then have "filter (\<lambda>(t, ks). c < t) r = r" and none: "{x \<in> set ((t, ks) # r). fst x \<le> c} = {}"
      using True by (auto simp: filter_id_conv split: prod.splits)
    then show ?thesis using 2(3) True unfolding none by auto
  next
    case False
    obtain ex' where ex': "pop_expired c r = (ex', rest)" "ex = ks @ ex'"
      using 2(3) False by (auto split: prod.splits)
    from 2(1) [OF False _ ex'(1)] 2(2) show ?thesis using False ex'(2) by auto
  qed
qed simp

definition some_rows :: "(int \<times> 'e) list \<Rightarrow> (int \<times> 'e) list option" where
  "some_rows rs = (if rs = [] then None else Some rs)"

definition live :: "int \<Rightarrow> (int \<times> 'e) list option \<Rightarrow> (int \<times> 'e) list option" where
  "live c x = Option.bind x (\<lambda>rs. some_rows (filter (\<lambda>(t, e). c < t) rs))"

lemma live_idem: "live c (live c x) = live c x"
  by (cases x) (auto simp: live_def some_rows_def)

lemma live_rows: "(case live c x of None \<Rightarrow> [] | Some rs \<Rightarrow> rs) = filter (\<lambda>(t, e). c < t) (case x of None \<Rightarrow> [] | Some rs \<Rightarrow> rs)"
  by (cases x) (auto simp: live_def some_rows_def)

lemma retain_after_eq: "retain_after c k m = m(k := live c (m k))"
  by (cases "m k") (auto simp: retain_after_def live_def some_rows_def fun_upd_idem split: list.splits)

lemma fold_retain: "fold (retain_after c) ex m k = (if k \<in> set ex then live c (m k) else m k)"
  by (induction ex arbitrary: m) (simp_all add: retain_after_eq live_idem)

lemma expire_rows:
  assumes "indexed w"
  shows "rows_at (expire_before t w) k = filter (\<lambda>(u, d). \<not> too_old (over_nanos w) t u) (rows_at w k)"
    and "indexed (expire_before t w)"
proof -
  have "rows_at (expire_before t w) k = filter (\<lambda>(u, d). \<not> too_old (over_nanos w) t u) (rows_at w k) \<and> indexed (expire_before t w)" for k
  proof (cases "over_nanos w \<le> 0")
    case True
    then show ?thesis using assms by (simp add: expire_before_def too_old_def)
  next
    case False
    define c where "c = wrap_i64 (t - over_nanos w)"
    obtain ex rest where pop: "pop_expired c (by_ts w) = (ex, rest)" by fastforce
    have w': "expire_before t w = w\<lparr>win_rows := fold (retain_after c) ex (win_rows w), by_ts := rest\<rparr>"
      using False pop by (simp add: expire_before_def c_def)
    have srt: "sorted_wrt (<) (map fst (by_ts w))" and idx: "\<And>k t. t \<in> fst ` set (rows_at w k) \<longleftrightarrow> (\<exists>ks. (t, ks) \<in> set (by_ts w) \<and> k \<in> set ks)"
      and ne: "\<And>k. win_rows w k \<noteq> Some []" using assms unfolding indexed_def by blast+
    have rest: "rest = filter (\<lambda>(t, ks). c < t) (by_ts w)"
      and ex: "set ex = \<Union> (set ` snd ` {x \<in> set (by_ts w). fst x \<le> c})" using pop_expired_spec [OF srt pop] by auto
    have all_live: "live c (win_rows w k) = win_rows w k" if "k \<notin> set ex" for k
    proof -
      have "c < u" if u: "u \<in> fst ` set (rows_at w k)" for u
      proof -
        obtain ks where ks: "(u, ks) \<in> set (by_ts w)" "k \<in> set ks" using idx [of u k] u by metis
        have "k \<in> set ex" if "u \<le> c"
          unfolding ex
          by (rule UnionI [of "set ks"], rule imageI [of ks], rule image_eqI [of _ snd "(u, ks)"]) (use ks that in simp_all)
        then show ?thesis using \<open>k \<notin> set ex\<close> by (meson not_le)
      qed
      note newer = this
      show ?thesis
      proof (cases "win_rows w k")
        case (Some rs)
        then have "\<forall>x \<in> set rs. c < fst x" using newer by (simp add: rows_at_def)
        then have "filter (\<lambda>(t, e). c < t) rs = rs" by (auto simp: filter_id_conv)
        then show ?thesis using ne [of k] Some by (simp add: live_def some_rows_def)
      qed (simp add: live_def)
    qed
    have rows: "win_rows (expire_before t w) k = live c (win_rows w k)" for k
      by (simp add: w' fold_retain all_live)
    have at: "rows_at (expire_before t w) k = filter (\<lambda>(t, e). c < t) (rows_at w k)" for k
      unfolding rows_at_def rows by (rule live_rows)
    have "indexed (expire_before t w)"
      unfolding indexed_def at
    proof (intro conjI allI)
      show "sorted_wrt (<) (map fst (by_ts (expire_before t w)))"
        using srt by (simp add: w' rest sorted_wrt_map sorted_wrt_filter)
      show "u \<in> fst ` set (filter (\<lambda>(t, e). c < t) (rows_at w k)) \<longleftrightarrow>
          (\<exists>ks. (u, ks) \<in> set (by_ts (expire_before t w)) \<and> k \<in> set ks)" for k u
      proof -
        have "u \<in> fst ` set (filter (\<lambda>(t, e). c < t) (rows_at w k)) \<longleftrightarrow> c < u \<and> u \<in> fst ` set (rows_at w k)" by force
        then show ?thesis unfolding idx by (auto simp: w' rest)
      qed
      show "win_rows (expire_before t w) k \<noteq> Some []" for k
        unfolding rows by (cases "win_rows w k") (auto simp: live_def some_rows_def)
    qed
    moreover have "filter (\<lambda>(t, e). c < t) (rows_at w k) = filter (\<lambda>(u, d). \<not> too_old (over_nanos w) t u) (rows_at w k)"
      using False by (auto simp: too_old_def c_def not_le intro!: filter_cong)
    ultimately show ?thesis by (simp add: at)
  qed
  then show "rows_at (expire_before t w) k = filter (\<lambda>(u, d). \<not> too_old (over_nanos w) t u) (rows_at w k)"
    "indexed (expire_before t w)" by simp_all
qed

lemma expire_same [simp]: "over_nanos (expire_before t w) = over_nanos w" "key_field (expire_before t w) = key_field w"
  by (simp_all add: expire_before_def Let_def split: prod.splits)

lemma feed_same [simp]: "over_nanos (feed_one fv e t w) = over_nanos w" "key_field (feed_one fv e t w) = key_field w"
  by (simp_all add: feed_one_def Let_def split: option.splits)

lemma rows_at_push:
  "rows_at (w\<lparr>win_rows := push_at k (t, e) (win_rows w), by_ts := bt\<rparr>) j = rows_at w j @ (if j = k then [(t, e)] else [])"
  by (simp add: rows_at_def push_at_def)

lemma feed_one_rows:
  assumes "indexed w"
  shows "rows_at (feed_one fv e t w) k =
      filter (\<lambda>(u, d). \<not> too_old (over_nanos w) t u) (rows_at w k) @
      (if event_key fv (key_field w) e = Some k then [(t, e)] else [])"
    and "indexed (feed_one fv e t w)"
proof -
  let ?w = "expire_before t w"
  note exp = expire_rows [OF assms]
  show "rows_at (feed_one fv e t w) k = filter (\<lambda>(u, d). \<not> too_old (over_nanos w) t u) (rows_at w k) @
      (if event_key fv (key_field w) e = Some k then [(t, e)] else [])"
    using exp(1) by (simp add: feed_one_def Let_def rows_at_push split: option.splits)
  show "indexed (feed_one fv e t w)"
  proof (cases "event_key fv (key_field w) e")
    case None
    then show ?thesis using exp(2) by (simp add: feed_one_def)
  next
    case (Some j)
    have srt: "sorted_wrt (<) (map fst (by_ts ?w))" and idx: "\<And>k u. u \<in> fst ` set (rows_at ?w k) \<longleftrightarrow> (\<exists>ks. (u, ks) \<in> set (by_ts ?w) \<and> k \<in> set ks)"
      and ne: "\<And>k. win_rows ?w k \<noteq> Some []" using exp(2) [of t] unfolding indexed_def by blast+
    have w': "feed_one fv e t w = ?w\<lparr>win_rows := push_at j (t, e) (win_rows ?w), by_ts := bt_push t j (by_ts ?w)\<rparr>"
      by (simp add: feed_one_def Some Let_def)
    show ?thesis
      unfolding indexed_def w' rows_at_push
    proof (intro conjI allI)
      show "sorted_wrt (<) (map fst (by_ts (?w\<lparr>win_rows := push_at j (t, e) (win_rows ?w), by_ts := bt_push t j (by_ts ?w)\<rparr>)))"
        using bt_push_sorted [OF srt] by simp
      show "u \<in> fst ` set (rows_at ?w k @ (if k = j then [(t, e)] else [])) \<longleftrightarrow>
          (\<exists>ks. (u, ks) \<in> set (by_ts (?w\<lparr>win_rows := push_at j (t, e) (win_rows ?w), by_ts := bt_push t j (by_ts ?w)\<rparr>)) \<and> k \<in> set ks)"
        for k u using idx [of u k] bt_push_mem [OF srt, of u t j k] by auto
      show "win_rows (?w\<lparr>win_rows := push_at j (t, e) (win_rows ?w), by_ts := bt_push t j (by_ts ?w)\<rparr>) k \<noteq> Some []" for k
        using ne [of k] by (simp add: push_at_def)
    qed
  qed
qed

definition kept_as :: "string \<Rightarrow> int \<Rightarrow> 'e oracle_window \<Rightarrow> bool" where
  "kept_as f over w = (indexed w \<and> key_field w = f \<and> over_nanos w = over)"

interpretation ow: retention rows_at "\<lambda>(e, t). feed_one fv e t" "kept_as f over" "event_key fv f" "too_old over"
  for fv f over
  by unfold_locales (auto simp: kept_as_def feed_one_rows)

section \<open>The lookups of a rule\<close>

definition feed_all ::
  "('e \<Rightarrow> string \<Rightarrow> lookup_value option) \<Rightarrow> (string \<times> 'e \<times> int) list \<Rightarrow> 'e oracle_lookup \<Rightarrow> 'e oracle_lookup" where
  "feed_all fv fs ws = fold (\<lambda>(name, e, t). feed_window fv name e t) fs ws"

definition own_feed :: "string \<Rightarrow> (string \<times> 'e \<times> int) list \<Rightarrow> ('e \<times> int) list" where
  "own_feed name fs = map snd (filter (\<lambda>x. fst x = name) fs)"

text \<open>A window sees the rows of its own stream only.\<close>

lemma feed_all_window:
  "feed_all fv fs ws name = map_option (fold (\<lambda>(e, t). feed_one fv e t) (own_feed name fs)) (ws name)"
proof (induction fs arbitrary: ws)
  case Nil
  then show ?case by (simp add: feed_all_def own_feed_def option.map_ident)
next
  case (Cons x fs)
  obtain n e t where x: "x = (n, e, t)" by (cases x)
  have "feed_all fv (x # fs) ws name = feed_all fv fs (feed_window fv n e t ws) name" by (simp add: feed_all_def x)
  then show ?case unfolding Cons by (cases "ws n") (auto simp: feed_window_def own_feed_def x)
qed

definition fresh :: "'e oracle_window \<Rightarrow> bool" where
  "fresh w \<longleftrightarrow> (\<exists>f over. w = new_window f over)"

lemma add_join_fresh: "pred_option fresh (ws name) \<Longrightarrow> pred_option fresh (add_join schemas j ws name)"
  by (auto simp: add_join_def fresh_def split: option.splits list.splits)

lemma add_joins_fresh: "pred_option fresh (ws name) \<Longrightarrow> pred_option fresh (fold (add_join schemas) js ws name)"
  by (induction js arbitrary: ws) (simp_all add: add_join_fresh)

lemma build_fresh: "build joins schemas = Some ws \<Longrightarrow> ws name = Some w \<Longrightarrow> fresh w"
proof -
  assume b: "build joins schemas = Some ws" and w: "ws name = Some w"
  then have ws: "ws = fold (add_join schemas) joins Map.empty" by (simp add: build_def Let_def split: if_splits)
  have "pred_option fresh (ws name)" unfolding ws by (rule add_joins_fresh) simp
  then show "fresh w" using w by simp
qed

lemma fresh_kept: "kept_as f (wrap_i64 (int over)) (new_window f over)" "rows_at (new_window f over) k = []"
  by (simp_all add: kept_as_def indexed_def new_window_def rows_at_def)

lemma win_rows_some: "indexed w \<Longrightarrow> win_rows w k = some_rows (rows_at w k)"
  by (cases "win_rows w k") (auto simp: indexed_def rows_at_def some_rows_def)

text \<open>For any order of times: a row is there until some later row of its window makes it too old.\<close>

lemma lookup_any_order:
  fixes fv :: "'e \<Rightarrow> string \<Rightarrow> lookup_value option"
  shows "case build joins schemas of None \<Rightarrow> True
   | Some ws \<Rightarrow>
      (let found = (case ws name of None \<Rightarrow> None
           | Some w \<Rightarrow> if key_field w \<noteq> f then None
              else (case value_key_repr v of None \<Rightarrow> None
                    | Some k \<Rightarrow> some_rows (map (\<lambda>(e, t). (t, e)) (filter (\<lambda>(e, t). event_key fv f e = Some k)
                        (survivors (too_old (over_nanos w)) (own_feed name fs))))))
       in asof_candidates (feed_all fv fs ws) name f v = found \<and>
          join_lookup (feed_all fv fs ws) name f v = map_option (map snd) found)"
proof (cases "build joins schemas :: 'e oracle_lookup option")
  case (Some ws)
  show ?thesis
  proof (cases "ws name")
    case None
    then show ?thesis by (simp add: Some asof_candidates_def join_lookup_def feed_all_window)
  next
    case Some': (Some w)
    obtain g over where w: "w = new_window g over" using build_fresh [OF Some Some'] by (auto simp: fresh_def)
    define w' where "w' = fold (\<lambda>(e, t). feed_one fv e t) (own_feed name fs) w"
    have kept: "kept_as g (over_nanos w) w'"
      using ow.inv_feeds [OF fresh_kept(1)] by (simp add: w'_def w new_window_def)
    have rows: "win_rows w' k = some_rows (map (\<lambda>(e, t). (t, e)) (filter (\<lambda>(e, t). event_key fv g e = Some k)
        (survivors (too_old (over_nanos w)) (own_feed name fs))))" for k
    proof -
      have over: "over_nanos w = wrap_i64 (int over)" by (simp add: w new_window_def)
      have "rows_at w' k = map (\<lambda>(e, t). (t, e)) (filter (\<lambda>(e, t). event_key fv g e = Some k)
          (survivors (too_old (wrap_i64 (int over))) (own_feed name fs)))"
        unfolding w'_def w by (rule ow.kept_rows [OF fresh_kept])
      then show ?thesis using win_rows_some [of w' k] kept by (simp add: kept_as_def over)
    qed
    have kf: "key_field w' = key_field w" "key_field w = g" using kept by (simp_all add: kept_as_def w new_window_def)
    show ?thesis
      using kf by (auto simp: Some Some' asof_candidates_def join_lookup_def feed_all_window w'_def [symmetric] rows
          Let_def split: option.splits)
  qed
qed simp

section \<open>Times in order\<close>

text \<open>While no subtraction wraps, the retention rule is the one of the comment: \<open>ts + over <= watermark\<close>.\<close>

lemma too_old_plain:
  "- (2 ^ 63) \<le> t - over \<Longrightarrow> t - over < 2 ^ 63 \<Longrightarrow> too_old over t u \<longleftrightarrow> 0 < over \<and> u + over \<le> t"
  by (auto simp: too_old_def wrap_id)

lemma survivors_in_order:
  assumes "sorted (map snd fs)" "\<forall>(e, t) \<in> set fs. - (2 ^ 63) \<le> t - over \<and> t < 2 ^ 63" "0 \<le> over"
  shows "survivors (too_old over) fs = filter (\<lambda>(e, t). over = 0 \<or> snd (last fs) < t + over) fs"
  using assms(1,2)
proof (induction fs rule: rev_induct)
  case (snoc x fs)
  obtain e t where x: "x = (e, t)" by (cases x)
  have old: "too_old over t u \<longleftrightarrow> 0 < over \<and> u + over \<le> t" for u
    using snoc.prems(2) assms(3) by (intro too_old_plain) (auto simp: x)
  have newest: "snd (last fs) \<le> t" if "fs \<noteq> []"
    using snoc.prems(1) last_in_set [OF that] by (auto simp: x sorted_append)
  have "survivors (too_old over) fs = filter (\<lambda>(e, t). over = 0 \<or> snd (last fs) < t + over) fs"
    using snoc by (simp add: sorted_append)
  then have "survivors (too_old over) (fs @ [x]) =
      filter (\<lambda>(d, u). \<not> (0 < over \<and> u + over \<le> t)) (filter (\<lambda>(e, t). over = 0 \<or> snd (last fs) < t + over) fs) @ [x]"
    by (simp add: x survivors_snoc old)
  also have "\<dots> = filter (\<lambda>(d, u). over = 0 \<or> t < u + over) fs @ [x]"
    using newest assms(3) by (cases "fs = []") (auto simp: intro!: filter_cong)
  finally show ?case using assms(3) by (auto simp: x)
qed simp

text \<open>The key field and the retention of a window, read off the joins and the schemas: the last usable join on it names the key.\<close>

definition first_field :: "join_plan \<Rightarrow> string option" where
  "first_field j = (case cond_fields j of [] \<Rightarrow> None | c # _ \<Rightarrow> c)"

definition tracked :: "join_plan list \<Rightarrow> (string \<times> nat) list \<Rightarrow> string \<Rightarrow> (string \<times> nat) option" where
  "tracked joins schemas name =
     (case (filter (\<lambda>j. right_window j = name \<and> first_field j \<noteq> None) joins, map_of schemas name) of
        ([], _) \<Rightarrow> None | (_, None) \<Rightarrow> None
      | (js, Some over) \<Rightarrow> Some (the (first_field (last js)), over))"

lemma add_joins_tracked:
  "fold (add_join schemas) joins Map.empty name = map_option (\<lambda>(g, over). new_window g over) (tracked joins schemas name)"
proof (induction joins rule: rev_induct)
  case (snoc j joins)
  then show ?case
    by (cases "map_of schemas name"; cases "filter (\<lambda>j. right_window j = name \<and> first_field j \<noteq> None) joins")
      (auto simp: tracked_def add_join_def first_field_def split: option.splits list.splits)
qed (simp add: tracked_def)

lemma build_tracked:
  "build joins schemas = Some ws \<Longrightarrow> ws name = map_option (\<lambda>(g, over). new_window g over) (tracked joins schemas name)"
  by (auto simp: build_def Let_def add_joins_tracked split: if_splits)

text \<open>
  C34: When the rows of a window arrive in order of their times, a lookup by the field that the last usable
  join on the window names answers exactly the rows of the window with that key that are younger
  than the retention of the window's schema at the newest row of the window (\<open>ts + over <= watermark\<close>
  expires, as the source's comment has it; no retention keeps all), with their times, in order of
  arrival, and nothing when there is none or the field is another; rows of other windows, in any order,
  do not matter. Premises: times are in order within the window, and 64 bits hold them, the retention
  and their difference.
  A row that is late by more than the retention is found until the next arrives, against the comment
  (\<open>late_row_is_found\<close>, and \<open>lookup_any_order\<close> for what holds then).
\<close>

theorem lookup_answers_live_rows:
  fixes fv :: "'e \<Rightarrow> string \<Rightarrow> lookup_value option"
  assumes "build joins schemas = Some ws"
    and "sorted (map snd (own_feed name fs))"
    and "pred_option (\<lambda>(g, over). int over < 2 ^ 63 \<and> list_all (\<lambda>(e, t). - (2 ^ 63) \<le> t - int over \<and> t < 2 ^ 63) (own_feed name fs))
      (tracked joins schemas name)"
  shows "let found = (case (tracked joins schemas name, value_key_repr v) of
           (Some (g, over), Some k) \<Rightarrow>
             (if g \<noteq> f then None
              else some_rows (map (\<lambda>(e, t). (t, e)) (filter (\<lambda>(e, t). event_key fv g e = Some k \<and>
                     (over = 0 \<or> snd (last (own_feed name fs)) < t + int over)) (own_feed name fs))))
         | _ \<Rightarrow> None)
    in asof_candidates (feed_all fv fs ws) name f v = found \<and>
       join_lookup (feed_all fv fs ws) name f v = map_option (map snd) found"
proof (cases "tracked joins schemas name")
  case None
  then show ?thesis using lookup_any_order [where joins = joins and schemas = schemas and name = name and f = f and v = v and fv = fv and fs = fs] build_tracked [OF assms(1)] by (simp add: assms(1))
next
  case (Some go)
  obtain g over where go: "go = (g, over)" by (cases go)
  have w: "ws name = Some (new_window g over)" using build_tracked [OF assms(1), of name] Some go by simp
  have o: "wrap_i64 (int over) = int over" using assms(3) by (simp add: Some go wrap_id)
  have live: "survivors (too_old (int over)) (own_feed name fs) =
      filter (\<lambda>(e, t). int over = 0 \<or> snd (last (own_feed name fs)) < t + int over) (own_feed name fs)"
    using assms(2,3) by (intro survivors_in_order) (auto simp: Some go list_all_iff)
  have "filter (\<lambda>(e, t). event_key fv g e = Some k) (survivors (too_old (int over)) (own_feed name fs)) =
      filter (\<lambda>(e, t). event_key fv g e = Some k \<and> (over = 0 \<or> snd (last (own_feed name fs)) < t + int over)) (own_feed name fs)" for k
    unfolding live filter_filter by (rule filter_cong) auto
  then show ?thesis
    using lookup_any_order [where joins = joins and schemas = schemas and name = name and f = f and v = v and fv = fv and fs = fs]
    by (cases "f = g"; cases "value_key_repr v") (simp_all add: assms(1) w o Some go new_window_def)
qed

section \<open>Late rows and joins on one window\<close>

text \<open>
  The watermark of a window is the time of the row that arrives, not the largest seen: a row that
  is late by more than the retention is stored and found until the next row arrives. And a window
  has one key field, that of the last join on it: a lookup by the key field of an earlier join on
  the same window never finds a row. First a run with times in order.
\<close>

definition example_field :: "string \<Rightarrow> string \<Rightarrow> lookup_value option" where
  "example_field e f = Some (VStr e)"

theorem lookup_answers_live_rows_witness:
  "\<exists>ws. build [\<lparr>right_window = ''bid'', cond_fields = [Some ''id'']\<rparr>] [(''bid'', 10)] = Some ws \<and>
     asof_candidates (feed_all example_field [(''bid'', ''a'', 1), (''ask'', ''a'', 90), (''bid'', ''a'', 5), (''bid'', ''b'', 12)] ws)
       ''bid'' ''id'' (VStr ''a'') = Some [(5, ''a'')]"
proof -
  let ?joins = "[\<lparr>right_window = ''bid'', cond_fields = [Some ''id'']\<rparr>]" and ?schemas = "[(''bid'', 10)] :: (string \<times> nat) list"
  let ?fs = "[(''bid'', ''a'', 1), (''ask'', ''a'', 90), (''bid'', ''a'', 5), (''bid'', ''b'', 12)] :: (string \<times> string \<times> int) list"
  obtain ws :: "string oracle_lookup" where b: "build ?joins ?schemas = Some ws" by (simp add: build_def add_join_def)
  have t: "tracked ?joins ?schemas ''bid'' = Some (''id'', 10)" by (simp add: tracked_def first_field_def)
  have own: "own_feed ''bid'' ?fs = [(''a'', 1), (''a'', 5), (''b'', 12)]" by (simp add: own_feed_def)
  have "asof_candidates (feed_all example_field ?fs ws) ''bid'' ''id'' (VStr ''a'') = Some [(5, ''a'')]"
    using lookup_answers_live_rows [OF b, where name = "''bid''" and fs = ?fs and v = "VStr ''a''" and f = "''id''" and fv = example_field]
    by (simp add: t own event_key_def example_field_def some_rows_def)
  then show ?thesis using b by blast
qed

lemma late_row_is_found:
  "map_option (\<lambda>ws. asof_candidates (feed_all example_field [(''bid'', ''a'', 100), (''bid'', ''a'', 1)] ws) ''bid'' ''id'' (VStr ''a''))
     (build [\<lparr>right_window = ''bid'', cond_fields = [Some ''id'']\<rparr>] [(''bid'', 10)]) =
   Some (Some [(100, ''a''), (1, ''a'')])"
  by (simp add: build_def add_join_def new_window_def wrap_i64_def feed_all_def feed_window_def feed_one_def
      expire_before_def event_key_def example_field_def push_at_def asof_candidates_def)

lemma earlier_join_finds_nothing:
  assumes "f \<noteq> g" "build [\<lparr>right_window = n, cond_fields = [Some f]\<rparr>, \<lparr>right_window = n, cond_fields = [Some g]\<rparr>] [(n, over)] = Some ws"
  shows "join_lookup (feed_all fv fs ws) n f v = None"
proof -
  have "ws n = Some (new_window g over)" using assms(2) by (auto simp: build_def add_join_def)
  moreover have "key_field (fold (\<lambda>(e, t). feed_one fv e t) xs w) = key_field w" for xs and w :: "'a oracle_window"
    by (induction xs arbitrary: w) auto
  ultimately show ?thesis using assms(1) by (simp add: join_lookup_def feed_all_window new_window_def)
qed

end
