(* ===== verification/RuleGroups.thy ===== *)
theory RuleGroups
  imports Prelude
begin

text \<open>
  The grouping of rules for a parallel verification run (\<open>wfgen/src/cmd_verify_nexmark.rs\<close>): a
  rule that reads the window another rule yields to must run in the same group (the code keeps one
  yielder of each window, the last). The code merges
  rules with a union-find array whose \<open>find\<close> halves paths while it climbs. A result is \<open>None\<close> when
  the loop does not end, \<open>Some (Inl _)\<close> for a panic (an index out of range); the theory shows that
  neither happens and that the groups are the connected components of the dependencies.
\<close>

section \<open>The union-find array\<close>

type_synonym 'a run = "(string + 'a) option"

definition run_bind :: "'a run \<Rightarrow> ('a \<Rightarrow> 'b run) \<Rightarrow> 'b run" where
  "run_bind m f = (case m of None \<Rightarrow> None | Some (Inl e) \<Rightarrow> Some (Inl e) | Some (Inr x) \<Rightarrow> f x)"

lemma run_bind_simps [simp]:
  "run_bind None f = None" "run_bind (Some (Inl e)) f = Some (Inl e)" "run_bind (Some (Inr x)) f = f x"
  by (simp_all add: run_bind_def)

fun run_fold :: "('a \<Rightarrow> 's \<Rightarrow> 's run) \<Rightarrow> 'a list \<Rightarrow> 's \<Rightarrow> 's run" where
  "run_fold f [] s = Some (Inr s)"
| "run_fold f (x # xs) s = run_bind (f x s) (run_fold f xs)"

definition out_of_bounds :: string where
  "out_of_bounds = ''index out of bounds''"

partial_function (option) uf_find :: "nat list \<Rightarrow> nat \<Rightarrow> (string + nat list \<times> nat) option" where
  "uf_find g i =
     (if length g \<le> i then Some (Inl out_of_bounds)
      else if g ! i = i then Some (Inr (g, i))
      else if length g \<le> g ! i then Some (Inl out_of_bounds)
      else uf_find (g[i := g ! (g ! i)]) (g ! (g ! i)))"

definition uf_link :: "nat list \<Rightarrow> nat \<Rightarrow> nat \<Rightarrow> nat list run" where
  "uf_link g i j =
     run_bind (uf_find g i) (\<lambda>(g1, ri).
     run_bind (uf_find g1 j) (\<lambda>(g2, rj).
       if length g2 \<le> ri then Some (Inl out_of_bounds) else Some (Inr (g2[ri := rj]))))"

section \<open>Groups of rules\<close>

record rule_deps =
  yield_target :: string
  bind_windows :: "string list"

text \<open>\<open>yield_idx\<close>: a window that several rules yield to is kept with the last of them.\<close>

definition yield_idx :: "rule_deps list \<Rightarrow> string \<rightharpoonup> nat" where
  "yield_idx plans = fold (\<lambda>(i, p) m. m(yield_target p \<mapsto> i)) (enumerate 0 plans) Map.empty"

definition link_bind :: "(string \<rightharpoonup> nat) \<Rightarrow> nat \<Rightarrow> string \<Rightarrow> nat list \<Rightarrow> nat list run" where
  "link_bind idx i w g = (case idx w of None \<Rightarrow> Some (Inr g) | Some j \<Rightarrow> uf_link g i j)"

definition link_rules :: "rule_deps list \<Rightarrow> nat list run" where
  "link_rules plans =
     run_fold (\<lambda>(i, p). run_fold (link_bind (yield_idx plans) i) (bind_windows p)) (enumerate 0 plans) [0..<length plans]"

definition collect_group :: "nat \<Rightarrow> nat list \<times> (nat \<times> nat list) list \<Rightarrow> (nat list \<times> (nat \<times> nat list) list) run" where
  "collect_group i s =
     (case s of (g, bt) \<Rightarrow> run_bind (uf_find g i) (\<lambda>(g1, r). Some (Inr (g1, bt_push r i bt))))"

definition rule_groups :: "rule_deps list \<Rightarrow> nat list list run" where
  "rule_groups plans =
     run_bind (link_rules plans) (\<lambda>g.
     run_bind (run_fold collect_group [0..<length g] (g, [])) (\<lambda>(g1, bt). Some (Inr (map snd bt))))"

section \<open>Roots and forests\<close>

inductive root_of :: "nat list \<Rightarrow> nat \<Rightarrow> nat \<Rightarrow> bool" for g where
  here: "g ! i = i \<Longrightarrow> root_of g i i"
| up: "g ! i \<noteq> i \<Longrightarrow> root_of g (g ! i) r \<Longrightarrow> root_of g i r"

inductive_cases root_ofE: "root_of g i r"

inductive_simps root_of_iff: "root_of g i r"

text \<open>A forest has a depth that falls along every edge.\<close>

definition forest :: "(nat \<Rightarrow> nat) \<Rightarrow> nat list \<Rightarrow> bool" where
  "forest d g \<longleftrightarrow> (\<forall>i < length g. g ! i < length g \<and> (g ! i = i \<or> d (g ! i) < d i))"

lemma forestD: "forest d g \<Longrightarrow> i < length g \<Longrightarrow> g ! i < length g"
  "forest d g \<Longrightarrow> i < length g \<Longrightarrow> g ! i \<noteq> i \<Longrightarrow> d (g ! i) < d i"
  by (auto simp: forest_def)

lemma root_unique: "root_of g i r \<Longrightarrow> root_of g i s \<Longrightarrow> r = s"
proof (induction rule: root_of.induct)
  case (here i)
  then show ?case by (auto elim: root_ofE)
next
  case (up i r)
  then show ?case by (metis root_ofE)
qed

lemma root_is_root: "root_of g i r \<Longrightarrow> g ! r = r"
  by (induction rule: root_of.induct)

lemma root_exists: "forest d g \<Longrightarrow> i < length g \<Longrightarrow> \<exists>r < length g. root_of g i r"
proof (induction "d i" arbitrary: i rule: less_induct)
  case less
  show ?case
  proof (cases "g ! i = i")
    case True
    then have "root_of g i i" by (rule root_of.here)
    then show ?thesis using less.prems(2) by auto
  next
    case False
    from less.hyps [OF forestD(2) [OF less.prems False] less.prems(1) forestD(1) [OF less.prems]]
    obtain r where "r < length g" "root_of g (g ! i) r" by auto
    then show ?thesis using root_of.up [OF False] by auto
  qed
qed

definition halved :: "nat list \<Rightarrow> nat \<Rightarrow> nat list" where
  "halved g i = g[i := g ! (g ! i)]"

lemma halved_forest:
  assumes f: "forest d g" and i: "i < length g"
  shows "forest d (halved g i)"
proof -
  have p: "g ! i < length g" using forestD(1) [OF f i] .
  have "g ! (g ! i) = i \<or> d (g ! (g ! i)) < d i"
    using forestD(2) [OF f i] forestD(2) [OF f p] by (cases "g ! i = i"; cases "g ! (g ! i) = g ! i") auto
  then show ?thesis
    using f i forestD(1) [OF f p] by (simp add: forest_def halved_def nth_list_update)
qed

lemma halved_root_imp:
  assumes "forest d g" "i < length g" "root_of g x r"
  shows "root_of (halved g i) x r"
  using assms(3)
proof (induction rule: root_of.induct)
  case (here x)
  then have "halved g i ! x = x" using assms(2) by (simp add: halved_def nth_list_update)
  then show ?case by (rule root_of.here)
next
  case (up x r)
  show ?case
  proof (cases "x = i")
    case False
    then have "halved g i ! x = g ! x" by (simp add: halved_def)
    then show ?thesis using up(1,3) root_of.up [of "halved g i" x r] by simp
  next
    case True
    let ?p = "g ! i"
    have pi: "?p \<noteq> i" using up(1) True by simp
    have h: "halved g i ! i = g ! ?p" "halved g i ! ?p = g ! ?p" using pi assms(2) by (simp_all add: halved_def)
    have "g ! ?p \<noteq> i"
    proof
      assume "g ! ?p = i"
      then have "d i < d ?p" using forestD [OF assms(1)] assms(2) pi by metis
      then show False using forestD(2) [OF assms(1,2) pi] by simp
    qed
    moreover have "root_of (halved g i) (g ! ?p) r"
    proof (cases "g ! ?p = ?p")
      case True
      then show ?thesis using up(3) \<open>x = i\<close> by simp
    next
      case False
      then show ?thesis using up(3) \<open>x = i\<close> h(2) by (metis root_ofE)
    qed
    ultimately show ?thesis using True h(1) root_of.up [of "halved g i" i r] by simp
  qed
qed

lemma halved_root:
  assumes "forest d g" "i < length g" "x < length g"
  shows "root_of (halved g i) x r \<longleftrightarrow> root_of g x r"
  using root_exists [OF assms(1,3)] halved_root_imp [OF assms(1,2)] root_unique by metis

text \<open>\<open>find\<close> ends without a panic, gives the root, and leaves every root as it was.\<close>

lemma uf_find_root:
  assumes "forest d g" "i < length g"
  shows "\<exists>g1 r. uf_find g i = Some (Inr (g1, r)) \<and> forest d g1 \<and> length g1 = length g \<and> r < length g \<and> root_of g i r \<and>
    (\<forall>x < length g. root_of g1 x = root_of g x)"
  using assms
proof (induction "d i" arbitrary: g i rule: less_induct)
  case less
  show ?case
  proof (cases "g ! i = i")
    case True
    then show ?thesis using less.prems by (auto simp: uf_find.simps [of g i] intro: root_of.here)
  next
    case False
    let ?p = "g ! i" and ?g = "halved g i"
    note p = forestD [OF less.prems] False
    have pp: "g ! ?p < length g" using forestD(1) [OF less.prems(1) p(1)] .
    have "d (g ! ?p) < d i" using forestD(2) [OF less.prems(1) p(1)] p(2) [OF False] by (cases "g ! ?p = ?p") auto
    from less.hyps [OF this halved_forest [OF less.prems]] pp
    obtain g1 r where g1: "uf_find ?g (g ! ?p) = Some (Inr (g1, r))" "forest d g1" "length g1 = length g" "r < length g"
      "root_of ?g (g ! ?p) r" "\<forall>x < length g. root_of g1 x = root_of ?g x" by (auto simp: halved_def)
    have same: "root_of ?g x = root_of g x" if "x < length g" for x
      using halved_root [OF less.prems that] by blast
    have "root_of g (g ! ?p) r" using g1(5) same [OF pp] by simp
    then have "root_of g ?p r" by (metis root_of.up)
    then have "root_of g i r" using False by (rule root_of.up [rotated])
    moreover have "uf_find g i = uf_find ?g (g ! ?p)"
      using False p(1) less.prems(2) by (simp add: uf_find.simps [of g i] halved_def)
    ultimately show ?thesis using g1 same by auto
  qed
qed

section \<open>Linking two rules\<close>

lemma linked_root_imp:
  assumes "g ! a = a" "g ! b = b" "a < length g" "root_of g x r"
  shows "root_of (g[a := b]) x (if r = a then b else r)"
  using assms(4)
proof (induction rule: root_of.induct)
  case (here x)
  have b: "root_of (g[a := b]) b b" using assms(2,3) by (intro root_of.here) (simp add: nth_list_update)
  show ?case
  proof (cases "x = a")
    case True
    then show ?thesis using b root_of.up [of "g[a := b]" a b] assms(3) by (cases "a = b") simp_all
  next
    case False
    then show ?thesis using here by (simp add: root_of.here)
  qed
next
  case (up x r)
  then have "x \<noteq> a" using assms(1) by auto
  then show ?case using up(1,3) root_of.up [of "g[a := b]" x] by simp
qed

lemma linked_forest:
  assumes f: "forest d g" and a: "g ! a = a" and b: "g ! b = b" and n: "a < length g" "b < length g"
  shows "\<exists>d. forest d (g[a := b])"
proof (cases "a = b")
  case True
  then show ?thesis using f a by (metis list_update_id)
next
  case False
  define e where "e = (\<lambda>x. if root_of g x a then d x + d b + 1 else d x)"
  have nb: "\<not> root_of g b a" using root_unique root_of.here [of g b] b False by metis
  have e1: "e (g ! x) < e x" if "x < length g" "g ! x \<noteq> x" for x
  proof -
    have "root_of g (g ! x) a \<longleftrightarrow> root_of g x a" using that(2) root_of.up [of g x a] by (metis root_ofE)
    then show ?thesis using forestD(2) [OF f that] by (simp add: e_def)
  qed
  have e2: "e b < e a" using nb root_of.here [of g a] a by (simp add: e_def)
  have "g[a := b] ! x < length g \<and> (g[a := b] ! x = x \<or> e (g[a := b] ! x) < e x)" if "x < length g" for x
  proof (cases "x = a")
    case True
    then show ?thesis using n e2 by simp
  next
    case False
    then show ?thesis using e1 [OF that] forestD(1) [OF f that] by auto
  qed
  then have "forest e (g[a := b])" unfolding forest_def by simp
  then show ?thesis by (intro exI [of _ e])
qed

definition same :: "nat list \<Rightarrow> nat \<Rightarrow> nat \<Rightarrow> bool" where
  "same g x y \<longleftrightarrow> (\<exists>r. root_of g x r \<and> root_of g y r)"

definition connected :: "(nat \<times> nat) set \<Rightarrow> (nat \<times> nat) set" where
  "connected E = (E \<union> E\<inverse>)\<^sup>*"

lemma connected_mono: "E \<subseteq> F \<Longrightarrow> connected E \<subseteq> connected F"
  unfolding connected_def by (rule rtrancl_mono) blast

lemma connected_sym: "(x, y) \<in> connected E \<Longrightarrow> (y, x) \<in> connected E"
proof -
  have "sym (E \<union> E\<inverse>)" by (auto simp: sym_def)
  then show "(x, y) \<in> connected E \<Longrightarrow> (y, x) \<in> connected E"
    unfolding connected_def using sym_rtrancl symD by metis
qed

lemma connected_trans: "(x, y) \<in> connected E \<Longrightarrow> (y, z) \<in> connected E \<Longrightarrow> (x, z) \<in> connected E"
  unfolding connected_def by (rule rtrancl_trans)

lemma connected_edge: "(x, y) \<in> E \<Longrightarrow> (x, y) \<in> connected E"
  unfolding connected_def by blast

text \<open>The array after the edges \<open>E\<close>: a forest on \<open>n\<close> nodes whose trees join exactly what \<open>E\<close> connects.\<close>

definition grouped :: "nat \<Rightarrow> (nat \<times> nat) set \<Rightarrow> nat list \<Rightarrow> bool" where
  "grouped n E g \<longleftrightarrow> length g = n \<and> (\<exists>d. forest d g) \<and> (\<forall>(a, b) \<in> E. same g a b) \<and>
     (\<forall>x < n. \<forall>y < n. same g x y \<longrightarrow> (x, y) \<in> connected E)"

lemma groupedD:
  "grouped n E g \<Longrightarrow> length g = n" "grouped n E g \<Longrightarrow> \<exists>d. forest d g"
  "grouped n E g \<Longrightarrow> (a, b) \<in> E \<Longrightarrow> same g a b"
  "grouped n E g \<Longrightarrow> x < n \<Longrightarrow> y < n \<Longrightarrow> same g x y \<Longrightarrow> (x, y) \<in> connected E"
  by (auto simp: grouped_def)

lemma uf_link_grouped:
  assumes gr: "grouped n E g" and E: "E \<subseteq> {..<n} \<times> {..<n}" and i: "i < n" and j: "j < n"
  shows "\<exists>g'. uf_link g i j = Some (Inr g') \<and> grouped n (insert (i, j) E) g'"
proof -
  obtain d where f: "forest d g" and n: "length g = n" using groupedD(1,2) [OF gr] by blast
  obtain g1 a where g1: "uf_find g i = Some (Inr (g1, a))" "forest d g1" "length g1 = n" "a < n" "root_of g i a"
    "\<forall>x < n. root_of g1 x = root_of g x" using uf_find_root [OF f] i n by blast
  obtain g2 b where g2: "uf_find g1 j = Some (Inr (g2, b))" "forest d g2" "length g2 = n" "b < n" "root_of g1 j b"
    "\<forall>x < n. root_of g2 x = root_of g1 x" using uf_find_root [OF g1(2)] j g1(3) by metis
  let ?g = "g2[a := b]"
  have roots: "root_of g2 x = root_of g x" if "x < n" for x using g1(6) g2(6) that by metis
  have a: "g2 ! a = a" "root_of g i a" using root_is_root [of g2 i a] roots [OF i] g1(5) by auto
  have b: "g2 ! b = b" "root_of g j b" using root_is_root [of g2 j b] roots [OF j] g2(5,6) g1(6) j by auto
  have moved: "root_of ?g x (if r = a then b else r)" if "x < n" "root_of g x r" for x r
    using linked_root_imp [OF a(1) b(1), of x r] that roots [OF that(1)] g1(4) g2(3) by simp
  obtain d' where f': "forest d' ?g" using linked_forest [OF g2(2) a(1) b(1)] g1(4) g2(3,4) by auto
  have mono: "same ?g x y" if "same g x y" "x < n" "y < n" for x y
    using that moved unfolding same_def by blast
  have "same ?g i j" using moved [OF i a(2)] moved [OF j b(2)] unfolding same_def by (cases "b = a") auto
  then have ed: "\<forall>(x, y) \<in> insert (i, j) E. same ?g x y" using mono groupedD(3) [OF gr] E by blast
  have cl: "(x, y) \<in> connected (insert (i, j) E)" if xy: "x < n" "y < n" "same ?g x y" for x y
  proof -
    obtain rx ry where r: "root_of g x rx" "root_of g y ry" using root_exists [OF f] xy n by metis
    have old: "(u, v) \<in> connected (insert (i, j) E)" if "u < n" "v < n" "root_of g u r" "root_of g v r" for u v r
      using groupedD(4) [OF gr that(1,2)] that(3,4) connected_mono [of E "insert (i, j) E"] unfolding same_def by blast
    have ij: "(i, j) \<in> connected (insert (i, j) E)" by (rule connected_edge) simp
    have "(if rx = a then b else rx) = (if ry = a then b else ry)"
      using xy(3) moved [OF xy(1) r(1)] moved [OF xy(2) r(2)] root_unique unfolding same_def by metis
    then consider "rx = ry" | "rx = a" "ry = b" | "rx = b" "ry = a" by (auto split: if_splits)
    then show ?thesis
    proof cases
      case 1
      then show ?thesis using old [OF xy(1,2)] r by blast
    next
      case 2
      then have "(x, i) \<in> connected (insert (i, j) E)" "(j, y) \<in> connected (insert (i, j) E)"
        using old [OF xy(1) i] old [OF j xy(2)] r a(2) b(2) by blast+
      then show ?thesis using ij connected_trans by blast
    next
      case 3
      then have "(x, j) \<in> connected (insert (i, j) E)" "(i, y) \<in> connected (insert (i, j) E)"
        using old [OF xy(1) j] old [OF i xy(2)] r a(2) b(2) by blast+
      then show ?thesis using connected_sym [OF ij] connected_trans by blast
    qed
  qed
  have "grouped n (insert (i, j) E) ?g" using f' ed cl g2(3) by (auto simp: grouped_def)
  then show ?thesis using g1 g2 by (auto simp: uf_link_def)
qed

section \<open>All dependencies\<close>

text \<open>Rule \<open>i\<close> depends on rule \<open>j\<close> when it reads a window whose last yielding rule is \<open>j\<close>.\<close>

definition depends :: "rule_deps list \<Rightarrow> (nat \<times> nat) set" where
  "depends plans = {(i, j). i < length plans \<and> (\<exists>w \<in> set (bind_windows (plans ! i)). yield_idx plans w = Some j)}"

lemma yield_idx_last:
  "fold (\<lambda>(i, p) m. m(yield_target p \<mapsto> i)) (enumerate n plans) m w =
     (case filter (\<lambda>(i, p). yield_target p = w) (enumerate n plans) of [] \<Rightarrow> m w | xs \<Rightarrow> Some (fst (last xs)))"
proof (induction plans rule: rev_induct)
  case (snoc p plans)
  then show ?case by (auto simp: enumerate_append_eq split: list.splits)
qed simp

lemma yield_idx_bound: "yield_idx plans w = Some j \<Longrightarrow> j < length plans \<and> yield_target (plans ! j) = w"
proof -
  assume y: "yield_idx plans w = Some j"
  let ?xs = "filter (\<lambda>(i, p). yield_target p = w) (enumerate 0 plans)"
  have "?xs \<noteq> []" "j = fst (last ?xs)"
    using y unfolding yield_idx_def yield_idx_last by (auto split: list.splits)
  then have "last ?xs \<in> set ?xs" by (intro last_in_set)
  then show ?thesis using \<open>j = fst (last ?xs)\<close> by (auto simp: in_set_enumerate_eq)
qed

lemma run_fold_invariant:
  assumes "P E s" "\<And>x E s. x \<in> set xs \<Longrightarrow> P E s \<Longrightarrow> \<exists>t. f x s = Some (Inr t) \<and> P (E \<union> h x) t"
  shows "\<exists>t. run_fold f xs s = Some (Inr t) \<and> P (E \<union> (\<Union>x \<in> set xs. h x)) t"
  using assms
proof (induction xs arbitrary: E s)
  case Nil
  then show ?case by simp
next
  case (Cons x xs)
  obtain t where t: "f x s = Some (Inr t)" "P (E \<union> h x) t" using Cons.prems(2) [OF _ Cons.prems(1), of x] by auto
  obtain u where "run_fold f xs t = Some (Inr u)" "P (E \<union> h x \<union> (\<Union>x \<in> set xs. h x)) u"
    using Cons.IH [OF t(2)] Cons.prems(2) by auto
  then show ?case using t(1) by (simp add: Un_assoc)
qed

definition bind_edges :: "(string \<rightharpoonup> nat) \<Rightarrow> nat \<Rightarrow> string \<Rightarrow> (nat \<times> nat) set" where
  "bind_edges idx i w = (case idx w of None \<Rightarrow> {} | Some j \<Rightarrow> {(i, j)})"

lemma link_bind_grouped:
  assumes "grouped n E g \<and> E \<subseteq> {..<n} \<times> {..<n}" "i < n" "\<And>w j. idx w = Some j \<Longrightarrow> j < n"
  shows "\<exists>g'. link_bind idx i w g = Some (Inr g') \<and> grouped n (E \<union> bind_edges idx i w) g' \<and> E \<union> bind_edges idx i w \<subseteq> {..<n} \<times> {..<n}"
proof (cases "idx w")
  case None
  then show ?thesis using assms by (simp add: link_bind_def bind_edges_def)
next
  case (Some j)
  then show ?thesis
    using uf_link_grouped [of n E g i j] assms by (auto simp: link_bind_def bind_edges_def)
qed

lemma start_grouped: "grouped n {} [0..<n]"
proof -
  have "root_of [0..<n] x r \<Longrightarrow> x < n \<Longrightarrow> x = r" for x r
    using root_unique [of "[0..<n]" x x] root_of.here [of "[0..<n]" x] by simp
  then have "x = y" if "same [0..<n] x y" "x < n" "y < n" for x y using that unfolding same_def by blast
  then have "(x, y) \<in> connected {}" if "same [0..<n] x y" "x < n" "y < n" for x y
    using that by (simp add: connected_def)
  moreover have "forest (\<lambda>_. 0) [0..<n]" by (simp add: forest_def)
  ultimately show ?thesis by (auto simp: grouped_def)
qed

lemma link_rules_grouped:
  "\<exists>g. link_rules plans = Some (Inr g) \<and> grouped (length plans) (depends plans) g \<and> depends plans \<subseteq> {..<length plans} \<times> {..<length plans}"
proof -
  let ?n = "length plans" and ?idx = "yield_idx plans"
  let ?P = "\<lambda>E g. grouped ?n E g \<and> E \<subseteq> {..<?n} \<times> {..<?n}"
  let ?h = "\<lambda>x. \<Union>w \<in> set (bind_windows (snd x)). bind_edges ?idx (fst x) w"
  have b: "\<And>w j. ?idx w = Some j \<Longrightarrow> j < ?n" using yield_idx_bound by blast
  have step: "\<exists>t. (case x of (i, p) \<Rightarrow> run_fold (link_bind ?idx i) (bind_windows p)) g = Some (Inr t) \<and> ?P (E \<union> ?h x) t"
    if "x \<in> set (enumerate 0 plans)" "?P E g" for x E g
  proof -
    obtain i p where x1: "x = (i, p)" by (cases x)
    then have "i < ?n" using \<open>x \<in> set (enumerate 0 plans)\<close> by (simp add: in_set_enumerate_eq)
    note x = x1 this
    show ?thesis
      using run_fold_invariant [of ?P E g "bind_windows p" "link_bind ?idx i" "bind_edges ?idx i", OF that(2)]
        link_bind_grouped [OF _ x(2) b] by (simp add: x(1))
  qed
  have all: "(\<Union>x \<in> set (enumerate 0 plans). ?h x) = depends plans"
  proof (intro equalityI subsetI)
    fix e assume "e \<in> (\<Union>x \<in> set (enumerate 0 plans). ?h x)"
    then show "e \<in> depends plans"
      by (auto simp: depends_def bind_edges_def in_set_enumerate_eq split: option.splits)
  next
    fix e assume "e \<in> depends plans"
    then obtain i j w where e: "e = (i, j)" "i < ?n" "w \<in> set (bind_windows (plans ! i))" "?idx w = Some j"
      by (auto simp: depends_def)
    then have "e \<in> bind_edges ?idx i w" by (simp add: bind_edges_def)
    then have "e \<in> ?h (i, plans ! i)" using e(3) by auto
    moreover have "(i, plans ! i) \<in> set (enumerate 0 plans)" using e(2) by (simp add: in_set_enumerate_eq)
    ultimately show "e \<in> (\<Union>x \<in> set (enumerate 0 plans). ?h x)" by (rule UN_I [rotated])
  qed
  show ?thesis
    using run_fold_invariant [of ?P "{}" "[0..<?n]" "enumerate 0 plans" "\<lambda>(i, p). run_fold (link_bind ?idx i) (bind_windows p)" ?h]
      start_grouped step unfolding all link_rules_def by simp
qed

section \<open>The groups\<close>

abbreviation in_entry :: "(nat \<times> nat list) list \<Rightarrow> nat \<Rightarrow> nat \<Rightarrow> bool" where
  "in_entry bt r i \<equiv> \<exists>ks. (r, ks) \<in> set bt \<and> i \<in> set ks"

lemma collect_groups:
  assumes "forest d g" "set is \<subseteq> {..<length g}" "sorted_wrt (<) (map fst bt)"
  shows "\<exists>g1 bt1. run_fold collect_group is (g, bt) = Some (Inr (g1, bt1)) \<and> sorted_wrt (<) (map fst bt1) \<and>
    mset (concat (map snd bt1)) = mset (concat (map snd bt)) + mset is \<and>
    (\<forall>r i. in_entry bt1 r i \<longleftrightarrow> in_entry bt r i \<or> (i \<in> set is \<and> root_of g i r))"
  using assms
proof (induction "is" arbitrary: g bt)
  case Nil
  then show ?case by simp
next
  case (Cons i "is")
  obtain g1 r where g1: "uf_find g i = Some (Inr (g1, r))" "forest d g1" "length g1 = length g" "root_of g i r"
    "\<forall>x < length g. root_of g1 x = root_of g x" using uf_find_root [OF Cons.prems(1), of i] Cons.prems(2) by auto
  obtain g2 bt2 where g2: "run_fold collect_group is (g1, bt_push r i bt) = Some (Inr (g2, bt2))" "sorted_wrt (<) (map fst bt2)"
    "mset (concat (map snd bt2)) = mset (concat (map snd (bt_push r i bt))) + mset is"
    "\<forall>s j. in_entry bt2 s j \<longleftrightarrow> in_entry (bt_push r i bt) s j \<or> (j \<in> set is \<and> root_of g1 j s)"
    using Cons.IH [OF g1(2) _ bt_push_sorted [OF Cons.prems(3), of r i]] Cons.prems(2) g1(3) by auto
  have "in_entry bt2 s j \<longleftrightarrow> in_entry bt s j \<or> (j \<in> set (i # is) \<and> root_of g j s)" for s j
  proof -
    have "root_of g1 j s = root_of g j s" if "j \<in> set is" using g1(5) that Cons.prems(2) by auto
    moreover have "s = r \<and> j = i \<longleftrightarrow> j = i \<and> root_of g j s" using g1(4) root_unique by blast
    ultimately show ?thesis using g2(4) bt_push_mem [OF Cons.prems(3), of s r i j] by auto
  qed
  moreover have "run_fold collect_group (i # is) (g, bt) = Some (Inr (g2, bt2))"
    using g1(1) g2(1) by (simp add: collect_group_def)
  ultimately show ?case using g2(2,3) by (auto simp: bt_push_values)
qed

text \<open>For any rules, with the dependencies the index of the code keeps: a reader on the last rule that yields its window.\<close>

lemma rule_groups_last_yielder:
  "\<exists>gs. rule_groups plans = Some (Inr gs) \<and> mset (concat gs) = mset [0..<length plans] \<and>
     {(x, y). \<exists>ks \<in> set gs. x \<in> set ks \<and> y \<in> set ks} =
     connected (depends plans) \<inter> {..<length plans} \<times> {..<length plans}"
proof -
  let ?n = "length plans"
  obtain g where g: "link_rules plans = Some (Inr g)" "grouped ?n (depends plans) g" "depends plans \<subseteq> {..<?n} \<times> {..<?n}"
    using link_rules_grouped by blast
  obtain d where d: "forest d g" and n: "length g = ?n" using groupedD(1,2) [OF g(2)] by blast
  obtain g1 bt where bt: "run_fold collect_group [0..<length g] (g, []) = Some (Inr (g1, bt))" "sorted_wrt (<) (map fst bt)"
    "mset (concat (map snd bt)) = mset [0..<?n]" "\<forall>r i. in_entry bt r i \<longleftrightarrow> i < ?n \<and> root_of g i r"
    using collect_groups [OF d, of "[0..<length g]" "[]"] n by (auto simp: atLeast0LessThan)
  have key: "ks = ks'" if "(r, ks) \<in> set bt" "(r, ks') \<in> set bt" for r ks ks'
    using that strict_sorted_iff [of "map fst bt"] bt(2) eq_key_imp_eq_value by metis
  have "(\<exists>ks \<in> set (map snd bt). x \<in> set ks \<and> y \<in> set ks) \<longleftrightarrow> (\<exists>r. in_entry bt r x \<and> in_entry bt r y)" for x y
  proof
    assume "\<exists>ks \<in> set (map snd bt). x \<in> set ks \<and> y \<in> set ks"
    then obtain r ks where "(r, ks) \<in> set bt" "x \<in> set ks" "y \<in> set ks" by auto
    then show "\<exists>r. in_entry bt r x \<and> in_entry bt r y" by blast
  next
    assume "\<exists>r. in_entry bt r x \<and> in_entry bt r y"
    then obtain r ks ks' where r: "(r, ks) \<in> set bt" "x \<in> set ks" "(r, ks') \<in> set bt" "y \<in> set ks'" by blast
    have "ks' = ks" by (rule key [OF r(3,1)])
    then have "x \<in> set ks \<and> y \<in> set ks" using r(2,4) by simp
    moreover have "ks \<in> set (map snd bt)" using r(1) by (metis image_eqI list.set_map snd_conv)
    ultimately show "\<exists>ks \<in> set (map snd bt). x \<in> set ks \<and> y \<in> set ks" by (rule bexI)
  qed
  note entries = this
  have be: "in_entry bt r i = (i < ?n \<and> root_of g i r)" for r i by (rule bt(4) [THEN spec, THEN spec])
  have pairs: "(\<exists>ks \<in> set (map snd bt). x \<in> set ks \<and> y \<in> set ks) \<longleftrightarrow> x < ?n \<and> y < ?n \<and> same g x y" for x y
    unfolding entries be same_def by auto
  have con: "(x, y) \<in> connected (depends plans) \<Longrightarrow> x < ?n \<Longrightarrow> y < ?n \<and> same g x y" for x y
    unfolding connected_def
  proof (induction rule: rtrancl_induct)
    case base
    then show ?case using root_exists [OF d, of x] n unfolding same_def by auto
  next
    case (step y z)
    have "same g y z" using step.hyps(2) groupedD(3) [OF g(2)] unfolding same_def by blast
    then have "same g x z" using step.IH [OF step.prems] root_unique unfolding same_def by metis
    then show ?case using step.hyps(2) g(3) by auto
  qed
  have "{(x, y). \<exists>ks \<in> set (map snd bt). x \<in> set ks \<and> y \<in> set ks} = connected (depends plans) \<inter> {..<?n} \<times> {..<?n}"
    unfolding pairs using con groupedD(4) [OF g(2)] by auto
  then show ?thesis using g(1) bt(1,3) by (simp add: rule_groups_def)
qed

section \<open>Rules that share a window\<close>

text \<open>The dependencies the source's comment speaks of: a rule that reads a window, and any rule that yields to it.\<close>

definition reads :: "rule_deps list \<Rightarrow> (nat \<times> nat) set" where
  "reads plans = {(i, j). i < length plans \<and> j < length plans \<and> yield_target (plans ! j) \<in> set (bind_windows (plans ! i))}"

definition one_yielder :: "rule_deps list \<Rightarrow> bool" where
  "one_yielder plans = distinct (filter (\<lambda>w. list_ex (\<lambda>p. w \<in> set (bind_windows p)) plans) (map yield_target plans))"

lemma distinct_filter_nth:
  "distinct (filter P xs) \<Longrightarrow> i < length xs \<Longrightarrow> j < length xs \<Longrightarrow> xs ! i = xs ! j \<Longrightarrow> P (xs ! i) \<Longrightarrow> i = j"
proof (induction xs arbitrary: i j)
  case (Cons x xs)
  then show ?case by (cases i; cases j) (auto split: if_splits)
qed simp

lemma yield_idx_complete:
  assumes "j < length plans"
  obtains k where "yield_idx plans (yield_target (plans ! j)) = Some k"
proof -
  have "(j, plans ! j) \<in> set (enumerate 0 plans)" using assms by (simp add: in_set_enumerate_eq)
  then have "filter (\<lambda>(i, p). yield_target p = yield_target (plans ! j)) (enumerate 0 plans) \<noteq> []"
    by (auto simp: filter_empty_conv)
  then have "yield_idx plans (yield_target (plans ! j)) \<noteq> None"
    unfolding yield_idx_def yield_idx_last by (auto split: list.split)
  then show thesis using that by blast
qed

lemma depends_reads:
  assumes "one_yielder plans"
  shows "depends plans = reads plans"
proof -
  have idx: "yield_idx plans w = Some j \<longleftrightarrow> j < length plans \<and> yield_target (plans ! j) = w"
    if w: "w \<in> set (bind_windows (plans ! i))" and i: "i < length plans" for i j w
  proof
    assume j: "j < length plans \<and> yield_target (plans ! j) = w"
    then obtain k where k: "yield_idx plans w = Some k" using yield_idx_complete [of j plans] by blast
    have "list_ex (\<lambda>p. w \<in> set (bind_windows p)) plans" using w i by (auto simp: list_ex_iff)
    then have "k = j"
      using distinct_filter_nth [OF assms [unfolded one_yielder_def], of k j] j yield_idx_bound [OF k] by simp
    then show "yield_idx plans w = Some j" using k by simp
  qed (rule yield_idx_bound)
  have "(i, j) \<in> depends plans \<longleftrightarrow> (i, j) \<in> reads plans" for i j
    using idx [of _ i j] unfolding depends_def reads_def mem_Collect_eq prod.case by metis
  then show ?thesis by (simp add: set_eq_iff)
qed

text \<open>
  C35: When no two rules yield to a window that a rule reads, grouping the rules ends, never indexes
  out of range, and yields every rule in exactly one group; two rules share a group exactly when a
  chain of rules reading windows that the next yields, in either direction, connects them. Premise:
  one yielder for each window read. Without it the code keeps the last yielder only and leaves the others out,
  against its comment (\<open>earlier_yielder_left_out\<close>; \<open>rule_groups_last_yielder\<close> holds of any rules).
\<close>

theorem rule_groups_are_components:
  assumes "one_yielder plans"
  shows "\<exists>gs. rule_groups plans = Some (Inr gs) \<and> mset (concat gs) = mset [0..<length plans] \<and>
     {(x, y). \<exists>ks \<in> set gs. x \<in> set ks \<and> y \<in> set ks} =
     connected (reads plans) \<inter> {..<length plans} \<times> {..<length plans}"
  using rule_groups_last_yielder [of plans] unfolding depends_reads [OF assms] .

text \<open>Rule 1 reads what rule 0 yields, rule 3 what rule 1 yields; rule 2 is alone.\<close>

theorem rule_groups_are_components_witness:
  "let plans = [\<lparr>yield_target = ''m'', bind_windows = [''in'']\<rparr>, \<lparr>yield_target = ''n'', bind_windows = [''m'']\<rparr>,
      \<lparr>yield_target = ''out'', bind_windows = [''in'']\<rparr>, \<lparr>yield_target = ''out'', bind_windows = [''n'']\<rparr>]
   in \<exists>gs. rule_groups plans = Some (Inr gs) \<and> mset (concat gs) = mset [0, 1, 2, 3] \<and> (\<exists>ks \<in> set gs. 0 \<in> set ks \<and> 3 \<in> set ks)"
proof -
  let ?plans = "[\<lparr>yield_target = ''m'', bind_windows = [''in'']\<rparr>, \<lparr>yield_target = ''n'', bind_windows = [''m'']\<rparr>,
      \<lparr>yield_target = ''out'', bind_windows = [''in'']\<rparr>, \<lparr>yield_target = ''out'', bind_windows = [''n'']\<rparr>]"
  have "one_yielder ?plans" by (simp add: one_yielder_def)
  from rule_groups_are_components [OF this] obtain gs where gs: "rule_groups ?plans = Some (Inr gs)"
    "mset (concat gs) = mset [0..<length ?plans]"
    "{(x, y). \<exists>ks \<in> set gs. x \<in> set ks \<and> y \<in> set ks} = connected (reads ?plans) \<inter> {..<length ?plans} \<times> {..<length ?plans}"
    by blast
  have "(1, 0) \<in> reads ?plans" "(3, 1) \<in> reads ?plans" by (simp_all add: reads_def)
  then have "(0, 1) \<in> connected (reads ?plans)" "(1, 3) \<in> connected (reads ?plans)" unfolding connected_def by blast+
  then have "(0, 3) \<in> connected (reads ?plans)" unfolding connected_def by (rule rtrancl_trans)
  then have "(0, 3) \<in> {(x, y). \<exists>ks \<in> set gs. x \<in> set ks \<and> y \<in> set ks}" unfolding gs(3) by simp
  then have "\<exists>ks \<in> set gs. 0 \<in> set ks \<and> 3 \<in> set ks" by simp
  moreover have "[0..<length ?plans] = [0, 1, 2, 3]" by (simp add: upt_rec)
  ultimately show ?thesis using gs(1,2) unfolding Let_def by metis
qed

text \<open>
  The dependency is on the last rule that yields to a window. A reader of a window that two rules
  feed is grouped with the second only: here rules 0 and 1 yield to \<open>m\<close>, rule 2 reads it.
\<close>

lemma earlier_yielder_left_out:
  "rule_groups [\<lparr>yield_target = ''m'', bind_windows = []\<rparr>, \<lparr>yield_target = ''m'', bind_windows = []\<rparr>,
                \<lparr>yield_target = ''out'', bind_windows = [''m'']\<rparr>] = Some (Inr [[0], [1, 2]])"
  by (simp add: rule_groups_def link_rules_def yield_idx_def link_bind_def uf_link_def uf_find.simps collect_group_def upt_rec)

end
