(* ===== verification/NexmarkVerify.thy ===== *)
theory NexmarkVerify
  imports RuleGroups RustText "HOL-Library.Char_ord" "HOL-Library.List_Lexorder"
begin

text \<open>
  The comparison of an engine with the reference run (\<open>wfgen/src/cmd_verify_nexmark.rs\<close> and the
  line comparison of \<open>cmd_diff.rs\<close>): events in buckets of 30 seconds, expected counts per rule,
  counts read from result files, the normalised lines and the verdict on them, and the comparison
  of detail lines as multisets. The hash of the standard library and the Myers diff are parameters.
  Strings are ordered as lists of bytes. Times and counters are integers without bound.
\<close>

section \<open>Buckets\<close>

definition base_ns :: int where "base_ns = 1767225600000000000"
definition bucket_ns :: int where "bucket_ns = 30000000000"
definition inter_event_delay_ns :: int where "inter_event_delay_ns = 100000"

definition time_buckets_for :: "int \<Rightarrow> nat" where
  "time_buckets_for n_events = nat (max ((n_events * inter_event_delay_ns) div bucket_ns) 1)"

definition bucket_of :: "nat \<Rightarrow> int \<Rightarrow> nat" where
  "bucket_of n ns = nat (min (max (ns - base_ns) 0 div bucket_ns) (int n - 1))"

datatype nx_kind = NxPerson | NxAuction | NxBid

record nx_event =
  nx_kind :: nx_kind
  nx_ns :: int

record nx_data =
  nx_buckets :: "nx_event list list"
  n_person :: nat
  n_auction :: nat
  n_bid :: nat

definition put_event :: "nat \<Rightarrow> nx_event \<Rightarrow> nx_data \<Rightarrow> nx_data" where
  "put_event n ev d =
     (let d1 = (case nx_kind ev of NxPerson \<Rightarrow> d\<lparr>n_person := n_person d + 1\<rparr>
                | NxAuction \<Rightarrow> d\<lparr>n_auction := n_auction d + 1\<rparr> | NxBid \<Rightarrow> d\<lparr>n_bid := n_bid d + 1\<rparr>);
          b = bucket_of n (nx_ns ev)
      in d1\<lparr>nx_buckets := (nx_buckets d1)[b := nx_buckets d1 ! b @ [ev]]\<rparr>)"

definition collect_buckets :: "int \<Rightarrow> nx_event list \<Rightarrow> nx_data" where
  "collect_buckets n_events evs =
     (let n = time_buckets_for n_events
      in fold (put_event n) evs \<lparr>nx_buckets = replicate n [], n_person = 0, n_auction = 0, n_bid = 0\<rparr>)"

section \<open>Counts\<close>

definition count_alerts :: "string list \<Rightarrow> (string \<rightharpoonup> nat)" where
  "count_alerts rule_names = fold (\<lambda>r m. add_at r 1 m) rule_names Map.empty"

definition rsplit_space :: "string \<Rightarrow> (string \<times> string) option" where
  "rsplit_space s =
     (case dropWhile (\<lambda>c. c \<noteq> CHR '' '') (rev s) of
        [] \<Rightarrow> None
      | _ # r \<Rightarrow> Some (rev r, rev (takeWhile (\<lambda>c. c \<noteq> CHR '' '') (rev s))))"

definition emit_line :: "string \<Rightarrow> (string \<times> nat) option" where
  "emit_line line =
     (case strip_prefix ''EMIT '' line of None \<Rightarrow> None
      | Some rest \<Rightarrow>
          (case rsplit_space rest of None \<Rightarrow> None
           | Some (rule, n) \<Rightarrow> (case parse_u64 (trim n) of None \<Rightarrow> None | Some k \<Rightarrow> Some (rule, k))))"

definition emit_text :: "string \<Rightarrow> (string \<rightharpoonup> nat) \<Rightarrow> (string \<rightharpoonup> nat)" where
  "emit_text content m = fold (\<lambda>line m. case emit_line line of None \<Rightarrow> m | Some (r, n) \<Rightarrow> m(r \<mapsto> n)) (str_lines content) m"

definition replay_file :: "string \<Rightarrow> bool" where
  "replay_file name = (take 6 name = ''bench_'' \<and> 11 \<le> length name \<and> drop (length name - 11) name = ''_replay.txt'')"

text \<open>A path is a directory with its entries (or nothing where it cannot be listed), or a single
  file; a text is missing where it cannot be read.\<close>

datatype emit_path = EmitDir "(string \<times> string option) list option" | EmitFile "string option"

definition emit_files :: "emit_path \<Rightarrow> (string \<times> string option) list option" where
  "emit_files p =
     (case p of EmitDir None \<Rightarrow> None
      | EmitDir (Some es) \<Rightarrow> Some (sort_key fst (filter (\<lambda>(name, t). replay_file name) es))
      | EmitFile t \<Rightarrow> Some [('''', t)])"

definition io_error :: "string \<Rightarrow> wfgen_error" where
  "io_error m = WfgenError RIo m"

definition read_engine_emits :: "emit_path \<Rightarrow> wfgen_error + (string \<rightharpoonup> nat)" where
  "read_engine_emits p =
     rbind (ok_or (io_error ''read dir'') (emit_files p)) (\<lambda>fs.
       rfold (\<lambda>(name, t) m. rbind (ok_or (io_error ''read'') t) (\<lambda>content. Inr (emit_text content m))) fs Map.empty)"

section \<open>Line comparison\<close>

fun merge_walk :: "'a::linorder list \<Rightarrow> 'a list \<Rightarrow> nat \<Rightarrow> nat \<Rightarrow> nat \<times> nat" where
  "merge_walk (x # xs) (y # ys) missing extra =
     (if x < y then merge_walk xs (y # ys) (missing + 1) extra
      else if y < x then merge_walk (x # xs) ys missing (extra + 1)
      else merge_walk xs ys missing extra)"
| "merge_walk xs ys missing extra = (missing + length xs, extra + length ys)"

definition merge_count :: "'a::linorder list \<Rightarrow> 'a list \<Rightarrow> nat \<times> nat" where
  "merge_count a b = merge_walk (sort a) (sort b) 0 0"

definition degraded :: "nat \<Rightarrow> nat \<Rightarrow> bool" where
  "degraded la lb =
     (let total = f64_of_nat (la + lb); gap = f64_of_nat (nat \<bar>int la - int lb\<bar>)
      in flt f64_zero total \<and> flt (round_ratio False 1 10) (fdiv gap total))"

text \<open>The verdict, and how many lines are gone and new when the hashes differ.\<close>

definition compare_lines ::
  "(string list \<Rightarrow> u64) \<Rightarrow> (string list \<Rightarrow> string list \<Rightarrow> nat \<times> nat) \<Rightarrow> string list \<Rightarrow> string list \<Rightarrow> bool \<times> (nat \<times> nat) option" where
  "compare_lines hash myers a b =
     (if hash a = hash b then (True, None)
      else (False, Some (if degraded (length a) (length b) then merge_count a b else myers a b)))"

definition split_lines :: "string \<Rightarrow> string list" where
  "split_lines s = (let v = split_on (CHR 0x0A) s in if last v = [] then butlast v else v)"

section \<open>Multisets of detail lines\<close>

record detail_alert =
  oa_rule :: string
  oa_entity :: string
  oa_fields :: "(string \<times> string) list"
  oa_intermediate :: bool

definition show_fields :: "(string \<times> string) list \<Rightarrow> string" where
  "show_fields fs = join '';'' (map (\<lambda>(n, v). n @ ''='' @ v) fs)"

definition alert_detail_line :: "detail_alert \<Rightarrow> string option" where
  "alert_detail_line a =
     (if oa_fields a = [] \<or> oa_intermediate a then None
      else Some (oa_rule a @ [CHR 0x09] @ oa_entity a @ [CHR 0x09] @ show_fields (sort_key fst (oa_fields a))))"

definition line_balance :: "string list \<Rightarrow> string list \<Rightarrow> (string \<rightharpoonup> int)" where
  "line_balance a b =
     fold (\<lambda>x m. m(x \<mapsto> (case m x of None \<Rightarrow> 0 | Some c \<Rightarrow> c) - 1)) b
       (fold (\<lambda>x m. m(x \<mapsto> (case m x of None \<Rightarrow> 0 | Some c \<Rightarrow> c) + 1)) a Map.empty)"

definition bad_lines :: "string \<Rightarrow> int \<Rightarrow> string list" where
  "bad_lines line c = replicate (nat c) (''- '' @ line) @ replicate (nat (- c)) (''+ '' @ line)"

text \<open>\<open>ks\<close> is the order in which the hash map yields its keys; up to 20 lines are shown.\<close>

definition compare_multiset :: "string list \<Rightarrow> string list \<Rightarrow> string list \<Rightarrow> bool \<times> string list" where
  "compare_multiset ks a b =
     (let bad = concat (map (\<lambda>k. case line_balance a b k of None \<Rightarrow> [] | Some c \<Rightarrow> bad_lines k c) ks)
      in if bad = [] then (True, []) else (False, take 20 (sort bad)))"

section \<open>Normalised counts\<close>

definition known_diff_rules :: "string list" where
  "known_diff_rules = [''q12_bidder_10s_window_count'']"

definition compared_rule :: "string \<Rightarrow> bool" where
  "compared_rule r = (take 1 r \<noteq> ''_'' \<and> r \<notin> set known_diff_rules)"

definition count_line :: "string \<Rightarrow> nat \<Rightarrow> string" where
  "count_line r n = r @ '' '' @ dec_digits n"

text \<open>\<open>ks\<close> is the order in which the map of the expected counts yields its keys.\<close>

definition normalize_counts ::
  "string list \<Rightarrow> (string \<rightharpoonup> nat) \<Rightarrow> (string \<rightharpoonup> nat) \<Rightarrow> string list \<times> string list" where
  "normalize_counts ks oracle engine =
     (let rules = sort (filter compared_rule ks)
      in (map (\<lambda>r. count_line r (the (oracle r))) rules,
          map (\<lambda>r. count_line r (the (engine r))) (filter (\<lambda>r. engine r \<noteq> None) rules)))"

definition counts_verdict ::
  "(string list \<Rightarrow> u64) \<Rightarrow> (string list \<Rightarrow> string list \<Rightarrow> nat \<times> nat) \<Rightarrow> string list \<Rightarrow>
   (string \<rightharpoonup> nat) \<Rightarrow> (string \<rightharpoonup> nat) \<Rightarrow> bool" where
  "counts_verdict hash myers ks oracle engine =
     (case normalize_counts ks oracle engine of (gt, eng) \<Rightarrow> fst (compare_lines hash myers gt eng))"

section \<open>The comparisons decide equality\<close>

lemma line_balance_eq:
  "line_balance a b k = (if k \<in> set a \<union> set b then Some (int (count (mset a) k) - int (count (mset b) k)) else None)"
proof -
  have up: "fold (\<lambda>x m. m(x \<mapsto> (case m x of None \<Rightarrow> 0 | Some c \<Rightarrow> c) + 1)) xs Map.empty k =
      (if k \<in> set xs then Some (int (count (mset xs) k)) else None)" for xs :: "string list"
    by (induction xs rule: rev_induct) (auto simp: not_in_iff split: option.splits if_splits)
  have "fold (\<lambda>x m. m(x \<mapsto> (case m x of None \<Rightarrow> 0 | Some c \<Rightarrow> c) - 1)) ys m k =
      (if k \<in> set ys then Some ((case m k of None \<Rightarrow> 0 | Some c \<Rightarrow> c) - int (count (mset ys) k)) else m k)"
    for ys and m :: "string \<rightharpoonup> int"
    by (induction ys rule: rev_induct) (auto simp: not_in_iff split: option.splits if_splits)
  then have "line_balance a b k = (if k \<in> set b then Some ((case (if k \<in> set a then Some (int (count (mset a) k)) else None)
      of None \<Rightarrow> 0 | Some c \<Rightarrow> c) - int (count (mset b) k)) else if k \<in> set a then Some (int (count (mset a) k)) else None)"
    unfolding line_balance_def by (simp only: up)
  then show ?thesis by (auto simp: not_in_iff)
qed

lemma bad_lines_Nil: "bad_lines k c = [] \<longleftrightarrow> c = 0"
  by (auto simp: bad_lines_def)

theorem compare_multiset_iff:
  assumes "key_order (line_balance a b) ks"
  shows "fst (compare_multiset ks a b) \<longleftrightarrow> mset a = mset b"
proof -
  have ks: "set ks = set a \<union> set b"
    using assms by (auto simp: key_order_def line_balance_eq dom_def split: if_splits)
  have "fst (compare_multiset ks a b) \<longleftrightarrow> (\<forall>k \<in> set ks. count (mset a) k = count (mset b) k)"
    using ks by (auto simp: compare_multiset_def Let_def line_balance_eq bad_lines_Nil)
  also have "\<dots> \<longleftrightarrow> mset a = mset b"
    unfolding ks by (metis Un_iff count_eq_zero_iff multiset_eq_iff set_mset_mset)
  finally show ?thesis .
qed

lemma fresh_diff: "x \<notin># N \<Longrightarrow> add_mset x M - N = add_mset x (M - N) \<and> N - add_mset x M = N - M"
  by (auto simp: multiset_eq_iff not_in_iff)

lemma merge_walk_sizes:
  "sorted xs \<Longrightarrow> sorted ys \<Longrightarrow>
   merge_walk xs ys m e = (m + size (mset xs - mset ys), e + size (mset ys - mset xs))"
proof (induction xs ys m e rule: merge_walk.induct)
  case (1 x xs y ys m e)
  consider "x < y" | "y < x" | "x = y" by fastforce
  then show ?case
  proof cases
    case 1
    then have "x \<notin># mset (y # ys)" using "1.prems" by auto
    from fresh_diff [OF this] show ?thesis using 1 "1.IH"(1) "1.prems" by simp
  next
    case 2
    then have "y \<notin># mset (x # xs)" using "1.prems" by auto
    moreover have "\<not> x < y" using 2 by simp
    ultimately show ?thesis using fresh_diff [of y "mset (x # xs)" "mset ys"] 2 "1.IH"(2) "1.prems" by simp
  next
    case 3
    then show ?thesis using "1.IH"(3) "1.prems" by simp
  qed
qed simp_all

theorem merge_count_sizes: "merge_count a b = (size (mset a - mset b), size (mset b - mset a))"
  by (simp add: merge_count_def merge_walk_sizes)

definition no_collision :: "(string list \<Rightarrow> u64) \<Rightarrow> string list \<Rightarrow> string list \<Rightarrow> bool" where
  "no_collision hash a b \<longleftrightarrow> (hash a = hash b \<longrightarrow> a = b)"

lemma count_line_inj: "count_line r m = count_line r n \<longleftrightarrow> m = n"
  using dec_digits_inj by (auto simp: count_line_def)

text \<open>
  C36: the verdict on the counts is exact: where the hash of the two line lists does not collide, it
  is positive exactly when the engine reports, for every compared rule the reference expects an
  alert of, the expected number of alerts.
\<close>

theorem counts_verdict_exact:
  assumes "key_order oracle ks"
    and "no_collision hash (fst (normalize_counts ks oracle engine)) (snd (normalize_counts ks oracle engine))"
  shows "counts_verdict hash myers ks oracle engine \<longleftrightarrow>
    {r \<in> dom oracle. compared_rule r \<and> engine r \<noteq> oracle r} = {}"
proof -
  define rs where "rs = sort (filter compared_rule ks)"
  have rs: "set rs = {r \<in> dom oracle. compared_rule r}" using assms(1) by (auto simp: rs_def key_order_def)
  let ?gt = "map (\<lambda>r. count_line r (the (oracle r))) rs"
  let ?eng = "map (\<lambda>r. count_line r (the (engine r))) (filter (\<lambda>r. engine r \<noteq> None) rs)"
  have nc: "normalize_counts ks oracle engine = (?gt, ?eng)" by (simp add: normalize_counts_def rs_def Let_def)
  have "counts_verdict hash myers ks oracle engine \<longleftrightarrow> ?gt = ?eng"
    using assms(2) unfolding counts_verdict_def nc by (auto simp: compare_lines_def no_collision_def)
  also have "\<dots> \<longleftrightarrow> (\<forall>r \<in> set rs. engine r = oracle r)"
  proof
    assume eq: "?gt = ?eng"
    then have "length (filter (\<lambda>r. engine r \<noteq> None) rs) = length rs" by (metis length_map)
    then have all: "\<forall>r \<in> set rs. engine r \<noteq> None" by (metis (mono_tags) filter_True length_filter_less less_irrefl)
    then have "filter (\<lambda>r. engine r \<noteq> None) rs = rs" by (rule filter_True)
    then have "\<forall>r \<in> set rs. the (oracle r) = the (engine r)" using eq by (simp add: count_line_inj)
    then show "\<forall>r \<in> set rs. engine r = oracle r" using all rs by (force simp: dom_def)
  next
    assume eq: "\<forall>r \<in> set rs. engine r = oracle r"
    then have "filter (\<lambda>r. engine r \<noteq> None) rs = rs" using rs by (auto simp: filter_id_conv)
    then show "?gt = ?eng" using eq by simp
  qed
  finally show ?thesis using rs by auto
qed

lemma counts_verdict_exact_witness:
  "\<not> counts_verdict (\<lambda>ls. of_nat (length (concat ls))) (\<lambda>a b. (0, 0)) [''q1'', ''q2''] [''q1'' \<mapsto> 3, ''q2'' \<mapsto> 14] [''q1'' \<mapsto> 3, ''q2'' \<mapsto> 4]"
  (is "\<not> counts_verdict ?h ?m ?ks ?o ?e")
proof -
  have "key_order ?o ?ks" by (auto simp: key_order_def)
  moreover have "normalize_counts ?ks ?o ?e = ([''q1 3'', ''q2 14''], [''q1 3'', ''q2 4''])"
    by (simp add: normalize_counts_def compared_rule_def known_diff_rules_def count_line_def dec_digits.simps digit_char_def char_of_def bit_0)
  then have "no_collision ?h (fst (normalize_counts ?ks ?o ?e)) (snd (normalize_counts ?ks ?o ?e))"
    by (simp add: no_collision_def)
  ultimately have "counts_verdict ?h ?m ?ks ?o ?e \<longleftrightarrow> {r \<in> dom ?o. compared_rule r \<and> ?e r \<noteq> ?o r} = {}"
    by (rule counts_verdict_exact)
  moreover have "''q2'' \<in> {r \<in> dom ?o. compared_rule r \<and> ?e r \<noteq> ?o r}" by (simp add: compared_rule_def known_diff_rules_def)
  ultimately show ?thesis by blast
qed

text \<open>A rule the reference has no alert of is not compared: whatever the engine reports for it
  leaves the lines, and so the verdict, as they are.\<close>

lemma unexpected_rule_ignored:
  assumes "key_order oracle ks" "oracle r = None"
  shows "normalize_counts ks oracle (engine(r \<mapsto> n)) = normalize_counts ks oracle engine"
proof -
  have "r \<notin> set ks" using assms by (auto simp: key_order_def)
  then have "filter (\<lambda>x. (engine(r \<mapsto> n)) x \<noteq> None) (sort (filter compared_rule ks)) =
      filter (\<lambda>x. engine x \<noteq> None) (sort (filter compared_rule ks))" by (intro filter_cong) auto
  then show ?thesis using \<open>r \<notin> set ks\<close> by (auto simp: normalize_counts_def Let_def)
qed

section \<open>Buckets keep the order of the events\<close>

lemma bucket_of_less: "0 < n \<Longrightarrow> bucket_of n ns < n"
  by (simp add: bucket_of_def)

lemma put_event_simps:
  "nx_buckets (put_event n ev d) = (nx_buckets d)[bucket_of n (nx_ns ev) := nx_buckets d ! bucket_of n (nx_ns ev) @ [ev]]"
  by (simp add: put_event_def Let_def split: nx_kind.splits)

lemma put_events_buckets:
  assumes "0 < n"
  shows "nx_buckets (fold (put_event n) evs \<lparr>nx_buckets = replicate n [], n_person = 0, n_auction = 0, n_bid = 0\<rparr>) =
    map (\<lambda>b. filter (\<lambda>ev. bucket_of n (nx_ns ev) = b) evs) [0..<n]"
proof (induction evs rule: rev_induct)
  case Nil
  then show ?case by (simp add: map_replicate_const)
next
  case (snoc ev evs)
  have b: "bucket_of n (nx_ns ev) < n" using bucket_of_less assms by simp
  show ?case
    by (rule nth_equalityI) (use b in \<open>auto simp: put_event_simps snoc nth_list_update\<close>)
qed

lemma put_events_counts:
  "let d = fold (put_event n) evs \<lparr>nx_buckets = bs, n_person = 0, n_auction = 0, n_bid = 0\<rparr>
   in n_person d + n_auction d + n_bid d = length evs"
  by (induction evs rule: rev_induct) (auto simp: put_event_def Let_def split: nx_kind.splits)

lemma concat_classes_mset:
  assumes "0 < n"
  shows "mset (concat (map (\<lambda>b. filter (\<lambda>ev. bucket_of n (nx_ns ev) = b) evs) [0..<n])) = mset evs"
proof -
  have "(\<lambda>ev. bucket_of n (nx_ns ev)) ` set evs \<subseteq> set [0..<n]" using bucket_of_less [OF assms] by auto
  from mset_filter_classes [OF distinct_upt this] show ?thesis by (simp add: mset_concat o_def)
qed

lemma concat_classes_sorted:
  "sorted (map f (concat (map (\<lambda>b. filter (\<lambda>x. f x = b) xs) [0..<n])))"
proof (induction n)
  case (Suc n)
  have "map f (filter (\<lambda>x. f x = n) xs) = replicate (length (filter (\<lambda>x. f x = n) xs)) n"
    by (induction xs) auto
  then have "sorted (map f (filter (\<lambda>x. f x = n) xs))" by simp
  with Suc show ?case by (auto simp: sorted_append map_concat)
qed simp

lemma concat_single: "concat (map (\<lambda>b. if b = j then xs else []) [0..<n]) = (if j < n then xs else [])"
  by (induction n) auto

text \<open>
  The events run through the rules in the order of their 30-second buckets and, within one, in
  the order in which they were made; none is lost.
\<close>

lemma buckets_sort_events:
  "concat (nx_buckets (collect_buckets n_events evs)) =
   sort_key (\<lambda>ev. bucket_of (time_buckets_for n_events) (nx_ns ev)) evs"
proof -
  let ?n = "time_buckets_for n_events"
  have n: "0 < ?n" by (simp add: time_buckets_for_def)
  let ?f = "\<lambda>ev. bucket_of ?n (nx_ns ev)"
  let ?bs = "concat (map (\<lambda>b. filter (\<lambda>ev. ?f ev = b) evs) [0..<?n])"
  have "filter (\<lambda>x. ?f k = ?f x) ?bs = filter (\<lambda>x. ?f k = ?f x) evs" for k
  proof -
    have "filter (\<lambda>x. ?f k = ?f x) ?bs = concat (map (\<lambda>b. if b = ?f k then filter (\<lambda>x. ?f k = ?f x) evs else []) [0..<?n])"
      by (auto simp: filter_concat o_def intro!: arg_cong [where f = concat] filter_cong)
    also have "\<dots> = filter (\<lambda>x. ?f k = ?f x) evs"
      using bucket_of_less [OF n] by (simp add: concat_single)
    finally show ?thesis .
  qed
  then have "sort_key ?f evs = ?bs"
    using concat_classes_mset [OF n] concat_classes_sorted by (intro properties_for_sort_key) auto
  then show ?thesis by (simp add: collect_buckets_def Let_def put_events_buckets [OF n])
qed

end
