(* ===== verification/F64Round.thy ===== *)
theory F64Round
  imports F64
begin

text \<open>
  What rounding to binary64 does to a value: the result has a significand below \<open>2 ^ 53\<close>, a
  representable value is kept exactly, and rounding does not cross an integer up to \<open>2 ^ 53\<close> nor a
  power of two. From these the exactness of conversions, of division by a power of two and of
  \<open>ceil\<close> for the values the code computes with.
\<close>

section \<open>The binary exponent\<close>

lemma blen_bounds: "0 < n \<Longrightarrow> 2 ^ (blen n - 1) \<le> n \<and> n < 2 ^ blen n \<and> 0 < blen n"
proof (induction n rule: blen.induct)
  case (1 n)
  show ?case
  proof (cases "n div 2 = 0")
    case True
    then have "n = 1" using 1(2) by simp
    then show ?thesis by (simp add: blen.simps [of "Suc 0"] blen.simps [of 0])
  next
    case False
    then have ih: "2 ^ (blen (n div 2) - 1) \<le> n div 2" "n div 2 < 2 ^ blen (n div 2)" "0 < blen (n div 2)"
      using 1 by auto
    obtain b where b: "blen (n div 2) = Suc b" using ih(3) by (cases "blen (n div 2)") auto
    have "blen n = Suc (Suc b)" using 1(2) b by (simp add: blen.simps [of n])
    then show ?thesis using ih(1,2) b by simp linarith
  qed
qed

lemma blen_rat:
  assumes "0 < n"
  shows "(2::rat) powi (int (blen n) - 1) \<le> of_nat n" and "of_nat n < (2::rat) powi int (blen n)"
proof -
  have b: "2 ^ (blen n - 1) \<le> n" "n < 2 ^ blen n" "0 < blen n" using blen_bounds [OF assms] by auto
  have i: "int (blen n) - 1 = int (blen n - 1)" using b(3) by simp
  have "of_nat (2 ^ (blen n - 1)) \<le> (of_nat n :: rat)" using b(1) by (simp only: of_nat_le_iff)
  then show "(2::rat) powi (int (blen n) - 1) \<le> of_nat n" unfolding i by (simp only: power_int_of_nat) simp
  have "(of_nat n :: rat) < of_nat (2 ^ blen n)" using b(2) by (simp only: of_nat_less_iff)
  then show "of_nat n < (2::rat) powi int (blen n)" by (simp only: power_int_of_nat) simp
qed

lemma powi_nonneg: "0 \<le> k \<Longrightarrow> (2::rat) powi k = 2 ^ nat k"
  by (simp add: power_int_def)

lemma powi_neg: "k < 0 \<Longrightarrow> (2::rat) powi k = 1 / 2 ^ nat (- k)"
  by (simp add: power_int_def inverse_eq_divide power_one_over)

lemma ge_pow2_rat: "0 < q \<Longrightarrow> ge_pow2 p q l \<longleftrightarrow> (2::rat) powi l \<le> of_nat p / of_nat q"
proof (cases "0 \<le> l")
  case True
  assume q: "0 < q"
  have "ge_pow2 p q l \<longleftrightarrow> (of_nat (q * 2 ^ nat l) :: rat) \<le> of_nat p"
    using True by (simp only: ge_pow2_def if_True of_nat_le_iff)
  then show ?thesis using q True by (simp add: powi_nonneg pos_le_divide_eq mult.commute)
next
  case False
  assume q: "0 < q"
  have "ge_pow2 p q l \<longleftrightarrow> (of_nat q :: rat) \<le> of_nat (p * 2 ^ nat (- l))"
    using False by (simp only: ge_pow2_def if_False of_nat_le_iff)
  then show ?thesis using q False by (simp add: powi_neg pos_le_divide_eq pos_divide_le_eq mult.commute)
qed

text \<open>The exponent that \<open>round_ratio\<close> finds is the integer part of the binary logarithm.\<close>

definition ratio_log :: "nat \<Rightarrow> nat \<Rightarrow> int" where
  "ratio_log p q = (let l = int (blen p) - int (blen q) in if ge_pow2 p q l then l else l - 1)"

lemma ratio_log_bounds:
  assumes "0 < p" "0 < q"
  shows "(2::rat) powi ratio_log p q \<le> of_nat p / of_nat q"
    and "of_nat p / of_nat q < (2::rat) powi (ratio_log p q + 1)"
proof -
  let ?l = "int (blen p) - int (blen q)"
  have P: "(2::rat) powi (int (blen p) - 1) \<le> of_nat p" "of_nat p < (2::rat) powi int (blen p)"
    using blen_rat [OF assms(1)] by auto
  have Q: "(2::rat) powi (int (blen q) - 1) \<le> of_nat q" "of_nat q < (2::rat) powi int (blen q)"
    using blen_rat [OF assms(2)] by auto
  have q: "(0::rat) < of_nat q" using assms(2) by simp
  have "(2::rat) powi (?l - 1) * of_nat q \<le> 2 powi (?l - 1) * 2 powi int (blen q)"
    using Q(2) by (intro mult_left_mono) auto
  also have "\<dots> = 2 powi (int (blen p) - 1)" using power_int_add [of "2::rat" "?l - 1" "int (blen q)"] by simp
  finally have lo: "(2::rat) powi (?l - 1) \<le> of_nat p / of_nat q" using P(1) q by (simp add: pos_le_divide_eq)
  have "(2::rat) powi int (blen p) = 2 powi (?l + 1) * 2 powi (int (blen q) - 1)"
    using power_int_add [of "2::rat" "?l + 1" "int (blen q) - 1"] by simp
  also have "\<dots> \<le> 2 powi (?l + 1) * of_nat q" using Q(1) by (intro mult_left_mono) auto
  finally have "of_nat p < (2::rat) powi (?l + 1) * of_nat q" using P(2) by (rule less_le_trans [rotated])
  then have hi: "of_nat p / of_nat q < (2::rat) powi (?l + 1)" using q by (simp only: pos_divide_less_eq)
  show "(2::rat) powi ratio_log p q \<le> of_nat p / of_nat q"
    using lo ge_pow2_rat [OF assms(2), of p ?l] by (simp add: ratio_log_def Let_def)
  show "of_nat p / of_nat q < (2::rat) powi (ratio_log p q + 1)"
    using hi ge_pow2_rat [OF assms(2), of p ?l] by (simp add: ratio_log_def Let_def)
qed

section \<open>The significand\<close>

lemma div_half_even_floor:
  assumes "0 < q"
  obtains x :: rat where "x = of_nat p / of_nat q / 2 powi e" and "\<lfloor>x\<rfloor> \<le> int (div_half_even p q e)"
    and "int (div_half_even p q e) \<le> \<lceil>x\<rceil>"
proof -
  define num where "num = (if e < 0 then p * 2 ^ nat (- e) else p)"
  define den where "den = (if e < 0 then q else q * 2 ^ nat e)"
  let ?x = "of_nat p / of_nat q / (2::rat) powi e"
  have den: "0 < den" using assms by (simp add: den_def)
  have x: "?x = of_nat num / of_nat den"
    by (cases "e < 0") (simp_all add: num_def den_def powi_neg powi_nonneg)
  have fl: "\<lfloor>?x\<rfloor> = int (num div den)"
    unfolding x by (simp add: floor_divide_of_nat_eq zdiv_int)
  have d: "div_half_even p q e = num div den \<or>
           (div_half_even p q e = Suc (num div den) \<and> 0 < num mod den)"
    using den by (auto simp: div_half_even_def Let_def num_def den_def)
  have "int (div_half_even p q e) \<le> \<lceil>?x\<rceil>"
  proof (cases "num mod den = 0")
    case True
    then have "int (div_half_even p q e) = \<lfloor>?x\<rfloor>" using d fl by auto
    then show ?thesis by (simp only: floor_le_ceiling)
  next
    case False
    have "num div den * den < num" using False by (metis div_mult_mod_eq less_add_same_cancel1 not_gr_zero)
    then have "of_nat (num div den * den) < (of_nat num :: rat)" by (simp only: of_nat_less_iff)
    then have "of_nat (num div den) < (of_nat num / of_nat den :: rat)" using den by (simp add: pos_less_divide_eq)
    then have "of_int \<lfloor>?x\<rfloor> < ?x" unfolding fl by (simp only: of_int_of_nat_eq x)
    then have "\<lfloor>?x\<rfloor> < \<lceil>?x\<rceil>" by (simp add: less_ceiling_iff)
    then show ?thesis using d fl by auto
  qed
  then show thesis using fl d by (intro that [of ?x]) auto
qed

section \<open>Rounding\<close>

lemma powi_less: "i < j \<Longrightarrow> (2::rat) powi i < 2 powi j"
  by (rule power_int_strict_increasing) simp_all

lemma powi_le_iff: "(2::rat) powi i \<le> 2 powi j \<longleftrightarrow> i \<le> j"
  by (metis linorder_not_less order_less_imp_le order_refl powi_less antisym_conv3)

lemma powi_less_iff: "(2::rat) powi i < 2 powi j \<longleftrightarrow> i < j"
  by (simp only: not_le [symmetric] powi_le_iff)

lemma powi_diff: "(2::rat) powi (i - j) = 2 powi i / 2 powi j"
  by (rule power_int_diff) simp

lemma nat_powi: "0 \<le> k \<Longrightarrow> of_nat n * (2::rat) powi k = of_int (int n * 2 ^ nat k)"
  by (simp add: powi_nonneg)

lemma ratio_pack_value:
  assumes "m \<le> 2 ^ 53" "e \<le> 970"
  obtains m' e' where "ratio_pack False e m = Fin False m' e'" "m' < 2 ^ 53" "fval False m' e' = of_nat m * 2 powi e"
proof (cases "m = 2 ^ 53")
  case True
  have "(2::rat) powi (e + 1) = 2 * 2 powi e" using power_int_add [of "2::rat" e 1] by simp
  then show thesis using assms True
    by (intro that [of "2 ^ 52" "e + 1"]) (simp_all add: ratio_pack_def fval_def sval_def)
next
  case False
  then show thesis using assms
    by (cases "m = 0"; intro that [of m "if m = 0 then 0 else e"]) (simp_all add: ratio_pack_def fval_def sval_def)
qed

text \<open>A positive ratio below \<open>2 ^ 1000\<close> is rounded to a neighbour on the grid of its exponent.\<close>

lemma round_ratio_grid:
  assumes "0 < p" "0 < q" "of_nat p / of_nat q \<le> (2::rat) powi K" "K \<le> 1000"
  obtains e x m' e' n where "e = max (ratio_log p q - 52) (- 1074)" "x = of_nat p / of_nat q / (2::rat) powi e"
    "\<lfloor>x\<rfloor> \<le> int n" "int n \<le> \<lceil>x\<rceil>" "ratio_log p q \<le> K" "n \<le> 2 ^ 53"
    "round_ratio False p q = Fin False m' e'" "m' < 2 ^ 53" "fval False m' e' = of_nat n * 2 powi e"
proof -
  let ?l = "ratio_log p q"
  define e where "e = max (?l - 52) (- 1074)"
  let ?n = "div_half_even p q e"
  obtain x where x: "x = of_nat p / of_nat q / (2::rat) powi e" "\<lfloor>x\<rfloor> \<le> int ?n" "int ?n \<le> \<lceil>x\<rceil>"
    using div_half_even_floor [OF assms(2)] .
  have l: "?l \<le> K" using ratio_log_bounds(1) [OF assms(1,2)] assms(3) powi_le_iff by (meson order_trans)
  have "x \<le> 2 powi (?l + 1) / 2 powi e"
    unfolding x(1) using ratio_log_bounds(2) [OF assms(1,2)] by (intro divide_right_mono) auto
  also have "\<dots> = 2 powi (?l + 1 - e)" by (simp only: powi_diff)
  also have "\<dots> \<le> 2 powi 53" by (simp only: powi_le_iff) (simp add: e_def)
  finally have "x \<le> of_int (2 ^ 53)" by (simp add: power_int_def)
  then have n: "?n \<le> 2 ^ 53" using x(3) by (simp only: ceiling_le_iff [symmetric])
      (metis (no_types, lifting) of_nat_le_iff of_nat_numeral of_nat_power order_trans)
  have "e \<le> 970" using l assms(4) by (simp add: e_def)
  then obtain m' e' where p: "ratio_pack False e ?n = Fin False m' e'" "m' < 2 ^ 53" "fval False m' e' = of_nat ?n * 2 powi e"
    using ratio_pack_value [OF n] by blast
  have "round_ratio False p q = ratio_pack False e ?n"
    using assms(1) by (simp only: round_ratio_eval ratio_exp_def ratio_mant_def e_def ratio_log_def Let_def) simp
  then show thesis using that [OF e_def x(1-3) l n _ p(2,3)] p(1) by simp
qed

text \<open>A value with a significand below \<open>2 ^ 53\<close> is kept.\<close>

lemma round_ratio_exact:
  assumes "0 < q" "of_nat p / of_nat q = of_nat n * (2::rat) powi k" "n < 2 ^ 53" "- 1074 \<le> k" "k \<le> 900"
  obtains m e where "round_ratio False p q = Fin False m e" "m < 2 ^ 53" "fval False m e = of_nat p / of_nat q"
proof (cases "p = 0")
  case True
  then show thesis by (intro that [of 0 0]) (simp_all add: round_ratio_def fval_def sval_def)
next
  case False
  let ?v = "of_nat n * (2::rat) powi k"
  have "of_nat n < (of_nat (2 ^ 53) :: rat)" using assms(3) by (simp only: of_nat_less_iff)
  then have "?v < 2 powi 53 * 2 powi k" by (intro mult_strict_right_mono) (simp_all add: power_int_def)
  then have up: "?v < 2 powi (53 + k)" using power_int_add [of "2::rat" 53 k] by simp
  then have hi: "of_nat p / of_nat q \<le> (2::rat) powi (53 + k)" using assms(2) by simp
  have lo: "2 powi ratio_log p q \<le> ?v" using ratio_log_bounds(1) [of p q] False assms(1,2) by simp
  then have "(2::rat) powi ratio_log p q < 2 powi (53 + k)" using up by (rule le_less_trans)
  then have ek: "ratio_log p q < 53 + k" by (simp only: powi_less_iff)
  obtain e x m' e' j where g: "e = max (ratio_log p q - 52) (- 1074)" "x = of_nat p / of_nat q / (2::rat) powi e"
    "\<lfloor>x\<rfloor> \<le> int j" "int j \<le> \<lceil>x\<rceil>" "round_ratio False p q = Fin False m' e'" "m' < 2 ^ 53"
    "fval False m' e' = of_nat j * 2 powi e"
    by (rule round_ratio_grid [OF _ assms(1) hi]) (use False assms(5) in auto)
  have e: "e \<le> k" using ek assms(4) g(1) by simp
  have "x = of_nat n * 2 powi (k - e)" unfolding g(2) assms(2) by (simp add: powi_diff)
  then have xi: "x = of_int (int n * 2 ^ nat (k - e))" using e by (simp only: nat_powi [of "k - e" n])
  then have "of_nat j = x" using g(3,4) by (metis ceiling_of_int floor_of_int of_int_of_nat_eq order_antisym)
  then have "fval False m' e' = of_nat p / of_nat q" using g(2,7) by simp
  then show thesis using that g(5,6) by blast
qed

text \<open>Rounding does not fall below an integer up to \<open>2 ^ 53\<close>, nor climb above a power of two.\<close>

lemma round_ratio_bounds:
  assumes "0 < q" "of_nat p / of_nat q \<le> (2::rat) powi K" "0 \<le> K" "K \<le> 1000" "of_nat N \<le> (of_nat p / of_nat q :: rat)" "N \<le> 2 ^ 53"
  obtains m e where "round_ratio False p q = Fin False m e" "m < 2 ^ 53" "of_nat N \<le> fval False m e" "fval False m e \<le> 2 powi K"
proof (cases "p = 0")
  case True
  then have "N = 0" using assms(5) by simp
  then show thesis using True by (intro that [of 0 0]) (simp_all add: round_ratio_def fval_def sval_def)
next
  case False
  obtain e x m' e' j where g: "e = max (ratio_log p q - 52) (- 1074)" "x = of_nat p / of_nat q / (2::rat) powi e"
    "\<lfloor>x\<rfloor> \<le> int j" "int j \<le> \<lceil>x\<rceil>" "ratio_log p q \<le> K" "round_ratio False p q = Fin False m' e'" "m' < 2 ^ 53"
    "fval False m' e' = of_nat j * 2 powi e"
    by (rule round_ratio_grid [OF _ assms(1,2,4)]) (use False in auto)
  have pos: "(0::rat) < 2 powi e" by simp
  have ek: "e \<le> K" using g(1,5) assms(3) by simp
  have "x \<le> 2 powi K / 2 powi e" unfolding g(2) using assms(2) by (intro divide_right_mono) auto
  also have "\<dots> = of_int (2 ^ nat (K - e))" using ek by (simp add: powi_nonneg flip: powi_diff)
  finally have "\<lceil>x\<rceil> \<le> 2 ^ nat (K - e)" by (simp only: ceiling_le_iff)
  then have "of_int (int j) \<le> (of_int (2 ^ nat (K - e)) :: rat)" using g(4) by (simp only: of_int_le_iff)
  then have "of_nat j \<le> (2::rat) powi (K - e)" using ek by (simp add: powi_nonneg)
  then have "of_nat j * 2 powi e \<le> 2 powi (K - e) * (2::rat) powi e" by (intro mult_right_mono) auto
  then have up: "fval False m' e' \<le> 2 powi K" using power_int_add [of "2::rat" "K - e" e] g(8) by simp
  have "of_nat N \<le> fval False m' e'"
  proof (cases "e \<le> 0")
    case True
    have "of_nat N / 2 powi e \<le> x" unfolding g(2) using assms(5) by (intro divide_right_mono) auto
    moreover have "of_nat N / (2::rat) powi e = of_int (int N * 2 ^ nat (- e))"
      using True nat_powi [of "- e" N] by (simp add: power_int_minus divide_inverse)
    ultimately have "int N * 2 ^ nat (- e) \<le> int j" using g(3) by (simp only: le_floor_iff [symmetric])
    then have "(of_int (int N * 2 ^ nat (- e)) :: rat) \<le> of_int (int j)" by (simp only: of_int_le_iff)
    then have "of_nat N / 2 powi e \<le> (of_nat j :: rat)"
      using \<open>of_nat N / (2::rat) powi e = of_int (int N * 2 ^ nat (- e))\<close> by simp
    then show ?thesis using pos g(8) by (simp add: pos_divide_le_eq)
  next
    case False
    then have e: "e = ratio_log p q - 52" using g(1) by simp
    have "2 powi ratio_log p q / 2 powi e \<le> x"
      unfolding g(2) using ratio_log_bounds(1) [of p q] \<open>p \<noteq> 0\<close> assms(1) by (intro divide_right_mono) auto
    moreover have "2 powi ratio_log p q / 2 powi e = (of_int (2 ^ 52) :: rat)"
      unfolding powi_diff [symmetric] e by (simp add: powi_nonneg)
    ultimately have "2 ^ 52 \<le> int j" using g(3) by (simp only: le_floor_iff [symmetric])
    then have "(of_int (2 ^ 52) :: rat) \<le> of_int (int j)" by (simp only: of_int_le_iff)
    then have j: "2 ^ 52 \<le> (of_nat j :: rat)" by simp
    have "(2::rat) powi 1 \<le> 2 powi e" using False by (simp only: powi_le_iff)
    then have "(2::rat) ^ 52 * 2 \<le> of_nat j * 2 powi e" using j by (intro mult_mono) auto
    moreover have "of_nat N \<le> (of_nat (2 ^ 53) :: rat)" using assms(6) by (simp only: of_nat_le_iff)
    ultimately show ?thesis unfolding g(8) by simp
  qed
  then show thesis using that g(6,7) up by blast
qed

section \<open>Conversions\<close>

text \<open>A natural number up to \<open>2 ^ 53\<close> is a float.\<close>

lemma round_nat_exact:
  assumes "n \<le> 2 ^ 53"
  obtains m e where "round_ratio False n 1 = Fin False m e" "m < 2 ^ 53" "fval False m e = of_nat n"
proof (cases "n = 2 ^ 53")
  case True
  have "of_nat n / of_nat 1 = of_nat (2 ^ 52) * (2::rat) powi 1" using True by simp
  then show thesis by (rule round_ratio_exact [rotated]) (use that in auto)
next
  case False
  have "of_nat n / of_nat 1 = of_nat n * (2::rat) powi 0" by simp
  then show thesis by (rule round_ratio_exact [rotated]) (use False assms that in auto)
qed

lemma to_u64_fval:
  assumes "fval False m e = of_nat n" "n \<le> u64_max"
  shows "to_u64 (Fin False m e) = n"
proof (cases "0 \<le> e")
  case True
  then have "(of_int (int m * 2 ^ nat e) :: rat) = of_int (int n)"
    using assms(1) by (simp add: fval_def sval_def powi_nonneg)
  then have "int m * 2 ^ nat e = int n" by (simp only: of_int_eq_iff)
  then have "m * 2 ^ nat e = n" by (metis of_nat_eq_iff of_nat_mult of_nat_numeral of_nat_power)
  then show ?thesis using True assms(2) by (simp add: trunc_nat_def)
next
  case False
  then have "of_nat m = of_nat n * (2::rat) ^ nat (- e)"
    using assms(1) by (simp add: fval_def sval_def powi_neg field_simps)
  then have "(of_nat m :: rat) = of_nat (n * 2 ^ nat (- e))" by simp
  then have "m = n * 2 ^ nat (- e)" by (simp only: of_nat_eq_iff)
  then show ?thesis using False assms(2) by (simp add: trunc_nat_def)
qed

text \<open>\<open>ceil\<close> followed by \<open>as u64\<close> is the ceiling of the value.\<close>

lemma ceil_to_u64:
  assumes "m < 2 ^ 53" "fval False m e \<le> of_nat u64_max"
  shows "int (to_u64 (fceil (Fin False m e))) = \<lceil>fval False m e\<rceil>"
proof (cases "0 \<le> e")
  case True
  then have v: "fval False m e = of_nat (m * 2 ^ nat e)" by (simp add: fval_def sval_def powi_nonneg)
  then have "m * 2 ^ nat e \<le> u64_max" using assms(2) by (simp only: of_nat_le_iff)
  then have "to_u64 (Fin False m e) = m * 2 ^ nat e" by (rule to_u64_fval [OF v])
  moreover have "\<lceil>fval False m e\<rceil> = int (m * 2 ^ nat e)" unfolding v by (rule ceiling_of_nat)
  ultimately show ?thesis using True by simp
next
  case False
  define d :: nat where "d = 2 ^ nat (- e)"
  have d: "0 < d" by (simp add: d_def)
  have v: "fval False m e = of_nat m / of_nat d" using False by (simp add: fval_def sval_def powi_neg d_def)
  define c where "c = (m + d - 1) div d"
  have cd: "m \<le> c * d" "c * d < m + d"
  proof -
    have "c * d + (m + d - 1) mod d = m + d - 1" unfolding c_def by (rule div_mult_mod_eq)
    moreover have "(m + d - 1) mod d < d" using d by simp
    ultimately show "m \<le> c * d" "c * d < m + d" using d by linarith+
  qed
  have "\<lceil>of_nat m / (of_nat d :: rat)\<rceil> = int c"
  proof (rule ceiling_unique)
    have "of_nat (c * d) < (of_nat (m + d) :: rat)" using cd(2) by (simp only: of_nat_less_iff)
    then have "(of_nat c - 1) * of_nat d < (of_nat m :: rat)" by (simp add: algebra_simps)
    then show "of_int (int c) - 1 < of_nat m / (of_nat d :: rat)" using d by (simp add: pos_less_divide_eq)
    have "of_nat m \<le> (of_nat (c * d) :: rat)" using cd(1) by (simp only: of_nat_le_iff)
    then show "of_nat m / (of_nat d :: rat) \<le> of_int (int c)" using d by (simp add: pos_divide_le_eq)
  qed
  then have c: "\<lceil>fval False m e\<rceil> = int c" by (simp only: v)
  have "m + d \<le> (m + 1) * d" using d by (cases d) auto
  then have "c * d < (m + 1) * d" using cd(2) by (rule less_le_trans [rotated])
  then have "c < m + 1" by (simp only: mult_less_cancel2)
  then have "c \<le> m" by simp
  then have "c \<le> 2 ^ 53" using assms(1) by simp
  then obtain n f where r: "round_ratio False c 1 = Fin False n f" "fval False n f = of_nat c"
    by (rule round_nat_exact)
  have "c \<le> u64_max" using \<open>c \<le> 2 ^ 53\<close> by simp
  then have "to_u64 (Fin False n f) = c" using to_u64_fval [OF r(2)] by simp
  moreover have "fceil (Fin False m e) = Fin False n f"
    using False r(1) by (simp only: fceil.simps if_False Let_def d_def c_def)
  ultimately show ?thesis using c by (simp only:)
qed

text \<open>Division by a power of two is exact where the quotient is at least one.\<close>

lemma fdiv_pow2:
  assumes "m < 2 ^ 53" "of_nat (2 ^ u) \<le> fval False m e" "fval False m e \<le> 2 ^ 100" "u \<le> 60"
  obtains n f where "fdiv (Fin False m e) (Fin False (2 ^ u) 0) = Fin False n f" "n < 2 ^ 53"
    "fval False n f = fval False m e / 2 ^ u"
proof -
  have v: "fval False m e = of_nat m * 2 powi e" by (simp add: fval_def sval_def)
  have m: "0 < m"
  proof (rule ccontr)
    assume "\<not> 0 < m"
    then have "of_nat (2 ^ u) \<le> (0::rat)" using assms(2) v by simp
    moreover have "(0::rat) < of_nat (2 ^ u)" by simp
    ultimately show False by linarith
  qed
  define p where "p = (if 0 \<le> e then m * 2 ^ nat e else m)"
  define q where "q = (if 0 \<le> e then 2 ^ u else 2 ^ u * 2 ^ nat (- e) :: nat)"
  have q: "0 < q" by (simp add: q_def)
  have dv: "fdiv (Fin False m e) (Fin False (2 ^ u) 0) = round_ratio False p q"
    by (simp add: p_def q_def)
  have "of_nat p / of_nat q = of_nat m * (2::rat) powi e / 2 ^ u"
    by (simp add: p_def q_def powi_nonneg powi_neg)
  also have "\<dots> = of_nat m * 2 powi (e - int u)" by (simp add: powi_diff power_int_of_nat)
  finally have pq: "of_nat p / of_nat q = of_nat m * (2::rat) powi (e - int u)" .
  have lo: "- 53 \<le> e - int u"
  proof (rule ccontr)
    assume "\<not> - 53 \<le> e - int u"
    then have "e < int u - 53" by simp
    then have "(2::rat) powi e \<le> 2 powi (int u - 53)" by (simp add: powi_le_iff)
    moreover have "of_nat m < (of_nat (2 ^ 53) :: rat)" using assms(1) by (simp only: of_nat_less_iff)
    ultimately have "of_nat m * 2 powi e < of_nat (2 ^ 53) * (2::rat) powi (int u - 53)"
      by (intro mult_less_le_imp_less) auto
    also have "\<dots> = 2 ^ u" by (simp add: powi_diff power_int_of_nat powi_nonneg)
    finally show False using assms(2) v by simp
  qed
  have hi: "e - int u \<le> 900"
  proof (rule ccontr)
    assume "\<not> e - int u \<le> 900"
    then have "101 \<le> e" by simp
    then have "(2::rat) powi 101 \<le> 2 powi e" by (simp only: powi_le_iff)
    moreover have "1 \<le> (of_nat m :: rat)" using m by simp
    ultimately have "1 * 2 powi 101 \<le> of_nat m * (2::rat) powi e" by (intro mult_mono) auto
    then show False using assms(3) v by (simp add: powi_nonneg)
  qed
  obtain n f where "round_ratio False p q = Fin False n f" "n < 2 ^ 53" "fval False n f = of_nat p / of_nat q"
    by (rule round_ratio_exact [OF q pq assms(1)]) (use lo hi in auto)
  then show thesis using that dv pq v by (simp add: powi_diff power_int_of_nat)
qed

text \<open>\<open>round\<close> followed by \<open>as u64\<close> rounds half up.\<close>

lemma round_to_u64:
  assumes "m < 2 ^ 53" "fval False m e \<le> of_nat u64_max"
  shows "int (to_u64 (fround (Fin False m e))) = \<lfloor>fval False m e + 1 / 2\<rfloor>"
proof (cases "0 \<le> e")
  case True
  then have v: "fval False m e = of_nat (m * 2 ^ nat e)" by (simp add: fval_def sval_def powi_nonneg)
  then have "m * 2 ^ nat e \<le> u64_max" using assms(2) by (simp only: of_nat_le_iff)
  then have "to_u64 (Fin False m e) = m * 2 ^ nat e" by (rule to_u64_fval [OF v])
  moreover have "\<lfloor>fval False m e + 1 / 2\<rfloor> = int (m * 2 ^ nat e)"
    unfolding v by (rule floor_unique) simp_all
  ultimately show ?thesis using True by simp
next
  case False
  define d :: nat where "d = 2 ^ nat (- e)"
  have "0 < nat (- e)" using False by simp
  then have d: "1 < d" unfolding d_def by (rule one_less_power [rotated]) simp
  have v: "fval False m e = of_nat m / of_nat d" using False by (simp add: fval_def sval_def powi_neg d_def)
  define c where "c = (2 * m + d) div (2 * d)"
  have "fval False m e + 1 / 2 = of_nat (2 * m + d) / of_nat (2 * d)" using d by (simp add: v field_simps)
  then have c: "\<lfloor>fval False m e + 1 / 2\<rfloor> = int c" by (simp only: floor_divide_of_nat_eq c_def)
  have "c \<le> m"
  proof (cases "m = 0")
    case True
    then show ?thesis using d by (simp add: c_def)
  next
    case False
    have "2 * m + d \<le> m * (2 * d)" using d False
      by (cases m; cases d) (auto simp: algebra_simps intro: add_mono mult_le_mono)
    then have "c \<le> m * (2 * d) div (2 * d)" unfolding c_def by (rule div_le_mono)
    then show ?thesis using d by simp
  qed
  then have "c \<le> 2 ^ 53" using assms(1) by simp
  then obtain n f where r: "round_ratio False c 1 = Fin False n f" "fval False n f = of_nat c"
    by (rule round_nat_exact)
  have "c \<le> u64_max" using \<open>c \<le> 2 ^ 53\<close> by simp
  then have "to_u64 (Fin False n f) = c" using to_u64_fval [OF r(2)] by simp
  moreover have "fround (Fin False m e) = Fin False n f"
    using False r(1) by (simp only: fround.simps if_False Let_def d_def c_def)
  ultimately show ?thesis using c by (simp only:)
qed

end
