(* ===== verification/LimitsEst.thy ===== *)
theory LimitsEst
  imports F64Round RustText InjectPlan "HOL-Library.Char_ord" "HOL-Library.List_Lexorder"
begin

text \<open>
  The recommendation of rule limits from a metrics file (\<open>wfl/src/cmd_limits_est.rs\<close>): the peaks per
  rule, the suggested limits, the notes on rules without a measurement, and the command. The JSON
  parser and the file system are parameters. The lines of the derivation are constructors with the
  values the texts show; a note is its name. The last section shows that a suggestion is never below
  a sample.
\<close>

section \<open>The samples of a file\<close>

text \<open>\<open>Value::get\<close> with a key, and what it holds as text.\<close>

definition json_get :: "json \<Rightarrow> string \<Rightarrow> json option" where
  "json_get v k = (case v of JObject m \<Rightarrow> map_of m k | _ \<Rightarrow> None)"

definition json_as_str :: "json \<Rightarrow> string option" where
  "json_as_str v = (case v of JString s \<Rightarrow> Some s | _ \<Rightarrow> None)"

definition json_as_u64 :: "json \<Rightarrow> nat option" where
  "json_as_u64 v = (case v of JInt i \<Rightarrow> if 0 \<le> i \<and> i \<le> int u64_max then Some (nat i) else None | _ \<Rightarrow> None)"

definition get_str :: "json \<Rightarrow> string \<Rightarrow> string option" where
  "get_str v k = Option.bind (json_get v k) json_as_str"

definition sample_value :: "json \<Rightarrow> nat" where
  "sample_value v =
     (case Option.bind (json_get v ''value'')
             (\<lambda>x. case Option.bind (json_as_str x) parse_u64 of Some n \<Rightarrow> Some n | None \<Rightarrow> json_as_u64 x) of
        Some n \<Rightarrow> n | None \<Rightarrow> 0)"

datatype limit_metric = MInstances | MMemory

text \<open>What a line says: nothing, or a sample of a metric for a rule.\<close>

definition line_sample :: "(string \<Rightarrow> json option) \<Rightarrow> string \<Rightarrow> (limit_metric \<times> string \<times> nat) option" where
  "line_sample parse line =
     (case parse line of None \<Rightarrow> None
      | Some v \<Rightarrow>
          if get_str v ''stage'' \<noteq> Some ''rule'' then None
          else (case get_str v ''name'' of None \<Rightarrow> None
                | Some name \<Rightarrow>
                    if name \<noteq> ''instances'' \<and> name \<noteq> ''memory_bytes'' then None
                    else (case get_str v ''label'' of None \<Rightarrow> None
                          | Some label \<Rightarrow> Some (if name = ''instances'' then MInstances else MMemory, label, sample_value v))))"

definition collect_stats_labels :: "(string \<Rightarrow> json option) \<Rightarrow> string \<Rightarrow> string set" where
  "collect_stats_labels parse text =
     foldl (\<lambda>out line.
        case parse line of None \<Rightarrow> out
        | Some v \<Rightarrow>
            if get_str v ''stage'' \<noteq> Some ''rule'' then out
            else if get_str v ''name'' \<noteq> Some ''stats_over_limit_total'' then out
            else (case get_str v ''label'' of None \<Rightarrow> out | Some lb \<Rightarrow> insert lb out)) {} (str_lines text)"

fun upsert_max :: "(string \<times> nat) list \<Rightarrow> string \<Rightarrow> nat \<Rightarrow> (string \<times> nat) list" where
  "upsert_max [] label val = [(label, val)]"
| "upsert_max ((r, v) # acc) label val =
     (if r = label then (r, max v val) # acc else (r, v) # upsert_max acc label val)"

record peak_state =
  ps_order :: "string list"
  ps_inst :: "(string \<times> nat) list"
  ps_mem :: "(string \<times> nat) list"

definition peak_step :: "(string \<Rightarrow> json option) \<Rightarrow> peak_state \<Rightarrow> string \<Rightarrow> peak_state" where
  "peak_step parse st line =
     (case line_sample parse line of None \<Rightarrow> st
      | Some (m, label, val) \<Rightarrow>
          let st1 = (if label \<in> set (ps_order st) then st else st\<lparr>ps_order := ps_order st @ [label]\<rparr>)
          in (case m of MInstances \<Rightarrow> st1\<lparr>ps_inst := upsert_max (ps_inst st1) label val\<rparr>
                      | MMemory \<Rightarrow> st1\<lparr>ps_mem := upsert_max (ps_mem st1) label val\<rparr>))"

definition peak_or_zero :: "(string \<times> nat) list \<Rightarrow> string \<Rightarrow> nat" where
  "peak_or_zero acc r = (case map_of acc r of Some v \<Rightarrow> v | None \<Rightarrow> 0)"

definition peak_per_rule :: "(string \<Rightarrow> json option) \<Rightarrow> string \<Rightarrow> (string \<times> nat \<times> nat) list" where
  "peak_per_rule parse text =
     (let st = foldl (peak_step parse) \<lparr>ps_order = [], ps_inst = [], ps_mem = []\<rparr> (str_lines text)
      in map (\<lambda>r. (r, peak_or_zero (ps_inst st) r, peak_or_zero (ps_mem st) r)) (ps_order st))"

section \<open>The estimate\<close>

datatype size_unit = UB | UKiB | UMiB | UGiB

definition f64_gib :: f64 where "f64_gib = Fin False (2 ^ 30) 0"
definition f64_mib :: f64 where "f64_mib = Fin False (2 ^ 20) 0"
definition f64_kib :: f64 where "f64_kib = Fin False (2 ^ 10) 0"

text \<open>The product of two 64-bit integers, which wraps around in a release build.\<close>

definition u64_times :: "nat \<Rightarrow> nat \<Rightarrow> nat" where
  "u64_times a b = (a * b) mod 2 ^ 64"

definition round_bytes_unit :: "f64 \<Rightarrow> nat \<times> size_unit" where
  "round_bytes_unit v =
     (if fle f64_gib v then (u64_times (to_u64 (fceil (fdiv v f64_gib))) (to_u64 f64_gib), UGiB)
      else if fle f64_mib v then (u64_times (to_u64 (fceil (fdiv v f64_mib))) (to_u64 f64_mib), UMiB)
      else if fle f64_kib v then (u64_times (to_u64 (fceil (fdiv v f64_kib))) (to_u64 f64_kib), UKiB)
      else (to_u64 (fceil v), UB))"

record rule_limit_est =
  le_rule :: string
  le_peak_instances :: nat
  le_peak_memory_bytes :: nat
  le_avg_bytes_per_instance :: f64
  le_suggested_max_memory_bytes :: nat
  le_suggested_max_instances :: nat
  le_memory_granularity :: size_unit

definition estimate :: "string \<Rightarrow> nat \<Rightarrow> nat \<Rightarrow> f64 \<Rightarrow> rule_limit_est" where
  "estimate rule peak_instances peak_memory headroom =
     (let avg = (if 0 < peak_instances then fdiv (f64_of_nat peak_memory) (f64_of_nat peak_instances) else f64_zero)
      in case round_bytes_unit (fmul (f64_of_nat peak_memory) headroom) of (rounded_mem, gran) \<Rightarrow>
        \<lparr>le_rule = rule, le_peak_instances = peak_instances, le_peak_memory_bytes = peak_memory,
         le_avg_bytes_per_instance = avg, le_suggested_max_memory_bytes = rounded_mem,
         le_suggested_max_instances = to_u64 (fround (fmul (f64_of_nat peak_instances) headroom)),
         le_memory_granularity = gran\<rparr>)"

section \<open>Text of numbers\<close>

definition fmt_thousands :: "nat \<Rightarrow> string" where
  "fmt_thousands v =
     (let s = dec_digits v
      in concat (map (\<lambda>(i, ch). if 0 < i \<and> (length s - i) mod 3 = 0 then [CHR '','', ch] else [ch])
                     (enumerate 0 s)))"

text \<open>\<open>{:.1}\<close> of a float.\<close>

fun fmt_fixed1 :: "f64 \<Rightarrow> string" where
  "fmt_fixed1 NaN = ''NaN''"
| "fmt_fixed1 (Inf s) = (if s then ''-inf'' else ''inf'')"
| "fmt_fixed1 (Fin s m e) =
     (let k = div_half_even (10 * m) 1 (- e)
      in (if s then [CHR ''-''] else []) @ dec_digits (k div 10) @ [CHR ''.''] @ dec_digits (k mod 10))"

definition fmt_bytes :: "nat \<Rightarrow> string" where
  "fmt_bytes v =
     (if 1073741824 \<le> v then fmt_fixed1 (fdiv (f64_of_nat v) f64_gib) @ ''GB''
      else if 1048576 \<le> v then fmt_fixed1 (fdiv (f64_of_nat v) f64_mib) @ ''MB''
      else if 1024 \<le> v then fmt_fixed0 (fdiv (f64_of_nat v) f64_kib) @ ''KB''
      else dec_digits v @ ''B'')"

section \<open>Derivation and notes\<close>

datatype derivation_line =
    StatsRuleLine string
  | NoSamplesLine string
  | NoInstancesLine string
  | InstancesLine string nat string nat
  | MemoryOfStatsLine
  | MemoryUnmeasuredLine
  | MemoryLine string string string size_unit string string

definition derivation_lines :: "rule_limit_est \<Rightarrow> f64 \<Rightarrow> string set \<Rightarrow> derivation_line list" where
  "derivation_lines est headroom stats =
     (if le_peak_instances est = 0 \<and> le_peak_memory_bytes est = 0
      then [if le_rule est \<in> stats then StatsRuleLine (le_rule est) else NoSamplesLine (le_rule est)]
      else [if le_peak_instances est = 0 then NoInstancesLine (le_rule est)
            else InstancesLine (le_rule est) (le_peak_instances est) (fmt_fixed1 headroom) (le_suggested_max_instances est),
            if le_peak_memory_bytes est = 0
            then (if le_rule est \<in> stats then MemoryOfStatsLine else MemoryUnmeasuredLine)
            else (let scaled = to_u64 (fround (fmul (f64_of_nat (le_peak_memory_bytes est)) headroom))
                  in MemoryLine (fmt_thousands (le_peak_memory_bytes est)) (fmt_fixed1 headroom) (fmt_thousands scaled)
                       (le_memory_granularity est) (fmt_thousands (le_suggested_max_memory_bytes est))
                       (fmt_bytes (le_suggested_max_memory_bytes est)))])"

datatype limits_note = ZeroNote | StatsNote

definition assess :: "(string \<times> nat \<times> nat) list \<Rightarrow> string option \<Rightarrow> f64 \<Rightarrow> string set \<Rightarrow> rule_limit_est list \<times> limits_note option" where
  "assess rows rule_filter headroom stats =
     (let rules = map (\<lambda>(rule, inst, mem). estimate rule inst mem headroom)
                      (filter (\<lambda>(rule, inst, mem). case rule_filter of Some f \<Rightarrow> rule = f | None \<Rightarrow> True) rows);
          note = (if rules \<noteq> [] \<and> list_all (\<lambda>e. le_peak_memory_bytes e = 0) rules
                  then Some (if list_all (\<lambda>e. le_rule e \<in> stats) rules then StatsNote else ZeroNote)
                  else None)
      in (rules, note))"

section \<open>The command\<close>

datatype limits_error = HeadroomOutOfRange f64 | MetricsUnreadable string | NoRuleSamples string | NoSuchRule string "string list"

record limits_est_report =
  lr_schema :: string
  lr_metrics_file :: string
  lr_headroom :: f64
  lr_rules :: "rule_limit_est list"
  lr_note :: "limits_note option"

text \<open>What is printed: the report as JSON, or the note, a table row per rule and the derivation.\<close>

datatype limits_output =
    JsonOutput limits_est_report
  | HumanOutput "limits_note option" "(string \<times> nat \<times> string \<times> string \<times> string \<times> nat) list" "derivation_line list"

definition limits_row :: "rule_limit_est \<Rightarrow> string \<times> nat \<times> string \<times> string \<times> string \<times> nat" where
  "limits_row r = (le_rule r, le_peak_instances r, fmt_bytes (le_peak_memory_bytes r), fmt_fixed0 (le_avg_bytes_per_instance r),
                   fmt_bytes (le_suggested_max_memory_bytes r), le_suggested_max_instances r)"

definition headroom_ok :: "f64 \<Rightarrow> bool" where
  "headroom_ok h = (fle (f64_of_nat 1) h \<and> fle h (f64_of_nat 10))"

text \<open>The rules and the note that both outputs show.\<close>

definition limits_rules :: "(string \<Rightarrow> json option) \<Rightarrow> (string \<Rightarrow> string option) \<Rightarrow> string \<Rightarrow> string option \<Rightarrow> f64 \<Rightarrow>
    limits_error + (rule_limit_est list \<times> limits_note option \<times> string set)" where
  "limits_rules parse read metrics rule_filter headroom =
     (if \<not> headroom_ok headroom then Inl (HeadroomOutOfRange headroom)
      else rbind (ok_or (MetricsUnreadable metrics) (read metrics)) (\<lambda>content.
        let rows = peak_per_rule parse content
        in if rows = [] then Inl (NoRuleSamples metrics)
           else (let sorted_rows = sort_key fst rows;
                     avail = map fst sorted_rows;
                     stats = collect_stats_labels parse content
                 in case assess sorted_rows rule_filter headroom stats of (rules, note) \<Rightarrow>
                      if rules = [] then Inl (NoSuchRule (case rule_filter of Some f \<Rightarrow> f | None \<Rightarrow> []) avail)
                      else Inr (rules, note, stats))))"

definition limits_run :: "(string \<Rightarrow> json option) \<Rightarrow> (string \<Rightarrow> string option) \<Rightarrow> string \<Rightarrow> string option \<Rightarrow> f64 \<Rightarrow> string \<Rightarrow>
    limits_error + limits_output" where
  "limits_run parse read metrics rule_filter headroom format =
     rbind (limits_rules parse read metrics rule_filter headroom) (\<lambda>(rules, note, stats).
       Inr (if format = ''json'' \<or> format = ''jsonl''
            then JsonOutput \<lparr>lr_schema = ''wfl-limits-est/v1'', lr_metrics_file = metrics, lr_headroom = headroom,
                             lr_rules = rules, lr_note = note\<rparr>
            else HumanOutput note (map limits_row rules) (concat (map (\<lambda>r. derivation_lines r headroom stats) rules))))"

section \<open>The rows are the peaks of the samples\<close>

definition rule_samples :: "(string \<Rightarrow> json option) \<Rightarrow> string \<Rightarrow> (limit_metric \<times> string \<times> nat) set" where
  "rule_samples parse text = set (List.map_filter (line_sample parse) (str_lines text))"

definition peak_of :: "(limit_metric \<times> string \<times> nat) set \<Rightarrow> limit_metric \<Rightarrow> string \<Rightarrow> nat" where
  "peak_of S m r = Max (insert 0 {v. (m, r, v) \<in> S})"

lemma finite_samples: "finite S \<Longrightarrow> finite {v. (m, r, v) \<in> S}"
  by (rule finite_subset [of _ "(\<lambda>(m, r, v). v) ` S"]) force+

lemma peak_of_insert:
  "finite S \<Longrightarrow> peak_of (insert (m', r', v) S) m r = (if m = m' \<and> r = r' then max (peak_of S m r) v else peak_of S m r)"
proof -
  assume S: "finite S"
  have "{w. (m, r, w) \<in> insert (m', r', v) S} = (if m = m' \<and> r = r' then insert v {w. (m, r, w) \<in> S} else {w. (m, r, w) \<in> S})"
    by auto
  then show ?thesis using finite_samples [OF S]
    by (simp add: peak_of_def insert_commute [of 0 v] max.commute)
qed

lemma peak_or_zero_upsert:
  "peak_or_zero (upsert_max acc l v) r = (if r = l then max (peak_or_zero acc r) v else peak_or_zero acc r)"
  by (induction acc l v rule: upsert_max.induct) (auto simp: peak_or_zero_def)

definition peaks_ok :: "(limit_metric \<times> string \<times> nat) set \<Rightarrow> peak_state \<Rightarrow> bool" where
  "peaks_ok S st =
     (distinct (ps_order st) \<and> set (ps_order st) = (\<lambda>(m, r, v). r) ` S \<and>
      (\<forall>r. peak_or_zero (ps_inst st) r = peak_of S MInstances r) \<and>
      (\<forall>r. peak_or_zero (ps_mem st) r = peak_of S MMemory r))"

lemma peak_step_ok:
  assumes "finite S" "peaks_ok S st"
  shows "peaks_ok (set_option (line_sample parse l) \<union> S) (peak_step parse st l)"
proof (cases "line_sample parse l")
  case None
  then show ?thesis using assms(2) by (simp add: peak_step_def)
next
  case (Some x)
  obtain m r v where x: "x = (m, r, v)" by (cases x) auto
  have p: "peak_of (insert x S) n q = (if n = m \<and> q = r then max (peak_of S n q) v else peak_of S n q)" for n q
    using peak_of_insert [OF assms(1)] by (auto simp: x)
  define st1 where "st1 = (if r \<in> set (ps_order st) then st else st\<lparr>ps_order := ps_order st @ [r]\<rparr>)"
  have st1: "distinct (ps_order st1)" "set (ps_order st1) = insert r (set (ps_order st))" "ps_inst st1 = ps_inst st" "ps_mem st1 = ps_mem st"
  proof -
    have "distinct (ps_order st)" using assms(2) by (simp add: peaks_ok_def)
    then show "distinct (ps_order st1)" "set (ps_order st1) = insert r (set (ps_order st))" "ps_inst st1 = ps_inst st"
      "ps_mem st1 = ps_mem st" by (auto simp: st1_def)
  qed
  have "peak_step parse st l = (case m of MInstances \<Rightarrow> st1\<lparr>ps_inst := upsert_max (ps_inst st1) r v\<rparr>
                                        | MMemory \<Rightarrow> st1\<lparr>ps_mem := upsert_max (ps_mem st1) r v\<rparr>)"
    by (simp only: peak_step_def Some x option.case prod.case Let_def st1_def)
  then show ?thesis using assms(2) st1 p
    by (cases m) (simp_all add: peaks_ok_def Some peak_or_zero_upsert, simp_all add: x)
qed

lemma peak_fold:
  "peaks_ok (set (List.map_filter (line_sample parse) ls)) (foldl (peak_step parse) \<lparr>ps_order = [], ps_inst = [], ps_mem = []\<rparr> ls)"
proof (induction ls rule: rev_induct)
  case Nil
  then show ?case by (simp add: peaks_ok_def peak_or_zero_def peak_of_def map_filter_simps)
next
  case (snoc l ls)
  have "set (List.map_filter (line_sample parse) (ls @ [l])) = set_option (line_sample parse l) \<union> set (List.map_filter (line_sample parse) ls)"
    by (auto simp: List.map_filter_def)
  then show ?case using peak_step_ok [OF _ snoc.IH, of parse l] by simp
qed

text \<open>One row for each rule with a sample of either metric, with the maximum of each.\<close>

lemma peak_per_rule_exact:
  "distinct (map fst (peak_per_rule parse text)) \<and>
   set (peak_per_rule parse text) =
     (\<lambda>r. (r, peak_of (rule_samples parse text) MInstances r, peak_of (rule_samples parse text) MMemory r)) `
       (\<lambda>(m, r, v). r) ` rule_samples parse text"
  using peak_fold [of parse "str_lines text"]
  by (simp add: peaks_ok_def peak_per_rule_def Let_def rule_samples_def comp_def image_image)

lemma le_peak_of: "finite S \<Longrightarrow> (m, r, v) \<in> S \<Longrightarrow> v \<le> peak_of S m r"
  using finite_samples [of S m r] by (simp add: peak_of_def)

lemma peak_of_le: "finite S \<Longrightarrow> (\<And>m r v. (m, r, v) \<in> S \<Longrightarrow> v \<le> k) \<Longrightarrow> peak_of S m r \<le> k"
  using finite_samples [of S m r] by (simp add: peak_of_def)

section \<open>A suggestion is never below its peak\<close>

lemma f64_of_nat_value:
  assumes "n \<le> 2 ^ 53"
  obtains m e where "f64_of_nat n = Fin False m e" "m < 2 ^ 53" "fval False m e = of_nat n"
  using round_nat_exact [OF assms] by (metis f64_of_nat_def)

lemma headroom_value:
  assumes "headroom_ok h"
  obtains m e where "h = Fin False m e" "1 \<le> fval False m e" "fval False m e \<le> 10"
proof -
  obtain a i where a: "f64_of_nat 1 = Fin False a i" "fval False a i = 1" by (rule f64_of_nat_value [of 1]) auto
  obtain b j where b: "f64_of_nat 10 = Fin False b j" "fval False b j = 10" by (rule f64_of_nat_value [of 10]) auto
  obtain s m e where h: "h = Fin s m e" "1 \<le> fval s m e" "fval s m e \<le> 10"
    using assms a b by (cases h) (auto simp: headroom_ok_def fle_def flt_fval feq_fval)
  have "\<not> s"
  proof
    assume s
    then have "fval s m e \<le> 0" by (simp add: fval_def sval_def)
    then show False using h(2) by simp
  qed
  then show thesis using that h by simp
qed

lemma scaled_value:
  assumes "n \<le> 2 ^ 53" "headroom_ok h"
  obtains m e where "fmul (f64_of_nat n) h = Fin False m e" "m < 2 ^ 53" "of_nat n \<le> fval False m e" "fval False m e \<le> 2 ^ 57"
proof -
  obtain a i where a: "f64_of_nat n = Fin False a i" "fval False a i = of_nat n" by (rule f64_of_nat_value [OF assms(1)])
  obtain b j where b: "h = Fin False b j" "1 \<le> fval False b j" "fval False b j \<le> 10" by (rule headroom_value [OF assms(2)])
  define p where "p = (if 0 \<le> i + j then a * b * 2 ^ nat (i + j) else a * b)"
  define q :: nat where "q = (if 0 \<le> i + j then 1 else 2 ^ nat (- (i + j)))"
  have q: "0 < q" by (simp add: q_def)
  have mul: "fmul (f64_of_nat n) h = round_ratio False p q"
    by (simp add: a(1) b(1) round_dyadic_def p_def q_def)
  have "of_nat p / of_nat q = of_nat (a * b) * (2::rat) powi (i + j)"
    by (simp add: p_def q_def powi_nonneg powi_neg)
  also have "\<dots> = fval False a i * fval False b j"
    by (simp add: fval_def sval_def power_int_add algebra_simps)
  finally have pq: "of_nat p / of_nat q = of_nat n * fval False b j" by (simp add: a(2))
  have "of_nat n * fval False b j \<le> of_nat n * 10" using b(3) by (intro mult_left_mono) auto
  moreover have "(of_nat n :: rat) \<le> of_nat (2 ^ 53)" using assms(1) by (simp only: of_nat_le_iff)
  ultimately have up: "of_nat p / of_nat q \<le> (2::rat) powi 57" unfolding pq by (simp add: powi_nonneg)
  have "of_nat n * 1 \<le> of_nat n * fval False b j" using b(2) by (intro mult_left_mono) auto
  then have lo: "of_nat n \<le> (of_nat p / of_nat q :: rat)" by (simp add: pq)
  obtain m e where "round_ratio False p q = Fin False m e" "m < 2 ^ 53" "of_nat n \<le> fval False m e" "fval False m e \<le> 2 powi 57"
    by (rule round_ratio_bounds [OF q up _ _ lo assms(1)]) auto
  then show thesis using that mul by (simp add: powi_nonneg)
qed

primrec unit_bytes :: "size_unit \<Rightarrow> nat" where
  "unit_bytes UB = 1"
| "unit_bytes UKiB = 2 ^ 10"
| "unit_bytes UMiB = 2 ^ 20"
| "unit_bytes UGiB = 2 ^ 30"

text \<open>One tier of the rounding: the least multiple of the unit that is not below the value.\<close>

lemma tier_value:
  assumes "m < 2 ^ 53" "fval False m e \<le> 2 ^ 57" "fle (Fin False (2 ^ u) 0) (Fin False m e)" "u \<le> 30"
  shows "int (u64_times (to_u64 (fceil (fdiv (Fin False m e) (Fin False (2 ^ u) 0)))) (to_u64 (Fin False (2 ^ u) 0))) =
         \<lceil>fval False m e / 2 ^ u\<rceil> * 2 ^ u"
proof -
  let ?v = "fval False m e"
  have "fval False (2 ^ u) 0 = 2 ^ u" by (simp add: fval_def sval_def)
  then have lo: "of_nat (2 ^ u) \<le> ?v" using assms(3) by (auto simp: fle_def flt_fval feq_fval)
  have hi: "?v \<le> 2 ^ 100" using assms(2) by simp
  obtain n f where d: "fdiv (Fin False m e) (Fin False (2 ^ u) 0) = Fin False n f" "n < 2 ^ 53" "fval False n f = ?v / 2 ^ u"
    by (rule fdiv_pow2 [OF assms(1) lo hi]) (use assms(4) in auto)
  have "?v / 2 ^ u \<le> ?v / 1" using lo by (intro divide_left_mono) (auto intro: order_trans [of 0 "2 ^ u"])
  then have le: "?v / 2 ^ u \<le> 2 ^ 57" using assms(2) by simp
  then have "fval False n f \<le> of_nat u64_max" by (simp add: d(3))
  then have c: "int (to_u64 (fceil (Fin False n f))) = \<lceil>?v / 2 ^ u\<rceil>" using ceil_to_u64 [OF d(2)] by (simp add: d(3))
  define c where "c = to_u64 (fceil (Fin False n f))"
  have ci: "int c = \<lceil>?v / 2 ^ u\<rceil>" using c by (simp add: c_def)
  have "of_int \<lceil>?v / 2 ^ u\<rceil> < ?v / 2 ^ u + 1" by linarith
  then have "of_nat c < ?v / 2 ^ u + 1" using ci by (metis of_int_of_nat_eq)
  then have "of_nat c * 2 ^ u < (?v / 2 ^ u + 1) * 2 ^ u" by (intro mult_strict_right_mono) auto
  also have "\<dots> = ?v + 2 ^ u" by (simp add: field_simps)
  also have "\<dots> \<le> 2 ^ 57 + 2 ^ 30" using assms(2,4) by (intro add_mono power_increasing) auto
  finally have "(of_nat (c * 2 ^ u) :: rat) < of_nat (2 ^ 57 + 2 ^ 30)" by simp
  then have "c * 2 ^ u < 2 ^ 57 + 2 ^ 30" by (simp only: of_nat_less_iff)
  then have w: "c * 2 ^ u < 2 ^ 64" by simp
  have "(2::nat) ^ u \<le> 2 ^ 30" using assms(4) by (intro power_increasing) auto
  then have "(2::nat) ^ u \<le> u64_max" by simp
  then have t: "to_u64 (Fin False (2 ^ u) 0) = 2 ^ u" by (simp add: trunc_nat_def)
  have "u64_times c (2 ^ u) = c * 2 ^ u" using w by (simp add: u64_times_def)
  then show ?thesis unfolding d(1) c_def [symmetric] t ci [symmetric] by simp
qed

lemma round_bytes_unit_value:
  assumes "m < 2 ^ 53" "fval False m e \<le> 2 ^ 57"
  obtains r u where "round_bytes_unit (Fin False m e) = (r, u)"
    "int r = \<lceil>fval False m e / of_nat (unit_bytes u)\<rceil> * int (unit_bytes u)"
proof -
  let ?v = "Fin False m e"
  have b: "int (to_u64 (fceil ?v)) = \<lceil>fval False m e\<rceil>" using assms by (intro ceil_to_u64) auto
  consider "fle f64_gib ?v" | "\<not> fle f64_gib ?v" "fle f64_mib ?v" | "\<not> fle f64_gib ?v" "\<not> fle f64_mib ?v" "fle f64_kib ?v"
    | "\<not> fle f64_gib ?v" "\<not> fle f64_mib ?v" "\<not> fle f64_kib ?v" by blast
  then show thesis
  proof cases
    case 1
    then show thesis using tier_value [OF assms, of 30]
      by (intro that [of _ UGiB]) (simp_all add: round_bytes_unit_def f64_gib_def)
  next
    case 2
    then show thesis using tier_value [OF assms, of 20]
      by (intro that [of _ UMiB]) (simp_all add: round_bytes_unit_def f64_mib_def)
  next
    case 3
    then show thesis using tier_value [OF assms, of 10]
      by (intro that [of _ UKiB]) (simp_all add: round_bytes_unit_def f64_kib_def)
  next
    case 4
    then show thesis using b by (intro that [of _ UB]) (simp_all add: round_bytes_unit_def)
  qed
qed

text \<open>The two suggestions for peaks that a float holds exactly.\<close>

lemma estimate_covers:
  assumes "ni \<le> 2 ^ 53" "nm \<le> 2 ^ 53" "headroom_ok h"
  shows "ni \<le> le_suggested_max_instances (estimate r ni nm h)" "nm \<le> le_suggested_max_memory_bytes (estimate r ni nm h)"
    "unit_bytes (le_memory_granularity (estimate r ni nm h)) dvd le_suggested_max_memory_bytes (estimate r ni nm h)"
    "le_rule (estimate r ni nm h) = r"
proof -
  obtain a i where a: "fmul (f64_of_nat ni) h = Fin False a i" "a < 2 ^ 53" "of_nat ni \<le> fval False a i" "fval False a i \<le> 2 ^ 57"
    by (rule scaled_value [OF assms(1,3)])
  obtain b j where b: "fmul (f64_of_nat nm) h = Fin False b j" "b < 2 ^ 53" "of_nat nm \<le> fval False b j" "fval False b j \<le> 2 ^ 57"
    by (rule scaled_value [OF assms(2,3)])
  obtain s u where u: "round_bytes_unit (Fin False b j) = (s, u)"
      "int s = \<lceil>fval False b j / of_nat (unit_bytes u)\<rceil> * int (unit_bytes u)"
    by (rule round_bytes_unit_value [OF b(2,4)])
  have e: "le_suggested_max_instances (estimate r ni nm h) = to_u64 (fround (Fin False a i))"
    "le_suggested_max_memory_bytes (estimate r ni nm h) = s" "le_memory_granularity (estimate r ni nm h) = u"
    by (simp_all only: estimate_def Let_def a(1) b(1) u(1) prod.case rule_limit_est.simps)
  show "le_rule (estimate r ni nm h) = r" by (simp add: estimate_def Let_def split: prod.split)
  have "int (to_u64 (fround (Fin False a i))) = \<lfloor>fval False a i + 1 / 2\<rfloor>" using a by (intro round_to_u64) auto
  moreover have "int ni \<le> \<lfloor>fval False a i + 1 / 2\<rfloor>" using a(3) by (simp add: le_floor_iff)
  ultimately show "ni \<le> le_suggested_max_instances (estimate r ni nm h)" unfolding e by linarith
  have pos: "(0::rat) < of_nat (unit_bytes u)" by (cases u) simp_all
  have "fval False b j / of_nat (unit_bytes u) \<le> of_int \<lceil>fval False b j / of_nat (unit_bytes u)\<rceil>" by (rule le_of_int_ceiling)
  then have "fval False b j \<le> of_int \<lceil>fval False b j / of_nat (unit_bytes u)\<rceil> * of_nat (unit_bytes u)"
    using pos by (simp only: pos_divide_le_eq)
  also have "\<dots> = of_int (int s)" unfolding u(2) by simp
  finally have "(of_nat nm :: rat) \<le> of_nat s" using b(3) by simp
  then show "nm \<le> le_suggested_max_memory_bytes (estimate r ni nm h)" unfolding e by (simp only: of_nat_le_iff)
  have "int (unit_bytes u) dvd int s" unfolding u(2) by (rule dvd_triv_right)
  then show "unit_bytes (le_memory_granularity (estimate r ni nm h)) dvd le_suggested_max_memory_bytes (estimate r ni nm h)"
    unfolding e by (simp only: int_dvd_int_iff)
qed

lemma limits_rules_Inr:
  "limits_rules parse read metrics fo h = Inr (rules, note, stats) \<longleftrightarrow>
   headroom_ok h \<and> (\<exists>text. read metrics = Some text \<and> peak_per_rule parse text \<noteq> [] \<and>
     assess (sort_key fst (peak_per_rule parse text)) fo h (collect_stats_labels parse text) = (rules, note) \<and>
     rules \<noteq> [] \<and> stats = collect_stats_labels parse text)"
  by (cases "read metrics") (auto simp: limits_rules_def Let_def split: prod.splits)

lemma assess_rules:
  "fst (assess rows fo h stats) =
     map (\<lambda>(r, i, m). estimate r i m h) (filter (\<lambda>(r, i, m). fo = None \<or> fo = Some r) rows)"
proof -
  have "(\<lambda>(r, i, m). case fo of Some f \<Rightarrow> r = f | None \<Rightarrow> True) = (\<lambda>(r, i :: nat, m :: nat). fo = None \<or> fo = Some r)"
    by (auto split: option.splits)
  then show ?thesis by (simp add: assess_def Let_def)
qed

text \<open>
  C38: When the command succeeds, every sample of the metrics file is covered: for a sample of at most
  \<open>2 ^ 53\<close> of a rule that the filter lets through there is an estimate of that rule whose suggested
  number of instances, or whose suggested memory, is not below the sample, although the estimate is
  computed in floating point; and the suggested memory is a whole number of its unit.
\<close>

theorem limits_cover_samples:
  assumes "limits_rules parse read metrics fo h = Inr (rules, note, stats)" "read metrics = Some text"
    and "\<forall>(m, r, v) \<in> rule_samples parse text. v \<le> 2 ^ 53"
    and "(m, r, v) \<in> rule_samples parse text" "fo = None \<or> fo = Some r"
  shows "\<exists>e \<in> set rules. le_rule e = r \<and>
    v \<le> (case m of MInstances \<Rightarrow> le_suggested_max_instances e | MMemory \<Rightarrow> le_suggested_max_memory_bytes e) \<and>
    unit_bytes (le_memory_granularity e) dvd le_suggested_max_memory_bytes e"
proof -
  let ?S = "rule_samples parse text"
  have fin: "finite ?S" by (simp add: rule_samples_def)
  have h: "headroom_ok h" and rules: "rules = map (\<lambda>(r, i, m). estimate r i m h)
      (filter (\<lambda>(r, i, m). fo = None \<or> fo = Some r) (sort_key fst (peak_per_rule parse text)))"
    using assms(1,2) assess_rules by (auto simp: limits_rules_Inr) (metis fst_conv)+
  define e where "e = estimate r (peak_of ?S MInstances r) (peak_of ?S MMemory r) h"
  have row: "(r, peak_of ?S MInstances r, peak_of ?S MMemory r) \<in> set (peak_per_rule parse text)"
  proof -
    have "r \<in> (\<lambda>(m, r, v). r) ` ?S" using assms(4) by (intro image_eqI [of _ _ "(m, r, v)"]) simp_all
    then show ?thesis using conjunct2 [OF peak_per_rule_exact [of parse "text"]] by blast
  qed
  then have "e \<in> set rules" using assms(5) unfolding rules set_map set_filter set_sort e_def
    by (intro image_eqI [of _ _ "(r, peak_of ?S MInstances r, peak_of ?S MMemory r)"]) simp_all
  have le: "peak_of ?S n q \<le> 2 ^ 53" for n q by (rule peak_of_le [OF fin]) (use assms(3) in blast)
  have "v \<le> peak_of ?S m r" by (rule le_peak_of [OF fin assms(4)])
  moreover have "peak_of ?S MInstances r \<le> le_suggested_max_instances e" "peak_of ?S MMemory r \<le> le_suggested_max_memory_bytes e"
    "unit_bytes (le_memory_granularity e) dvd le_suggested_max_memory_bytes e" "le_rule e = r"
    unfolding e_def by (rule estimate_covers [OF le le h])+
  ultimately show ?thesis using \<open>e \<in> set rules\<close> by (intro bexI [of _ e]) (cases m; simp)+
qed

text \<open>The bound is needed: one byte more than \<open>2 ^ 53\<close> is lost in the conversion to a float.\<close>

lemma large_peak_is_cut:
  "le_suggested_max_memory_bytes (estimate r 1 (2 ^ 53 + 1) (f64_of_nat 1)) = 2 ^ 53"
  by (simp add: estimate_def round_bytes_unit_def f64_gib_def u64_times_def f64_eval fmul.simps)

text \<open>
  The lines of the derivation are there to be recomputed, but they show the headroom with one decimal:
  with 1.375 the line says 1000 times 1.4, and the result is 1375.
\<close>

lemma derivation_shows_rounded_headroom:
  "derivation_lines (estimate ''r'' 1000 0 (Fin False 11 (- 3))) (Fin False 11 (- 3)) {} =
     [InstancesLine ''r'' 1000 ''1.4'' 1375, MemoryUnmeasuredLine]"
  by (simp add: derivation_lines_def estimate_def round_bytes_unit_def f64_gib_def f64_mib_def f64_kib_def f64_eval
      dec_digits.simps [of "Suc 0"] dec_digits.simps [of 4] digit_char_def char_of_def bit_0)

section \<open>Thousands\<close>

text \<open>The groups of three digits read back as the number.\<close>

lemma fmt_thousands_digits: "filter (\<lambda>c. c \<noteq> CHR '','') (fmt_thousands v) = dec_digits v"
proof -
  have d: "list_all is_digit (dec_digits v)" by (rule dec_digits_digits)
  have "filter (\<lambda>c. c \<noteq> CHR '','') (concat (map (\<lambda>(i, ch). if 0 < i \<and> (n - i) mod 3 = 0 then [CHR '','', ch] else [ch]) (enumerate k ds))) = ds"
    if "list_all is_digit ds" for n k ds
    using that by (induction ds arbitrary: k) (auto simp: is_digit_def)
  then show ?thesis using d by (simp add: fmt_thousands_def Let_def)
qed

section \<open>A run\<close>

definition ex_metrics_parse :: "string \<Rightarrow> json option" where
  "ex_metrics_parse l =
     (if l = ''a'' then Some (JObject [(''stage'', JString ''rule''), (''name'', JString ''memory_bytes''),
                                       (''label'', JString ''r''), (''value'', JString ''1000'')]) else None)"

lemma ex_metrics:
  "str_lines ''a'' = [''a'']" "line_sample ex_metrics_parse ''a'' = Some (MMemory, ''r'', 1000)"
  "collect_stats_labels ex_metrics_parse ''a'' = {}"
  by (simp_all add: str_lines_def line_sample_def ex_metrics_parse_def get_str_def json_get_def json_as_str_def
      sample_value_def collect_stats_labels_def parse_u64_def is_digit_def digits_value_def)

theorem limits_cover_samples_witness:
  "le_rule (estimate ''r'' 0 1000 (f64_of_nat 2)) = ''r'' \<and>
   1000 \<le> le_suggested_max_memory_bytes (estimate ''r'' 0 1000 (f64_of_nat 2))"
proof -
  have peak: "peak_per_rule ex_metrics_parse ''a'' = [(''r'', 0, 1000)]"
    by (simp add: peak_per_rule_def ex_metrics peak_step_def peak_or_zero_def)
  have S: "rule_samples ex_metrics_parse ''a'' = {(MMemory, ''r'', 1000)}"
    by (simp add: rule_samples_def ex_metrics map_filter_simps)
  have h: "headroom_ok (f64_of_nat 2)" by (simp add: headroom_ok_def f64_eval)
  have "limits_rules ex_metrics_parse (\<lambda>p. Some ''a'') ''m'' None (f64_of_nat 2) =
        Inr ([estimate ''r'' 0 1000 (f64_of_nat 2)],
             snd (assess [(''r'', 0, 1000)] None (f64_of_nat 2) {}), {})"
    unfolding limits_rules_Inr using h
    by (simp add: peak ex_metrics assess_rules prod_eq_iff)
  from limits_cover_samples [OF this refl, of MMemory "''r''" 1000] show ?thesis by (auto simp: S)
qed

end
