(* ===== verification/WflFormat.thy ===== *)
theory WflFormat
  imports RustText
begin

text \<open>
  The formatter of rule files (\<open>wfl/src/cmd_fmt.rs\<close>): the indentation by nesting, the collapse of
  blank lines, and the command with its check and write modes. The grammar of the language is a
  parameter; the files are a map from paths to texts, and which of them can be written is a
  parameter. The nesting depth is an integer without bound, the code has 32 bits. White space is that of
  ASCII (the code also trims the rest of Unicode's). Colours are left out. The theorems show that formatting keeps the text of every line, that it is idempotent, and
  what this gives for writing followed by checking.
\<close>

section \<open>Formatting a text\<close>

definition skip_string :: "string \<Rightarrow> string" where
  "skip_string cs = drop 1 (dropWhile (\<lambda>c. c \<noteq> CHR 0x22) cs)"

lemma skip_string_length [termination_simp]: "length (skip_string cs) < Suc (length cs)"
  using length_dropWhile_le [of "\<lambda>c. c \<noteq> CHR 0x22" cs] by (simp add: skip_string_def)

fun count_delimiters :: "string \<Rightarrow> nat \<times> nat" where
  "count_delimiters [] = (0, 0)"
| "count_delimiters (c # cs) =
     (if c = CHR ''#'' then (0, 0)
      else if c = CHR 0x22 then count_delimiters (skip_string cs)
      else if c = CHR ''{'' \<or> c = CHR ''('' then map_prod Suc id (count_delimiters cs)
      else if c = CHR ''}'' \<or> c = CHR '')'' then map_prod id Suc (count_delimiters cs)
      else count_delimiters cs)"

record fmt_state =
  fs_output :: string
  fs_indent :: int
  fs_prev_blank :: bool

definition closes_first :: "string \<Rightarrow> bool" where
  "closes_first t = (case t of c # _ \<Rightarrow> c = CHR ''}'' \<or> c = CHR '')'' | [] \<Rightarrow> False)"

definition line_indent :: "int \<Rightarrow> string \<Rightarrow> nat" where
  "line_indent i t = nat (if closes_first t then max (i - 1) 0 else max i 0)"

definition next_indent :: "int \<Rightarrow> string \<Rightarrow> int" where
  "next_indent i t = (case count_delimiters t of (opens, closes) \<Rightarrow> i + int opens - int closes)"

definition indented :: "int \<Rightarrow> string \<Rightarrow> string" where
  "indented i t = concat (replicate (line_indent i t) ''    '') @ t"

definition format_line :: "fmt_state \<Rightarrow> string \<Rightarrow> fmt_state" where
  "format_line st line =
     (let t = trim line
      in if t = []
         then st\<lparr>fs_output := fs_output st @ (if \<not> fs_prev_blank st \<and> fs_output st \<noteq> [] then [CHR 0x0A] else []),
                 fs_prev_blank := True\<rparr>
         else st\<lparr>fs_output := fs_output st @ indented (fs_indent st) t @ [CHR 0x0A],
                 fs_indent := next_indent (fs_indent st) t, fs_prev_blank := False\<rparr>)"

text \<open>The loop that pops the last character while the output ends with two line feeds, on the
  reversed output.\<close>

fun pop_newlines :: "string \<Rightarrow> string" where
  "pop_newlines (a # b # r) = (if a = CHR 0x0A \<and> b = CHR 0x0A then pop_newlines (b # r) else a # b # r)"
| "pop_newlines r = r"

definition one_newline :: "string \<Rightarrow> string" where
  "one_newline out =
     (let o1 = rev (pop_newlines (rev out))
      in if o1 \<noteq> [] \<and> last o1 = CHR 0x0A then o1 else o1 @ [CHR 0x0A])"

definition format_source :: "string \<Rightarrow> string" where
  "format_source source =
     one_newline (fs_output (foldl format_line \<lparr>fs_output = [], fs_indent = 0, fs_prev_blank = False\<rparr> (str_lines source)))"

section \<open>The output as a list of lines\<close>

text \<open>What the loop keeps of the trimmed lines, and how it indents them.\<close>

fun collapse :: "bool \<Rightarrow> bool \<Rightarrow> string list \<Rightarrow> string list" where
  "collapse started blank [] = []"
| "collapse started blank (t # ts) =
     (if t = [] then (if \<not> blank \<and> started then [] # collapse started True ts else collapse started True ts)
      else t # collapse True False ts)"

fun indent_lines :: "int \<Rightarrow> string list \<Rightarrow> string list" where
  "indent_lines i [] = []"
| "indent_lines i (t # ts) =
     (if t = [] then [] # indent_lines i ts else indented i t # indent_lines (next_indent i t) ts)"

definition unlines :: "string list \<Rightarrow> string" where
  "unlines ls = concat (map (\<lambda>l. l @ [CHR 0x0A]) ls)"

lemma unlines_simps [simp]: "unlines [] = []" "unlines (l # ls) = l @ CHR 0x0A # unlines ls"
  "unlines (ls @ ms) = unlines ls @ unlines ms"
  by (simp_all add: unlines_def)

lemma unlines_Nil_iff [simp]: "unlines ls = [] \<longleftrightarrow> ls = []"
  by (cases ls) auto

lemma format_fold:
  "fs_output (foldl format_line st ls) =
     fs_output st @ unlines (indent_lines (fs_indent st) (collapse (fs_output st \<noteq> []) (fs_prev_blank st) (map trim ls)))"
proof (induction ls arbitrary: st)
  case (Cons l ls)
  show ?case using Cons.IH [of "format_line st l"] by (simp add: format_line_def Let_def indented_def)
qed simp

text \<open>At most one blank line stands between two others, none before the first.\<close>

fun spaced :: "string list \<Rightarrow> bool" where
  "spaced [] = True"
| "spaced [t] = True"
| "spaced (t # u # r) = (\<not> (t = [] \<and> u = []) \<and> spaced (u # r))"

lemma collapse_spaced:
  "spaced (collapse st b ts) \<and> (b \<or> \<not> st \<longrightarrow> collapse st b ts = [] \<or> hd (collapse st b ts) \<noteq> [])"
proof (induction st b ts rule: collapse.induct)
  case (2 st b t ts)
  show ?case
  proof (cases "t = []")
    case True
    then show ?thesis using 2(1,2)
      by (cases "collapse st True ts") auto
  next
    case False
    then show ?thesis using 2(3) by (cases "collapse True False ts") auto
  qed
qed simp

definition drop_last_blank :: "string list \<Rightarrow> string list" where
  "drop_last_blank ts = (if ts \<noteq> [] \<and> last ts = [] then butlast ts else ts)"

text \<open>The lines that remain.\<close>

definition kept_lines :: "string list \<Rightarrow> string list" where
  "kept_lines ts = drop_last_blank (collapse False False ts)"

lemma spaced_snoc: "spaced (ts @ [t]) \<longleftrightarrow> spaced ts \<and> (ts = [] \<or> \<not> (last ts = [] \<and> t = []))"
  by (induction ts rule: spaced.induct) auto

lemma collapse_id:
  assumes "spaced ts" "b \<or> \<not> st \<longrightarrow> ts = [] \<or> hd ts \<noteq> []"
  shows "collapse st b ts = ts"
  using assms
proof (induction st b ts rule: collapse.induct)
  case (2 st b t ts)
  then show ?case by (cases ts) (auto split: if_splits)
qed simp

lemma kept_lines_props:
  "spaced (kept_lines ts)" "kept_lines ts \<noteq> [] \<Longrightarrow> hd (kept_lines ts) \<noteq> []"
  "kept_lines ts \<noteq> [] \<Longrightarrow> last (kept_lines ts) \<noteq> []"
proof -
  let ?c = "collapse False False ts"
  have c: "spaced ?c" "?c = [] \<or> hd ?c \<noteq> []" using collapse_spaced [of False False ts] by auto
  consider "?c = []" | us t where "?c = us @ [t]" by (cases ?c rule: rev_cases) auto
  then show "spaced (kept_lines ts)" "kept_lines ts \<noteq> [] \<Longrightarrow> hd (kept_lines ts) \<noteq> []"
    "kept_lines ts \<noteq> [] \<Longrightarrow> last (kept_lines ts) \<noteq> []"
    using c by (cases; auto simp: kept_lines_def drop_last_blank_def spaced_snoc hd_append split: if_splits)+
qed

lemma kept_lines_idem: "kept_lines (kept_lines ts) = kept_lines ts"
proof -
  have "collapse False False (kept_lines ts) = kept_lines ts"
    using kept_lines_props [of ts] by (intro collapse_id) auto
  then show ?thesis using kept_lines_props(3) [of ts]
    by (cases "kept_lines ts = []") (simp_all add: kept_lines_def [of "kept_lines ts"] kept_lines_def [of "[]"] drop_last_blank_def)
qed

lemma collapse_filter: "filter (\<lambda>t. t \<noteq> []) (collapse st b ts) = filter (\<lambda>t. t \<noteq> []) ts"
  by (induction st b ts rule: collapse.induct) auto

lemma kept_lines_filter: "filter (\<lambda>t. t \<noteq> []) (kept_lines ts) = filter (\<lambda>t. t \<noteq> []) ts"
proof -
  have "filter (\<lambda>t. t \<noteq> []) (drop_last_blank us) = filter (\<lambda>t. t \<noteq> []) us" for us :: "string list"
    by (cases us rule: rev_cases) (auto simp: drop_last_blank_def)
  then show ?thesis by (simp add: kept_lines_def collapse_filter)
qed

section \<open>Trimmed lines\<close>

lemma length_dropWhile_eq: "length (dropWhile P xs) = length xs \<Longrightarrow> dropWhile P xs = xs"
  by (metis append_Nil length_0_conv length_append takeWhile_dropWhile_id add_cancel_left_left)

lemma trim_idem [simp]: "trim (trim s) = trim s"
proof -
  have start: "dropWhile is_ascii_ws (rev (dropWhile is_ascii_ws (rev (dropWhile is_ascii_ws s)))) =
               rev (dropWhile is_ascii_ws (rev (dropWhile is_ascii_ws s)))"
  proof (cases "dropWhile is_ascii_ws s")
    case (Cons c r)
    then have c: "\<not> is_ascii_ws c" by (metis hd_dropWhile list.distinct(1) list.sel(1))
    obtain v where "dropWhile is_ascii_ws (rev (c # r)) = v @ [c]"
      using c by (cases "\<forall>x \<in> set r. is_ascii_ws x") (simp_all add: dropWhile_append)
    then show ?thesis using c Cons by simp
  next
    case Nil
    then show ?thesis by (simp only: rev.simps dropWhile.simps)
  qed
  then show ?thesis by (simp add: trim_def trim_start_def trim_end_def)
qed

lemma set_trim: "set (trim s) \<subseteq> set s"
proof
  fix x assume "x \<in> set (trim s)"
  then show "x \<in> set s"
    using set_dropWhileD [of x is_ascii_ws "rev (dropWhile is_ascii_ws s)"] set_dropWhileD [of x is_ascii_ws s]
    by (simp add: trim_def trim_start_def trim_end_def)
qed

lemma trim_last: "trim s \<noteq> [] \<Longrightarrow> \<not> is_ascii_ws (last (trim s))"
  using hd_dropWhile [of is_ascii_ws "rev (trim_start s)"] by (auto simp: trim_def trim_end_def last_rev)

lemma trim_spaces:
  assumes "trim t = t" "list_all is_ascii_ws w"
  shows "trim (w @ t) = t"
proof -
  have "dropWhile is_ascii_ws (w @ t) = dropWhile is_ascii_ws t"
    using assms(2) by (simp add: dropWhile_append list_all_iff)
  then have "trim (w @ t) = trim t" by (simp add: trim_def trim_start_def)
  then show ?thesis using assms(1) by simp
qed

lemma indented_simps:
  "trim t = t \<Longrightarrow> trim (indented i t) = t" "set (indented i t) \<subseteq> insert (CHR '' '') (set t)"
  "t \<noteq> [] \<Longrightarrow> indented i t \<noteq> [] \<and> last (indented i t) = last t"
proof -
  have ws: "list_all is_ascii_ws (concat (replicate n ''    ''))" for n
    by (induction n) (auto simp: is_ascii_ws_def)
  show "trim t = t \<Longrightarrow> trim (indented i t) = t" using ws by (simp add: indented_def trim_spaces)
  show "set (indented i t) \<subseteq> insert (CHR '' '') (set t)" by (auto simp: indented_def)
  show "t \<noteq> [] \<Longrightarrow> indented i t \<noteq> [] \<and> last (indented i t) = last t" by (simp add: indented_def)
qed

section \<open>Lines of the output\<close>

lemma split_on_free: "l \<in> set (split_on c s) \<Longrightarrow> c \<notin> set l"
proof (induction s arbitrary: l)
  case (Cons x xs)
  then show ?case by (cases "split_on c xs") (auto split: if_splits)
qed simp

lemma lines_from_mem: "l \<in> set (lines_from ls) \<Longrightarrow> \<exists>k \<in> set ls. set l \<subseteq> set k"
proof (induction ls arbitrary: l rule: lines_from.induct)
  case (3 k m ls)
  have "set (drop_cr k) \<subseteq> set k" by (auto simp: drop_cr_def dest: in_set_butlastD)
  then show ?case using 3 by fastforce
qed (auto split: if_splits)

text \<open>A trimmed line: no line feed in it, nothing left to trim.\<close>

definition trimmed :: "string \<Rightarrow> bool" where
  "trimmed t = (trim t = t \<and> CHR 0x0A \<notin> set t)"

lemma trimmed_lines: "t \<in> set (map trim (str_lines s)) \<Longrightarrow> trimmed t"
proof -
  assume "t \<in> set (map trim (str_lines s))"
  then obtain l where l: "t = trim l" "l \<in> set (lines_from (split_on (CHR 0x0A) s))" by (auto simp: str_lines_def)
  obtain k where "k \<in> set (split_on (CHR 0x0A) s)" "set l \<subseteq> set k" using lines_from_mem [OF l(2)] by blast
  then have "CHR 0x0A \<notin> set l" using split_on_free by blast
  then show ?thesis using l(1) set_trim [of l] by (auto simp: trimmed_def)
qed

lemma set_collapse: "set (collapse st b ts) \<subseteq> set ts"
  by (induction st b ts rule: collapse.induct) auto

lemma set_kept_lines: "set (kept_lines ts) \<subseteq> set ts"
proof
  fix x assume "x \<in> set (kept_lines ts)"
  then have "x \<in> set (collapse False False ts)"
    using in_set_butlastD [of x "collapse False False ts"] by (simp add: kept_lines_def drop_last_blank_def split: if_splits)
  then show "x \<in> set ts" using set_collapse by blast
qed

lemma newline_ws: "is_ascii_ws (CHR 0x0A)" "is_ascii_ws (CHR 0x0D)"
  by (simp_all add: is_ascii_ws_def)

lemma indented_clean:
  assumes "trimmed t" "t \<noteq> []"
  shows "CHR 0x0A \<notin> set (indented i t)" "drop_cr (indented i t) = indented i t" "trim (indented i t) = t"
    "indented i t \<noteq> []" "last (indented i t) \<noteq> CHR 0x0A"
proof -
  have l: "\<not> is_ascii_ws (last t)" using trim_last [of t] assms by (simp add: trimmed_def)
  then have "last t \<noteq> CHR 0x0D" "last t \<noteq> CHR 0x0A" using newline_ws by auto
  then show "CHR 0x0A \<notin> set (indented i t)" "drop_cr (indented i t) = indented i t" "trim (indented i t) = t"
    "indented i t \<noteq> []" "last (indented i t) \<noteq> CHR 0x0A"
    using indented_simps [where t = t and i = i] assms by (auto simp: trimmed_def drop_cr_def)
qed

lemma str_lines_unlines: "\<forall>l \<in> set ls. CHR 0x0A \<notin> set l \<and> drop_cr l = l \<Longrightarrow> str_lines (unlines ls) = ls"
  by (induction ls) (simp_all add: str_lines_cons, simp add: str_lines_def)

lemma indent_lines_clean:
  "\<forall>t \<in> set ts. trimmed t \<Longrightarrow> l \<in> set (indent_lines i ts) \<Longrightarrow> CHR 0x0A \<notin> set l \<and> drop_cr l = l"
proof (induction ts arbitrary: i)
  case (Cons t ts)
  show ?case
  proof (cases "t = []")
    case True
    then show ?thesis using Cons by (auto simp: drop_cr_def)
  next
    case False
    then show ?thesis using Cons indented_clean [of t i] by auto
  qed
qed simp

lemma trim_indent_lines: "\<forall>t \<in> set ts. trimmed t \<Longrightarrow> map trim (indent_lines i ts) = ts"
proof (induction ts arbitrary: i)
  case (Cons t ts)
  then show ?case using indented_clean(3) [of t i] by (simp add: trim_def trim_start_def trim_end_def)
qed simp

lemma indent_lines_Nil_iff [simp]: "indent_lines i ts = [] \<longleftrightarrow> ts = []"
  by (cases ts) auto

lemma indent_lines_butlast: "indent_lines i (butlast ts) = butlast (indent_lines i ts)"
  by (induction ts arbitrary: i) auto

lemma indented_Nil_iff: "t \<noteq> [] \<Longrightarrow> indented i t \<noteq> []"
  by (simp add: indented_def)

lemma last_indent_lines:
  "ts \<noteq> [] \<Longrightarrow> (\<exists>j. last (indent_lines i ts) = (if last ts = [] then [] else indented j (last ts)))"
  by (induction ts arbitrary: i) auto

text \<open>Popping line feeds takes the last blank line away.\<close>

lemma pop_newlines_unlines:
  assumes "us = [] \<or> (us \<noteq> [] \<and> last us \<noteq> [] \<and> last (last us) \<noteq> CHR 0x0A)"
  shows "one_newline (unlines us) = (if us = [] then [CHR 0x0A] else unlines us)"
    and "us \<noteq> [] \<Longrightarrow> one_newline (unlines (us @ [[]])) = unlines us"
proof -
  have "rev (pop_newlines (rev (unlines us))) = unlines us \<and> last (unlines us) = CHR 0x0A \<and>
        rev (pop_newlines (rev (unlines (us @ [[]])))) = unlines us" if ne: "us \<noteq> []"
  proof -
    obtain vs l where us: "us = vs @ [l]" using ne by (cases us rule: rev_cases) auto
    then obtain w c where l: "l = w @ [c]" "c \<noteq> CHR 0x0A" using assms by (cases l rule: rev_cases) auto
    show ?thesis by (simp add: us l)
  qed
  then show "one_newline (unlines us) = (if us = [] then [CHR 0x0A] else unlines us)"
    and "us \<noteq> [] \<Longrightarrow> one_newline (unlines (us @ [[]])) = unlines us"
    by (auto simp: one_newline_def Let_def)
qed

lemma indent_lines_last:
  assumes "ts \<noteq> []" "last ts \<noteq> []" "\<forall>t \<in> set ts. trimmed t"
  shows "indent_lines 0 ts \<noteq> [] \<and> last (indent_lines 0 ts) \<noteq> [] \<and> last (last (indent_lines 0 ts)) \<noteq> CHR 0x0A"
proof -
  have "trimmed (last ts)" using assms by simp
  moreover obtain j where "last (indent_lines 0 ts) = indented j (last ts)"
    using last_indent_lines [OF assms(1), of 0] assms(2) by auto
  ultimately show ?thesis using assms(1,2) indented_clean(4,5) [of "last ts" j] by simp
qed

lemma format_source_lines:
  "format_source s =
     (let ks = kept_lines (map trim (str_lines s)) in if ks = [] then [CHR 0x0A] else unlines (indent_lines 0 ks))"
proof -
  let ?c = "collapse False False (map trim (str_lines s))"
  have tr: "\<forall>t \<in> set ?c. trimmed t" using trimmed_lines set_collapse by blast
  have f: "format_source s = one_newline (unlines (indent_lines 0 ?c))"
    by (simp add: format_source_def format_fold)
  have sp: "spaced ?c" "?c = [] \<or> hd ?c \<noteq> []" using collapse_spaced [of False False] by auto
  consider "?c = []" | "?c \<noteq> []" "last ?c \<noteq> []" | us where "?c = us @ [[]]"
    by (cases ?c rule: rev_cases) auto
  then show ?thesis
  proof cases
    case 1
    then show ?thesis using pop_newlines_unlines(1) [of "[]"] by (simp add: f kept_lines_def drop_last_blank_def)
  next
    case 2
    then show ?thesis using pop_newlines_unlines(1) [of "indent_lines 0 ?c"] indent_lines_last [OF 2 tr]
      by (simp add: f kept_lines_def drop_last_blank_def Let_def)
  next
    case (3 us)
    have us: "us \<noteq> []" "last us \<noteq> []" using sp by (auto simp: 3 spaced_snoc)
    have "\<forall>t \<in> set us. trimmed t" using tr by (simp add: 3)
    then have g: "indent_lines 0 us \<noteq> [] \<and> last (indent_lines 0 us) \<noteq> [] \<and> last (last (indent_lines 0 us)) \<noteq> CHR 0x0A"
      using indent_lines_last us by blast
    have "indent_lines 0 (us @ [[]]) = indent_lines 0 us @ [[]]"
    proof -
      have "last (indent_lines 0 (us @ [[]])) = []" using last_indent_lines [of "us @ [[]]" 0] by simp
      moreover have "butlast (indent_lines 0 (us @ [[]])) = indent_lines 0 us"
        using indent_lines_butlast [of 0 "us @ [[]]"] by simp
      moreover have "indent_lines 0 (us @ [[]]) \<noteq> []" by simp
      ultimately show ?thesis by (metis append_butlast_last_id)
    qed
    then show ?thesis using pop_newlines_unlines(2) [of "indent_lines 0 us"] g us
      by (simp add: f 3 kept_lines_def drop_last_blank_def Let_def)
  qed
qed

lemma format_source_reads: 
  "map trim (str_lines (format_source s)) =
     (let ks = kept_lines (map trim (str_lines s)) in if ks = [] then [[]] else ks)"
proof -
  let ?ks = "kept_lines (map trim (str_lines s))"
  have tr: "\<forall>t \<in> set ?ks. trimmed t" using trimmed_lines set_kept_lines by blast
  have "str_lines (unlines (indent_lines 0 ?ks)) = indent_lines 0 ?ks"
    using indent_lines_clean [OF tr] by (intro str_lines_unlines) blast
  then show ?thesis using trim_indent_lines [OF tr]
    by (simp add: format_source_lines Let_def str_lines_def drop_cr_def trim_def trim_start_def trim_end_def)
qed

lemma kept_lines_blank: "kept_lines [[]] = []"
  by (simp add: kept_lines_def drop_last_blank_def)

lemma format_source_idem: "format_source (format_source s) = format_source s"
proof -
  let ?ks = "kept_lines (map trim (str_lines s))"
  have "kept_lines (map trim (str_lines (format_source s))) = ?ks"
    using kept_lines_idem by (simp add: format_source_reads Let_def kept_lines_blank)
  then have "format_source (format_source s) = (if ?ks = [] then [CHR 0x0A] else unlines (indent_lines 0 ?ks))"
    by (simp only: format_source_lines [of "format_source s"] Let_def)
  then show ?thesis by (simp only: format_source_lines [of s] Let_def)
qed

lemma format_source_content:
  "filter (\<lambda>t. t \<noteq> []) (map trim (str_lines (format_source s))) = filter (\<lambda>t. t \<noteq> []) (map trim (str_lines s))"
  using kept_lines_filter [of "map trim (str_lines s)"]
  by (cases "kept_lines (map trim (str_lines s)) = []") (simp_all add: format_source_reads Let_def)

text \<open>
  C39: Formatting is idempotent, and up to white space at their ends it keeps every line of the text
  that is not blank, in order: formatting what was formatted changes nothing, and no text is lost,
  invented or moved to another line, whatever the nesting of the delimiters.
\<close>

theorem format_fixes_layout_only:
  "format_source (format_source s) = format_source s \<and>
   filter (\<lambda>t. t \<noteq> []) (map trim (str_lines (format_source s))) = filter (\<lambda>t. t \<noteq> []) (map trim (str_lines s))"
  using format_source_idem format_source_content by blast

text \<open>
  Rule files write their comments with two slashes, and the count of delimiters skips comments that
  start with a number sign only: an open parenthesis in a comment indents what follows.
\<close>

lemma slash_comment_is_counted:
  "format_source (unlines [''// ('', ''rule'']) = unlines [''// ('', ''    rule'']"
  "format_source (unlines [''# ('', ''rule'']) = unlines [''# ('', ''rule'']"
  by code_simp+

section \<open>The command\<close>

text \<open>
  What the command takes from outside: whether the grammar loads, what the parser says of a text
  (nothing, or whether its tree has an error), and how a write to a path ends: done, or failed with
  what the path holds then.
\<close>

record fmt_env =
  fe_grammar :: bool
  fe_parse :: "string \<Rightarrow> bool option"
  fe_write :: "string \<Rightarrow> string \<Rightarrow> string option option"

datatype fmt_error = NoInputFiles | GrammarFailed | FmtReadFailed string | FmtNoTree string | FmtWriteFailed string

datatype fmt_note = SyntaxErrorIn string | NotFormatted string | FormattedFile string | PrintedText string

record fmt_run_state =
  fr_files :: "string \<rightharpoonup> string"
  fr_notes :: "fmt_note list"
  fr_any_diff :: bool

definition fmt_note_add :: "fmt_note \<Rightarrow> fmt_run_state \<Rightarrow> fmt_run_state" where
  "fmt_note_add n st = st\<lparr>fr_notes := fr_notes st @ [n]\<rparr>"

definition fmt_file :: "fmt_env \<Rightarrow> bool \<Rightarrow> bool \<Rightarrow> string \<Rightarrow> fmt_run_state \<Rightarrow> fmt_run_state \<times> fmt_error option" where
  "fmt_file env write check file st =
     (case fr_files st file of None \<Rightarrow> (st, Some (FmtReadFailed file))
      | Some source \<Rightarrow>
     (case fe_parse env source of None \<Rightarrow> (st, Some (FmtNoTree file))
      | Some True \<Rightarrow> ((fmt_note_add (SyntaxErrorIn file) st)\<lparr>fr_any_diff := True\<rparr>, None)
      | Some False \<Rightarrow>
         let formatted = format_source source
         in if check
            then (if source \<noteq> formatted then ((fmt_note_add (NotFormatted file) st)\<lparr>fr_any_diff := True\<rparr>, None) else (st, None))
            else if write
            then (if source \<noteq> formatted
                  then (case fe_write env file formatted of
                          Some left \<Rightarrow> (st\<lparr>fr_files := (fr_files st)(file := left)\<rparr>, Some (FmtWriteFailed file))
                        | None \<Rightarrow> (fmt_note_add (FormattedFile file) (st\<lparr>fr_files := (fr_files st)(file \<mapsto> formatted)\<rparr>), None))
                  else (st, None))
            else (fmt_note_add (PrintedText formatted) st, None)))"

fun fmt_loop :: "fmt_env \<Rightarrow> bool \<Rightarrow> bool \<Rightarrow> string list \<Rightarrow> fmt_run_state \<Rightarrow> fmt_run_state \<times> fmt_error option" where
  "fmt_loop env write check [] st = (st, None)"
| "fmt_loop env write check (f # fs) st =
     (case fmt_file env write check f st of
        (st', Some e) \<Rightarrow> (st', Some e)
      | (st', None) \<Rightarrow> fmt_loop env write check fs st')"

text \<open>A run gives the state it leaves and an error or the exit code.\<close>

definition fmt_run :: "fmt_env \<Rightarrow> string list \<Rightarrow> bool \<Rightarrow> bool \<Rightarrow> (string \<rightharpoonup> string) \<Rightarrow> fmt_run_state \<times> (fmt_error + nat)" where
  "fmt_run env files write check store =
     (let st0 = \<lparr>fr_files = store, fr_notes = [], fr_any_diff = False\<rparr>
      in if files = [] then (st0, Inl NoInputFiles)
         else if \<not> fe_grammar env then (st0, Inl GrammarFailed)
         else (case fmt_loop env write check files st0 of
                 (st, Some e) \<Rightarrow> (st, Inl e)
               | (st, None) \<Rightarrow> (st, Inr (if check \<and> fr_any_diff st then 1 else 0))))"

text \<open>A text the command would rewrite into a text that the grammar accepts too.\<close>

definition formattable :: "fmt_env \<Rightarrow> string \<Rightarrow> bool" where
  "formattable env s = (fe_parse env s = Some False \<and> fe_parse env (format_source s) = Some False)"

lemma fmt_loop_writes:
  assumes "fmt_loop env True False fs st = (st', None)"
    and "\<And>f s. f \<in> set fs \<Longrightarrow> fr_files st f = Some s \<Longrightarrow> formattable env s"
  shows "fr_files st' f = (if f \<in> set fs then map_option format_source (fr_files st f) else fr_files st f) \<and>
         (f \<in> set fs \<longrightarrow> fr_files st f \<noteq> None)"
  using assms
proof (induction fs arbitrary: st)
  case (Cons g gs)
  from Cons.prems(1) obtain s1 where s1: "fmt_file env True False g st = (s1, None)" "fmt_loop env True False gs s1 = (st', None)"
    by (auto split: prod.splits option.splits)
  then obtain s where s: "fr_files st g = Some s" by (auto simp: fmt_file_def split: option.splits)
  have ok: "formattable env s" using Cons.prems(2) [OF _ s] by simp
  then have s1f: "fr_files s1 = (fr_files st)(g \<mapsto> format_source s)"
    using s1(1) s by (auto simp: fmt_file_def formattable_def fmt_note_add_def Let_def split: if_splits option.splits)
  have ok1: "formattable env t" if "h \<in> set gs" "fr_files s1 h = Some t" for h t
  proof (cases "h = g")
    case True
    then show ?thesis using that ok s1f by (auto simp: formattable_def format_source_idem)
  next
    case False
    then show ?thesis using that s1f Cons.prems(2) [of h t] by simp
  qed
  have "fr_files st' f = (if f \<in> set gs then map_option format_source (fr_files s1 f) else fr_files s1 f) \<and>
        (f \<in> set gs \<longrightarrow> fr_files s1 f \<noteq> None)"
    by (rule Cons.IH [OF s1(2)]) (rule ok1)
  then show ?case using s s1f format_source_idem by (cases "f = g") (auto split: if_splits)
qed simp

lemma fmt_loop_checks:
  "(\<And>f. f \<in> set fs \<Longrightarrow> \<exists>s. fr_files st f = Some s \<and> fe_parse env s = Some False \<and> format_source s = s) \<Longrightarrow>
   fmt_loop env write True fs st = (st, None)"
proof (induction fs)
  case (Cons f fs)
  then obtain s where "fr_files st f = Some s" "fe_parse env s = Some False" "format_source s = s" by auto
  then have "fmt_file env write True f st = (st, None)" by (simp add: fmt_file_def)
  then show ?case using Cons by simp
qed simp

text \<open>
  When a run that writes its files returns without an error, and the grammar accepts each of them
  before and after it is formatted, then each file holds its formatted text, no other file has changed,
  and a run that checks the same files afterwards finds nothing: exit code 0, no report, no change.
\<close>

theorem written_files_pass_check:
  assumes "fmt_run env files True False store = (st, Inr code)"
    and "\<forall>f \<in> set files. \<forall>s. store f = Some s \<longrightarrow> formattable env s"
  shows "code = 0 \<and> (\<forall>f. fr_files st f = (if f \<in> set files then map_option format_source (store f) else store f)) \<and>
         fmt_run env files False True (fr_files st) = (\<lparr>fr_files = fr_files st, fr_notes = [], fr_any_diff = False\<rparr>, Inr 0)"
proof -
  let ?st0 = "\<lparr>fr_files = store, fr_notes = [], fr_any_diff = False\<rparr>"
  have files: "files \<noteq> []" "fe_grammar env" and loop: "fmt_loop env True False files ?st0 = (st, None)" and code: "code = 0"
    using assms(1) by (auto simp: fmt_run_def Let_def split: if_splits prod.splits option.splits)
  have ok: "formattable env s" if "f \<in> set files" "fr_files ?st0 f = Some s" for f s
    using that assms(2) by simp
  have w: "fr_files st f = (if f \<in> set files then map_option format_source (store f) else store f) \<and>
           (f \<in> set files \<longrightarrow> store f \<noteq> None)" for f
  proof -
    have "fr_files st f = (if f \<in> set files then map_option format_source (fr_files ?st0 f) else fr_files ?st0 f) \<and>
          (f \<in> set files \<longrightarrow> fr_files ?st0 f \<noteq> None)"
      by (rule fmt_loop_writes [OF loop]) (rule ok)
    then show ?thesis by simp
  qed
  have all: "fr_files st f = (if f \<in> set files then map_option format_source (store f) else store f)" for f
    using w [of f] by auto
  have "fmt_loop env False True files \<lparr>fr_files = fr_files st, fr_notes = [], fr_any_diff = False\<rparr> =
        (\<lparr>fr_files = fr_files st, fr_notes = [], fr_any_diff = False\<rparr>, None)"
  proof (rule fmt_loop_checks)
    fix f assume f: "f \<in> set files"
    then obtain s where "store f = Some s" "fr_files st f = Some (format_source s)" using w [of f] by auto
    then show "\<exists>s. fr_files \<lparr>fr_files = fr_files st, fr_notes = [], fr_any_diff = False\<rparr> f = Some s \<and>
        fe_parse env s = Some False \<and> format_source s = s"
      using assms(2) f format_source_idem by (auto simp: formattable_def)
  qed
  then show ?thesis using files all code by (simp add: fmt_run_def Let_def)
qed

lemma ex_fmt_text: "format_source (unlines [''r {'', ''a'', ''}'']) = unlines [''r {'', ''    a'', ''}'']"
  by code_simp

theorem written_files_pass_check_witness:
  "fmt_run \<lparr>fe_grammar = True, fe_parse = \<lambda>s. Some (s = []), fe_write = \<lambda>p s. None\<rparr> [''a'', ''b''] False True
     ((\<lambda>p. None)(''a'' \<mapsto> unlines [''r {'', ''    a'', ''}''], ''b'' \<mapsto> unlines [''r {'', ''    a'', ''}''])) =
     (\<lparr>fr_files = (\<lambda>p. None)(''a'' \<mapsto> unlines [''r {'', ''    a'', ''}''], ''b'' \<mapsto> unlines [''r {'', ''    a'', ''}'']),
       fr_notes = [], fr_any_diff = False\<rparr>, Inr 0)"
proof -
  let ?env = "\<lparr>fe_grammar = True, fe_parse = \<lambda>s. Some (s = []), fe_write = \<lambda>p s. None\<rparr>"
  let ?t = "unlines [''r {'', ''a'', ''}'']" and ?u = "unlines [''r {'', ''    a'', ''}'']"
  have idem: "format_source ?u = ?u" using format_source_idem [of ?t] by (simp only: ex_fmt_text)
  have ne: "?t \<noteq> ?u" "?t \<noteq> []" "?u \<noteq> []" by simp_all
  have run: "fmt_run ?env [''a'', ''b''] True False ((\<lambda>p. None)(''a'' \<mapsto> ?t, ''b'' \<mapsto> ?u)) =
      (\<lparr>fr_files = (\<lambda>p. None)(''a'' \<mapsto> ?u, ''b'' \<mapsto> ?u), fr_notes = [FormattedFile ''a''], fr_any_diff = False\<rparr>, Inr 0)"
    using ne idem ex_fmt_text
    by (simp add: fmt_run_def fmt_file_def fmt_note_add_def Let_def fun_upd_twist del: unlines_simps)
  have "\<forall>f \<in> set [''a'', ''b'']. \<forall>s. ((\<lambda>p. None)(''a'' \<mapsto> ?t, ''b'' \<mapsto> ?u)) f = Some s \<longrightarrow> formattable ?env s"
    using ne idem ex_fmt_text by (simp add: formattable_def del: unlines_simps)
  from written_files_pass_check [OF run this] show ?thesis by (simp only: fmt_run_state.simps)
qed

end
