(* ===== verification/WflTests.thy ===== *)
theory WflTests
  imports F64
begin

text \<open>
  The two test commands of the rule tool: contract tests (\<open>wfl/src/cmd_test.rs\<close>) with the
  counterexample rows it can add (\<open>gen_negatives.rs\<close>), and intent samples (\<open>cmd_intent.rs\<close>). The
  syntax of tests and rule plans belongs to the language crate: the records below hold the parts the
  sources read, with one constructor for what they do not match. Loading and compiling the files, and
  the run of one test by the engine (\<open>run_test\<close>), are parameters; printed text and colours are left
  out, as is the text of a float, which the standard library prints (\<open>show_num\<close>).
\<close>

section \<open>Tests, plans and results\<close>

datatype guard_op = GEq | GNe | GOther

datatype test_expr = TNumber f64 | TString string | TBool bool | TSimpleField string
  | TBin guard_op test_expr test_expr | TOther string

record field_assign =
  fa_name :: string
  fa_value :: test_expr

datatype input_stmt = InputRow string "field_assign list" | InputTick nat

datatype cmp_op = CmpGe | CmpGt | CmpEq | CmpLe | CmpLt | CmpOther

datatype expect_stmt = ExpectHits cmp_op nat | ExpectHitAssert string

record test_options =
  to_shuffle :: bool
  to_runs :: "nat option"
  to_close_trigger :: "string option"

record test_block =
  tb_name :: string
  tb_rule :: string
  tb_input :: "input_stmt list"
  tb_expect :: "expect_stmt list"
  tb_options :: "test_options option"

record plan_bind =
  pb_alias :: string
  pb_window :: string
  pb_filter :: "test_expr option"

record tested_plan =
  tp_name :: string
  tp_binds :: "plan_bind list"

record tested_schema =
  ts_name :: string
  ts_time_field :: "string option"

record test_result =
  tr_test_name :: string
  tr_rule_name :: string
  tr_passed :: bool
  tr_output_count :: nat
  tr_failures :: "string list"

type_synonym test_runner = "test_block \<Rightarrow> tested_plan \<Rightarrow> string option \<Rightarrow> string + test_result"

definition plan_time_field :: "tested_schema list \<Rightarrow> tested_plan \<Rightarrow> string option" where
  "plan_time_field schemas plan =
     Option.bind (find_first (\<lambda>s. list_ex (\<lambda>b. pb_window b = ts_name s) (tp_binds plan)) schemas) ts_time_field"

section \<open>Counterexample rows\<close>

record negative_case =
  nc_desc :: string
  nc_input :: "input_stmt list"

record simple_guard =
  sg_alias :: string
  sg_field :: string
  sg_op :: guard_op
  sg_literal :: test_expr

definition guard_field_name :: "test_expr \<Rightarrow> string option" where
  "guard_field_name e = (case e of TSimpleField n \<Rightarrow> Some n | _ \<Rightarrow> None)"

definition literal_of :: "test_expr \<Rightarrow> test_expr option" where
  "literal_of e = (case e of TNumber n \<Rightarrow> Some e | TString s \<Rightarrow> Some e | TBool b \<Rightarrow> Some e | _ \<Rightarrow> None)"

definition simple_eq_guard :: "test_expr \<Rightarrow> (string \<times> guard_op \<times> test_expr) option" where
  "simple_eq_guard f =
     (case f of
        TBin op l r \<Rightarrow>
          if op = GEq \<or> op = GNe
          then (case (guard_field_name l, literal_of r) of (Some field, Some lit) \<Rightarrow> Some (field, op, lit) | _ \<Rightarrow> None)
          else None
      | _ \<Rightarrow> None)"

definition f64_one :: f64 where
  "f64_one = f64_of_nat 1"

definition violating_value :: "guard_op \<Rightarrow> test_expr \<Rightarrow> test_expr" where
  "violating_value op lit =
     (if op = GNe then lit
      else (case lit of
              TString s \<Rightarrow> TString (''not-'' @ s)
            | TNumber n \<Rightarrow> TNumber (if is_sign_positive n then fadd n f64_one else fsub n f64_one)
            | TBool b \<Rightarrow> TBool (\<not> b)
            | other \<Rightarrow> other))"

definition extract_simple_guards :: "tested_plan \<Rightarrow> simple_guard list" where
  "extract_simple_guards plan =
     List.map_filter (\<lambda>b. Option.bind (Option.bind (pb_filter b) simple_eq_guard) (\<lambda>(field, op, lit).
        Some \<lparr>sg_alias = pb_alias b, sg_field = field, sg_op = op, sg_literal = lit\<rparr>)) (tp_binds plan)"

definition format_expr_short :: "(f64 \<Rightarrow> string) \<Rightarrow> (test_expr \<Rightarrow> string) \<Rightarrow> test_expr \<Rightarrow> string" where
  "format_expr_short show_num show_debug e =
     (case e of TString s \<Rightarrow> dquoted s | TNumber n \<Rightarrow> show_num n | TBool b \<Rightarrow> (if b then ''true'' else ''false'')
      | other \<Rightarrow> show_debug other)"

text \<open>\<open>iter_mut().find(..)\<close> and an assignment to its value.\<close>

fun set_field :: "string \<Rightarrow> test_expr \<Rightarrow> field_assign list \<Rightarrow> field_assign list" where
  "set_field f v [] = []"
| "set_field f v (a # as) = (if fa_name a = f then a\<lparr>fa_value := v\<rparr> # as else a # set_field f v as)"

definition negative_desc :: "(f64 \<Rightarrow> string) \<Rightarrow> (test_expr \<Rightarrow> string) \<Rightarrow> simple_guard \<Rightarrow> test_expr \<Rightarrow> string" where
  "negative_desc show_num show_debug g neg =
     (let op_str = (case sg_op g of GEq \<Rightarrow> ''=='' | GNe \<Rightarrow> ''!='' | GOther \<Rightarrow> ''?'')
      in ''bind '' @ [CHR 0x60] @ sg_alias g @ [CHR 0x60] @ '': '' @ sg_field g @ '' '' @ op_str @ '' '' @
         format_expr_short show_num show_debug (sg_literal g) @
         ('' '' @ [CHR 0xE2, CHR 0x86, CHR 0x92] @ '' '' @ [CHR 0xE5, CHR 0x8F, CHR 0x8D, CHR 0xE4, CHR 0xBE, CHR 0x8B] @ '' '') @
         sg_field g @ ''= '' @ format_expr_short show_num show_debug neg @
         ([CHR 0xEF, CHR 0xBC, CHR 0x88, CHR 0xE6, CHR 0x9C, CHR 0x9F, CHR 0xE6, CHR 0x9C, CHR 0x9B, CHR 0xE8, CHR 0xA2, CHR 0xAB, CHR 0xE8, CHR 0xBF, CHR 0x87, CHR 0xE6, CHR 0xBB, CHR 0xA4, CHR 0xEF, CHR 0xBC, CHR 0x8C] @ ''hits '' @ [CHR 0xE4, CHR 0xB8, CHR 0x8D, CHR 0xE5, CHR 0x8F, CHR 0x98, CHR 0xEF, CHR 0xBC, CHR 0x89]))"

definition negative_of :: "(f64 \<Rightarrow> string) \<Rightarrow> (test_expr \<Rightarrow> string) \<Rightarrow> test_block \<Rightarrow> simple_guard list \<Rightarrow> input_stmt \<Rightarrow> negative_case option" where
  "negative_of show_num show_debug test guards stmt =
     (case stmt of
        InputTick d \<Rightarrow> None
      | InputRow alias assigns \<Rightarrow>
          (case find_first (\<lambda>g. sg_alias g = alias) guards of
             None \<Rightarrow> None
           | Some g \<Rightarrow>
               if \<not> list_ex (\<lambda>fa. fa_name fa = sg_field g) assigns then None
               else (let neg = violating_value (sg_op g) (sg_literal g)
                     in Some \<lparr>nc_desc = negative_desc show_num show_debug g neg,
                              nc_input = tb_input test @ [InputRow alias (set_field (sg_field g) neg assigns)]\<rparr>)))"

definition gen_cases_for_guards :: "(f64 \<Rightarrow> string) \<Rightarrow> (test_expr \<Rightarrow> string) \<Rightarrow> test_block \<Rightarrow> simple_guard list \<Rightarrow> negative_case list" where
  "gen_cases_for_guards show_num show_debug test guards =
     (if guards = [] then [] else List.map_filter (negative_of show_num show_debug test guards) (tb_input test))"

definition gen_negative_cases :: "(f64 \<Rightarrow> string) \<Rightarrow> (test_expr \<Rightarrow> string) \<Rightarrow> tested_plan \<Rightarrow> test_block \<Rightarrow> negative_case list" where
  "gen_negative_cases show_num show_debug plan test =
     gen_cases_for_guards show_num show_debug test (extract_simple_guards plan)"

section \<open>Contract tests\<close>

record test_case_report =
  cr_name :: string
  cr_rule :: string
  cr_passed :: bool
  cr_output_count :: nat
  cr_failures :: "string list"

definition run_one :: "test_runner \<Rightarrow> test_block \<Rightarrow> tested_plan \<Rightarrow> string option \<Rightarrow> test_case_report" where
  "run_one run_test test plan time_field =
     (case run_test test plan time_field of
        Inr r \<Rightarrow> \<lparr>cr_name = tr_test_name r, cr_rule = tr_rule_name r, cr_passed = tr_passed r,
                  cr_output_count = tr_output_count r, cr_failures = tr_failures r\<rparr>
      | Inl msg \<Rightarrow> \<lparr>cr_name = tb_name test, cr_rule = tb_rule test, cr_passed = False,
                    cr_output_count = 0, cr_failures = [msg]\<rparr>)"

definition default_options :: test_options where
  "default_options = \<lparr>to_shuffle = False, to_runs = None, to_close_trigger = None\<rparr>"

definition effective_test :: "bool \<Rightarrow> nat option \<Rightarrow> test_block \<Rightarrow> test_block" where
  "effective_test shuffle runs test =
     (if shuffle \<or> runs \<noteq> None
      then (let opts = (case tb_options test of Some o1 \<Rightarrow> o1 | None \<Rightarrow> default_options);
                opts1 = (if shuffle then opts\<lparr>to_shuffle := True\<rparr> else opts);
                opts2 = (case runs of
                           Some n \<Rightarrow> opts1\<lparr>to_runs := Some n\<rparr>
                         | None \<Rightarrow> if shuffle \<and> to_runs opts1 = None then opts1\<lparr>to_runs := Some 10\<rparr> else opts1)
            in test\<lparr>tb_options := Some opts2\<rparr>)
      else test)"

definition negative_variant :: "test_block \<Rightarrow> negative_case \<Rightarrow> test_block" where
  "negative_variant test nc =
     test\<lparr>tb_name := tb_name test @ '' [neg: '' @ nc_desc nc @ '']'', tb_input := nc_input nc, tb_options := None\<rparr>"

definition test_cases :: "(f64 \<Rightarrow> string) \<Rightarrow> (test_expr \<Rightarrow> string) \<Rightarrow> test_runner \<Rightarrow> tested_schema list \<Rightarrow> tested_plan list \<Rightarrow>
    bool \<Rightarrow> nat option \<Rightarrow> bool \<Rightarrow> test_block \<Rightarrow> test_case_report list" where
  "test_cases show_num show_debug run_test schemas plans shuffle runs gen_negatives test =
     (case find_first (\<lambda>p. tp_name p = tb_rule test) plans of
        None \<Rightarrow> [\<lparr>cr_name = tb_name test, cr_rule = tb_rule test, cr_passed = False, cr_output_count = 0,
                  cr_failures = [''target rule '' @ [CHR 0x60] @ tb_rule test @ [CHR 0x60] @ '' not found'']\<rparr>]
      | Some plan \<Rightarrow>
          (let time_field = plan_time_field schemas plan;
               eff = effective_test shuffle runs test;
               baseline = run_one run_test eff plan time_field
           in baseline #
              (if gen_negatives \<and> cr_passed baseline
               then map (\<lambda>nc. run_one run_test (negative_variant eff nc) plan time_field)
                        (gen_negative_cases show_num show_debug plan eff)
               else [])))"

record test_summary =
  sm_total :: nat
  sm_passed :: nat
  sm_failed :: nat

record test_report =
  rep_schema :: string
  rep_rule_file :: string
  rep_shuffle :: bool
  rep_runs :: "nat option"
  rep_summary :: test_summary
  rep_tests :: "test_case_report list"
  rep_status :: string
  rep_verdict :: string

datatype wfl_error = RunsMustBePositive | LoadFailed string | NoTestBlocks | Unclassified string | NoSuchTestedRule string string string

text \<open>A run gives an error, or the report and the exit code.\<close>

definition test_run :: "(f64 \<Rightarrow> string) \<Rightarrow> (test_expr \<Rightarrow> string) \<Rightarrow> test_runner \<Rightarrow>
    string + (tested_schema list \<times> tested_plan list \<times> test_block list) \<Rightarrow> string \<Rightarrow> bool \<Rightarrow> nat option \<Rightarrow> bool \<Rightarrow>
    wfl_error + (test_report \<times> nat)" where
  "test_run show_num show_debug run_test loaded rule_file shuffle runs gen_negatives =
     (if runs = Some 0 then Inl RunsMustBePositive
      else (case loaded of
              Inl e \<Rightarrow> Inl (LoadFailed e)
            | Inr (schemas, plans, tests) \<Rightarrow>
                (let cases = concat (map (test_cases show_num show_debug run_test schemas plans shuffle runs gen_negatives) tests);
                     total = length cases;
                     passed = length (filter cr_passed cases);
                     failed = total - passed
                 in Inr (\<lparr>rep_schema = ''wfl-test-report/v1'', rep_rule_file = rule_file, rep_shuffle = shuffle, rep_runs = runs,
                          rep_summary = \<lparr>sm_total = total, sm_passed = passed, sm_failed = failed\<rparr>, rep_tests = cases,
                          rep_status = (if 0 < failed then ''fail'' else ''pass''),
                          rep_verdict = (if 0 < failed then ''FAIL'' else ''PASS'')\<rparr>, if 0 < failed then 1 else 0))))"

section \<open>Intent samples\<close>

datatype sample_kind = Positive | Negative

definition kind_str :: "sample_kind \<Rightarrow> string" where
  "kind_str k = (case k of Positive \<Rightarrow> ''positive'' | Negative \<Rightarrow> ''negative'')"

definition expect_text :: "sample_kind \<Rightarrow> string" where
  "expect_text k = (case k of Positive \<Rightarrow> ''hits >= 1'' | Negative \<Rightarrow> ''hits == 0'')"

text \<open>The kind of sample an assertion on the number of hits stands for.\<close>

definition hits_kind :: "cmp_op \<Rightarrow> nat \<Rightarrow> sample_kind option" where
  "hits_kind c n =
     (if c = CmpGe \<and> n = 1 then Some Positive
      else if c = CmpGt \<and> n = 0 then Some Positive
      else if c = CmpEq \<and> n = 0 then Some Negative
      else if c = CmpLe \<and> n = 0 then Some Negative
      else if c = CmpLt \<and> n = 1 then Some Negative
      else None)"

text \<open>The loop over the expectations with its two flags; \<open>None\<close> for its early return.\<close>

fun classify_loop :: "expect_stmt list \<Rightarrow> bool \<times> bool \<Rightarrow> (bool \<times> bool) option" where
  "classify_loop [] flags = Some flags"
| "classify_loop (ExpectHitAssert a # es) flags = classify_loop es flags"
| "classify_loop (ExpectHits c n # es) (pos, neg) =
     (case hits_kind c n of
        Some Positive \<Rightarrow> classify_loop es (True, neg)
      | Some Negative \<Rightarrow> classify_loop es (pos, True)
      | None \<Rightarrow> None)"

definition classify :: "test_block \<Rightarrow> sample_kind option" where
  "classify test =
     (case classify_loop (tb_expect test) (False, False) of
        Some (True, False) \<Rightarrow> Some Positive
      | Some (False, True) \<Rightarrow> Some Negative
      | _ \<Rightarrow> None)"

text \<open>The label of a failure, as its kind and the number of hits its text shows.\<close>

datatype intent_failure = EngineFailure string | FailureTag sample_kind string nat

definition failure_tag :: "sample_kind \<Rightarrow> nat \<Rightarrow> intent_failure" where
  "failure_tag k hits = FailureTag k (expect_text k) hits"

record intent_sample_report =
  ir_name :: string
  ir_kind :: string
  ir_rule :: string
  ir_passed :: bool
  ir_hits :: nat
  ir_error :: "string option"
  ir_failures :: "intent_failure list"

definition run_sample :: "test_runner \<Rightarrow> test_block \<Rightarrow> sample_kind \<Rightarrow> tested_plan \<Rightarrow> string option \<Rightarrow> intent_sample_report" where
  "run_sample run_test test k plan time_field =
     (case run_test test plan time_field of
        Inr r \<Rightarrow>
          \<lparr>ir_name = tb_name test, ir_kind = kind_str k, ir_rule = tb_rule test, ir_passed = tr_passed r,
           ir_hits = tr_output_count r, ir_error = None,
           ir_failures = map EngineFailure (tr_failures r) @
             (if tr_passed r then []
              else if k = Positive \<and> tr_output_count r = 0 then [failure_tag k 0]
              else if k = Negative \<and> 0 < tr_output_count r then [failure_tag k (tr_output_count r)]
              else [])\<rparr>
      | Inl msg \<Rightarrow>
          \<lparr>ir_name = tb_name test, ir_kind = kind_str k, ir_rule = tb_rule test, ir_passed = False,
           ir_hits = 0, ir_error = Some msg, ir_failures = [EngineFailure msg]\<rparr>)"

record intent_summary =
  is_total :: nat
  is_passed :: nat
  is_failed :: nat
  is_errors :: nat
  is_false_negatives :: nat
  is_false_positives :: nat

definition summarize :: "intent_sample_report list \<Rightarrow> intent_summary" where
  "summarize samples =
     (let total = length samples;
          passed = length (filter ir_passed samples)
      in \<lparr>is_total = total, is_passed = passed, is_failed = total - passed,
          is_errors = length (filter (\<lambda>s. ir_error s \<noteq> None) samples),
          is_false_negatives =
            length (filter (\<lambda>s. ir_error s = None \<and> ir_kind s = ''positive'' \<and> ir_hits s = 0 \<and> \<not> ir_passed s) samples),
          is_false_positives =
            length (filter (\<lambda>s. ir_error s = None \<and> ir_kind s = ''negative'' \<and> 0 < ir_hits s \<and> \<not> ir_passed s) samples)\<rparr>)"

definition intent_sample :: "test_runner \<Rightarrow> tested_schema list \<Rightarrow> tested_plan list \<Rightarrow> string \<Rightarrow> test_block \<Rightarrow> wfl_error + intent_sample_report" where
  "intent_sample run_test schemas plans rule_file test =
     (case classify test of
        None \<Rightarrow> Inl (Unclassified (tb_name test))
      | Some k \<Rightarrow>
          (case find_first (\<lambda>p. tp_name p = tb_rule test) plans of
             None \<Rightarrow> Inl (NoSuchTestedRule (tb_name test) (tb_rule test) rule_file)
           | Some plan \<Rightarrow> Inr (run_sample run_test test k plan (plan_time_field schemas plan))))"

record intent_report =
  it_schema :: string
  it_rule_file :: string
  it_intent_file :: string
  it_summary :: intent_summary
  it_samples :: "intent_sample_report list"
  it_status :: string
  it_verdict :: string

definition intent_run :: "test_runner \<Rightarrow> string + (tested_schema list \<times> tested_plan list \<times> test_block list) \<Rightarrow>
    string \<Rightarrow> string \<Rightarrow> wfl_error + (intent_report \<times> nat)" where
  "intent_run run_test loaded rule_file intent_file =
     (case loaded of
        Inl e \<Rightarrow> Inl (LoadFailed e)
      | Inr (schemas, plans, tests) \<Rightarrow>
          if tests = [] then Inl NoTestBlocks
          else rbind (rmap (intent_sample run_test schemas plans rule_file) tests) (\<lambda>samples.
            let s = summarize samples
            in Inr (\<lparr>it_schema = ''wfl-intent-report/v1'', it_rule_file = rule_file, it_intent_file = intent_file,
                     it_summary = s, it_samples = samples,
                     it_status = (if 0 < is_failed s then ''fail'' else ''pass''),
                     it_verdict = (if 0 < is_failed s then ''FAIL'' else ''PASS'')\<rparr>,
                    if 0 < is_failed s then 1 else 0)))"

section \<open>What a counterexample row is\<close>

text \<open>
  Whether a value satisfies a guard: equal or not equal to the literal, numbers compared as floats;
  other pairs of literals are equal when they are the same.
\<close>

definition literal_eq :: "test_expr \<Rightarrow> test_expr \<Rightarrow> bool" where
  "literal_eq a b = (case (a, b) of (TNumber x, TNumber y) \<Rightarrow> feq x y | _ \<Rightarrow> a = b)"

definition satisfies_guard :: "guard_op \<Rightarrow> test_expr \<Rightarrow> test_expr \<Rightarrow> bool" where
  "satisfies_guard op v lit = (if op = GNe then \<not> literal_eq v lit else literal_eq v lit)"

text \<open>A number that adding or subtracting one leaves as it is, or that is not equal to itself.\<close>

definition absorbs_one :: "f64 \<Rightarrow> bool" where
  "absorbs_one x = feq (if is_sign_positive x then fadd x f64_one else fsub x f64_one) x"

lemma violating_value_violates:
  assumes "simple_eq_guard f = Some (field, op, lit)"
  shows "satisfies_guard op (violating_value op lit) lit \<longleftrightarrow>
         (case lit of TNumber x \<Rightarrow> (if op = GNe then x = NaN else absorbs_one x) | _ \<Rightarrow> False)"
proof -
  have op: "op = GEq \<or> op = GNe" and lit: "(\<exists>n. lit = TNumber n) \<or> (\<exists>s. lit = TString s) \<or> (\<exists>b. lit = TBool b)"
    using assms by (auto simp: simple_eq_guard_def literal_of_def split: test_expr.splits if_splits option.splits)
  have "feq x x \<longleftrightarrow> x \<noteq> NaN" for x using feq_refl [of x] by (cases x) auto
  moreover have "''not-'' @ t \<noteq> t" for t by (metis append_self_conv2 list.distinct(1))
  ultimately show ?thesis using lit op
    by (elim disjE exE) (simp_all add: satisfies_guard_def violating_value_def literal_eq_def absorbs_one_def)
qed

lemma set_field_value:
  "list_ex (\<lambda>fa. fa_name fa = f) al \<Longrightarrow>
   map fa_name (set_field f v al) = map fa_name al \<and> find_first (\<lambda>fa. fa_name fa = f) (set_field f v al) \<noteq> None \<and>
   fa_value (the (find_first (\<lambda>fa. fa_name fa = f) (set_field f v al))) = v"
  by (induction f v al rule: set_field.induct) (auto simp: find_first_def)

text \<open>Each case keeps the input and adds one row: a row of the test that names the field of the first
  guard on its alias, with that field set to the violating value.\<close>

lemma negative_of_iff:
  "negative_of show_num show_debug test guards stmt = Some nc \<longleftrightarrow>
   (\<exists>alias assigns g. stmt = InputRow alias assigns \<and> find_first (\<lambda>g. sg_alias g = alias) guards = Some g \<and>
      list_ex (\<lambda>fa. fa_name fa = sg_field g) assigns \<and>
      nc = \<lparr>nc_desc = negative_desc show_num show_debug g (violating_value (sg_op g) (sg_literal g)),
            nc_input = tb_input test @ [InputRow alias (set_field (sg_field g) (violating_value (sg_op g) (sg_literal g)) assigns)]\<rparr>)"
proof (cases stmt)
  case (InputRow a f)
  then show ?thesis
    by (cases "find_first (\<lambda>g. sg_alias g = a) guards") (auto simp: negative_of_def Let_def)
qed (simp add: negative_of_def)

lemma gen_negative_cases_iff:
  "nc \<in> set (gen_negative_cases show_num show_debug plan test) \<longleftrightarrow>
   (\<exists>alias assigns g. InputRow alias assigns \<in> set (tb_input test) \<and>
      find_first (\<lambda>g. sg_alias g = alias) (extract_simple_guards plan) = Some g \<and>
      list_ex (\<lambda>fa. fa_name fa = sg_field g) assigns \<and>
      nc = \<lparr>nc_desc = negative_desc show_num show_debug g (violating_value (sg_op g) (sg_literal g)),
            nc_input = tb_input test @ [InputRow alias (set_field (sg_field g) (violating_value (sg_op g) (sg_literal g)) assigns)]\<rparr>)"
proof -
  have m: "nc \<in> set (List.map_filter (negative_of show_num show_debug test guards) stmts) \<longleftrightarrow>
           (\<exists>stmt. stmt \<in> set stmts \<and> negative_of show_num show_debug test guards stmt = Some nc)" for guards stmts
    unfolding List.map_filter_def by (auto intro!: image_eqI)
  have none: "find_first (\<lambda>g. sg_alias g = b) [] = None" for b by (simp add: find_first_def)
  show ?thesis
  proof (cases "extract_simple_guards plan = []")
    case True
    then show ?thesis by (simp add: gen_negative_cases_def gen_cases_for_guards_def none)
  next
    case False
    then have "nc \<in> set (gen_negative_cases show_num show_debug plan test) \<longleftrightarrow>
        (\<exists>stmt. stmt \<in> set (tb_input test) \<and> negative_of show_num show_debug test (extract_simple_guards plan) stmt = Some nc)"
      by (simp add: gen_negative_cases_def gen_cases_for_guards_def m)
    then show ?thesis unfolding negative_of_iff by blast
  qed
qed

text \<open>A guard on a large number is not violated: adding one to \<open>2 ^ 53\<close> gives \<open>2 ^ 53\<close>, so the added row
  passes the filter it was to fail.\<close>

lemma large_number_row_passes_guard:
  "violating_value GEq (TNumber (f64_of_nat (2 ^ 53))) = TNumber (f64_of_nat (2 ^ 53))"
  by (simp add: violating_value_def f64_one_def f64_eval)

text \<open>A variant drops every option of the test, also the one that says how windows are closed.\<close>

lemma variant_drops_close_trigger:
  "tb_options (negative_variant (effective_test False None
      \<lparr>tb_name = n, tb_rule = r, tb_input = i, tb_expect = e,
       tb_options = Some \<lparr>to_shuffle = False, to_runs = None, to_close_trigger = Some ''timeout''\<rparr>\<rparr>) nc) = None"
  by (simp add: negative_variant_def)

section \<open>The verdict of contract tests\<close>

lemma failed_zero_iff: "length xs - length (filter P xs) = 0 \<longleftrightarrow> list_all P xs"
proof -
  have "length xs - length (filter P xs) = length (filter (\<lambda>x. \<not> P x) xs)"
    using sum_length_filter_compl [of P xs] by linarith
  then show ?thesis by (simp add: list_all_iff filter_empty_conv)
qed

definition test_passes :: "test_runner \<Rightarrow> test_block \<Rightarrow> tested_plan \<Rightarrow> string option \<Rightarrow> bool" where
  "test_passes run_test test plan time_field = (case run_test test plan time_field of Inr r \<Rightarrow> tr_passed r | Inl e \<Rightarrow> False)"

lemma run_one_passes [simp]: "cr_passed (run_one run_test test plan tf) = test_passes run_test test plan tf"
  by (simp add: run_one_def test_passes_def split: sum.splits)

text \<open>
  The exit code of a contract test run is 0 exactly when every test names a compiled rule and passes
  with it, and so does each of its counterexample variants where these were asked for; the summary
  counts the runs.
\<close>

theorem test_run_verdict:
  "test_run show_num show_debug run_test (Inr (schemas, plans, tests)) rule_file shuffle runs gen_negatives = Inr (report, code) \<Longrightarrow>
   (code = 0 \<longleftrightarrow>
     (\<forall>test \<in> set tests. \<exists>plan. find_first (\<lambda>p. tp_name p = tb_rule test) plans = Some plan \<and>
        test_passes run_test (effective_test shuffle runs test) plan (plan_time_field schemas plan) \<and>
        (gen_negatives \<longrightarrow> (\<forall>nc \<in> set (gen_negative_cases show_num show_debug plan (effective_test shuffle runs test)).
           test_passes run_test (negative_variant (effective_test shuffle runs test) nc) plan (plan_time_field schemas plan))))) \<and>
   code \<le> 1 \<and> sm_passed (rep_summary report) + sm_failed (rep_summary report) = length (rep_tests report)"
proof -
  assume run: "test_run show_num show_debug run_test (Inr (schemas, plans, tests)) rule_file shuffle runs gen_negatives = Inr (report, code)"
  let ?cases = "concat (map (test_cases show_num show_debug run_test schemas plans shuffle runs gen_negatives) tests)"
  have one: "list_all cr_passed (test_cases show_num show_debug run_test schemas plans shuffle runs gen_negatives test) \<longleftrightarrow>
     (\<exists>plan. find_first (\<lambda>p. tp_name p = tb_rule test) plans = Some plan \<and>
        test_passes run_test (effective_test shuffle runs test) plan (plan_time_field schemas plan) \<and>
        (gen_negatives \<longrightarrow> (\<forall>nc \<in> set (gen_negative_cases show_num show_debug plan (effective_test shuffle runs test)).
           test_passes run_test (negative_variant (effective_test shuffle runs test) nc) plan (plan_time_field schemas plan))))" for test
    by (cases "find_first (\<lambda>p. tp_name p = tb_rule test) plans") (auto simp: test_cases_def Let_def list_all_iff)
  have code: "code = (if 0 < length ?cases - length (filter cr_passed ?cases) then 1 else 0)"
    and rep: "rep_tests report = ?cases" "sm_passed (rep_summary report) = length (filter cr_passed ?cases)"
      "sm_failed (rep_summary report) = length ?cases - length (filter cr_passed ?cases)"
    using run by (auto simp: test_run_def Let_def split: if_splits)
  have "code = 0 \<longleftrightarrow> list_all cr_passed ?cases" unfolding code using failed_zero_iff [of ?cases cr_passed] by auto
  then have "code = 0 \<longleftrightarrow> (\<forall>test \<in> set tests. list_all cr_passed
      (test_cases show_num show_debug run_test schemas plans shuffle runs gen_negatives test))"
    by (auto simp: list_all_iff)
  then show ?thesis using one code rep length_filter_le [of cr_passed ?cases] by simp
qed

section \<open>Intent samples\<close>

text \<open>What an assertion on the hits says of their number.\<close>

definition hits_hold :: "cmp_op \<Rightarrow> nat \<Rightarrow> nat \<Rightarrow> bool" where
  "hits_hold c n h = (case c of CmpGe \<Rightarrow> n \<le> h | CmpGt \<Rightarrow> n < h | CmpEq \<Rightarrow> h = n | CmpLe \<Rightarrow> h \<le> n | CmpLt \<Rightarrow> h < n | CmpOther \<Rightarrow> True)"

definition detected :: "sample_kind \<Rightarrow> nat \<Rightarrow> bool" where
  "detected k h = (case k of Positive \<Rightarrow> 1 \<le> h | Negative \<Rightarrow> h = 0)"

lemma hits_kind_sound: "hits_kind c n = Some k \<Longrightarrow> hits_hold c n h \<longleftrightarrow> detected k h"
  by (cases c) (auto simp: hits_kind_def hits_hold_def detected_def split: if_splits)

definition hit_kinds :: "expect_stmt list \<Rightarrow> sample_kind option list" where
  "hit_kinds es = concat (map (\<lambda>e. case e of ExpectHits c n \<Rightarrow> [hits_kind c n] | ExpectHitAssert a \<Rightarrow> []) es)"

lemma hit_kinds_simps [simp]:
  "hit_kinds [] = []" "hit_kinds (ExpectHits c n # es) = hits_kind c n # hit_kinds es"
  "hit_kinds (ExpectHitAssert a # es) = hit_kinds es"
  by (simp_all add: hit_kinds_def)

lemma classify_loop_eq:
  "classify_loop es flags =
     (if None \<in> set (hit_kinds es) then None
      else Some (fst flags \<or> Some Positive \<in> set (hit_kinds es), snd flags \<or> Some Negative \<in> set (hit_kinds es)))"
proof (induction es flags rule: classify_loop.induct)
  case (3 c n es pos neg)
  show ?case
  proof (cases "hits_kind c n")
    case (Some k)
    then show ?thesis using 3 by (cases k) auto
  qed simp
qed auto

lemma classify_iff: "classify test = Some k \<longleftrightarrow> set (hit_kinds (tb_expect test)) = {Some k}"
proof -
  have ex: "x = None \<or> x = Some Positive \<or> x = Some Negative" for x by (cases x; cases "the x") auto
  let ?K = "set (hit_kinds (tb_expect test))"
  have "classify test = Some k \<longleftrightarrow> None \<notin> ?K \<and> (Some Positive \<in> ?K \<longleftrightarrow> k = Positive) \<and> (Some Negative \<in> ?K \<longleftrightarrow> k = Negative)"
    by (cases k) (auto simp: classify_def classify_loop_eq split: bool.splits)
  also have "\<dots> \<longleftrightarrow> ?K = {Some k}"
  proof
    assume l: "None \<notin> ?K \<and> (Some Positive \<in> ?K \<longleftrightarrow> k = Positive) \<and> (Some Negative \<in> ?K \<longleftrightarrow> k = Negative)"
    then have "x \<in> ?K \<longleftrightarrow> x = Some k" for x using ex [of x] by (cases k) auto
    then show "?K = {Some k}" by blast
  qed (cases k; simp)
  finally show ?thesis .
qed

lemma classified_hits:
  "classify test = Some k \<Longrightarrow> \<exists>c n. ExpectHits c n \<in> set (tb_expect test) \<and> hits_kind c n = Some k"
proof -
  assume "classify test = Some k"
  then have "Some k \<in> set (hit_kinds (tb_expect test))" by (simp add: classify_iff)
  then show ?thesis by (force simp: hit_kinds_def split: expect_stmt.splits)
qed

text \<open>
  What the documentation of \<open>run_test\<close> says of a test that passes: its assertions on the number of hits
  hold of the number of outputs.
\<close>

definition runner_law :: "test_runner \<Rightarrow> bool" where
  "runner_law run_test =
     (\<forall>test plan tf r c n. run_test test plan tf = Inr r \<longrightarrow> tr_passed r \<longrightarrow> ExpectHits c n \<in> set (tb_expect test) \<longrightarrow>
        hits_hold c n (tr_output_count r))"

lemma run_sample_simps [simp]:
  "ir_passed (run_sample run_test test k plan tf) = test_passes run_test test plan tf"
  "ir_kind (run_sample run_test test k plan tf) = kind_str k"
  by (simp_all add: run_sample_def test_passes_def split: sum.splits)

text \<open>Every sample of a report that did not pass is counted once: as an error, a miss, a false alarm, or
  a failure of another assertion.\<close>

lemma summarize_accounts:
  "is_passed (summarize ss) + is_failed (summarize ss) = length ss"
  "is_failed (summarize ss) = length (filter (\<lambda>s. \<not> ir_passed s) ss)"
  using sum_length_filter_compl [of ir_passed ss] by (simp_all add: summarize_def Let_def)

lemma intent_run_Inr:
  "intent_run run_test (Inr (schemas, plans, tests)) rf if1 = Inr (report, code) \<Longrightarrow>
   tests \<noteq> [] \<and> rmap (intent_sample run_test schemas plans rf) tests = Inr (it_samples report) \<and>
   it_summary report = summarize (it_samples report) \<and> code = (if 0 < is_failed (it_summary report) then 1 else 0)"
  by (auto simp: intent_run_def rbind_Inr_iff Let_def split: if_splits)

text \<open>
  C40: When an intent run exits with code 0, and passing a test means what the engine documents, then
  every sample of the file was run against a compiled rule of its name, every positive sample was detected
  at least once and every negative sample not at all; and the report counts no failure, no error, no miss
  and no false alarm.
\<close>

theorem intent_success_means_detected:
  assumes "intent_run run_test (Inr (schemas, plans, tests)) rule_file intent_file = Inr (report, 0)" "runner_law run_test"
  shows "list_all2 (\<lambda>test s. \<exists>k plan r. classify test = Some k \<and> plan \<in> set plans \<and> tp_name plan = tb_rule test \<and>
             run_test test plan (plan_time_field schemas plan) = Inr r \<and> tr_passed r \<and> detected k (tr_output_count r) \<and>
             ir_kind s = kind_str k \<and> ir_hits s = tr_output_count r) tests (it_samples report) \<and>
         is_failed (it_summary report) = 0 \<and> is_errors (it_summary report) = 0 \<and>
         is_false_negatives (it_summary report) = 0 \<and> is_false_positives (it_summary report) = 0"
proof -
  let ?ss = "it_samples report"
  have run: "rmap (intent_sample run_test schemas plans rule_file) tests = Inr ?ss"
    and sum: "it_summary report = summarize ?ss" "is_failed (it_summary report) = 0"
    using intent_run_Inr [OF assms(1)] by (auto split: if_splits)
  have "filter (\<lambda>s. \<not> ir_passed s) ?ss = []" using summarize_accounts(2) [of ?ss] sum by simp
  then have pass: "\<forall>s \<in> set ?ss. ir_passed s" by (simp add: filter_empty_conv)
  have len: "length ?ss = length tests" by (rule rmap_Inr_length [OF run])
  have one: "\<exists>k plan r. classify (tests ! i) = Some k \<and> plan \<in> set plans \<and> tp_name plan = tb_rule (tests ! i) \<and>
      run_test (tests ! i) plan (plan_time_field schemas plan) = Inr r \<and> tr_passed r \<and> detected k (tr_output_count r) \<and>
      ir_kind (?ss ! i) = kind_str k \<and> ir_hits (?ss ! i) = tr_output_count r \<and> ir_error (?ss ! i) = None"
    if i: "i < length tests" for i
  proof -
    let ?t = "tests ! i" and ?s = "?ss ! i"
    have s: "intent_sample run_test schemas plans rule_file ?t = Inr ?s" by (rule rmap_Inr_nth [OF run i])
    then obtain k plan where k: "classify ?t = Some k" "find_first (\<lambda>p. tp_name p = tb_rule ?t) plans = Some plan"
        "?s = run_sample run_test ?t k plan (plan_time_field schemas plan)"
      by (auto simp: intent_sample_def split: option.splits)
    have "ir_passed ?s" using pass len i by simp
    then obtain r where r: "run_test ?t plan (plan_time_field schemas plan) = Inr r" "tr_passed r"
      by (auto simp: k(3) test_passes_def split: sum.splits)
    obtain c n where "ExpectHits c n \<in> set (tb_expect ?t)" "hits_kind c n = Some k" using classified_hits [OF k(1)] by blast
    then have "detected k (tr_output_count r)"
      using assms(2) r hits_kind_sound [of c n k "tr_output_count r"] unfolding runner_law_def by blast
    then show ?thesis using k r find_first_Some [OF k(2)] by (auto simp: run_sample_def)
  qed
  have err: "\<forall>s \<in> set ?ss. ir_error s = None" using one len by (metis in_set_conv_nth)
  have "filter (\<lambda>s. ir_error s \<noteq> None) ?ss = []" using err by (auto simp: filter_empty_conv)
  moreover have "filter (\<lambda>s. ir_error s = None \<and> P s \<and> \<not> ir_passed s) ?ss = []" for P
    using pass by (auto simp: filter_empty_conv)
  ultimately have "is_errors (summarize ?ss) = 0 \<and> is_false_negatives (summarize ?ss) = 0 \<and> is_false_positives (summarize ?ss) = 0"
    using pass by (auto simp: summarize_def Let_def filter_empty_conv)
  then show ?thesis using one len sum by (auto simp: list_all2_conv_all_nth) blast
qed

section \<open>A run\<close>

definition ex_sample :: "string \<Rightarrow> cmp_op \<Rightarrow> test_block" where
  "ex_sample n c = \<lparr>tb_name = n, tb_rule = ''r'', tb_input = [InputRow n []], tb_expect = [ExpectHits c 0], tb_options = None\<rparr>"

text \<open>An engine that counts the rows of the alias \<open>bad\<close>.\<close>

definition ex_runner :: test_runner where
  "ex_runner test plan tf =
     (let hits = length (filter (\<lambda>s. case s of InputRow a _ \<Rightarrow> a = ''bad'' | _ \<Rightarrow> False) (tb_input test))
      in Inr \<lparr>tr_test_name = tb_name test, tr_rule_name = tb_rule test,
              tr_passed = list_all (\<lambda>e. case e of ExpectHits c n \<Rightarrow> hits_hold c n hits | _ \<Rightarrow> True) (tb_expect test),
              tr_output_count = hits, tr_failures = []\<rparr>)"

lemma ex_runner_law: "runner_law ex_runner"
  by (auto simp: runner_law_def ex_runner_def Let_def list_all_iff split: expect_stmt.splits)

definition ex_plan :: tested_plan where
  "ex_plan = \<lparr>tp_name = ''r'', tp_binds = []\<rparr>"

theorem intent_success_means_detected_witness:
  "\<exists>report. intent_run ex_runner (Inr ([], [ex_plan], [ex_sample ''bad'' CmpGt, ex_sample ''good'' CmpEq])) ''r.wfl'' ''r.wfi'' = Inr (report, 0) \<and>
     length (it_samples report) = 2 \<and> is_errors (it_summary report) = 0 \<and> is_false_negatives (it_summary report) = 0"
proof -
  let ?run = "intent_run ex_runner (Inr ([], [ex_plan], [ex_sample ''bad'' CmpGt, ex_sample ''good'' CmpEq])) ''r.wfl'' ''r.wfi''"
  have c: "classify (ex_sample ''bad'' CmpGt) = Some Positive" "classify (ex_sample ''good'' CmpEq) = Some Negative"
    by (simp_all add: classify_def ex_sample_def hits_kind_def)
  have r: "find_first (\<lambda>p. tp_name p = ''r'') [ex_plan] = Some ex_plan" by (simp add: find_first_def ex_plan_def)
  have p: "test_passes ex_runner (ex_sample ''bad'' CmpGt) ex_plan tf" "test_passes ex_runner (ex_sample ''good'' CmpEq) ex_plan tf" for tf
    by (simp_all add: test_passes_def ex_runner_def ex_sample_def hits_hold_def Let_def)
  have n: "tb_rule (ex_sample a b) = ''r''" for a b by (simp add: ex_sample_def)
  obtain report where run: "?run = Inr (report, 0)"
    by (simp add: intent_run_def intent_sample_def c r n Let_def summarize_def p)
  from intent_success_means_detected [OF run ex_runner_law]
  have "length (it_samples report) = 2 \<and> is_errors (it_summary report) = 0 \<and> is_false_negatives (it_summary report) = 0"
    by (auto dest: list_all2_lengthD)
  then show ?thesis using run by blast
qed

end
