(* ===== verification/Spec2Isabelle.thy ===== *)
theory Spec2Isabelle
  imports FrameShards Verify Validate DatagenEvents TypedEvents Faults RemoteVersions AdminSafety AdminStart ProjectCheckProps PerfGate PerfDiag OracleWindow NexmarkVerify LimitsEst WflFormat WflTests
begin

text \<open>
  A verification development for warp-fusion, a workspace of five crates around a stream engine for
  detection rules. The engine itself (\<open>wf-engine\<close>, \<open>wf-lang\<close>, \<open>wf-config\<close>, \<open>wf-runtime\<close>) lives in another
  repository; here are the tools that generate data for it (\<open>wfgen\<close>), develop its rules (\<open>wfl\<close>), manage its
  projects (\<open>wfadm\<close>, \<open>wf-project-remote\<close>) and run it (\<open>wfusion\<close>, with the admin interface). Every name below
  under \<open>wfgen\<close>, \<open>wfl\<close> and so on is a file under \<open>src/crates/<crate>/src\<close>.

  \<^bold>\<open>How the parts interact.\<close> A scenario is parsed and validated; the generator plans injected events from
  the compiled rules, fills the streams up with background events, merges them by time, and a fault pass
  disturbs the order. The events are written as frames, which can be split by key into files for parallel
  senders. The reference evaluator computes the alerts the engine should raise, with the join windows
  modelled here; \<open>verify\<close> and the NEXMark comparison hold them against what the engine raised; the
  performance diagnosis sends frames, waits for sentinels and judges the measured throughput by a gate. On
  the other side a project directory is checked, and synchronised with a remote repository; the admin
  server of the running engine reloads the rules, with such an update before it, and rolls both back when
  the engine refuses. The rule tools format rule files, run their tests and recommend limits.

  \<^bold>\<open>Conventions.\<close> A Rust struct is a record, an enum a datatype, \<open>Result\<close> a sum with \<open>Inl\<close> for the error,
  an early return or a panic a branch of the result. A hash map is a map or, where the code iterates it, an
  association list or a parameter that stands for its order. Text is a list of characters (bytes of UTF-8
  where it is not ASCII), and white space is that of ASCII: Rust trims and splits at the rest of Unicode's
  too, so what is proved of trimmed or split text is about text without it there. A 64-bit integer is a word or has its wrap-around written out where it can matter
  (hashes in \<open>Frames\<close>, times in \<open>OracleWindow\<close> and \<open>Datagen\<close>, sums of event counts in \<open>InjectPlan\<close> and
  \<open>Datagen\<close>, products in \<open>LimitsEst\<close>), as in a release build (a debug build panics there); counters that are
  bounded by the length of an input in memory are natural numbers. A float is the binary64 of \<open>F64\<close>, with
  rounding to nearest even, infinities and NaN. A file system, where one is changed, is a store with
  failures that may come at any call, and \<open>Path::exists\<close> answers no when its own query fails (\<open>RemoteFs\<close>). A library outside the repository is an argument of the
  definitions that use it; what the code relies on is a named predicate of its own (\<open>arrow_laws\<close>,
  \<open>rng_laws\<close>, \<open>codec_laws\<close>, \<open>git_laws\<close>, \<open>checkout_law\<close>, \<open>semver_laws\<close>, \<open>runner_law\<close>), and each property with such a
  hypothesis has a witness with a concrete instance of it.

  \<^bold>\<open>Shared theories.\<close>
  \<^item> \<open>Prelude\<close>: result combinators (\<open>rbind\<close>, \<open>rfold\<close>, \<open>rmap\<close>), errors of \<open>wfgen\<close>, string routines of the
    standard library, counters and grouping on maps, ordered maps as sorted lists.
  \<^item> \<open>F64\<close>, \<open>F64Round\<close>: binary64 as integer arithmetic, its order as the order of the rational values, and
    what rounding keeps (exact conversions up to \<open>2 ^ 53\<close>, exact division by powers of two, monotonicity at
    integers and powers of two, \<open>ceil\<close> and \<open>round\<close>).
  \<^item> \<open>RustText\<close>: lines, tokens, numerals read and printed, with their round trips.

  \<^bold>\<open>Scenarios\<close> (\<open>wfgen\<close>).
  \<^item> \<open>WfgAst\<close>: \<open>wfg_ast.rs\<close> and the values derived in \<open>wfg_parser/syntax/mod.rs\<close> (seed, duration, totals).
  \<^item> \<open>Validate\<close>: all of \<open>validate/\<close> and \<open>injection_targets.rs\<close>; a scenario has no error exactly when it meets
    the written conditions, and then every injection case has a target rule.
  \<^item> \<open>InjectPlan\<close>: \<open>datagen/inject_gen/structures.rs\<close>, \<open>extract.rs\<close>, the alias maps of \<open>dispatch.rs\<close> and
    \<open>helpers/plan.rs\<close>; planned steps fit the rule, a near miss gives the steps before its boundary what is
    asked for them and stays below the threshold there (unless the scenario itself asks for more), and the clusters planned
    from step counts stay within the budget of every stream while a cluster's events fit 64 bits. Hits
    without \<open>use\<close> steps are budgeted per step only (\<open>hit_clusters_exceed_stream_budget\<close>).
  \<^item> \<open>Datagen\<close> (definitions), \<open>DatagenProps\<close>, \<open>DatagenCount\<close>, \<open>DatagenEvents\<close>, \<open>TypedEvents\<close>:
    \<open>datagen/field_gen.rs\<close>, \<open>stream_gen.rs\<close>, \<open>mod.rs\<close> and the rest of \<open>inject_gen\<close>. The k-way merge is a
    stable sort (through the interface \<open>min_queue\<close> of a heap); the events are the injected ones and a background of each
    stream that fills its share, window by window; the result is in time order; events of a cluster carry its keys and satisfy the filters of their step; the
    background events have the JSON form of their schema, in a scenario as the parser leaves it and in a
    validated one without a syntax block whose overrides are typed (the validator accepts others). The random generator is a
    state with operations.
  \<^item> \<open>Faults\<close>: \<open>datagen/fault_gen.rs\<close>; the index loop with its flags equals a recursion over events and
    assignments, the books are kept, and only the intended faults disturb the order.

  \<^bold>\<open>Frames and measurements\<close> (\<open>wfgen\<close>).
  \<^item> \<open>Frames\<close>, \<open>FrameShards\<close>: \<open>cmd_frames/shard.rs\<close> and the loop of \<open>cmd_frames/mod.rs\<close>. A frame file reads
    back (interface \<open>framing\<close>), a cut file is an error, and \<open>shard-frames\<close> distributes exactly the rows of
    keyed frames by the hash of their key, when the frames of a stream have one schema.
  \<^item> \<open>PerfDiag\<close>: \<open>cmd_perf_diag/frames.rs\<close>, \<open>sentinel.rs\<close> and the rounds of \<open>mod.rs\<close>; \<open>PerfGate\<close>: \<open>gate.rs\<close>.
    The bytes sent for a row count are the shortest run of whole frames; a gate passes exactly when each of
    its assertions holds of the measured table; a baseline whose stages are single words reads back.

  \<^bold>\<open>Comparison with a reference\<close> (\<open>wfgen\<close>).
  \<^item> \<open>Verify\<close>: \<open>verify/\<close>; every alert is counted once, whatever the hash order.
  \<^item> \<open>OracleWindow\<close>: \<open>oracle/window.rs\<close>; the indexed window state refines a list of rows with a retention
    rule (interface \<open>retention\<close>): for times in order the rule of the comments, for others that of
    \<open>lookup_any_order\<close>.
  \<^item> \<open>RuleGroups\<close>, \<open>NexmarkVerify\<close>: \<open>cmd_verify_nexmark.rs\<close> and \<open>cmd_diff.rs\<close>; the union-find loop ends
    and yields the connected components of the rules that read and yield windows, when a window read has
    one yielder (the code's index keeps the last of several), and the verdict on counts is exact.

  \<^bold>\<open>Projects\<close>.
  \<^item> \<open>RemoteFs\<close>, \<open>RemoteFiles\<close>, \<open>RemoteBackup\<close>, \<open>RemoteCompare\<close> (\<open>wf-project-remote/managed.rs\<close>), \<open>RemoteRepo\<close>
    (\<open>state.rs\<close>, \<open>repo.rs\<close>), \<open>RemoteSync\<close> (\<open>lib.rs\<close>), \<open>RemoteSafety\<close>, \<open>RemoteUpdate\<close>, \<open>RemoteVersions\<close>,
    \<open>RemoteExample\<close>: a synchronisation that succeeds has installed the files of the commit it names, one
    that fails leaves what was there unless it says that its rollback failed, the lock is given back on every
    way out, and the default version is the greatest release. The theorems on synchronisations, updates
    and rollbacks ask that no managed directory is itself a symbolic link (\<open>no_top_links\<close>) and that no
    query for existence fails (\<open>sees\<close>): without either a directory can be lost, as two lemmas show.
  \<^item> \<open>AdminApi\<close>, \<open>AdminServer\<close>, \<open>AdminSafety\<close>, \<open>AdminStart\<close> (\<open>wfusion/admin_api.rs\<close>): the handlers, and the
    server as a step relation with its reachable states, a step from one await to the next: a handler can
    be dropped at an await when its connection closes, a monitor cannot, the flag and the mutex behind it
    are written in two steps, and the file operations between two awaits are one step. The lock is held
    exactly by one reload or another process, at most one reload is in flight, and the flag is up exactly
    while one is or one was dropped in flight; in that case every later reload is refused, and otherwise
    nothing stays behind. A failed reload whose handler runs to its end restores the project; the server
    starts only with a private token, a limit on bodies and, beyond loopback, TLS. That a client sends its body and
    the engine answers is not assumed: a reload can wait for both.
  \<^item> \<open>ProjectCheck\<close>, \<open>ProjectCheckProps\<close> (\<open>wfadm/check.rs\<close>): the verdict is that of the selected components,
    the report counts those that ran, and the files looked at are those below their directory.

  \<^bold>\<open>Rule tools\<close> (\<open>wfl\<close>).
  \<^item> \<open>LimitsEst\<close>: \<open>cmd_limits_est.rs\<close>; rows are the peaks of the samples and no suggestion is below a sample
    of at most \<open>2 ^ 53\<close>, the bound up to which a float holds every integer.
  \<^item> \<open>WflFormat\<close>: \<open>cmd_fmt.rs\<close>; formatting is idempotent, keeps the text of every line, and written files
    pass a later check.
  \<^item> \<open>WflTests\<close>: \<open>cmd_test.rs\<close>, \<open>gen_negatives.rs\<close> and \<open>cmd_intent.rs\<close>; the verdicts of the two test
    commands, and which counterexample rows violate their guard.

  \<^bold>\<open>Bounds, fuel and termination.\<close> The check of UTF-8 text in \<open>Frames\<close> has fuel, the length of the text: each
  step consumes a byte. The loops of the union-find in \<open>RuleGroups\<close> are \<open>partial_function\<close>s whose value is
  \<open>None\<close> when they do not end; it is proved that they do. Every other loop is structural or a \<open>function\<close>
  with its measure (bytes left, events left, entries below a directory, characters left). Assumed bounds
  are premises of the theorems: values up to \<open>2 ^ 53\<close> where integers pass through floats, totals and
  durations that fit 64 bits where the generator computes intervals, 64-bit sums in \<open>InjectPlan\<close>, times and
  retentions within 64 bits in \<open>OracleWindow\<close>. The own steps of the admin server are at most seven per reload.

  \<^bold>\<open>Not modelled.\<close>
  \<^item> The scenario parser (\<open>wfg_parser\<close>), which is a composition of combinators of the library \<open>winnow\<close>.
  \<^item> The match engine and what drives it: \<open>oracle/mod.rs\<close>, \<open>cmd_replay.rs\<close>, the run of rules in
    \<open>cmd_verify_nexmark.rs\<close>. Their behaviour is that of \<open>wf-engine\<close>, whose source is not here.
  \<^item> Sockets, pacing and progress: \<open>tcp_send.rs\<close>, \<open>cmd_send.rs\<close>, \<open>cmd_stream.rs\<close>, \<open>cmd_bench.rs\<close>,
    \<open>progress.rs\<close>, the senders of \<open>cmd_frames/mod.rs\<close>, the drivers of \<open>cmd_perf_diag\<close>.
  \<^item> Conversion to Arrow and JSON text (\<open>output/\<close>), the NEXMark data set (\<open>nexmark/\<close>), whose content is that
    of the random library call by call.
  \<^item> Command lines, templates, connectors, self-update (the rest of \<open>wfadm\<close>, \<open>wfl\<close>, \<open>wfusion\<close>) and text that
    is only printed.
\<close>

end
